(* ===== verification/Prelude.thy ===== *)
theory Prelude
  imports Main "HOL-Library.Word" "HOL-Library.Char_ord" "HOL-Library.List_Lexorder"
begin

text \<open>
  What every component of the model shares: the machine integers of the C++ code, the ways in
  which a process of the program can die (a failed \<open>CHECK\<close>, a dereferenced null or freed
  pointer, an index out of bounds, a deliberate or accidental hang), the sum type that carries
  them, and the generic lemmas on that type that the component proofs use.
\<close>

section \<open>Machine integers and strings\<close>

type_synonym u8 = "8 word"
type_synonym u16 = "16 word"
type_synonym u32 = "32 word"
type_synonym u64 = "64 word"

text \<open>Handles, host names and client ids: byte strings without an embedded NUL.\<close>

type_synonym str = string

section \<open>Faults and results\<close>

text \<open>
  \<open>Check_failed\<close> is the abort of the macro \<open>CHECK\<close> of include/common.h and of \<open>assert\<close>;
  \<open>Exit_called\<close> is \<open>exit\<close>; \<open>Spin\<close> is an endless loop that the code enters on purpose;
  \<open>Self_deadlock\<close> is a thread that waits for a mutex it holds.  The others are the
  undefined behaviours of C++ that the model keeps visible.
\<close>

datatype fault =
    Check_failed
  | Null_deref
  | Use_after_free
  | Bad_index
  | Exit_called
  | Spin
  | Self_deadlock
  | Uninit_read

type_synonym 'a res = "fault + 'a"

text \<open>Sequencing: the first fault ends the run.\<close>

definition res_bind :: "'a res \<Rightarrow> ('a \<Rightarrow> 'b res) \<Rightarrow> 'b res" where
  "res_bind m f = (case m of Inl e \<Rightarrow> Inl e | Inr x \<Rightarrow> f x)"

definition check :: "bool \<Rightarrow> 'a \<Rightarrow> 'a res" where
  "check b x = (if b then Inr x else Inl Check_failed)"

lemma res_bind_simps [simp]:
  "res_bind (Inl e) f = Inl e"
  "res_bind (Inr x) f = f x"
  by (simp_all add: res_bind_def)

lemma res_bind_Inr_iff: "res_bind m f = Inr y \<longleftrightarrow> (\<exists>x. m = Inr x \<and> f x = Inr y)"
  by (cases m) simp_all

lemma res_bind_InrE [elim!]:
  assumes "res_bind m f = Inr y"
  obtains x where "m = Inr x" and "f x = Inr y"
  using assms by (auto simp: res_bind_Inr_iff)

lemma res_bind_assoc: "res_bind (res_bind m f) g = res_bind m (\<lambda>x. res_bind (f x) g)"
  by (cases m) simp_all

lemma check_simps [simp]:
  "check True x = Inr x"
  "check False x = Inl Check_failed"
  "check b x = Inr y \<longleftrightarrow> b \<and> y = x"
  by (auto simp: check_def)

text \<open>A loop of the code over a sequence of values that threads a state and may fault.\<close>

fun res_fold :: "('a \<Rightarrow> 's \<Rightarrow> 's res) \<Rightarrow> 'a list \<Rightarrow> 's \<Rightarrow> 's res" where
  "res_fold f [] s = Inr s"
| "res_fold f (x # xs) s = res_bind (f x s) (res_fold f xs)"

lemma res_fold_invariant:
  assumes "res_fold f xs s = Inr s'" and "P s"
    and "\<And>x s s'. x \<in> set xs \<Longrightarrow> P s \<Longrightarrow> f x s = Inr s' \<Longrightarrow> P s'"
  shows "P s'"
  using assms
proof (induction xs arbitrary: s)
  case Nil
  then show ?case by simp
next
  case (Cons x xs)
  then obtain t where t: "f x s = Inr t" "res_fold f xs t = Inr s'" by auto
  moreover have "P t" using Cons.prems(2,3) t(1) by (meson list.set_intros(1))
  ultimately show ?case using Cons.IH Cons.prems(3) by (meson list.set_intros(2))
qed

lemma res_fold_total:
  assumes "P s" and "\<And>x s. x \<in> set xs \<Longrightarrow> P s \<Longrightarrow> \<exists>s'. f x s = Inr s' \<and> P s'"
  shows "\<exists>s'. res_fold f xs s = Inr s' \<and> P s'"
  using assms
proof (induction xs arbitrary: s)
  case Nil
  then show ?case by simp
next
  case (Cons x xs)
  then obtain t where "f x s = Inr t" "P t" by (meson list.set_intros(1))
  with Cons show ?case by simp
qed

lemma res_fold_append: "res_fold f (xs @ ys) s = res_bind (res_fold f xs s) (res_fold f ys)"
proof (induction xs arbitrary: s)
  case Nil
  then show ?case by simp
next
  case (Cons a xs)
  then show ?case by (cases "f a s") simp_all
qed

lemma res_fold_cong:
  assumes "\<And>x s. x \<in> set xs \<Longrightarrow> f x s = g x s"
  shows "res_fold f xs s = res_fold g xs s"
  using assms
proof (induction xs arbitrary: s)
  case Nil
  then show ?case by simp
next
  case (Cons x xs)
  have "res_fold f xs = res_fold g xs" using Cons by (intro ext) simp
  then show ?case using Cons.prems by simp
qed

text \<open>When no iteration faults, the loop is an ordinary fold.\<close>

lemma res_fold_pure: "res_fold (\<lambda>x s. Inr (f x s)) xs s = Inr (fold f xs s)"
  by (induction xs arbitrary: s) simp_all

section \<open>Words\<close>

lemma unat_inc_less:
  fixes g n :: "'a::len word"
  assumes "g < n"
  shows "unat (g + 1) = Suc (unat g)"
proof -
  have n: "unat n < 2 ^ LENGTH('a)" by (rule unsigned_less)
  from assms have "unat g < unat n" by (simp add: word_less_nat_alt)
  with n have "unat g + 1 < 2 ^ LENGTH('a)" by linarith
  then show ?thesis by (simp add: unat_word_ariths(1))
qed

lemma word_less_no_wrap:
  fixes a :: "'a::len word"
  assumes "a + 1 \<noteq> 0"
  shows "a < a + 1"
proof -
  have "unat (a + 1) = Suc (unat a)" using assms unatSuc [of a] by (simp add: add.commute)
  then show ?thesis by (simp add: word_less_nat_alt)
qed

lemma bytes_of_nat:
  "n < 4294967296 \<Longrightarrow>
   (((n div 16777216 mod 256 * 256 + n div 65536 mod 256) * 256 + n div 256 mod 256) * 256 + n mod 256) = (n :: nat)"
proof -
  assume n: "n < 4294967296"
  have d: "n div 65536 = n div 256 div 256" "n div 16777216 = n div 256 div 256 div 256"
    by (simp_all add: div_mult2_eq [symmetric])
  have "n div 256 div 256 div 256 < 256" using n by (simp add: div_mult2_eq [symmetric] div_less_iff_less_mult)
  then have m: "n div 256 div 256 div 256 mod 256 = n div 256 div 256 div 256" by simp
  show ?thesis unfolding d m by (simp only: div_mult_mod_eq)
qed

lemma unat_byte:
  fixes w :: "32 word"
  shows "unat (ucast (drop_bit k w) :: 8 word) = unat w div 2 ^ k mod 256"
    and "unat (ucast w :: 8 word) = unat w mod 256"
  by (simp_all add: unsigned_ucast_eq take_bit_eq_mod unat_drop_bit_eq) (simp add: drop_bit_eq_div)

text \<open>A word is put together from its four bytes, most significant first.\<close>

lemma word_of_bytes:
  fixes w :: "32 word"
  shows "word_of_nat (((unat (ucast (drop_bit 24 w) :: 8 word) * 256 + unat (ucast (drop_bit 16 w) :: 8 word)) * 256 +
      unat (ucast (drop_bit 8 w) :: 8 word)) * 256 + unat (ucast w :: 8 word)) = w"
proof -
  have "unat w < 4294967296" using unsigned_less [of w] by simp
  from bytes_of_nat [OF this]
  have e: "((unat (ucast (drop_bit 24 w) :: 8 word) * 256 + unat (ucast (drop_bit 16 w) :: 8 word)) * 256 +
      unat (ucast (drop_bit 8 w) :: 8 word)) * 256 + unat (ucast w :: 8 word) = unat w"
    using unat_byte(1) [of 8 w] unat_byte(1) [of 16 w] unat_byte(1) [of 24 w] by (simp add: unat_byte(2))
  show ?thesis unfolding e by simp
qed

section \<open>Collections of facts\<close>

text \<open>
  \<open>frame\<close> collects what an operation leaves alone, \<open>reply_defs\<close> the definitions that only
  build replies and messages.
\<close>

named_theorems frame
named_theorems reply_defs

section \<open>Decimal numerals, as \<open>printf\<close> writes them\<close>

definition digit :: "nat \<Rightarrow> char" where
  "digit d = char_of (48 + d)"

fun show_nat :: "nat \<Rightarrow> str" where
  "show_nat n = (if n < 10 then [digit n] else show_nat (n div 10) @ [digit (n mod 10)])"

declare show_nat.simps [simp del]

text \<open>\<open>%d\<close> of a signed value.\<close>

definition show_int :: "int \<Rightarrow> str" where
  "show_int i = (if i < 0 then CHR ''-'' # show_nat (nat (- i)) else show_nat (nat i))"

fun read_nat :: "nat \<Rightarrow> str \<Rightarrow> nat" where
  "read_nat acc [] = acc"
| "read_nat acc (c # cs) = read_nat (acc * 10 + (of_char c - 48)) cs"

lemma read_nat_append: "read_nat a (xs @ ys) = read_nat (read_nat a xs) ys"
  by (induction xs arbitrary: a) simp_all

lemma of_char_digit: "d < 10 \<Longrightarrow> (of_char (digit d) :: nat) = 48 + d"
  by (simp add: digit_def)

lemma read_show_nat: "read_nat 0 (show_nat n) = n"
proof (induction n rule: show_nat.induct)
  case (1 n)
  show ?case
  proof (cases "n < 10")
    case True
    then show ?thesis by (subst show_nat.simps) (simp add: of_char_digit)
  next
    case False
    with "1.IH" have "read_nat 0 (show_nat (n div 10)) = n div 10" by simp
    with False show ?thesis
      by (subst show_nat.simps) (simp add: read_nat_append of_char_digit)
  qed
qed

lemma show_nat_inj: "show_nat a = show_nat b \<longleftrightarrow> a = b"
  by (metis read_show_nat)

lemma digit_not_sep:
  assumes "d < 10"
  shows "digit d \<noteq> CHR '':''" and "digit d \<noteq> CHR ''.''"
proof -
  note d = of_char_digit [OF assms]
  show "digit d \<noteq> CHR '':''"
  proof
    assume "digit d = CHR '':''"
    with d have "48 + d = 58" by simp
    with assms show False by simp
  qed
  show "digit d \<noteq> CHR ''.''"
  proof
    assume "digit d = CHR ''.''"
    with d have "48 + d = 46" by simp
    then show False by simp
  qed
qed

lemma show_nat_no_sep: "CHR '':'' \<notin> set (show_nat n) \<and> CHR ''.'' \<notin> set (show_nat n)"
proof (induction n rule: show_nat.induct)
  case (1 n)
  show ?case
  proof (cases "n < 10")
    case True
    then show ?thesis using digit_not_sep [OF True] by (subst (1 2) show_nat.simps) auto
  next
    case False
    have "n mod 10 < 10" by simp
    note digit_not_sep [OF this]
    with False "1.IH" show ?thesis by (subst (1 2) show_nat.simps) auto
  qed
qed

lemma show_nat_digits: "c \<in> set (show_nat n) \<Longrightarrow> 48 \<le> (of_char c :: nat) \<and> (of_char c :: nat) \<le> 57"
proof (induction n rule: show_nat.induct)
  case (1 n)
  show ?case
  proof (cases "n < 10")
    case True
    with "1.prems" have "c = digit n" by (simp add: show_nat.simps)
    with True show ?thesis by (simp add: of_char_digit)
  next
    case False
    with "1.prems" have "c \<in> set (show_nat (n div 10)) \<or> c = digit (n mod 10)"
      by (subst (asm) show_nat.simps) auto
    with "1.IH" False show ?thesis by (auto simp: of_char_digit)
  qed
qed

text \<open>A text without the separator is read back from in front of it.\<close>

lemma append_sep_inj:
  assumes "c \<notin> set a" and "c \<notin> set a'" and "a @ c # b = a' @ c # b'"
  shows "a = a' \<and> b = b'"
  using assms
proof (induction a arbitrary: a')
  case Nil
  then show ?case by (cases a') auto
next
  case (Cons x a)
  then show ?case by (cases a') auto
qed

end
