(* ===== verification/StdMap.thy ===== *)
theory StdMap
  imports Prelude
begin

text \<open>
  The ordered containers of the C++ standard library as far as the program depends on their
  order: \<open>std::map\<close> and \<open>std::set\<close> as sorted association lists.  The enforcer walks its client
  sets and the targets of a client, and sends its messages in the order of that walk.  A map of
  the program that is only looked up by key is a HOL function instead.
\<close>

section \<open>Operations\<close>

type_synonym ('k, 'v) smap = "('k \<times> 'v) list"

text \<open>\<open>find\<close> / \<open>count\<close>.\<close>

definition sm_get :: "('k, 'v) smap \<Rightarrow> 'k \<Rightarrow> 'v option" where
  "sm_get m k = map_of m k"

text \<open>\<open>m[k] = v\<close>: the new key takes its place in the order.\<close>

fun sm_put :: "'k::linorder \<Rightarrow> 'v \<Rightarrow> ('k, 'v) smap \<Rightarrow> ('k, 'v) smap" where
  "sm_put k v [] = [(k, v)]"
| "sm_put k v ((a, b) # m) =
     (if k < a then (k, v) # (a, b) # m
      else if k = a then (k, v) # m
      else (a, b) # sm_put k v m)"

text \<open>\<open>erase(k)\<close>.\<close>

definition sm_del :: "'k \<Rightarrow> ('k, 'v) smap \<Rightarrow> ('k, 'v) smap" where
  "sm_del k m = filter (\<lambda>p. fst p \<noteq> k) m"

text \<open>\<open>insert\<close>: an element whose key is present stays as it is.\<close>

definition sm_insert :: "'k::linorder \<Rightarrow> 'v \<Rightarrow> ('k, 'v) smap \<Rightarrow> ('k, 'v) smap" where
  "sm_insert k v m = (if sm_get m k = None then sm_put k v m else m)"

definition sm_keys :: "('k, 'v) smap \<Rightarrow> 'k list" where
  "sm_keys m = map fst m"

definition sm_ok :: "('k::linorder, 'v) smap \<Rightarrow> bool" where
  "sm_ok m \<longleftrightarrow> sorted_wrt (<) (sm_keys m)"

section \<open>The interface\<close>

text \<open>
  What the program relies on.  The lookups after an update hold of any list; the invariant is
  needed for the order of a walk and for the number of elements only.
\<close>

locale ordered_map =
  fixes get :: "'m \<Rightarrow> 'k \<Rightarrow> 'v option"
    and put :: "'k \<Rightarrow> 'v \<Rightarrow> 'm \<Rightarrow> 'm"
    and del :: "'k \<Rightarrow> 'm \<Rightarrow> 'm"
    and keys :: "'m \<Rightarrow> 'k list"
    and inv :: "'m \<Rightarrow> bool"
  assumes get_put: "get (put k v m) = (get m)(k \<mapsto> v)"
    and get_del: "get (del k m) = (get m)(k := None)"
    and set_keys: "set (keys m) = dom (get m)"
    and inv_put: "inv m \<Longrightarrow> inv (put k v m)"
    and inv_del: "inv m \<Longrightarrow> inv (del k m)"
    and distinct_keys: "inv m \<Longrightarrow> distinct (keys m)"
begin

lemma get_put_same: "get (put k v m) k = Some v"
  by (simp add: get_put)

lemma keys_put: "set (keys (put k v m)) = insert k (set (keys m))"
  by (simp add: set_keys get_put)

lemma keys_del: "set (keys (del k m)) = set (keys m) - {k}"
  by (simp add: set_keys get_del)

lemma length_keys: "inv m \<Longrightarrow> length (keys m) = card (dom (get m))"
  by (metis distinct_card distinct_keys set_keys)

lemma keys_Nil_iff: "keys m = [] \<longleftrightarrow> get m = (\<lambda>_. None)"
  by (metis dom_eq_empty_conv set_empty set_keys)

end

lemma sm_get_put: "sm_get (sm_put k v m) = (sm_get m)(k \<mapsto> v)"
  by (induction k v m rule: sm_put.induct) (auto simp: sm_get_def fun_eq_iff)

lemma sm_get_del: "sm_get (sm_del k m) = (sm_get m)(k := None)"
  by (induction m) (auto simp: sm_get_def sm_del_def fun_eq_iff)

lemma sm_set_keys: "set (sm_keys m) = dom (sm_get m)"
proof -
  have "sm_get m = map_of m" by (simp add: sm_get_def fun_eq_iff)
  then show ?thesis by (simp add: sm_keys_def dom_map_of_conv_image_fst)
qed

lemma keys_sm_put: "set (sm_keys (sm_put k v m)) = insert k (set (sm_keys m))"
  by (induction k v m rule: sm_put.induct) (auto simp: sm_keys_def)

lemma sm_ok_put: "sm_ok m \<Longrightarrow> sm_ok (sm_put k v m)"
proof (induction k v m rule: sm_put.induct)
  case (1 k v)
  then show ?case by (simp add: sm_ok_def sm_keys_def)
next
  case (2 k v a b m)
  then show ?case
    using keys_sm_put [of k v m]
    by (auto simp: sm_ok_def sm_keys_def dest: less_trans)
qed

lemma sm_ok_del: "sm_ok m \<Longrightarrow> sm_ok (sm_del k m)"
  by (auto simp: sm_ok_def sm_keys_def sm_del_def sorted_wrt_map intro: sorted_wrt_filter)

lemma sm_ok_distinct: "sm_ok m \<Longrightarrow> distinct (sm_keys m)"
  by (simp add: sm_ok_def strict_sorted_iff)

interpretation sm: ordered_map sm_get sm_put sm_del sm_keys sm_ok
  by unfold_locales
    (auto simp: sm_get_put sm_get_del sm_set_keys sm_ok_put sm_ok_del sm_ok_distinct)

section \<open>Facts for the simplifier\<close>

lemma sm_get_Nil [simp]: "sm_get [] k = None"
  by (simp add: sm_get_def)

lemma sm_get_put_app [simp]: "sm_get (sm_put k v m) k' = (if k' = k then Some v else sm_get m k')"
  by (simp add: sm_get_put)

lemma sm_get_del_app [simp]: "sm_get (sm_del k m) k' = (if k' = k then None else sm_get m k')"
  by (simp add: sm_get_del)

lemma sm_get_insert [simp]:
  "sm_get (sm_insert k v m) k' = (if k' = k \<and> sm_get m k = None then Some v else sm_get m k')"
  by (simp add: sm_insert_def)

lemma sm_put_not_Nil [simp]: "sm_put k v m \<noteq> []"
  by (induction k v m rule: sm_put.induct) simp_all

lemma sm_insert_not_Nil [simp]: "sm_insert k v m \<noteq> []"
  by (auto simp: sm_insert_def)

lemma sm_ok_Nil [simp]: "sm_ok []"
  by (simp add: sm_ok_def sm_keys_def)

lemma sm_ok_insert: "sm_ok m \<Longrightarrow> sm_ok (sm_insert k v m)"
  by (simp add: sm_insert_def sm_ok_put)

lemma sm_get_Some_in: "sm_get m k = Some v \<Longrightarrow> (k, v) \<in> set m"
  by (simp add: sm_get_def map_of_SomeD)

lemma sm_ok_in_iff: "sm_ok m \<Longrightarrow> (k, v) \<in> set m \<longleftrightarrow> sm_get m k = Some v"
  using sm_ok_distinct [of m] by (simp add: sm_get_def sm_keys_def)

lemma sm_Nil_iff: "m = [] \<longleftrightarrow> (\<forall>k. sm_get m k = None)"
  by (cases m) (auto simp: sm_get_def)

text \<open>A key that was new adds one element, and erasing the only key empties the map.\<close>

lemma length_sm_put: "sm_get m k = None \<Longrightarrow> length (sm_put k v m) = Suc (length m)"
  by (induction k v m rule: sm_put.induct) (auto simp: sm_get_def split: if_splits)

lemma sm_put_length1: "sm_get m k = None \<Longrightarrow> length (sm_put k v m) = 1 \<longleftrightarrow> m = []"
  by (simp add: length_sm_put)

lemma in_sm_put: "p \<in> set (sm_put k v m) \<Longrightarrow> p = (k, v) \<or> p \<in> set m"
  by (induction k v m rule: sm_put.induct) (auto split: if_splits)

lemma in_sm_insert: "p \<in> set (sm_insert k v m) \<Longrightarrow> p = (k, v) \<or> p \<in> set m"
  by (auto simp: sm_insert_def dest: in_sm_put split: if_splits)

lemma in_sm_del: "p \<in> set (sm_del k m) \<longleftrightarrow> p \<in> set m \<and> fst p \<noteq> k"
  by (simp add: sm_del_def)

end
