(* ===== verification/Protocol.thy ===== *)
theory Protocol
  imports StdMap
begin

text \<open>
  The messages of the two RPC programs that the clients and the enforcers speak: the spy program
  (falcon/enforcer/spy_prot.h, falcon/enforcer/status.h) on which an enforcer answers, and the
  client program (falcon/enforcer/client_prot.h) on which a client receives up and down reports;
  the statuses that a client callback sees (falcon/client/client_status.h).
\<close>

section \<open>Statuses of the spy program\<close>

datatype spy_status =
    FALCON_SUCCESS
  | FALCON_UNKNOWN_TARGET
  | FALCON_BAD_GEN_VEC
  | FALCON_FUTURE_GEN
  | FALCON_LONG_DEAD
  | FALCON_REGISTER_ACK
  | FALCON_CANCEL_ACK
  | FALCON_CANCEL_ERROR
  | FALCON_KILL_ACK
  | FALCON_GEN_RESP
  | FALCON_UP
  | FALCON_DOWN
  | FALCON_UNKNOWN_ERROR

fun spy_status_code :: "spy_status \<Rightarrow> u32" where
  "spy_status_code FALCON_SUCCESS = 0"
| "spy_status_code FALCON_UNKNOWN_TARGET = 1"
| "spy_status_code FALCON_BAD_GEN_VEC = 2"
| "spy_status_code FALCON_FUTURE_GEN = 3"
| "spy_status_code FALCON_LONG_DEAD = 4"
| "spy_status_code FALCON_REGISTER_ACK = 5"
| "spy_status_code FALCON_CANCEL_ACK = 6"
| "spy_status_code FALCON_CANCEL_ERROR = 7"
| "spy_status_code FALCON_KILL_ACK = 8"
| "spy_status_code FALCON_GEN_RESP = 9"
| "spy_status_code FALCON_UP = 10"
| "spy_status_code FALCON_DOWN = 11"
| "spy_status_code FALCON_UNKNOWN_ERROR = 12"

lemma spy_status_code_inj: "spy_status_code a = spy_status_code b \<longleftrightarrow> a = b"
  by (cases a; cases b; simp)

text \<open>The statuses are ordered as their codes are.\<close>

instantiation spy_status :: linorder
begin
definition less_eq_spy_status :: "spy_status \<Rightarrow> spy_status \<Rightarrow> bool" where
  "less_eq_spy_status a b \<longleftrightarrow> spy_status_code a \<le> spy_status_code b"
definition less_spy_status :: "spy_status \<Rightarrow> spy_status \<Rightarrow> bool" where
  "less_spy_status a b \<longleftrightarrow> spy_status_code a < spy_status_code b"
instance
  by standard
    (auto simp: less_eq_spy_status_def less_spy_status_def spy_status_code_inj [symmetric])
end

section \<open>Arguments and results\<close>

type_synonym gen_no = u32

record client_addr_t =
  ca_ipaddr :: u32
  ca_port :: u32
  ca_tag :: u32

record target_t =
  tg_handle :: str
  tg_generation :: "gen_no list"

record spy_register_arg =
  ra_target :: target_t
  ra_lethal :: bool
  ra_up_interval_ms :: "32 word"
  ra_client :: client_addr_t

record spy_cancel_arg =
  xa_target :: target_t
  xa_client :: client_addr_t

record spy_res =
  sr_target :: target_t
  sr_status :: spy_status

record client_up_arg =
  up_handle :: str
  up_generation :: "gen_no list"
  up_tag :: u32

record client_down_arg =
  dn_handle :: str
  dn_generation :: "gen_no list"
  dn_layer_status :: u32
  dn_killed :: bool
  dn_would_kill :: bool
  dn_tag :: u32

text \<open>
  The calls of the spy program.  \<open>SPY_KILL\<close> and \<open>SPY_GET_GEN\<close> carry a structure whose only
  member is a target.
\<close>

datatype spy_call =
    SPY_NULL
  | SPY_REGISTER spy_register_arg
  | SPY_CANCEL spy_cancel_arg
  | SPY_KILL target_t
  | SPY_GET_GEN target_t

text \<open>
  What the RPC library reports at the end of a call: success, the time limit, or one of its other
  error codes, which the code never tells apart.
\<close>

datatype clnt_stat = RPC_SUCCESS | RPC_TIMEDOUT | RPC_OTHER

section \<open>Statuses of the client callbacks\<close>

definition DOWN_FROM_REMOTE :: u32 where "DOWN_FROM_REMOTE = 0"
definition KILLED_BY_REMOTE :: u32 where "KILLED_BY_REMOTE = 1"
definition REMOTE_WOULD_KILL :: u32 where "REMOTE_WOULD_KILL = 2"
definition REMOTE_ERROR :: u32 where "REMOTE_ERROR = 3"
definition UNKNOWN_ERROR :: u32 where "UNKNOWN_ERROR = 4"
definition FALCON_E2E_TIMEOUT :: u32 where "FALCON_E2E_TIMEOUT = 5"
definition KILL_LONG_DEAD :: u32 where "KILL_LONG_DEAD = 6"
definition REGISTRATION_ERROR :: u32 where "REGISTRATION_ERROR = 7"
definition SIGN_OF_LIFE :: u32 where "SIGN_OF_LIFE = 8"

lemmas client_status_defs =
  DOWN_FROM_REMOTE_def KILLED_BY_REMOTE_def REMOTE_WOULD_KILL_def REMOTE_ERROR_def
  UNKNOWN_ERROR_def FALCON_E2E_TIMEOUT_def KILL_LONG_DEAD_def REGISTRATION_ERROR_def
  SIGN_OF_LIFE_def

end
