(* ===== verification/EnforcerDefs.thy ===== *)
theory EnforcerDefs
  imports Protocol
begin

text \<open>
  The part that every enforcer shares: class \<open>Enforcer\<close> of falcon/enforcer/enforcer.h and
  falcon/enforcer/enforcer.cc.  An enforcer is a single-threaded event loop: it answers the calls
  of the spy program, and it runs the callbacks it has registered (timers and the ends of its own
  RPCs).  Every handler is a function from the state to the next state or to the fault that ends
  the process.  What the layer-specific subclasses add is the field \<open>layer\<close> of the state and a
  table of their virtual methods.
\<close>

section \<open>State\<close>

type_synonym cref = nat
type_synonym cset = "(str, cref) smap"

text \<open>
  \<open>struct FalconClient\<close>.  The objects are shared by reference, so they live in a heap and the
  sets hold their addresses; the sets are ordered by, and compare, the client id only.
\<close>

record falcon_client =
  fc_id :: str
  fc_up_intervals :: "(str, 32 word) smap"
  fc_tag :: u32

text \<open>
  The callbacks that the event loop holds: the end of a heartbeat call, the timer before the next
  heartbeat, the end of a down report, the timer after which a client waits for a sign of life
  again, and those of the layer.
\<close>

datatype 'c callback =
    CbHeartbeatReply cref nat
  | CbDoHeartbeat cref nat
  | CbReportDown cref client_down_arg nat
  | CbAddToWaiting str cref
  | CbLayer 'c

text \<open>
  When a callback runs: after a delay (seconds, nanoseconds) for \<open>delaycb\<close>, at the end of an
  RPC for \<open>call\<close>, or at its end or at the given time limit for \<open>timedcall\<close>.
\<close>

datatype due = After int int | OnReply | OnReplyWithin int int

datatype 'c event = Event (ev_id: nat) (ev_due: due) (ev_cb: "'c callback")

text \<open>What the enforcer sends: calls to a client, and its own replies.\<close>

datatype out =
    OutNull cref
  | OutUp cref client_up_arg
  | OutDown cref client_down_arg
  | OutReply spy_res
  | OutReplyVoid

text \<open>The end of \<open>fsync\<close> on the generation log.\<close>

datatype sync_result = Sync_ok | Sync_EROFS | Sync_EINVAL | Sync_error

text \<open>
  \<open>generations\<close>, \<open>waiting_for_up\<close>, \<open>target_clients\<close> and \<open>deadly\<close> are only ever reached with
  \<open>operator[]\<close>, so they are total functions with the default value of the element.  The fields
  \<open>log_write_ok\<close>, \<open>log_sync\<close>, \<open>log_discards\<close> and \<open>sock_ok\<close> are the environment: whether the
  log accepts a write, what \<open>fsync\<close> says, whether the log is /dev/null, and whether a datagram
  socket can be had.
\<close>

record ('l, 'c) enforcer =
  gen_vec :: "gen_no list"
  generations :: "str \<Rightarrow> gen_no"
  gen_log :: string
  log_discards :: bool
  log_write_ok :: bool
  log_sync :: sync_result
  sock_ok :: bool
  heap :: "cref \<Rightarrow> falcon_client"
  next_ref :: nat
  all_clients :: cset
  waiting_for_up :: "str \<Rightarrow> cset"
  target_clients :: "str \<Rightarrow> cset"
  deadly :: "str \<Rightarrow> cset"
  pending :: "'c event list"
  next_id :: nat
  outbox :: "out list"
  layer :: 'l

text \<open>The virtual methods of class \<open>Enforcer\<close>.\<close>

record ('l, 'c) layer_ops =
  StartMonitoring :: "str \<Rightarrow> ('l, 'c) enforcer \<Rightarrow> ('l, 'c) enforcer res"
  StopMonitoring :: "str \<Rightarrow> ('l, 'c) enforcer \<Rightarrow> ('l, 'c) enforcer res"
  InvalidTarget :: "str \<Rightarrow> ('l, 'c) enforcer \<Rightarrow> bool"
  KillTarget :: "str \<Rightarrow> ('l, 'c) enforcer \<Rightarrow> ('l, 'c) enforcer res"
  UpdateGenerations :: "str \<Rightarrow> ('l, 'c) enforcer \<Rightarrow> ('l, 'c) enforcer res"

section \<open>The event loop\<close>

definition schedule :: "due \<Rightarrow> 'c callback \<Rightarrow> ('l, 'c) enforcer \<Rightarrow> ('l, 'c) enforcer" where
  "schedule d cb s =
     s\<lparr>pending := pending s @ [Event (next_id s) d cb], next_id := Suc (next_id s)\<rparr>"

definition timecb_remove :: "nat \<Rightarrow> ('l, 'c) enforcer \<Rightarrow> ('l, 'c) enforcer" where
  "timecb_remove i s = s\<lparr>pending := filter (\<lambda>e. ev_id e \<noteq> i) (pending s)\<rparr>"

definition emit :: "out \<Rightarrow> ('l, 'c) enforcer \<Rightarrow> ('l, 'c) enforcer" where
  "emit m s = s\<lparr>outbox := outbox s @ [m]\<rparr>"

text \<open>Membership and updates of client sets; a set compares ids.\<close>

definition cid :: "('l, 'c) enforcer \<Rightarrow> cref \<Rightarrow> str" where
  "cid s r = fc_id (heap s r)"

definition cs_count :: "cset \<Rightarrow> ('l, 'c) enforcer \<Rightarrow> cref \<Rightarrow> bool" where
  "cs_count c s r \<longleftrightarrow> sm_get c (cid s r) \<noteq> None"

definition cs_erase :: "('l, 'c) enforcer \<Rightarrow> cref \<Rightarrow> cset \<Rightarrow> cset" where
  "cs_erase s r c = sm_del (cid s r) c"

definition cs_insert :: "('l, 'c) enforcer \<Rightarrow> cref \<Rightarrow> cset \<Rightarrow> cset" where
  "cs_insert s r c = sm_insert (cid s r) r c"

definition set_interval :: "cref \<Rightarrow> str \<Rightarrow> 32 word \<Rightarrow> ('l, 'c) enforcer \<Rightarrow> ('l, 'c) enforcer" where
  "set_interval r t d s =
     s\<lparr>heap := (heap s)(r := (heap s r)
         \<lparr>fc_up_intervals := sm_put t d (fc_up_intervals (heap s r))\<rparr>)\<rparr>"

definition erase_interval :: "cref \<Rightarrow> str \<Rightarrow> ('l, 'c) enforcer \<Rightarrow> ('l, 'c) enforcer" where
  "erase_interval r t s =
     s\<lparr>heap := (heap s)(r := (heap s r)
         \<lparr>fc_up_intervals := sm_del t (fc_up_intervals (heap s r))\<rparr>)\<rparr>"

definition Killable :: "str \<Rightarrow> ('l, 'c) enforcer \<Rightarrow> bool" where
  "Killable t s \<longleftrightarrow> deadly s t \<noteq> []"

definition GetGeneration :: "str \<Rightarrow> ('l, 'c) enforcer \<Rightarrow> gen_no" where
  "GetGeneration t s = generations s t"

section \<open>Generations and their log\<close>

text \<open>\<open>fgets(buf, n, f)\<close>: at most \<open>n - 1\<close> bytes, up to and with a newline.\<close>

fun fgets_aux :: "nat \<Rightarrow> string \<Rightarrow> string \<times> string" where
  "fgets_aux 0 cs = ([], cs)"
| "fgets_aux (Suc n) [] = ([], [])"
| "fgets_aux (Suc n) (c # cs) =
     (if c = CHR 0x0A then ([c], cs)
      else (let (l, r) = fgets_aux n cs in (c # l, r)))"

definition fgets :: "nat \<Rightarrow> string \<Rightarrow> (string \<times> string) option" where
  "fgets n cs = (case fgets_aux (n - 1) cs of ([], _) \<Rightarrow> None | (l, r) \<Rightarrow> Some (l, r))"

lemma fgets_aux_split: "fgets_aux n cs = (l, r) \<Longrightarrow> cs = l @ r"
  by (induction n cs arbitrary: l r rule: fgets_aux.induct)
    (auto split: if_splits prod.splits)

lemma fgets_shorter: "fgets n cs = Some (l, r) \<Longrightarrow> length r < length cs"
  by (auto simp: fgets_def split: prod.splits list.splits dest: fgets_aux_split)

definition kTargetSize :: nat where "kTargetSize = 256"

text \<open>\<open>Enforcer::InitGenerations\<close>: one line of the log is one increment of its target.\<close>

function init_generations :: "string \<Rightarrow> (str \<Rightarrow> gen_no) \<Rightarrow> (str \<Rightarrow> gen_no)" where
  "init_generations log g =
     (case fgets kTargetSize log of
        None \<Rightarrow> g
      | Some (target, rest) \<Rightarrow>
          (let key = butlast target in init_generations rest (g(key := g key + 1))))"
  by pat_completeness auto
termination
  by (relation "measure (\<lambda>(log, g). length log)") (auto dest: fgets_shorter)

declare init_generations.simps [simp del]

lemma init_generations_Nil: "init_generations [] g = g"
  by (subst init_generations.simps) (simp add: fgets_def kTargetSize_def eval_nat_numeral)

definition InitGenerations :: "('l, 'c) enforcer \<Rightarrow> ('l, 'c) enforcer" where
  "InitGenerations s = s\<lparr>generations := init_generations (gen_log s) (generations s)\<rparr>"

definition IncrementGeneration :: "str \<Rightarrow> ('l, 'c) enforcer \<Rightarrow> ('l, 'c) enforcer res" where
  "IncrementGeneration t s =
     (if \<not> log_write_ok s then Inl Check_failed
      else
        let s1 = (if log_discards s then s
                  else s\<lparr>gen_log := gen_log s @ t @ [CHR 0x0A]\<rparr>)
        in if log_sync s1 \<in> {Sync_ok, Sync_EROFS, Sync_EINVAL}
           then Inr (s1\<lparr>generations := (generations s1)(t := generations s1 t + 1)\<rparr>)
           else Inl Check_failed)"

lemma IncrementGeneration_gen:
  "IncrementGeneration t s = Inr s' \<Longrightarrow> generations s' = (generations s)(t := generations s t + 1)"
  by (auto simp: IncrementGeneration_def Let_def split: if_splits)

text \<open>The \<open>while\<close> of \<open>FastForwardGeneration\<close>.\<close>

function ff_loop :: "gen_no \<Rightarrow> str \<Rightarrow> ('l, 'c) enforcer \<Rightarrow> ('l, 'c) enforcer res" where
  "ff_loop new_gen t s =
     (if generations s t < new_gen then
        (case IncrementGeneration t s of Inl e \<Rightarrow> Inl e | Inr s' \<Rightarrow> ff_loop new_gen t s')
      else Inr s)"
  by pat_completeness auto
termination
proof (relation "measure (\<lambda>(n, t, s). unat n - unat (generations s t))", goal_cases)
  case 1
  show ?case by simp
next
  case (2 n t s s')
  then have g: "generations s' t = generations s t + 1"
    by (simp add: IncrementGeneration_gen)
  from 2 have lt: "generations s t < n" by simp
  then have "unat (generations s t + 1) = Suc (unat (generations s t))"
    by (rule unat_inc_less)
  with lt g show ?case by (simp add: word_less_nat_alt)
qed

declare ff_loop.simps [simp del]

definition FastForwardGeneration :: "str \<Rightarrow> gen_no \<Rightarrow> ('l, 'c) enforcer \<Rightarrow> ('l, 'c) enforcer res" where
  "FastForwardGeneration t new_gen s =
     ff_loop new_gen t
       (if new_gen < generations s t
        then s\<lparr>generations := (generations s)(t := new_gen)\<rparr> else s)"

section \<open>Clients\<close>

definition kClientTimeout :: int where "kClientTimeout = 90"
definition kClientRetry :: nat where "kClientRetry = 5"
definition kMaxRetries :: nat where "kMaxRetries = 3"

definition DoHeartbeat :: "cref \<Rightarrow> nat \<Rightarrow> ('l, 'c) enforcer \<Rightarrow> ('l, 'c) enforcer" where
  "DoHeartbeat cl retry_count s =
     schedule (OnReplyWithin kClientTimeout 0) (CbHeartbeatReply cl retry_count)
       (emit (OutNull cl) s)"

text \<open>
  \<open>inet_ntoa\<close> and \<open>ntohs\<close> on a little-endian host: the first octet of an address in network
  byte order is its lowest byte.
\<close>

definition octet :: "u32 \<Rightarrow> nat \<Rightarrow> nat" where
  "octet ip i = unat ip div 256 ^ i mod 256"

definition inet_ntoa :: "u32 \<Rightarrow> str" where
  "inet_ntoa ip =
     show_nat (octet ip 0) @ CHR ''.'' # show_nat (octet ip 1) @ CHR ''.'' #
     show_nat (octet ip 2) @ CHR ''.'' # show_nat (octet ip 3)"

definition ntohs :: "u32 \<Rightarrow> nat" where
  "ntohs p = octet p 0 * 256 + octet p 1"

text \<open>\<open>snprintf(buf, 64, "%s:%u:%u", ...)\<close>; at most 32 bytes, so never cut.\<close>

definition client_id_of :: "client_addr_t \<Rightarrow> str" where
  "client_id_of a =
     inet_ntoa (ca_ipaddr a) @ CHR '':'' # show_nat (ntohs (ca_port a)) @ CHR '':'' #
     show_nat (unat (ca_tag a))"

definition GetClient :: "client_addr_t \<Rightarrow> ('l, 'c) enforcer \<Rightarrow> (cref \<times> ('l, 'c) enforcer) res" where
  "GetClient a s =
     (let i = client_id_of a in
      case sm_get (all_clients s) i of
        Some r \<Rightarrow> Inr (r, s)
      | None \<Rightarrow>
          if \<not> sock_ok s then Inl Check_failed
          else
            let r = next_ref s;
                s1 = s\<lparr>heap := (heap s)(r :=
                          \<lparr>fc_id = i, fc_up_intervals = [], fc_tag = ca_tag a\<rparr>),
                       next_ref := Suc r,
                       all_clients := sm_put i r (all_clients s)\<rparr>
            in Inr (r, DoHeartbeat r 0 s1))"

text \<open>One turn of the loop of \<open>RemoveClient\<close>, for the target \<open>t\<close>.\<close>

definition remove_from_target ::
    "(str \<Rightarrow> ('l, 'c) enforcer \<Rightarrow> ('l, 'c) enforcer res) \<Rightarrow> cref \<Rightarrow> str
      \<Rightarrow> ('l, 'c) enforcer \<Rightarrow> ('l, 'c) enforcer res" where
  "remove_from_target stop c t s =
     (let s1 = s\<lparr>target_clients := (target_clients s)(t := cs_erase s c (target_clients s t)),
                 deadly := (deadly s)(t := cs_erase s c (deadly s t))\<rparr>
      in if target_clients s1 t = [] then stop t s1 else Inr s1)"

definition RemoveClient ::
    "(str \<Rightarrow> ('l, 'c) enforcer \<Rightarrow> ('l, 'c) enforcer res) \<Rightarrow> cref
      \<Rightarrow> ('l, 'c) enforcer \<Rightarrow> ('l, 'c) enforcer res" where
  "RemoveClient stop c s =
     (let s1 = s\<lparr>all_clients := cs_erase s c (all_clients s)\<rparr>
      in res_fold (remove_from_target stop c) (sm_keys (fc_up_intervals (heap s1 c))) s1)"

definition HandleClientHeartbeat ::
    "(str \<Rightarrow> ('l, 'c) enforcer \<Rightarrow> ('l, 'c) enforcer res) \<Rightarrow> cref \<Rightarrow> nat \<Rightarrow> clnt_stat
      \<Rightarrow> ('l, 'c) enforcer \<Rightarrow> ('l, 'c) enforcer res" where
  "HandleClientHeartbeat stop cl retry_count status s =
     (if \<not> cs_count (all_clients s) s cl then Inr s
      else if status = RPC_SUCCESS \<or> retry_count < kClientRetry then
        (if status = RPC_SUCCESS
         then Inr (schedule (After kClientTimeout 0) (CbDoHeartbeat cl 0) s)
         else Inr (DoHeartbeat cl (Suc retry_count) s))
      else RemoveClient stop cl s)"

section \<open>Signs of life\<close>

definition AddToWaiting :: "str \<Rightarrow> cref \<Rightarrow> ('l, 'c) enforcer \<Rightarrow> ('l, 'c) enforcer" where
  "AddToWaiting t r s =
     (if cs_count (target_clients s t) s r
      then s\<lparr>waiting_for_up := (waiting_for_up s)(t := cs_insert s r (waiting_for_up s t))\<rparr>
      else s)"

text \<open>\<open>up_intervals_[t]\<close>: reading a missing key inserts the default.\<close>

definition read_interval ::
    "cref \<Rightarrow> str \<Rightarrow> ('l, 'c) enforcer \<Rightarrow> 32 word \<times> ('l, 'c) enforcer" where
  "read_interval r t s =
     (case sm_get (fc_up_intervals (heap s r)) t of
        Some d \<Rightarrow> (d, s)
      | None \<Rightarrow> (0, set_interval r t 0 s))"

definition RepeatWaiting :: "str \<Rightarrow> cref \<Rightarrow> ('l, 'c) enforcer \<Rightarrow> ('l, 'c) enforcer" where
  "RepeatWaiting t r s =
     (if cs_count (target_clients s t) s r then
        let (delay, s1) = read_interval r t s in
        if sint delay < 0 then s1
        else if delay = 0 then AddToWaiting t r s1
        else schedule (After (sint delay div 1000) (sint delay mod 1000 * 1000000))
               (CbAddToWaiting t r) s1
      else s)"

definition target_gen :: "str \<Rightarrow> ('l, 'c) enforcer \<Rightarrow> gen_no list" where
  "target_gen t s = gen_vec s @ [generations s t]"

definition up_arg :: "str \<Rightarrow> cref \<Rightarrow> ('l, 'c) enforcer \<Rightarrow> client_up_arg" where
  "up_arg t r s =
     \<lparr>up_handle = t, up_generation = target_gen t s, up_tag = fc_tag (heap s r)\<rparr>"

definition observe_up_client :: "str \<Rightarrow> cref \<Rightarrow> ('l, 'c) enforcer \<Rightarrow> ('l, 'c) enforcer" where
  "observe_up_client t r s = RepeatWaiting t r (emit (OutUp r (up_arg t r s)) s)"

definition ObserveUp :: "str \<Rightarrow> ('l, 'c) enforcer \<Rightarrow> ('l, 'c) enforcer" where
  "ObserveUp t s =
     (let fc_set = waiting_for_up s t;
          s1 = s\<lparr>waiting_for_up := (waiting_for_up s)(t := [])\<rparr>
      in fold (observe_up_client t) (map snd fc_set) s1)"

section \<open>Down reports\<close>

text \<open>The exit of a client from the tables of a target, in \<open>ReportDown\<close> and in \<open>SPY_CANCEL\<close>.\<close>

definition cancel_client :: "str \<Rightarrow> cref \<Rightarrow> ('l, 'c) enforcer \<Rightarrow> ('l, 'c) enforcer" where
  "cancel_client t cl s =
     (let s1 = erase_interval cl t s
      in s1\<lparr>target_clients := (target_clients s1)(t := cs_erase s1 cl (target_clients s1 t)),
            deadly := (deadly s1)(t := cs_erase s1 cl (deadly s1 t))\<rparr>)"

definition ReportDown ::
    "(str \<Rightarrow> ('l, 'c) enforcer \<Rightarrow> ('l, 'c) enforcer res) \<Rightarrow> cref \<Rightarrow> client_down_arg \<Rightarrow> nat
      \<Rightarrow> clnt_stat \<Rightarrow> ('l, 'c) enforcer \<Rightarrow> ('l, 'c) enforcer res" where
  "ReportDown stop cl arg retries status s =
     (if status = RPC_SUCCESS \<and> retries \<noteq> 0 then
        let s1 = cancel_client (dn_handle arg) cl s
        in if fc_up_intervals (heap s1 cl) = [] then RemoveClient stop cl s1 else Inr s1
      else if retries = kMaxRetries then RemoveClient stop cl s
      else Inr (schedule OnReply (CbReportDown cl arg (Suc retries)) (emit (OutDown cl arg) s)))"

definition down_arg ::
    "str \<Rightarrow> u32 \<Rightarrow> bool \<Rightarrow> bool \<Rightarrow> cref \<Rightarrow> ('l, 'c) enforcer \<Rightarrow> client_down_arg" where
  "down_arg t status killed would_kill r s =
     \<lparr>dn_handle = t, dn_generation = target_gen t s, dn_layer_status = status,
      dn_killed = killed, dn_would_kill = would_kill, dn_tag = fc_tag (heap s r)\<rparr>"

definition observe_down_client ::
    "(str \<Rightarrow> ('l, 'c) enforcer \<Rightarrow> ('l, 'c) enforcer res) \<Rightarrow> str \<Rightarrow> u32 \<Rightarrow> bool \<Rightarrow> bool \<Rightarrow> cref
      \<Rightarrow> ('l, 'c) enforcer \<Rightarrow> ('l, 'c) enforcer res" where
  "observe_down_client stop t status killed would_kill r s =
     ReportDown stop r (down_arg t status killed would_kill r s) 0 RPC_SUCCESS s"

definition ObserveDown ::
    "(str \<Rightarrow> ('l, 'c) enforcer \<Rightarrow> ('l, 'c) enforcer res) \<Rightarrow> str \<Rightarrow> u32 \<Rightarrow> bool \<Rightarrow> bool
      \<Rightarrow> ('l, 'c) enforcer \<Rightarrow> ('l, 'c) enforcer res" where
  "ObserveDown stop t status killed would_kill s =
     res_bind (res_fold (observe_down_client stop t status killed would_kill)
                 (map snd (target_clients s t)) s) (\<lambda>s1.
     res_bind (IncrementGeneration t s1) (\<lambda>s2.
     stop t (s2\<lparr>target_clients := (target_clients s2)(t := []),
                waiting_for_up := (waiting_for_up s2)(t := [])\<rparr>)))"

section \<open>The spy program\<close>

text \<open>The loop of \<open>GenCheck\<close> over two vectors of the same length.\<close>

fun gen_compare :: "gen_no list \<Rightarrow> gen_no list \<Rightarrow> spy_status" where
  "gen_compare (m # ms) (q # qs) =
     (if m < q then FALCON_FUTURE_GEN
      else if q < m then FALCON_LONG_DEAD
      else gen_compare ms qs)"
| "gen_compare _ _ = FALCON_SUCCESS"

definition GenCheck ::
    "('l, 'c) layer_ops \<Rightarrow> str \<Rightarrow> gen_no list \<Rightarrow> ('l, 'c) enforcer
      \<Rightarrow> (spy_status \<times> ('l, 'c) enforcer) res" where
  "GenCheck ops t query_gen s =
     res_bind (UpdateGenerations ops t s) (\<lambda>s1.
       let my_vec = target_gen t s1 in
       Inr ((if InvalidTarget ops t s1 then FALCON_UNKNOWN_TARGET
             else if length my_vec \<noteq> length query_gen then FALCON_BAD_GEN_VEC
             else gen_compare my_vec query_gen), s1))"

definition reply :: "str \<Rightarrow> gen_no list \<Rightarrow> spy_status \<Rightarrow> ('l, 'c) enforcer \<Rightarrow> ('l, 'c) enforcer" where
  "reply t g st s = emit (OutReply \<lparr>sr_target = \<lparr>tg_handle = t, tg_generation = g\<rparr>, sr_status = st\<rparr>) s"

text \<open>
  The entry of a client into the tables of a target: the target set, the interval, the wait for the
  first sign of life, and the licence to kill.
\<close>

definition register_client ::
    "spy_register_arg \<Rightarrow> cref \<Rightarrow> ('l, 'c) enforcer \<Rightarrow> ('l, 'c) enforcer" where
  "register_client arg cl s =
     (let t = tg_handle (ra_target arg);
          s1 = s\<lparr>target_clients := (target_clients s)(t := cs_insert s cl (target_clients s t))\<rparr>;
          s2 = RepeatWaiting t cl (set_interval cl t (ra_up_interval_ms arg) s1)
      in if ra_lethal arg
         then s2\<lparr>deadly := (deadly s2)(t := cs_insert s2 cl (deadly s2 t))\<rparr> else s2)"

definition DispatchRegister ::
    "('l, 'c) layer_ops \<Rightarrow> spy_register_arg \<Rightarrow> ('l, 'c) enforcer \<Rightarrow> ('l, 'c) enforcer res" where
  "DispatchRegister ops arg s =
     (let t = tg_handle (ra_target arg); g = target_gen t s in
      res_bind (GenCheck ops t (tg_generation (ra_target arg)) s) (\<lambda>(st, s1).
      if st \<noteq> FALCON_SUCCESS then Inr (reply t g st s1)
      else
        res_bind (GetClient (ra_client arg) s1) (\<lambda>(cl, s2).
        let new_client = (\<not> cs_count (target_clients s2 t) s2 cl);
            s3 = register_client arg cl s2
        in res_bind
             (if length (target_clients s3 t) = 1 \<and> new_client
              then StartMonitoring ops t s3 else Inr s3) (\<lambda>s4.
           Inr (reply t g FALCON_REGISTER_ACK s4)))))"

definition DispatchCancel ::
    "('l, 'c) layer_ops \<Rightarrow> spy_cancel_arg \<Rightarrow> ('l, 'c) enforcer \<Rightarrow> ('l, 'c) enforcer res" where
  "DispatchCancel ops arg s =
     (let t = tg_handle (xa_target arg); g = target_gen t s in
      res_bind (GenCheck ops t (tg_generation (xa_target arg)) s) (\<lambda>(st, s1).
      if st \<noteq> FALCON_SUCCESS then Inr (reply t g st s1)
      else
        res_bind (GetClient (xa_client arg) s1) (\<lambda>(cl, s2).
        if cs_count (target_clients s2 t) s2 cl then
          let s3 = cancel_client t cl s2
          in res_bind (if target_clients s3 t = [] then StopMonitoring ops t s3 else Inr s3) (\<lambda>s4.
             res_bind (if fc_up_intervals (heap s4 cl) = []
                       then RemoveClient (StopMonitoring ops) cl s4 else Inr s4) (\<lambda>s5.
             Inr (reply t g FALCON_CANCEL_ACK s5)))
        else Inr (reply t g FALCON_CANCEL_ERROR s2))))"

definition DispatchKill ::
    "('l, 'c) layer_ops \<Rightarrow> target_t \<Rightarrow> ('l, 'c) enforcer \<Rightarrow> ('l, 'c) enforcer res" where
  "DispatchKill ops arg s =
     (let t = tg_handle arg; g = target_gen t s in
      res_bind (GenCheck ops t (tg_generation arg) s) (\<lambda>(st, s1).
      if st \<noteq> FALCON_SUCCESS then Inr (reply t g st s1)
      else res_bind (KillTarget ops t s1) (\<lambda>s2. Inr (reply t g FALCON_KILL_ACK s2))))"

definition DispatchGetGen ::
    "('l, 'c) layer_ops \<Rightarrow> target_t \<Rightarrow> ('l, 'c) enforcer \<Rightarrow> ('l, 'c) enforcer res" where
  "DispatchGetGen ops arg s =
     (let t = tg_handle arg in
      if InvalidTarget ops t s then Inr (reply t [] FALCON_UNKNOWN_TARGET s)
      else res_bind (UpdateGenerations ops t s) (\<lambda>s1.
           Inr (reply t (target_gen t s1) FALCON_GEN_RESP s1)))"

fun Dispatch ::
    "('l, 'c) layer_ops \<Rightarrow> spy_call \<Rightarrow> ('l, 'c) enforcer \<Rightarrow> ('l, 'c) enforcer res" where
  "Dispatch ops SPY_NULL s = Inr (emit OutReplyVoid s)"
| "Dispatch ops (SPY_REGISTER arg) s = DispatchRegister ops arg s"
| "Dispatch ops (SPY_CANCEL arg) s = DispatchCancel ops arg s"
| "Dispatch ops (SPY_KILL arg) s = DispatchKill ops arg s"
| "Dispatch ops (SPY_GET_GEN arg) s = DispatchGetGen ops arg s"

section \<open>Running a callback\<close>

fun run_callback ::
    "('l, 'c) layer_ops \<Rightarrow> ('c \<Rightarrow> clnt_stat \<Rightarrow> ('l, 'c) enforcer \<Rightarrow> ('l, 'c) enforcer res)
      \<Rightarrow> clnt_stat \<Rightarrow> 'c callback \<Rightarrow> ('l, 'c) enforcer \<Rightarrow> ('l, 'c) enforcer res" where
  "run_callback ops run_layer st (CbHeartbeatReply cl n) s =
     HandleClientHeartbeat (StopMonitoring ops) cl n st s"
| "run_callback ops run_layer st (CbDoHeartbeat cl n) s = Inr (DoHeartbeat cl n s)"
| "run_callback ops run_layer st (CbReportDown cl arg n) s =
     ReportDown (StopMonitoring ops) cl arg n st s"
| "run_callback ops run_layer st (CbAddToWaiting t cl) s = Inr (AddToWaiting t cl s)"
| "run_callback ops run_layer st (CbLayer c) s = run_layer c st s"

text \<open>The event loop takes a callback off its list, then runs it.\<close>

definition fire ::
    "('l, 'c) layer_ops \<Rightarrow> ('c \<Rightarrow> clnt_stat \<Rightarrow> ('l, 'c) enforcer \<Rightarrow> ('l, 'c) enforcer res)
      \<Rightarrow> 'c event \<Rightarrow> clnt_stat \<Rightarrow> ('l, 'c) enforcer \<Rightarrow> ('l, 'c) enforcer res" where
  "fire ops run_layer e st s =
     run_callback ops run_layer st (ev_cb e) (timecb_remove (ev_id e) s)"

end
