(* ===== verification/EnforcerInv.thy ===== *)
theory EnforcerInv
  imports EnforcerDefs
begin

text \<open>
  The invariant of the shared enforcer and the contract between it and a layer.  \<open>core_inv\<close> says
  that the client tables are well formed; \<open>same_core\<close> is what \<open>StopMonitoring\<close> must leave alone.
  The locales state the contract; each enforcer interprets them in its own theory.
\<close>

section \<open>The invariant\<close>

definition typed :: "('l, 'c) enforcer \<Rightarrow> cset \<Rightarrow> bool" where
  "typed s c \<longleftrightarrow> sm_ok c \<and> (\<forall>i r. sm_get c i = Some r \<longrightarrow> r < next_ref s \<and> cid s r = i)"

definition registered :: "('l, 'c) enforcer \<Rightarrow> str \<Rightarrow> cset \<Rightarrow> bool" where
  "registered s t c \<longleftrightarrow>
     (\<forall>i r. sm_get c i = Some r \<longrightarrow> sm_get (fc_up_intervals (heap s r)) t \<noteq> None)"

text \<open>A callback holds a client that exists, and its retry counter is in range.\<close>

fun cb_ok :: "('l, 'c) enforcer \<Rightarrow> 'c callback \<Rightarrow> bool" where
  "cb_ok s (CbHeartbeatReply r n) \<longleftrightarrow> r < next_ref s \<and> n \<le> kClientRetry"
| "cb_ok s (CbDoHeartbeat r n) \<longleftrightarrow> r < next_ref s \<and> n = 0"
| "cb_ok s (CbReportDown r a n) \<longleftrightarrow> r < next_ref s \<and> 0 < n \<and> n \<le> kMaxRetries"
| "cb_ok s (CbAddToWaiting t r) \<longleftrightarrow> r < next_ref s"
| "cb_ok s (CbLayer c) \<longleftrightarrow> True"

definition tables_ok :: "('l, 'c) enforcer \<Rightarrow> bool" where
  "tables_ok s \<longleftrightarrow>
     typed s (all_clients s) \<and>
     (\<forall>t. typed s (target_clients s t) \<and> registered s t (target_clients s t)) \<and>
     (\<forall>t. typed s (deadly s t) \<and> registered s t (deadly s t)) \<and>
     (\<forall>t. typed s (waiting_for_up s t)) \<and>
     (\<forall>r. sm_ok (fc_up_intervals (heap s r)))"

definition events_ok :: "('l, 'c) enforcer \<Rightarrow> bool" where
  "events_ok s \<longleftrightarrow>
     (\<forall>e \<in> set (pending s). cb_ok s (ev_cb e) \<and> ev_id e < next_id s) \<and>
     distinct (map ev_id (pending s))"

definition core_inv :: "('l, 'c) enforcer \<Rightarrow> bool" where
  "core_inv s \<longleftrightarrow> tables_ok s \<and> events_ok s"

definition same_core :: "('l, 'c) enforcer \<Rightarrow> ('l, 'c) enforcer \<Rightarrow> bool" where
  "same_core s s' \<longleftrightarrow>
     gen_vec s' = gen_vec s \<and> generations s' = generations s \<and> gen_log s' = gen_log s \<and>
     heap s' = heap s \<and> next_ref s' = next_ref s \<and> all_clients s' = all_clients s \<and>
     waiting_for_up s' = waiting_for_up s \<and> target_clients s' = target_clients s \<and>
     deadly s' = deadly s \<and> outbox s' = outbox s \<and> next_id s' = next_id s \<and>
     (\<exists>P. pending s' = filter P (pending s))"

lemma same_core_refl: "same_core s s"
  unfolding same_core_def by (simp, rule exI [of _ "\<lambda>_. True"], simp)

lemma same_core_trans: "same_core s t \<Longrightarrow> same_core t u \<Longrightarrow> same_core s u"
  unfolding same_core_def by (elim conjE exE, simp) blast

lemma cb_ok_mono: "cb_ok s cb \<Longrightarrow> next_ref s \<le> next_ref s' \<Longrightarrow> cb_ok s' cb"
  by (cases cb) auto

lemma same_core_inv: "same_core s s' \<Longrightarrow> core_inv s \<Longrightarrow> core_inv s'"
  unfolding same_core_def core_inv_def tables_ok_def events_ok_def typed_def registered_def
    cid_def
  by (elim conjE exE) (auto simp: distinct_map_filter intro: cb_ok_mono)

section \<open>How the small updates act on the invariant\<close>

lemma core_inv_emit [simp]: "core_inv (emit m s) = core_inv s"
proof -
  have "cb_ok (emit m s) = cb_ok s"
    by (rule ext, case_tac x) (simp_all add: emit_def)
  then show ?thesis
    by (simp add: core_inv_def tables_ok_def events_ok_def typed_def registered_def cid_def emit_def)
qed

lemma core_inv_reply [simp]: "core_inv (reply t g st s) = core_inv s"
  by (simp add: reply_def)

lemma cb_ok_cong: "next_ref s' = next_ref s \<Longrightarrow> cb_ok s' = cb_ok s"
  by (rule ext, case_tac x) simp_all

lemma core_inv_layer [simp]: "core_inv (s\<lparr>layer := l\<rparr>) = core_inv s"
  using cb_ok_cong [of "s\<lparr>layer := l\<rparr>" s]
  by (simp add: core_inv_def tables_ok_def events_ok_def typed_def registered_def cid_def)

lemma core_inv_gen [simp]: "core_inv (s\<lparr>generations := g\<rparr>) = core_inv s"
  using cb_ok_cong [of "s\<lparr>generations := g\<rparr>" s]
  by (simp add: core_inv_def tables_ok_def events_ok_def typed_def registered_def cid_def)

lemma core_inv_log [simp]: "core_inv (s\<lparr>gen_log := g\<rparr>) = core_inv s"
  using cb_ok_cong [of "s\<lparr>gen_log := g\<rparr>" s]
  by (simp add: core_inv_def tables_ok_def events_ok_def typed_def registered_def cid_def)

lemma core_inv_gen_vec [simp]: "core_inv (s\<lparr>gen_vec := g\<rparr>) = core_inv s"
  using cb_ok_cong [of "s\<lparr>gen_vec := g\<rparr>" s]
  by (simp add: core_inv_def tables_ok_def events_ok_def typed_def registered_def cid_def)

lemma core_inv_write [simp]: "core_inv (s\<lparr>log_write_ok := a\<rparr>) = core_inv s"
  using cb_ok_cong [of "s\<lparr>log_write_ok := a\<rparr>" s]
  by (simp add: core_inv_def tables_ok_def events_ok_def typed_def registered_def cid_def)

lemma core_inv_sync [simp]: "core_inv (s\<lparr>log_sync := a\<rparr>) = core_inv s"
  using cb_ok_cong [of "s\<lparr>log_sync := a\<rparr>" s]
  by (simp add: core_inv_def tables_ok_def events_ok_def typed_def registered_def cid_def)

lemma core_inv_sock [simp]: "core_inv (s\<lparr>sock_ok := a\<rparr>) = core_inv s"
  using cb_ok_cong [of "s\<lparr>sock_ok := a\<rparr>" s]
  by (simp add: core_inv_def tables_ok_def events_ok_def typed_def registered_def cid_def)

lemma core_inv_schedule:
  assumes "core_inv s" and "cb_ok s cb"
  shows "core_inv (schedule d cb s)"
proof -
  have "cb_ok (schedule d cb s) = cb_ok s"
    by (rule cb_ok_cong) (simp add: schedule_def)
  with assms show ?thesis
    by (auto simp: core_inv_def tables_ok_def events_ok_def typed_def registered_def cid_def
        schedule_def less_Suc_eq)
qed

lemma loop_frame [simp]:
  "next_ref (schedule d cb s) = next_ref s" "next_ref (emit m s) = next_ref s"
  "heap (schedule d cb s) = heap s" "heap (emit m s) = heap s"
  "target_clients (schedule d cb s) = target_clients s" "target_clients (emit m s) = target_clients s"
  "waiting_for_up (schedule d cb s) = waiting_for_up s" "waiting_for_up (emit m s) = waiting_for_up s"
  "deadly (schedule d cb s) = deadly s" "deadly (emit m s) = deadly s"
  "all_clients (schedule d cb s) = all_clients s" "all_clients (emit m s) = all_clients s"
  "generations (schedule d cb s) = generations s" "generations (emit m s) = generations s"
  "gen_vec (schedule d cb s) = gen_vec s" "gen_vec (emit m s) = gen_vec s"
  "gen_log (schedule d cb s) = gen_log s" "gen_log (emit m s) = gen_log s"
  "layer (schedule d cb s) = layer s" "layer (emit m s) = layer s"
  "outbox (schedule d cb s) = outbox s" "outbox (emit m s) = outbox s @ [m]"
  "pending (schedule d cb s) = pending s @ [Event (next_id s) d cb]" "pending (emit m s) = pending s"
  "next_id (schedule d cb s) = Suc (next_id s)" "next_id (emit m s) = next_id s"
  by (simp_all add: schedule_def emit_def)

lemma cb_ok_emit [simp]: "cb_ok (emit m s) = cb_ok s"
  by (rule cb_ok_cong) simp

lemma core_inv_timecb_remove [simp]: "core_inv s \<Longrightarrow> core_inv (timecb_remove i s)"
  by (rule same_core_inv [of s]) (auto simp: same_core_def timecb_remove_def)

text \<open>
  The tables may shrink, and a client may be added to them once it has an interval for the target.
\<close>

lemma typed_erase: "typed s c \<Longrightarrow> typed s (cs_erase s r c)"
  by (auto simp: typed_def cs_erase_def sm_ok_del split: if_splits)

lemma registered_erase: "registered s t c \<Longrightarrow> registered s t (cs_erase s r c)"
  by (auto simp: registered_def cs_erase_def split: if_splits)

lemma typed_insert: "typed s c \<Longrightarrow> r < next_ref s \<Longrightarrow> typed s (cs_insert s r c)"
  by (auto simp: typed_def cs_insert_def sm_ok_insert split: if_splits)

lemma registered_insert:
  "registered s t c \<Longrightarrow> sm_get (fc_up_intervals (heap s r)) t \<noteq> None \<Longrightarrow>
   registered s t (cs_insert s r c)"
  by (auto simp: registered_def cs_insert_def split: if_splits)

lemma typed_Nil [simp]: "typed s []" and registered_Nil [simp]: "registered s t []"
  by (simp_all add: typed_def registered_def)

text \<open>The invariant after any update of the three tables of a target, heap unchanged.\<close>

lemma core_inv_tables:
  assumes "core_inv s"
    and "typed s ac"
    and "\<And>t. typed s (tc t) \<and> registered s t (tc t)"
    and "\<And>t. typed s (dl t) \<and> registered s t (dl t)"
    and "\<And>t. typed s (wt t)"
  shows "core_inv (s\<lparr>all_clients := ac, waiting_for_up := wt, target_clients := tc, deadly := dl\<rparr>)"
    (is "core_inv ?s'")
proof -
  have "cb_ok ?s' = cb_ok s" by (rule cb_ok_cong) simp
  with assms show ?thesis
    by (simp add: core_inv_def tables_ok_def events_ok_def typed_def registered_def cid_def)
qed

lemma core_inv_simps:
  assumes "core_inv s"
  shows "typed s (all_clients s)" "typed s (target_clients s t)" "typed s (deadly s t)"
    "typed s (waiting_for_up s t)" "registered s t (target_clients s t)"
    "registered s t (deadly s t)" "sm_ok (fc_up_intervals (heap s r))"
  using assms by (simp_all add: core_inv_def tables_ok_def)

lemma core_inv_set_tc:
  assumes "core_inv s" and "typed s c" and "registered s t c"
  shows "core_inv (s\<lparr>target_clients := (target_clients s)(t := c)\<rparr>)"
  using core_inv_tables [OF assms(1), of "all_clients s" "(target_clients s)(t := c)" "deadly s"
      "waiting_for_up s"] assms core_inv_simps [OF assms(1)]
  by simp

lemma core_inv_set_dl:
  assumes "core_inv s" and "typed s c" and "registered s t c"
  shows "core_inv (s\<lparr>deadly := (deadly s)(t := c)\<rparr>)"
  using core_inv_tables [OF assms(1), of "all_clients s" "target_clients s" "(deadly s)(t := c)"
      "waiting_for_up s"] assms core_inv_simps [OF assms(1)]
  by simp

lemma core_inv_set_wf:
  assumes "core_inv s" and "typed s c"
  shows "core_inv (s\<lparr>waiting_for_up := (waiting_for_up s)(t := c)\<rparr>)"
  using core_inv_tables [OF assms(1), of "all_clients s" "target_clients s" "deadly s"
      "(waiting_for_up s)(t := c)"] assms core_inv_simps [OF assms(1)]
  by simp

lemma core_inv_set_ac:
  assumes "core_inv s" and "typed s c"
  shows "core_inv (s\<lparr>all_clients := c\<rparr>)"
  using core_inv_tables [OF assms(1), of c "target_clients s" "deadly s" "waiting_for_up s"]
    assms core_inv_simps [OF assms(1)]
  by simp

lemma core_inv_erase_tc_dl:
  assumes "core_inv s"
  shows "core_inv (s\<lparr>target_clients := (target_clients s)(t := cs_erase s c (target_clients s t)),
                    deadly := (deadly s)(t := cs_erase s c (deadly s t))\<rparr>)"
  using core_inv_tables [OF assms, of "all_clients s"
      "(target_clients s)(t := cs_erase s c (target_clients s t))"
      "(deadly s)(t := cs_erase s c (deadly s t))" "waiting_for_up s"]
    core_inv_simps [OF assms]
  by (simp add: typed_erase registered_erase)

lemma interval_frame [simp]:
  "next_ref (set_interval r t d s) = next_ref s" "next_ref (erase_interval r t s) = next_ref s"
  "all_clients (set_interval r t d s) = all_clients s"
  "all_clients (erase_interval r t s) = all_clients s"
  "target_clients (set_interval r t d s) = target_clients s"
  "target_clients (erase_interval r t s) = target_clients s"
  "deadly (set_interval r t d s) = deadly s" "deadly (erase_interval r t s) = deadly s"
  "waiting_for_up (set_interval r t d s) = waiting_for_up s"
  "waiting_for_up (erase_interval r t s) = waiting_for_up s"
  "pending (set_interval r t d s) = pending s" "pending (erase_interval r t s) = pending s"
  "next_id (set_interval r t d s) = next_id s" "next_id (erase_interval r t s) = next_id s"
  "layer (set_interval r t d s) = layer s" "layer (erase_interval r t s) = layer s"
  "outbox (set_interval r t d s) = outbox s" "outbox (erase_interval r t s) = outbox s"
  "generations (set_interval r t d s) = generations s"
  "generations (erase_interval r t s) = generations s"
  "gen_vec (set_interval r t d s) = gen_vec s" "gen_vec (erase_interval r t s) = gen_vec s"
  by (simp_all add: set_interval_def erase_interval_def)

lemma cid_set_interval [simp]: "cid (set_interval r t d s) = cid s"
  by (rule ext) (simp add: cid_def set_interval_def)

lemma cid_erase_interval [simp]: "cid (erase_interval r t s) = cid s"
  by (rule ext) (simp add: cid_def erase_interval_def)

lemma cid_tables [simp]:
  "cid (s\<lparr>target_clients := tc\<rparr>) = cid s" "cid (s\<lparr>deadly := tc\<rparr>) = cid s"
  "cid (s\<lparr>waiting_for_up := tc\<rparr>) = cid s" "cid (s\<lparr>all_clients := ac\<rparr>) = cid s"
  by (simp_all add: cid_def fun_eq_iff)

lemma intervals_set_interval:
  "fc_up_intervals (heap (set_interval r t d s) r') =
     (if r' = r then sm_put t d (fc_up_intervals (heap s r)) else fc_up_intervals (heap s r'))"
  by (simp add: set_interval_def)

lemma intervals_erase_interval:
  "fc_up_intervals (heap (erase_interval r t s) r') =
     (if r' = r then sm_del t (fc_up_intervals (heap s r)) else fc_up_intervals (heap s r'))"
  by (simp add: erase_interval_def)

lemma core_inv_set_interval:
  assumes "core_inv s"
  shows "core_inv (set_interval r t d s)"
proof -
  have cb: "cb_ok (set_interval r t d s) = cb_ok s"
    by (rule cb_ok_cong) simp
  have ty: "typed (set_interval r t d s) c = typed s c" for c
    by (simp add: typed_def)
  have re: "registered s t' c \<Longrightarrow> registered (set_interval r t d s) t' c" for t' c
    by (auto simp: registered_def intervals_set_interval)
  show ?thesis
    using assms unfolding core_inv_def tables_ok_def events_ok_def ty cb interval_frame
    by (auto simp: intervals_set_interval sm_ok_put intro: re)
qed

text \<open>
  Erasing the interval of a client for a target together with the client's place in the tables of
  that target keeps the invariant: another entry of these tables has another id, so it is another
  object.
\<close>

lemma cancel_client_inv:
  fixes s :: "('l, 'c) enforcer"
  assumes inv: "core_inv s"
  shows "core_inv (cancel_client t r s)" (is "core_inv ?s2")
proof -
  define s2 where "s2 = ?s2"
  have sel: "target_clients s2 = (target_clients s)(t := cs_erase s r (target_clients s t))"
    "deadly s2 = (deadly s)(t := cs_erase s r (deadly s t))"
    "all_clients s2 = all_clients s" "waiting_for_up s2 = waiting_for_up s"
    "pending s2 = pending s" "next_id s2 = next_id s" "next_ref s2 = next_ref s" "cid s2 = cid s"
    "\<And>r'. fc_up_intervals (heap s2 r') =
      (if r' = r then sm_del t (fc_up_intervals (heap s r)) else fc_up_intervals (heap s r'))"
    by (simp_all add: s2_def cancel_client_def Let_def cs_erase_def intervals_erase_interval)
  have cb: "cb_ok s2 = cb_ok s"
    by (rule cb_ok_cong) (rule sel)
  have ty: "typed s2 c = typed s c" for c
    by (simp add: typed_def sel)
  have re: "registered s t' c \<Longrightarrow> t' \<noteq> t \<Longrightarrow> registered s2 t' c" for t' c
    by (auto simp: registered_def sel)
  have re_t: "typed s c \<Longrightarrow> registered s t c \<Longrightarrow> registered s2 t (cs_erase s r c)" for c
    by (auto simp: registered_def typed_def cs_erase_def sel split: if_splits)
  have "core_inv s2"
    using inv unfolding core_inv_def tables_ok_def events_ok_def ty cb sel
    by (auto simp: sm_ok_del typed_erase intro!: re re_t)
  then show ?thesis by (simp add: s2_def)
qed

section \<open>The operations that need no layer\<close>

lemma DoHeartbeat_inv:
  "core_inv s \<Longrightarrow> r < next_ref s \<Longrightarrow> n \<le> kClientRetry \<Longrightarrow> core_inv (DoHeartbeat r n s)"
  unfolding DoHeartbeat_def by (rule core_inv_schedule) simp_all

lemma AddToWaiting_inv:
  "core_inv s \<Longrightarrow> r < next_ref s \<Longrightarrow> core_inv (AddToWaiting t r s)"
  by (simp add: AddToWaiting_def core_inv_set_wf typed_insert core_inv_simps)

lemma read_interval_inv:
  "core_inv s \<Longrightarrow> read_interval r t s = (d, s') \<Longrightarrow> core_inv s' \<and> next_ref s' = next_ref s"
  by (auto simp: read_interval_def core_inv_set_interval set_interval_def split: option.splits)
    (metis core_inv_set_interval set_interval_def)

lemma RepeatWaiting_inv:
  assumes "core_inv s" and "r < next_ref s"
  shows "core_inv (RepeatWaiting t r s)"
proof -
  obtain d s1 where r: "read_interval r t s = (d, s1)" by (cases "read_interval r t s")
  from read_interval_inv [OF assms(1) r] assms(2) show ?thesis
    by (simp add: RepeatWaiting_def r assms(1) AddToWaiting_inv core_inv_schedule)
qed

lemma AddToWaiting_frame [frame]:
  "next_ref (AddToWaiting t r s) = next_ref s" "target_clients (AddToWaiting t r s) = target_clients s"
  "deadly (AddToWaiting t r s) = deadly s" "layer (AddToWaiting t r s) = layer s"
  "all_clients (AddToWaiting t r s) = all_clients s" "generations (AddToWaiting t r s) = generations s"
  "gen_vec (AddToWaiting t r s) = gen_vec s" "outbox (AddToWaiting t r s) = outbox s"
  "heap (AddToWaiting t r s) = heap s" "pending (AddToWaiting t r s) = pending s"
  by (simp_all add: AddToWaiting_def)

lemma RepeatWaiting_frame [frame]:
  "next_ref (RepeatWaiting t r s) = next_ref s" "target_clients (RepeatWaiting t r s) = target_clients s"
  "deadly (RepeatWaiting t r s) = deadly s" "layer (RepeatWaiting t r s) = layer s"
  "all_clients (RepeatWaiting t r s) = all_clients s" "generations (RepeatWaiting t r s) = generations s"
  "gen_vec (RepeatWaiting t r s) = gen_vec s" "outbox (RepeatWaiting t r s) = outbox s"
  "cid (RepeatWaiting t r s) = cid s"
  by (simp_all add: RepeatWaiting_def read_interval_def schedule_def frame set_interval_def cid_def
      fun_eq_iff split: option.splits)

end
