(* ===== verification/EnforcerContract.thy ===== *)
theory EnforcerContract
  imports EnforcerInv
begin

text \<open>
  The contract between the shared enforcer and its layer, as locales.  \<open>stopper\<close> is what
  \<open>StopMonitoring\<close> promises; \<open>layer_contract\<close> adds that the other virtual methods keep the tables
  well formed; \<open>monitored_layer\<close> adds what it means that a target is being watched, from which the
  clients of the shared code get that a target with clients is watched.
\<close>

section \<open>StopMonitoring\<close>

locale stopper =
  fixes stop :: "str \<Rightarrow> ('l, 'c) enforcer \<Rightarrow> ('l, 'c) enforcer res"
  assumes stop_core: "stop t s = Inr s' \<Longrightarrow> same_core s s'"
begin

lemma stop_inv: "stop t s = Inr s' \<Longrightarrow> core_inv s \<Longrightarrow> core_inv s'"
  using stop_core same_core_inv by blast

lemma stop_target_clients: "stop t s = Inr s' \<Longrightarrow> target_clients s' = target_clients s"
  using stop_core [of t s s'] by (simp add: same_core_def)

lemma stop_next_ref: "stop t s = Inr s' \<Longrightarrow> next_ref s' = next_ref s"
  using stop_core [of t s s'] by (simp add: same_core_def)

lemma remove_from_target_inv:
  "remove_from_target stop c t s = Inr s' \<Longrightarrow> core_inv s \<Longrightarrow> core_inv s'"
  using core_inv_erase_tc_dl [of s t c]
  by (auto simp: remove_from_target_def Let_def split: if_splits dest: stop_inv)

lemma remove_from_target_frame:
  assumes "remove_from_target stop c t s = Inr s'"
  shows "next_ref s' = next_ref s" "heap s' = heap s" "generations s' = generations s"
    "gen_log s' = gen_log s" "outbox s' = outbox s" "gen_vec s' = gen_vec s"
    "all_clients s' = all_clients s"
    "target_clients s' = (target_clients s)(t := cs_erase s c (target_clients s t))"
    "deadly s' = (deadly s)(t := cs_erase s c (deadly s t))"
  using assms
  by (auto simp: remove_from_target_def Let_def same_core_def split: if_splits dest!: stop_core)

lemma remove_loop_inv:
  "res_fold (remove_from_target stop c) ts s = Inr s' \<Longrightarrow> core_inv s \<Longrightarrow> core_inv s'"
  by (erule res_fold_invariant [where P = core_inv]) (auto dest: remove_from_target_inv)

lemma remove_loop_frame:
  assumes "res_fold (remove_from_target stop c) ts s = Inr s'"
  shows "next_ref s' = next_ref s \<and> heap s' = heap s \<and> generations s' = generations s \<and>
    gen_log s' = gen_log s \<and> outbox s' = outbox s \<and> gen_vec s' = gen_vec s \<and>
    all_clients s' = all_clients s"
  by (rule res_fold_invariant [OF assms,
        where P = "\<lambda>u. next_ref u = next_ref s \<and> heap u = heap s \<and> generations u = generations s
          \<and> gen_log u = gen_log s \<and> outbox u = outbox s \<and> gen_vec u = gen_vec s
          \<and> all_clients u = all_clients s"])
    (auto simp: remove_from_target_frame)

lemma RemoveClient_inv: "RemoveClient stop c s = Inr s' \<Longrightarrow> core_inv s \<Longrightarrow> core_inv s'"
  unfolding RemoveClient_def Let_def
  by (erule remove_loop_inv) (simp add: core_inv_set_ac typed_erase core_inv_simps)

lemma RemoveClient_frame:
  assumes "RemoveClient stop c s = Inr s'"
  shows "next_ref s' = next_ref s" "heap s' = heap s" "generations s' = generations s"
    "gen_log s' = gen_log s" "outbox s' = outbox s" "gen_vec s' = gen_vec s"
    "all_clients s' = cs_erase s c (all_clients s)"
  using remove_loop_frame [OF assms [unfolded RemoveClient_def Let_def]] by simp_all

lemma remove_loop_tables:
  assumes "res_fold (remove_from_target stop c) ts s = Inr s'"
  shows "target_clients s' t =
      (if t \<in> set ts then cs_erase s c (target_clients s t) else target_clients s t) \<and>
    deadly s' t = (if t \<in> set ts then cs_erase s c (deadly s t) else deadly s t)"
  using assms
proof (induction ts arbitrary: s)
  case Nil
  then show ?case by simp
next
  case (Cons u ts)
  then obtain s1 where s1: "remove_from_target stop c u s = Inr s1"
    "res_fold (remove_from_target stop c) ts s1 = Inr s'" by auto
  have "cs_erase s1 c = cs_erase s c"
    using remove_from_target_frame(2) [OF s1(1)] by (simp add: cs_erase_def cid_def fun_eq_iff)
  moreover have "cs_erase s c (cs_erase s c m) = cs_erase s c m" for m
    by (simp add: cs_erase_def sm_del_def)
  ultimately show ?case
    using Cons.IH [OF s1(2)] remove_from_target_frame(8,9) [OF s1(1)] by auto
qed

text \<open>A client that is removed is in no table of any target.\<close>

lemma RemoveClient_gone:
  assumes "RemoveClient stop c s = Inr s'" and "core_inv s"
  shows "c \<notin> snd ` set (target_clients s' t)" and "c \<notin> snd ` set (deadly s' t)"
    and "sm_get (all_clients s') (cid s c) = None"
proof -
  let ?s1 = "s\<lparr>all_clients := cs_erase s c (all_clients s)\<rparr>"
  note tab = remove_loop_tables [OF assms(1) [unfolded RemoveClient_def Let_def], of t]
  have e: "cs_erase ?s1 c = cs_erase s c" by (simp add: cs_erase_def cid_def fun_eq_iff)
  have gone: "c \<notin> snd ` set (cs_erase s c m)" if "typed s m" for m
    using that by (force simp: typed_def cs_erase_def sm_ok_in_iff in_sm_del)
  have none: "c \<notin> snd ` set m" if "typed s m" "registered s t m"
    "t \<notin> set (sm_keys (fc_up_intervals (heap s c)))" for m
    using that by (force simp: typed_def registered_def sm_ok_in_iff sm_set_keys dom_def)
  note inv = core_inv_simps [OF assms(2)]
  show "c \<notin> snd ` set (target_clients s' t)"
    using tab gone [of "target_clients s t"] none [of "target_clients s t"] inv
    by (auto simp: e split: if_splits)
  show "c \<notin> snd ` set (deadly s' t)"
    using tab gone [of "deadly s t"] none [of "deadly s t"] inv
    by (auto simp: e split: if_splits)
  show "sm_get (all_clients s') (cid s c) = None"
    using RemoveClient_frame(7) [OF assms(1)] by (simp add: cs_erase_def)
qed

lemma HandleClientHeartbeat_inv:
  assumes "HandleClientHeartbeat stop cl n st s = Inr s'" and "core_inv s" and "cl < next_ref s"
  shows "core_inv s'"
  using assms
  by (auto simp: HandleClientHeartbeat_def core_inv_schedule DoHeartbeat_inv
      split: if_splits dest: RemoveClient_inv)

lemma ReportDown_inv:
  assumes "ReportDown stop cl arg n st s = Inr s'" and "core_inv s" and "cl < next_ref s"
    and "n \<le> kMaxRetries"
  shows "core_inv s'"
  using assms
  by (auto simp: ReportDown_def Let_def core_inv_schedule cancel_client_inv split: if_splits
      dest: RemoveClient_inv)

text \<open>The loop of \<open>ObserveDown\<close> only sends: with no retries yet, every turn is one call.\<close>

lemma observe_down_client_eq:
  "observe_down_client stop t st k w r s =
     Inr (schedule OnReply (CbReportDown r (down_arg t st k w r s) 1)
            (emit (OutDown r (down_arg t st k w r s)) s))"
  by (simp add: observe_down_client_def ReportDown_def kMaxRetries_def)

lemma observe_down_loop_total:
  "\<exists>s1. res_fold (observe_down_client stop t st k w) rs s = Inr s1"
  by (induction rs arbitrary: s) (simp_all add: observe_down_client_eq)

lemma observe_down_loop_inv:
  assumes "res_fold (observe_down_client stop t st k w) rs s = Inr s1" and "core_inv s"
    and "\<And>r. r \<in> set rs \<Longrightarrow> r < next_ref s"
  shows "core_inv s1 \<and> next_ref s1 = next_ref s"
  by (rule res_fold_invariant [OF assms(1), where P = "\<lambda>u. core_inv u \<and> next_ref u = next_ref s"])
    (auto simp: observe_down_client_eq assms kMaxRetries_def intro!: core_inv_schedule)

lemma IncrementGeneration_inv:
  "IncrementGeneration t s = Inr s' \<Longrightarrow> core_inv s' = core_inv s"
  by (auto simp: IncrementGeneration_def Let_def split: if_splits)

lemma in_target_lt: "core_inv s \<Longrightarrow> r \<in> snd ` set (target_clients s t) \<Longrightarrow> r < next_ref s"
  using core_inv_simps(2) [of s t] by (force simp: typed_def sm_ok_in_iff)

lemma ObserveDown_inv:
  assumes "ObserveDown stop t st k w s = Inr s'" and "core_inv s"
  shows "core_inv s'"
proof -
  from assms(1) obtain s1 s2 where
    s1: "res_fold (observe_down_client stop t st k w) (map snd (target_clients s t)) s = Inr s1"
    and s2: "IncrementGeneration t s1 = Inr s2"
    and s': "stop t (s2\<lparr>target_clients := (target_clients s2)(t := []),
                      waiting_for_up := (waiting_for_up s2)(t := [])\<rparr>) = Inr s'"
    by (auto simp: ObserveDown_def)
  have "core_inv s1"
    using observe_down_loop_inv [OF s1 assms(2)] in_target_lt [OF assms(2)] by auto
  with s2 have i2: "core_inv s2" by (simp add: IncrementGeneration_inv)
  have "core_inv (s2\<lparr>target_clients := (target_clients s2)(t := []),
                    waiting_for_up := (waiting_for_up s2)(t := [])\<rparr>)"
    using core_inv_set_wf [OF core_inv_set_tc [OF i2, of "[]" t], of "[]" t] by simp
  with s' show ?thesis by (rule stop_inv)
qed

end

text \<open>What a down report does to the layer is what \<open>StopMonitoring\<close> does to it.\<close>

lemma ObserveDown_stop:
  assumes "stopper stop" and "ObserveDown stop t st k w s = Inr s'"
  obtains u where "layer u = layer s" and "deadly u = deadly s" and "stop t u = Inr s'"
proof -
  from assms(2) obtain s1 s2 where
    s1: "res_fold (observe_down_client stop t st k w) (map snd (target_clients s t)) s = Inr s1"
    and s2: "IncrementGeneration t s1 = Inr s2"
    and s': "stop t (s2\<lparr>target_clients := (target_clients s2)(t := []),
                      waiting_for_up := (waiting_for_up s2)(t := [])\<rparr>) = Inr s'"
    by (auto simp: ObserveDown_def)
  have "layer s1 = layer s \<and> deadly s1 = deadly s"
    by (rule res_fold_invariant [OF s1, where P = "\<lambda>u. layer u = layer s \<and> deadly u = deadly s"])
      (auto simp: stopper.observe_down_client_eq [OF assms(1)])
  moreover have "layer s2 = layer s1 \<and> deadly s2 = deadly s1"
    using s2 by (auto simp: IncrementGeneration_def Let_def split: if_splits)
  ultimately show ?thesis using that [OF _ _ s'] by simp
qed

section \<open>Every virtual method keeps the tables\<close>

lemma ObserveUp_inv:
  assumes "core_inv s"
  shows "core_inv (ObserveUp t s)"
proof -
  let ?fc = "map snd (waiting_for_up s t)"
  let ?s1 = "s\<lparr>waiting_for_up := (waiting_for_up s)(t := [])\<rparr>"
  have lt: "r < next_ref s" if "r \<in> set ?fc" for r
    using that core_inv_simps(4) [OF assms, of t] by (force simp: typed_def sm_ok_in_iff)
  have s1: "core_inv ?s1" by (rule core_inv_set_wf [OF assms]) simp
  have loop: "core_inv u \<and> next_ref u = next_ref s \<Longrightarrow> set rs \<subseteq> set ?fc \<Longrightarrow>
      core_inv (fold (observe_up_client t) rs u)" for rs u
  proof (induction rs arbitrary: u)
    case Nil
    then show ?case by simp
  next
    case (Cons r rs)
    have "core_inv (observe_up_client t r u)"
      using Cons.prems lt [of r] by (simp add: observe_up_client_def RepeatWaiting_inv)
    moreover have "next_ref (observe_up_client t r u) = next_ref s"
      using Cons.prems by (simp add: observe_up_client_def frame)
    ultimately show ?case using Cons by simp
  qed
  have "core_inv (fold (observe_up_client t) ?fc ?s1)" by (rule loop) (simp_all add: s1)
  then show ?thesis by (simp add: ObserveUp_def Let_def)
qed

lemma observe_up_loop_frame:
  "layer (fold (observe_up_client t) rs u) = layer u \<and>
   target_clients (fold (observe_up_client t) rs u) = target_clients u \<and>
   deadly (fold (observe_up_client t) rs u) = deadly u \<and>
   generations (fold (observe_up_client t) rs u) = generations u"
  by (induction rs arbitrary: u) (simp_all add: observe_up_client_def frame)

lemma ObserveUp_frame [frame]:
  "layer (ObserveUp t s) = layer s" "target_clients (ObserveUp t s) = target_clients s"
  "deadly (ObserveUp t s) = deadly s" "generations (ObserveUp t s) = generations s"
  by (simp_all add: ObserveUp_def Let_def observe_up_loop_frame)

lemma ff_loop_inv: "ff_loop n t s = Inr s' \<Longrightarrow> core_inv s \<Longrightarrow> core_inv s'"
proof (induction n t s rule: ff_loop.induct)
  case (1 n t s)
  show ?case
  proof (cases "generations s t < n")
    case False
    with "1.prems" show ?thesis by (simp add: ff_loop.simps [of n t s])
  next
    case True
    with "1.prems"(1) obtain u where u: "IncrementGeneration t s = Inr u" "ff_loop n t u = Inr s'"
      by (auto simp: ff_loop.simps [of n t s] split: sum.splits)
    moreover from u(1) "1.prems"(2) have "core_inv u"
      by (auto simp: IncrementGeneration_def Let_def split: if_splits)
    ultimately show ?thesis using "1.IH" [OF True] by simp
  qed
qed

lemma FastForwardGeneration_inv:
  "FastForwardGeneration t n s = Inr s' \<Longrightarrow> core_inv s \<Longrightarrow> core_inv s'"
  unfolding FastForwardGeneration_def by (erule ff_loop_inv) simp

section \<open>A new client\<close>

lemma GetClient_table_inv:
  assumes "core_inv s"
  shows "core_inv (s\<lparr>heap := (heap s)(next_ref s :=
        \<lparr>fc_id = i, fc_up_intervals = [], fc_tag = tag\<rparr>),
      next_ref := Suc (next_ref s), all_clients := sm_put i (next_ref s) (all_clients s)\<rparr>)"
proof -
  define s1 where "s1 = s\<lparr>heap := (heap s)(next_ref s :=
      \<lparr>fc_id = i, fc_up_intervals = [], fc_tag = tag\<rparr>),
    next_ref := Suc (next_ref s), all_clients := sm_put i (next_ref s) (all_clients s)\<rparr>"
  have cb: "cb_ok s cb \<Longrightarrow> cb_ok s1 cb" for cb
    by (rule cb_ok_mono) (auto simp: s1_def)
  have sel: "target_clients s1 = target_clients s" "deadly s1 = deadly s"
    "waiting_for_up s1 = waiting_for_up s" "pending s1 = pending s" "next_id s1 = next_id s"
    "all_clients s1 = sm_put i (next_ref s) (all_clients s)" "next_ref s1 = Suc (next_ref s)"
    "\<And>r. r < next_ref s \<Longrightarrow> heap s1 r = heap s r" "\<And>r. r < next_ref s \<Longrightarrow> cid s1 r = cid s r"
    "cid s1 (next_ref s) = i"
    "\<And>r'. sm_ok (fc_up_intervals (heap s r')) \<Longrightarrow> sm_ok (fc_up_intervals (heap s1 r'))"
    by (auto simp: s1_def cid_def)
  have ty: "typed s c \<Longrightarrow> typed s1 c" for c
    by (auto simp: typed_def sel less_Suc_eq)
  have re: "typed s c \<Longrightarrow> registered s t c \<Longrightarrow> registered s1 t c" for t c
    by (auto simp: registered_def typed_def sel)
  have "typed s1 (all_clients s1)"
    using core_inv_simps(1) [OF assms] by (auto simp: typed_def sel sm_ok_put less_Suc_eq)
  then have "core_inv s1"
    using assms unfolding core_inv_def tables_ok_def events_ok_def sel(1-5)
    by (auto intro: ty re cb sel(11))
  then show ?thesis by (simp add: s1_def)
qed

lemma GetClient_inv:
  assumes "GetClient a s = Inr (r, s')" and "core_inv s"
  shows "core_inv s'" and "r < next_ref s'" and "cid s' r = client_id_of a"
proof -
  let ?i = "client_id_of a"
  have "core_inv s' \<and> r < next_ref s' \<and> cid s' r = ?i"
  proof (cases "sm_get (all_clients s) ?i")
    case (Some r')
    with assms core_inv_simps(1) [OF assms(2)] show ?thesis
      by (auto simp: GetClient_def Let_def typed_def)
  next
    case None
    define s1 where "s1 = s\<lparr>heap := (heap s)(next_ref s :=
        \<lparr>fc_id = ?i, fc_up_intervals = [], fc_tag = ca_tag a\<rparr>),
      next_ref := Suc (next_ref s), all_clients := sm_put ?i (next_ref s) (all_clients s)\<rparr>"
    from None assms(1) have eq: "r = next_ref s" "s' = DoHeartbeat r 0 s1"
      by (auto simp: GetClient_def Let_def s1_def split: if_splits)
    have "core_inv s1" unfolding s1_def by (rule GetClient_table_inv [OF assms(2)])
    then have "core_inv s'"
      unfolding eq by (rule DoHeartbeat_inv) (simp_all add: s1_def)
    then show ?thesis by (simp add: eq s1_def DoHeartbeat_def cid_def)
  qed
  then show "core_inv s'" and "r < next_ref s'" and "cid s' r = client_id_of a" by blast+
qed

section \<open>The shared code with a layer\<close>

locale layer_contract = stopper "StopMonitoring ops"
  for ops :: "('l, 'c) layer_ops" +
  fixes run_layer :: "'c \<Rightarrow> clnt_stat \<Rightarrow> ('l, 'c) enforcer \<Rightarrow> ('l, 'c) enforcer res"
  assumes start_inv: "core_inv s \<Longrightarrow> StartMonitoring ops t s = Inr s' \<Longrightarrow> core_inv s'"
    and kill_inv: "core_inv s \<Longrightarrow> KillTarget ops t s = Inr s' \<Longrightarrow> core_inv s'"
    and update_inv: "core_inv s \<Longrightarrow> UpdateGenerations ops t s = Inr s' \<Longrightarrow> core_inv s'"
    and layer_inv: "core_inv s \<Longrightarrow> run_layer c st s = Inr s' \<Longrightarrow> core_inv s'"
begin

lemma GenCheck_inv: "GenCheck ops t q s = Inr (st, s') \<Longrightarrow> core_inv s \<Longrightarrow> core_inv s'"
  by (auto simp: GenCheck_def Let_def dest: update_inv)

lemma register_client_inv:
  assumes "core_inv s" and "cl < next_ref s"
  shows "core_inv (register_client arg cl s)"
proof -
  define t where "t = tg_handle (ra_target arg)"
  define u where "u = set_interval cl t (ra_up_interval_ms arg) s"
  define s4 where "s4 = set_interval cl t (ra_up_interval_ms arg)
    (s\<lparr>target_clients := (target_clients s)(t := cs_insert s cl (target_clients s t))\<rparr>)"
  define s5 where "s5 = RepeatWaiting t cl s4"
  have u: "core_inv u" unfolding u_def using assms(1) by (rule core_inv_set_interval)
  have ut: "sm_get (fc_up_intervals (heap u cl)) t \<noteq> None" "next_ref u = next_ref s"
    by (simp_all add: u_def intervals_set_interval)
  have "s4 = u\<lparr>target_clients := (target_clients u)(t := cs_insert u cl (target_clients u t))\<rparr>"
    by (simp add: s4_def u_def set_interval_def cs_insert_def cid_def)
  moreover have "core_inv \<dots>"
    by (rule core_inv_set_tc [OF u])
      (simp_all add: typed_insert registered_insert core_inv_simps [OF u] ut assms(2))
  ultimately have s4: "core_inv s4" by simp
  have n4: "next_ref s4 = next_ref s" by (simp add: s4_def)
  have s5: "core_inv s5" unfolding s5_def using s4 by (rule RepeatWaiting_inv) (simp add: n4 assms(2))
  have n5: "next_ref s5 = next_ref s" by (simp add: s5_def frame n4)
  have "sm_get (fc_up_intervals (heap s5 cl)) t \<noteq> None"
    by (auto simp: s5_def RepeatWaiting_def read_interval_def s4_def intervals_set_interval frame
        split: option.splits)
  then have "core_inv (s5\<lparr>deadly := (deadly s5)(t := cs_insert s5 cl (deadly s5 t))\<rparr>)"
    by (intro core_inv_set_dl [OF s5] typed_insert registered_insert core_inv_simps [OF s5])
      (simp_all add: n5 assms(2))
  with s5 show ?thesis
    by (simp add: register_client_def Let_def t_def [symmetric] s4_def [symmetric] s5_def [symmetric])
qed

lemma DispatchRegister_inv:
  assumes "DispatchRegister ops arg s = Inr s'" and "core_inv s"
  shows "core_inv s'"
proof -
  let ?t = "tg_handle (ra_target arg)"
  from assms(1) obtain st s1 where g: "GenCheck ops ?t (tg_generation (ra_target arg)) s = Inr (st, s1)"
    and r: "st \<noteq> FALCON_SUCCESS \<longrightarrow> s' = reply ?t (target_gen ?t s) st s1"
      "st = FALCON_SUCCESS \<longrightarrow> (\<exists>cl s2 s4. GetClient (ra_client arg) s1 = Inr (cl, s2) \<and>
        (StartMonitoring ops ?t (register_client arg cl s2) = Inr s4 \<or>
         s4 = register_client arg cl s2) \<and>
        s' = reply ?t (target_gen ?t s) FALCON_REGISTER_ACK s4)"
    by (auto simp: DispatchRegister_def Let_def split: if_splits) blast+
  from g assms(2) have s1: "core_inv s1" by (rule GenCheck_inv)
  show ?thesis
  proof (cases "st = FALCON_SUCCESS")
    case False
    with r(1) s1 show ?thesis by simp
  next
    case True
    with r(2) obtain cl s2 s4 where c: "GetClient (ra_client arg) s1 = Inr (cl, s2)"
      and s4: "StartMonitoring ops ?t (register_client arg cl s2) = Inr s4 \<or>
         s4 = register_client arg cl s2"
      and s': "s' = reply ?t (target_gen ?t s) FALCON_REGISTER_ACK s4" by blast
    have "core_inv (register_client arg cl s2)"
      using GetClient_inv(1,2) [OF c s1] by (rule register_client_inv)
    with s4 have "core_inv s4" by (auto dest: start_inv)
    with s' show ?thesis by simp
  qed
qed

lemma DispatchCancel_inv:
  assumes "DispatchCancel ops arg s = Inr s'" and "core_inv s"
  shows "core_inv s'"
proof -
  let ?t = "tg_handle (xa_target arg)"
  from assms(1) obtain st s1 where g: "GenCheck ops ?t (tg_generation (xa_target arg)) s = Inr (st, s1)"
    and r: "st \<noteq> FALCON_SUCCESS \<longrightarrow> s' = reply ?t (target_gen ?t s) st s1"
      "st = FALCON_SUCCESS \<longrightarrow> (\<exists>cl s2. GetClient (xa_client arg) s1 = Inr (cl, s2) \<and>
        (s' = reply ?t (target_gen ?t s) FALCON_CANCEL_ERROR s2 \<or>
         (\<exists>s4 s5. (StopMonitoring ops ?t (cancel_client ?t cl s2) = Inr s4 \<or>
                  s4 = cancel_client ?t cl s2) \<and>
                 (RemoveClient (StopMonitoring ops) cl s4 = Inr s5 \<or> s5 = s4) \<and>
                 s' = reply ?t (target_gen ?t s) FALCON_CANCEL_ACK s5)))"
    by (auto simp: DispatchCancel_def Let_def split: if_splits) blast+
  from g assms(2) have s1: "core_inv s1" by (rule GenCheck_inv)
  show ?thesis
  proof (cases "st = FALCON_SUCCESS")
    case False
    with r(1) s1 show ?thesis by simp
  next
    case True
    with r(2) obtain cl s2 where c: "GetClient (xa_client arg) s1 = Inr (cl, s2)"
      and s': "s' = reply ?t (target_gen ?t s) FALCON_CANCEL_ERROR s2 \<or>
         (\<exists>s4 s5. (StopMonitoring ops ?t (cancel_client ?t cl s2) = Inr s4 \<or>
                  s4 = cancel_client ?t cl s2) \<and>
                 (RemoveClient (StopMonitoring ops) cl s4 = Inr s5 \<or> s5 = s4) \<and>
                 s' = reply ?t (target_gen ?t s) FALCON_CANCEL_ACK s5)"
      by blast
    have s2: "core_inv s2" by (rule GetClient_inv(1) [OF c s1])
    then have "core_inv (cancel_client ?t cl s2)" by (rule cancel_client_inv)
    with s' s2 show ?thesis by (auto dest!: stop_inv RemoveClient_inv)
  qed
qed

lemma DispatchKill_inv:
  assumes "DispatchKill ops arg s = Inr s'" and "core_inv s"
  shows "core_inv s'"
proof -
  from assms(1) obtain st s1 where "GenCheck ops (tg_handle arg) (tg_generation arg) s = Inr (st, s1)"
    and r: "s' = reply (tg_handle arg) (target_gen (tg_handle arg) s) st s1 \<or>
      (\<exists>s2. KillTarget ops (tg_handle arg) s1 = Inr s2 \<and>
        s' = reply (tg_handle arg) (target_gen (tg_handle arg) s) FALCON_KILL_ACK s2)"
    by (auto simp: DispatchKill_def Let_def split: if_splits)
  then have "core_inv s1" using assms(2) by (blast intro: GenCheck_inv)
  with r show ?thesis by (auto intro: kill_inv)
qed

lemma DispatchGetGen_inv:
  "DispatchGetGen ops arg s = Inr s' \<Longrightarrow> core_inv s \<Longrightarrow> core_inv s'"
  by (auto simp: DispatchGetGen_def Let_def split: if_splits intro: update_inv)

lemma Dispatch_inv: "Dispatch ops c s = Inr s' \<Longrightarrow> core_inv s \<Longrightarrow> core_inv s'"
  by (cases c)
    (auto dest: DispatchRegister_inv DispatchCancel_inv DispatchKill_inv DispatchGetGen_inv)

lemma fire_inv:
  assumes "fire ops run_layer e st s = Inr s'" and "e \<in> set (pending s)" and "core_inv s"
  shows "core_inv s'"
proof -
  let ?s = "timecb_remove (ev_id e) s"
  have s: "core_inv ?s" using assms(3) by (rule core_inv_timecb_remove)
  have ok: "cb_ok ?s (ev_cb e)"
    using assms(2,3) cb_ok_cong [of ?s s]
    by (simp add: core_inv_def events_ok_def timecb_remove_def)
  show ?thesis
    using assms(1) s ok
    by (cases "ev_cb e")
      (auto simp: fire_def DoHeartbeat_inv AddToWaiting_inv
        intro: HandleClientHeartbeat_inv ReportDown_inv layer_inv)
qed

end

section \<open>Targets with clients are watched\<close>

text \<open>
  \<open>mon t l\<close> says that the layer \<open>l\<close> is watching the target \<open>t\<close>, \<open>linv\<close> is the layer's own
  invariant.  \<open>watched\<close>: nobody waits for news of a target that nobody looks at.
\<close>

definition watched :: "(str \<Rightarrow> 'l \<Rightarrow> bool) \<Rightarrow> ('l, 'c) enforcer \<Rightarrow> bool" where
  "watched mon s \<longleftrightarrow> (\<forall>t. target_clients s t \<noteq> [] \<longrightarrow> mon t (layer s))"

definition watched_but :: "(str \<Rightarrow> 'l \<Rightarrow> bool) \<Rightarrow> str \<Rightarrow> ('l, 'c) enforcer \<Rightarrow> bool" where
  "watched_but mon t s \<longleftrightarrow> (\<forall>t'. t' \<noteq> t \<longrightarrow> target_clients s t' \<noteq> [] \<longrightarrow> mon t' (layer s))"

lemma watched_watched_but: "watched mon s \<Longrightarrow> watched_but mon t s"
  by (simp add: watched_def watched_but_def)

lemma watched_emit [simp]: "watched mon (emit m s) = watched mon s"
  by (simp add: watched_def)

lemma watched_reply [simp]: "watched mon (reply t g st s) = watched mon s"
  by (simp add: reply_def)

lemma watched_schedule [simp]: "watched mon (schedule d cb s) = watched mon s"
  by (simp add: watched_def)

lemma cs_erase_Nil [simp]: "cs_erase s r [] = []"
  by (simp add: cs_erase_def sm_del_def)

lemma cs_erase_not_Nil: "cs_erase s r c \<noteq> [] \<Longrightarrow> c \<noteq> []"
  by auto

lemma GetClient_frame:
  assumes "GetClient a s = Inr (r, s')"
  shows "layer s' = layer s" and "target_clients s' = target_clients s" and "deadly s' = deadly s"
    and "generations s' = generations s" and "gen_vec s' = gen_vec s"
proof -
  have "layer s' = layer s \<and> target_clients s' = target_clients s \<and> deadly s' = deadly s \<and>
    generations s' = generations s \<and> gen_vec s' = gen_vec s"
  proof (cases "sm_get (all_clients s) (client_id_of a)")
    case None
    with assms show ?thesis by (cases "sock_ok s") (auto simp: GetClient_def Let_def DoHeartbeat_def)
  next
    case (Some x)
    with assms show ?thesis by (simp add: GetClient_def Let_def)
  qed
  then show "layer s' = layer s" and "target_clients s' = target_clients s"
    and "deadly s' = deadly s" and "generations s' = generations s" and "gen_vec s' = gen_vec s"
    by simp_all
qed

locale monitored_stopper = stopper stop
  for stop :: "str \<Rightarrow> ('l, 'c) enforcer \<Rightarrow> ('l, 'c) enforcer res" +
  fixes linv :: "'l \<Rightarrow> bool" and mon :: "str \<Rightarrow> 'l \<Rightarrow> bool"
  assumes stop_linv: "linv (layer s) \<Longrightarrow> stop t s = Inr s' \<Longrightarrow> linv (layer s')"
    and stop_mon: "linv (layer s) \<Longrightarrow> stop t s = Inr s' \<Longrightarrow> t' \<noteq> t \<Longrightarrow> mon t' (layer s) \<Longrightarrow>
      mon t' (layer s')"
begin

lemma stop_watched:
  assumes "stop t s = Inr s'" and "linv (layer s)" and "watched_but mon t s"
    and "target_clients s t = []"
  shows "watched mon s' \<and> linv (layer s')"
  using assms stop_target_clients [OF assms(1)] stop_linv stop_mon
  unfolding watched_def watched_but_def by metis

lemma remove_from_target_watched:
  assumes "remove_from_target stop c t s = Inr s'" and "linv (layer s) \<and> watched mon s"
  shows "linv (layer s') \<and> watched mon s'"
proof -
  let ?s1 = "s\<lparr>target_clients := (target_clients s)(t := cs_erase s c (target_clients s t)),
                 deadly := (deadly s)(t := cs_erase s c (deadly s t))\<rparr>"
  have w: "watched_but mon t ?s1" "target_clients ?s1 t \<noteq> [] \<longrightarrow> watched mon ?s1" "linv (layer ?s1)"
    using assms(2) by (auto simp: watched_def watched_but_def dest: cs_erase_not_Nil)
  show ?thesis
    using assms(1) w stop_watched [of t ?s1 s']
    by (auto simp: remove_from_target_def Let_def split: if_splits)
qed

lemma RemoveClient_watched:
  assumes "RemoveClient stop c s = Inr s'" and "linv (layer s)" and "watched mon s"
  shows "linv (layer s') \<and> watched mon s'"
  by (rule res_fold_invariant [OF assms(1) [unfolded RemoveClient_def Let_def],
        where P = "\<lambda>u. linv (layer u) \<and> watched mon u"])
    (use assms(2,3) remove_from_target_watched in \<open>auto simp: watched_def\<close>)

lemma HandleClientHeartbeat_watched:
  assumes "HandleClientHeartbeat stop cl n st s = Inr s'" and "linv (layer s)" and "watched mon s"
  shows "linv (layer s') \<and> watched mon s'"
  using assms RemoveClient_watched
  by (auto simp: HandleClientHeartbeat_def DoHeartbeat_def split: if_splits)

lemma cancel_client_watched:
  assumes "watched mon s"
  shows "watched mon (cancel_client t cl s)" and "layer (cancel_client t cl s) = layer s"
  using assms by (auto simp: cancel_client_def Let_def watched_def dest: cs_erase_not_Nil)

lemma ReportDown_watched:
  assumes "ReportDown stop cl arg n st s = Inr s'" and "linv (layer s)" and "watched mon s"
  shows "linv (layer s') \<and> watched mon s'"
  using assms RemoveClient_watched [of cl "cancel_client (dn_handle arg) cl s" s']
    RemoveClient_watched [of cl s s'] cancel_client_watched [OF assms(3), of "dn_handle arg" cl]
  by (auto simp: ReportDown_def Let_def split: if_splits)

lemma observe_down_loop_frame:
  assumes "res_fold (observe_down_client stop t st k w) rs s = Inr s1"
  shows "layer s1 = layer s \<and> target_clients s1 = target_clients s \<and>
    generations s1 = generations s \<and> deadly s1 = deadly s \<and> heap s1 = heap s \<and>
    all_clients s1 = all_clients s"
  by (rule res_fold_invariant [OF assms, where P = "\<lambda>u. layer u = layer s \<and>
        target_clients u = target_clients s \<and> generations u = generations s \<and>
        deadly u = deadly s \<and> heap u = heap s \<and> all_clients u = all_clients s"])
    (auto simp: observe_down_client_eq)

lemma IncrementGeneration_frame:
  assumes "IncrementGeneration t s = Inr s'"
  shows "layer s' = layer s \<and> target_clients s' = target_clients s \<and> deadly s' = deadly s \<and>
    pending s' = pending s \<and> heap s' = heap s \<and> waiting_for_up s' = waiting_for_up s"
  using assms by (auto simp: IncrementGeneration_def Let_def split: if_splits)

text \<open>The down report of \<open>t\<close> needs the other targets only to be watched.\<close>

lemma ObserveDown_watched:
  assumes "ObserveDown stop t st k w s = Inr s'" and "linv (layer s)" and "watched_but mon t s"
  shows "linv (layer s') \<and> watched mon s' \<and> target_clients s' t = []"
proof -
  from assms(1) obtain s1 s2 where
    s1: "res_fold (observe_down_client stop t st k w) (map snd (target_clients s t)) s = Inr s1"
    and s2: "IncrementGeneration t s1 = Inr s2"
    and s': "stop t (s2\<lparr>target_clients := (target_clients s2)(t := []),
                      waiting_for_up := (waiting_for_up s2)(t := [])\<rparr>) = Inr s'"
    by (auto simp: ObserveDown_def)
  have "layer s2 = layer s" "target_clients s2 = target_clients s"
    using observe_down_loop_frame [OF s1] IncrementGeneration_frame [OF s2] by simp_all
  with assms(2,3) stop_watched [OF s'] stop_target_clients [OF s'] show ?thesis
    by (auto simp: watched_but_def)
qed

end

locale monitored_layer =
  layer_contract ops run_layer + monitored_stopper "StopMonitoring ops" linv mon
  for ops :: "('l, 'c) layer_ops"
    and run_layer :: "'c \<Rightarrow> clnt_stat \<Rightarrow> ('l, 'c) enforcer \<Rightarrow> ('l, 'c) enforcer res"
    and linv :: "'l \<Rightarrow> bool" and mon :: "str \<Rightarrow> 'l \<Rightarrow> bool" +
  assumes start_mon: "linv (layer s) \<Longrightarrow> watched_but mon t s \<Longrightarrow> StartMonitoring ops t s = Inr s' \<Longrightarrow>
      linv (layer s') \<and> watched mon s'"
    and kill_mon: "linv (layer s) \<Longrightarrow> watched mon s \<Longrightarrow> KillTarget ops t s = Inr s' \<Longrightarrow>
      linv (layer s') \<and> watched mon s'"
    and update_mon: "linv (layer s) \<Longrightarrow> watched mon s \<Longrightarrow> UpdateGenerations ops t s = Inr s' \<Longrightarrow>
      linv (layer s') \<and> watched mon s'"
    and layer_mon: "linv (layer s) \<Longrightarrow> watched mon s \<Longrightarrow> run_layer c st s = Inr s' \<Longrightarrow>
      linv (layer s') \<and> watched mon s'"
begin

lemma GenCheck_watched:
  "GenCheck ops t q s = Inr (st, s') \<Longrightarrow> linv (layer s) \<Longrightarrow> watched mon s \<Longrightarrow>
   linv (layer s') \<and> watched mon s'"
  using update_mon [of s t s'] by (auto simp: GenCheck_def Let_def)

lemma GetClient_watched:
  assumes "GetClient a s = Inr (r, s')" and "linv (layer s)" and "watched mon s"
  shows "linv (layer s') \<and> watched mon s'"
  using GetClient_frame [OF assms(1)] assms(2,3) by (simp add: watched_def)

lemma register_client_frame:
  "layer (register_client arg cl s) = layer s"
  "target_clients (register_client arg cl s) =
     (target_clients s)(tg_handle (ra_target arg) :=
       cs_insert s cl (target_clients s (tg_handle (ra_target arg))))"
  by (simp_all add: register_client_def Let_def frame)

text \<open>
  A client that joins a watched target leaves it watched; the first client of a target is the one
  for whom the monitoring is started.
\<close>

lemma register_watched:
  fixes arg :: spy_register_arg
  defines "t \<equiv> tg_handle (ra_target arg)"
  assumes "linv (layer s)" and "watched mon s"
    and "(if length (target_clients (register_client arg cl s) t) = 1 \<and>
              \<not> cs_count (target_clients s t) s cl
          then StartMonitoring ops t (register_client arg cl s)
          else Inr (register_client arg cl s)) = Inr s'"
  shows "linv (layer s') \<and> watched mon s'"
proof -
  let ?s3 = "register_client arg cl s"
  have but: "watched_but mon t ?s3" "linv (layer ?s3)"
    using assms(2,3) by (auto simp: watched_def watched_but_def register_client_frame t_def)
  show ?thesis
  proof (cases "length (target_clients ?s3 t) = 1 \<and> \<not> cs_count (target_clients s t) s cl")
    case True
    with assms(4) but show ?thesis using start_mon by auto
  next
    case False
    have "target_clients s t \<noteq> []"
    proof
      assume e: "target_clients s t = []"
      then have "\<not> cs_count (target_clients s t) s cl" by (simp add: cs_count_def)
      moreover have "length (target_clients ?s3 t) = 1"
        by (simp add: register_client_frame t_def [symmetric] e cs_insert_def sm_insert_def)
      ultimately show False using False by simp
    qed
    then have "mon t (layer s)" using assms(3) by (simp add: watched_def)
    with False assms(4) but show ?thesis
      by (auto simp: watched_def watched_but_def register_client_frame t_def split: if_splits)
  qed
qed

lemma Dispatch_watched:
  assumes "Dispatch ops c s = Inr s'" and "linv (layer s)" and "watched mon s"
  shows "linv (layer s') \<and> watched mon s'"
proof (cases c)
  case SPY_NULL
  with assms show ?thesis by auto
next
  case (SPY_REGISTER arg)
  let ?t = "tg_handle (ra_target arg)"
  from assms(1) SPY_REGISTER obtain st s1 where
    g: "GenCheck ops ?t (tg_generation (ra_target arg)) s = Inr (st, s1)"
    and r: "s' = reply ?t (target_gen ?t s) st s1 \<or>
      (\<exists>cl s2 s4. GetClient (ra_client arg) s1 = Inr (cl, s2) \<and>
        (if length (target_clients (register_client arg cl s2) ?t) = 1 \<and>
              \<not> cs_count (target_clients s2 ?t) s2 cl
          then StartMonitoring ops ?t (register_client arg cl s2)
          else Inr (register_client arg cl s2)) = Inr s4 \<and>
        s' = reply ?t (target_gen ?t s) FALCON_REGISTER_ACK s4)"
    by (auto simp: DispatchRegister_def Let_def split: if_splits; blast)
  note s1 = GenCheck_watched [OF g assms(2,3)]
  show ?thesis using r
  proof (elim disjE exE conjE)
    assume "s' = reply ?t (target_gen ?t s) st s1"
    with s1 show ?thesis by (simp add: reply_def)
  next
    fix cl s2 s4
    assume c: "GetClient (ra_client arg) s1 = Inr (cl, s2)"
      and s4: "(if length (target_clients (register_client arg cl s2) ?t) = 1 \<and>
              \<not> cs_count (target_clients s2 ?t) s2 cl
          then StartMonitoring ops ?t (register_client arg cl s2)
          else Inr (register_client arg cl s2)) = Inr s4"
      and s': "s' = reply ?t (target_gen ?t s) FALCON_REGISTER_ACK s4"
    note w = GetClient_watched [OF c conjunct1 [OF s1] conjunct2 [OF s1]]
    have "linv (layer s4) \<and> watched mon s4"
      by (rule register_watched [OF conjunct1 [OF w] conjunct2 [OF w] s4])
    with s' show ?thesis by (simp add: reply_def)
  qed
next
  case (SPY_CANCEL arg)
  let ?t = "tg_handle (xa_target arg)"
  from assms(1) SPY_CANCEL obtain st s1 where
    g: "GenCheck ops ?t (tg_generation (xa_target arg)) s = Inr (st, s1)"
    and r: "s' = reply ?t (target_gen ?t s) st s1 \<or>
      (\<exists>cl s2. GetClient (xa_client arg) s1 = Inr (cl, s2) \<and>
        (s' = reply ?t (target_gen ?t s) FALCON_CANCEL_ERROR s2 \<or>
         (\<exists>s4 s5. (if target_clients (cancel_client ?t cl s2) ?t = []
                  then StopMonitoring ops ?t (cancel_client ?t cl s2)
                  else Inr (cancel_client ?t cl s2)) = Inr s4 \<and>
                 (if fc_up_intervals (heap s4 cl) = []
                  then RemoveClient (StopMonitoring ops) cl s4 else Inr s4) = Inr s5 \<and>
                 s' = reply ?t (target_gen ?t s) FALCON_CANCEL_ACK s5)))"
    by (auto simp: DispatchCancel_def Let_def split: if_splits; blast)
  note s1 = GenCheck_watched [OF g assms(2,3)]
  show ?thesis using r
  proof (elim disjE exE conjE)
    assume "s' = reply ?t (target_gen ?t s) st s1"
    with s1 show ?thesis by (simp add: reply_def)
  next
    fix cl s2
    assume "GetClient (xa_client arg) s1 = Inr (cl, s2)"
      and "s' = reply ?t (target_gen ?t s) FALCON_CANCEL_ERROR s2"
    with s1 GetClient_watched [of _ s1 cl s2] show ?thesis by (auto simp: reply_def)
  next
    fix cl s2 s4 s5
    assume c: "GetClient (xa_client arg) s1 = Inr (cl, s2)"
      and s4: "(if target_clients (cancel_client ?t cl s2) ?t = []
                  then StopMonitoring ops ?t (cancel_client ?t cl s2)
                  else Inr (cancel_client ?t cl s2)) = Inr s4"
      and s5: "(if fc_up_intervals (heap s4 cl) = []
                  then RemoveClient (StopMonitoring ops) cl s4 else Inr s4) = Inr s5"
      and s': "s' = reply ?t (target_gen ?t s) FALCON_CANCEL_ACK s5"
    note w = GetClient_watched [OF c conjunct1 [OF s1] conjunct2 [OF s1]]
    have "linv (layer s4) \<and> watched mon s4"
      using s4 w cancel_client_watched [of s2 ?t cl]
        stop_watched [of ?t "cancel_client ?t cl s2" s4]
        watched_watched_but [of mon "cancel_client ?t cl s2" ?t]
      by (auto split: if_splits)
    with s5 have "linv (layer s5) \<and> watched mon s5"
      using RemoveClient_watched [of cl s4 s5] by (auto split: if_splits)
    with s' show ?thesis by (simp add: reply_def)
  qed
next
  case (SPY_KILL arg)
  from assms(1) SPY_KILL obtain st s1 where
    g: "GenCheck ops (tg_handle arg) (tg_generation arg) s = Inr (st, s1)"
    and r: "s' = reply (tg_handle arg) (target_gen (tg_handle arg) s) st s1 \<or>
      (\<exists>s2. KillTarget ops (tg_handle arg) s1 = Inr s2 \<and>
        s' = reply (tg_handle arg) (target_gen (tg_handle arg) s) FALCON_KILL_ACK s2)"
    by (auto simp: DispatchKill_def Let_def split: if_splits)
  from GenCheck_watched [OF g assms(2,3)] r show ?thesis
    by (auto simp: reply_def dest: kill_mon [rotated 2])
next
  case (SPY_GET_GEN arg)
  show ?thesis
  proof (cases "InvalidTarget ops (tg_handle arg) s")
    case True
    with assms SPY_GET_GEN show ?thesis by (auto simp: DispatchGetGen_def Let_def reply_def)
  next
    case False
    with assms(1) SPY_GET_GEN obtain s1 where "UpdateGenerations ops (tg_handle arg) s = Inr s1"
      and "s' = reply (tg_handle arg) (target_gen (tg_handle arg) s1) FALCON_GEN_RESP s1"
      by (auto simp: DispatchGetGen_def Let_def)
    with update_mon [OF assms(2,3)] show ?thesis by (auto simp: reply_def)
  qed
qed

lemma fire_watched:
  assumes "fire ops run_layer e st s = Inr s'" and "linv (layer s)" and "watched mon s"
  shows "linv (layer s') \<and> watched mon s'"
proof -
  define u where "u = timecb_remove (ev_id e) s"
  have u: "linv (layer u)" "watched mon u"
    using assms(2,3) by (simp_all add: u_def watched_def timecb_remove_def)
  from assms(1) have run: "run_callback ops run_layer st (ev_cb e) u = Inr s'"
    by (simp add: fire_def u_def)
  show ?thesis
  proof (cases "ev_cb e")
    case (CbHeartbeatReply r n)
    with run HandleClientHeartbeat_watched [OF _ u] show ?thesis by simp
  next
    case (CbDoHeartbeat r n)
    with run u show ?thesis by (auto simp: DoHeartbeat_def)
  next
    case (CbReportDown r a n)
    with run ReportDown_watched [OF _ u] show ?thesis by simp
  next
    case (CbAddToWaiting t r)
    with run u show ?thesis by (auto simp: watched_def frame)
  next
    case (CbLayer c)
    with run layer_mon [OF u] show ?thesis by simp
  qed
qed

end

section \<open>What the shared code leaves alone\<close>

text \<open>
  \<open>view\<close> is a part of the layer that neither \<open>StopMonitoring\<close> nor \<open>UpdateGenerations\<close> touches; the
  shared code then changes it through \<open>StartMonitoring\<close> and \<open>Kill\<close> only.
\<close>

locale layer_view = stopper "StopMonitoring ops"
  for ops :: "('l, 'c) layer_ops" +
  fixes view :: "'l \<Rightarrow> 'v"
  assumes stop_view: "StopMonitoring ops t s = Inr s' \<Longrightarrow> view (layer s') = view (layer s)"
    and update_view: "UpdateGenerations ops t s = Inr s' \<Longrightarrow> view (layer s') = view (layer s)"
begin

lemma RemoveClient_view:
  assumes "RemoveClient (StopMonitoring ops) c s = Inr s'"
  shows "view (layer s') = view (layer s)"
  by (rule res_fold_invariant [OF assms [unfolded RemoveClient_def Let_def],
        where P = "\<lambda>u. view (layer u) = view (layer s)"])
    (auto simp: remove_from_target_def Let_def split: if_splits dest!: stop_view)

lemma cancel_client_layer: "layer (cancel_client t cl s) = layer s"
  by (simp add: cancel_client_def Let_def erase_interval_def)

lemma ObserveDown_view:
  assumes "ObserveDown (StopMonitoring ops) t st k w s = Inr s'"
  shows "view (layer s') = view (layer s)"
proof -
  from assms obtain s1 s2 where
    s1: "res_fold (observe_down_client (StopMonitoring ops) t st k w) (map snd (target_clients s t)) s = Inr s1"
    and s2: "IncrementGeneration t s1 = Inr s2"
    and s': "StopMonitoring ops t (s2\<lparr>target_clients := (target_clients s2)(t := []),
                      waiting_for_up := (waiting_for_up s2)(t := [])\<rparr>) = Inr s'"
    by (auto simp: ObserveDown_def)
  have "layer s1 = layer s"
    by (rule res_fold_invariant [OF s1, where P = "\<lambda>u. layer u = layer s"])
      (auto simp: observe_down_client_eq)
  moreover have "layer s2 = layer s1"
    using s2 by (auto simp: IncrementGeneration_def Let_def split: if_splits)
  ultimately show ?thesis using stop_view [OF s'] by simp
qed

text \<open>A callback of the shared code.\<close>

lemma callback_view:
  assumes "run_callback ops run_layer st cb s = Inr s'" and "\<And>c. cb \<noteq> CbLayer c"
  shows "view (layer s') = view (layer s)"
  using assms
  by (cases cb)
    (auto simp: HandleClientHeartbeat_def DoHeartbeat_def ReportDown_def Let_def frame
      cancel_client_layer split: if_splits dest!: RemoveClient_view)

lemma GenCheck_view: "GenCheck ops t q s = Inr (st, s') \<Longrightarrow> view (layer s') = view (layer s)"
  by (auto simp: GenCheck_def Let_def dest: update_view)

lemma register_view:
  assumes "DispatchRegister ops arg s = Inr s'"
  shows "view (layer s') = view (layer s) \<or>
    (\<exists>u u'. view (layer u) = view (layer s) \<and>
       StartMonitoring ops (tg_handle (ra_target arg)) u = Inr u' \<and> layer s' = layer u')"
proof -
  let ?t = "tg_handle (ra_target arg)"
  from assms obtain st s1 where
    g: "GenCheck ops ?t (tg_generation (ra_target arg)) s = Inr (st, s1)"
    and r: "st \<noteq> FALCON_SUCCESS \<longrightarrow> s' = reply ?t (target_gen ?t s) st s1"
      "st = FALCON_SUCCESS \<longrightarrow> (\<exists>cl s2 s4. GetClient (ra_client arg) s1 = Inr (cl, s2) \<and>
        (StartMonitoring ops ?t (register_client arg cl s2) = Inr s4 \<or>
         s4 = register_client arg cl s2) \<and>
        s' = reply ?t (target_gen ?t s) FALCON_REGISTER_ACK s4)"
    by (auto simp: DispatchRegister_def Let_def split: if_splits) blast+
  note v1 = GenCheck_view [OF g]
  have reg: "layer (register_client arg cl u) = layer u" for cl u
    by (simp add: register_client_def Let_def frame)
  show ?thesis
  proof (cases "st = FALCON_SUCCESS")
    case False
    with r(1) v1 show ?thesis by (simp add: reply_def)
  next
    case True
    with r(2) obtain cl s2 s4 where c: "GetClient (ra_client arg) s1 = Inr (cl, s2)"
      and s4: "StartMonitoring ops ?t (register_client arg cl s2) = Inr s4 \<or>
         s4 = register_client arg cl s2"
      and s': "s' = reply ?t (target_gen ?t s) FALCON_REGISTER_ACK s4" by blast
    have "view (layer (register_client arg cl s2)) = view (layer s)"
      using GetClient_frame(1) [OF c] v1 by (simp add: reg)
    with s4 s' show ?thesis by (auto simp: reply_def)
  qed
qed

lemma cancel_view:
  assumes "DispatchCancel ops arg s = Inr s'"
  shows "view (layer s') = view (layer s)"
proof -
  let ?t = "tg_handle (xa_target arg)"
  from assms obtain st s1 where g: "GenCheck ops ?t (tg_generation (xa_target arg)) s = Inr (st, s1)"
    and r: "st \<noteq> FALCON_SUCCESS \<longrightarrow> s' = reply ?t (target_gen ?t s) st s1"
      "st = FALCON_SUCCESS \<longrightarrow> (\<exists>cl s2. GetClient (xa_client arg) s1 = Inr (cl, s2) \<and>
        (s' = reply ?t (target_gen ?t s) FALCON_CANCEL_ERROR s2 \<or>
         (\<exists>s4 s5. (StopMonitoring ops ?t (cancel_client ?t cl s2) = Inr s4 \<or>
                  s4 = cancel_client ?t cl s2) \<and>
                 (RemoveClient (StopMonitoring ops) cl s4 = Inr s5 \<or> s5 = s4) \<and>
                 s' = reply ?t (target_gen ?t s) FALCON_CANCEL_ACK s5)))"
    by (auto simp: DispatchCancel_def Let_def split: if_splits) blast+
  note v1 = GenCheck_view [OF g]
  show ?thesis
  proof (cases "st = FALCON_SUCCESS")
    case False
    with r(1) v1 show ?thesis by (simp add: reply_def)
  next
    case True
    with r(2) obtain cl s2 where c: "GetClient (xa_client arg) s1 = Inr (cl, s2)"
      and s': "s' = reply ?t (target_gen ?t s) FALCON_CANCEL_ERROR s2 \<or>
         (\<exists>s4 s5. (StopMonitoring ops ?t (cancel_client ?t cl s2) = Inr s4 \<or>
                  s4 = cancel_client ?t cl s2) \<and>
                 (RemoveClient (StopMonitoring ops) cl s4 = Inr s5 \<or> s5 = s4) \<and>
                 s' = reply ?t (target_gen ?t s) FALCON_CANCEL_ACK s5)"
      by blast
    have "view (layer (cancel_client ?t cl s2)) = view (layer s)" and "view (layer s2) = view (layer s)"
      using GetClient_frame(1) [OF c] v1 by (simp_all add: cancel_client_layer)
    with s' show ?thesis by (auto simp: reply_def dest!: stop_view RemoveClient_view)
  qed
qed

lemma kill_view:
  assumes "DispatchKill ops arg s = Inr s'"
  shows "view (layer s') = view (layer s) \<or>
    (\<exists>u u'. GenCheck ops (tg_handle arg) (tg_generation arg) s = Inr (FALCON_SUCCESS, u) \<and>
       KillTarget ops (tg_handle arg) u = Inr u' \<and> layer s' = layer u')"
  using assms
  by (auto simp: DispatchKill_def Let_def reply_def split: if_splits) (erule GenCheck_view)

lemma Dispatch_view:
  assumes "Dispatch ops c s = Inr s'"
  shows "view (layer s') = view (layer s) \<or>
    (\<exists>arg u u'. c = SPY_REGISTER arg \<and> view (layer u) = view (layer s) \<and>
       StartMonitoring ops (tg_handle (ra_target arg)) u = Inr u' \<and> layer s' = layer u') \<or>
    (\<exists>arg u u'. c = SPY_KILL arg \<and>
       GenCheck ops (tg_handle arg) (tg_generation arg) s = Inr (FALCON_SUCCESS, u) \<and>
       KillTarget ops (tg_handle arg) u = Inr u' \<and> layer s' = layer u')"
proof (cases c)
  case (SPY_REGISTER arg)
  with assms register_view [of arg s s'] show ?thesis by auto
next
  case (SPY_KILL arg)
  with assms kill_view [of arg s s'] show ?thesis by auto
next
  case (SPY_GET_GEN arg)
  with assms show ?thesis
    by (auto simp: DispatchGetGen_def Let_def reply_def split: if_splits dest!: update_view)
qed (use assms in \<open>auto dest: cancel_view\<close>)

end

section \<open>Runs\<close>

text \<open>
  The reachable states of an enforcer: from a start state, by answering a call of the spy program,
  by running a callback at the time and with the outcome that the environment chooses, and by the
  events of the layer.  A fault has no successor: the process is gone.
\<close>

inductive reachable ::
    "('l, 'c) layer_ops \<Rightarrow> ('c \<Rightarrow> clnt_stat \<Rightarrow> ('l, 'c) enforcer \<Rightarrow> ('l, 'c) enforcer res)
      \<Rightarrow> (('l, 'c) enforcer \<Rightarrow> ('l, 'c) enforcer \<Rightarrow> bool) \<Rightarrow> (('l, 'c) enforcer \<Rightarrow> bool)
      \<Rightarrow> ('l, 'c) enforcer \<Rightarrow> bool"
  for ops run_layer ext init
where
  reach_start: "init s \<Longrightarrow> reachable ops run_layer ext init s"
| reach_rpc: "reachable ops run_layer ext init s \<Longrightarrow> Dispatch ops c s = Inr s' \<Longrightarrow>
    reachable ops run_layer ext init s'"
| reach_fire: "reachable ops run_layer ext init s \<Longrightarrow> e \<in> set (pending s) \<Longrightarrow>
    fire ops run_layer e st s = Inr s' \<Longrightarrow> reachable ops run_layer ext init s'"
| reach_layer: "reachable ops run_layer ext init s \<Longrightarrow> ext s s' \<Longrightarrow>
    reachable ops run_layer ext init s'"

text \<open>
  The same runs as an executable function of the inputs.  An input that names a callback which is
  no longer pending, or an event that the layer does not expect, changes nothing.
\<close>

datatype 'i input =
    InRpc spy_call
  | InFire nat clnt_stat
  | InLayer 'i

fun enf_step ::
    "('l, 'c) layer_ops \<Rightarrow> ('c \<Rightarrow> clnt_stat \<Rightarrow> ('l, 'c) enforcer \<Rightarrow> ('l, 'c) enforcer res)
      \<Rightarrow> ('i \<Rightarrow> ('l, 'c) enforcer \<Rightarrow> ('l, 'c) enforcer res) \<Rightarrow> 'i input
      \<Rightarrow> ('l, 'c) enforcer \<Rightarrow> ('l, 'c) enforcer res" where
  "enf_step ops run_layer ext (InRpc c) s = Dispatch ops c s"
| "enf_step ops run_layer ext (InFire i st) s =
     (case find (\<lambda>e. ev_id e = i) (pending s) of
        None \<Rightarrow> Inr s
      | Some e \<Rightarrow> fire ops run_layer e st s)"
| "enf_step ops run_layer ext (InLayer i) s = ext i s"

definition enf_run ::
    "('l, 'c) layer_ops \<Rightarrow> ('c \<Rightarrow> clnt_stat \<Rightarrow> ('l, 'c) enforcer \<Rightarrow> ('l, 'c) enforcer res)
      \<Rightarrow> ('i \<Rightarrow> ('l, 'c) enforcer \<Rightarrow> ('l, 'c) enforcer res) \<Rightarrow> 'i input list
      \<Rightarrow> ('l, 'c) enforcer \<Rightarrow> ('l, 'c) enforcer res" where
  "enf_run ops run_layer ext = res_fold (enf_step ops run_layer ext)"

lemma enf_step_reachable:
  assumes "reachable ops run_layer (\<lambda>s s'. \<exists>i. ext i s = Inr s') init s"
    and "enf_step ops run_layer ext x s = Inr s'"
  shows "reachable ops run_layer (\<lambda>s s'. \<exists>i. ext i s = Inr s') init s'"
proof (cases x)
  case (InRpc c)
  with assms show ?thesis by (auto intro: reach_rpc)
next
  case (InFire i st)
  show ?thesis
  proof (cases "find (\<lambda>e. ev_id e = i) (pending s)")
    case None
    with InFire assms show ?thesis by simp
  next
    case (Some e)
    then have "e \<in> set (pending s)" by (auto simp: find_Some_iff)
    moreover from Some InFire assms(2) have "fire ops run_layer e st s = Inr s'" by simp
    ultimately show ?thesis by (rule reach_fire [OF assms(1)])
  qed
next
  case (InLayer i)
  with assms show ?thesis by (auto intro: reach_layer)
qed

lemma enf_run_reachable:
  assumes "enf_run ops run_layer ext xs s = Inr s'"
    and "reachable ops run_layer (\<lambda>s s'. \<exists>i. ext i s = Inr s') init s"
  shows "reachable ops run_layer (\<lambda>s s'. \<exists>i. ext i s = Inr s') init s'"
  using assms(1) unfolding enf_run_def
  by (rule res_fold_invariant) (auto intro: assms(2) enf_step_reachable)

context layer_contract
begin

lemma reachable_core_inv:
  assumes "reachable ops run_layer ext init s"
    and "\<And>s. init s \<Longrightarrow> core_inv s"
    and "\<And>s s'. core_inv s \<Longrightarrow> ext s s' \<Longrightarrow> core_inv s'"
  shows "core_inv s"
  using assms(1)
  by (induction rule: reachable.induct) (auto intro: assms(2,3) Dispatch_inv fire_inv)

end

context monitored_layer
begin

lemma reachable_watched:
  assumes "reachable ops run_layer ext init s"
    and "\<And>s. init s \<Longrightarrow> linv (layer s) \<and> watched mon s"
    and "\<And>s s'. linv (layer s) \<and> watched mon s \<Longrightarrow> ext s s' \<Longrightarrow> linv (layer s') \<and> watched mon s'"
  shows "linv (layer s) \<and> watched mon s"
  using assms(1)
proof (induction rule: reachable.induct)
  case (reach_start s)
  then show ?case by (rule assms(2))
next
  case (reach_rpc s c s')
  then show ?case by (blast dest: Dispatch_watched)
next
  case (reach_fire s e st s')
  then show ?case by (blast dest: fire_watched)
next
  case (reach_layer s s')
  show ?case by (rule assms(3) [OF reach_layer.IH reach_layer.hyps(2)])
qed

end

end
