(* ===== verification/ProcessEnforcer.thy ===== *)
theory ProcessEnforcer
  imports EnforcerContract
begin

text \<open>
  The enforcer of the application layer (falcon/process_enforcer/process_enforcer.cc): it watches
  processes of its own host.  A process connects over a UNIX socket and names itself; once a client
  has registered for it the enforcer sends it probes, expects an answer in time, and on silence, on
  a bad answer or on a broken socket finds out whether the process is still there and, if some
  client gave it the licence, kills it.
\<close>

section \<open>State\<close>

type_synonym pref = nat

text \<open>\<open>struct Process\<close>; \<open>p_cb\<close> is the pointer to its timer, \<open>None\<close> for \<open>NULL\<close>.\<close>

record process =
  p_handle :: str
  p_pid :: u32
  p_delay :: u8
  p_delay_ms :: u32
  p_fd :: nat
  p_cb :: "nat option"
  p_state :: u32
  p_active :: bool

text \<open>\<open>enum enforcer_state\<close> and the two answers of a process (obs_prot.h).\<close>

definition SOCKET_ERROR :: u32 where "SOCKET_ERROR = 0"
definition ENF_TIMEDOUT :: u32 where "ENF_TIMEDOUT = 1"
definition ENF_CPU_TIMEOUT :: u32 where "ENF_CPU_TIMEOUT = 2"
definition PROC_OBS_ALIVE :: u32 where "PROC_OBS_ALIVE = 0"
definition DELAY_REALTIME :: u8 where "DELAY_REALTIME = 0"

record handshake =
  hs_handle :: str
  hs_pid :: u32
  hs_delay_ms :: u32
  hs_delay :: u8

text \<open>The callbacks of the layer: timers, and what runs when a descriptor becomes readable.\<close>

datatype proc_cb =
    CbConfirmDeath str bool bool
  | CbProbeProcess pref
  | CbProcessTimeout pref
  | CbCheckCPUTime pref u32

datatype read_cb =
    RdClientAcceptor
  | RdProcessResponse pref

datatype kill_result = Kill_ok | Kill_ESRCH | Kill_error

text \<open>
  \<open>procs\<close> is the heap of \<open>Process\<close> objects, \<open>None\<close> for an object that was deleted or never made.
  \<open>monitored\<close> tells an absent key (\<open>None\<close>) from a null pointer (\<open>Some None\<close>).  The environment:
  \<open>alive\<close> is the process table (\<open>kill(pid, 0)\<close>), \<open>kill_outcome\<close> the end of \<open>SIGKILL\<close>,
  \<open>send_ok\<close> whether a socket takes a probe, \<open>cpu_time\<close> the sum of the two times in /proc.
\<close>

record proc_layer =
  procs :: "pref \<Rightarrow> process option"
  next_pref :: nat
  monitored :: "str \<Rightarrow> pref option option"
  read_cbs :: "nat \<Rightarrow> read_cb option"
  open_fds :: "nat set"
  signals :: "u32 list"
  confirm_wait_ns :: u32
  poll_freq_ns :: u32
  cpu_time_wait_multiplier :: "32 word"
  clck_tick :: nat
  alive :: "u32 \<Rightarrow> bool"
  kill_outcome :: "u32 \<Rightarrow> kill_result"
  send_ok :: "nat \<Rightarrow> bool"
  cpu_time :: "u32 \<Rightarrow> u32 option"

type_synonym penf = "(proc_layer, proc_cb) enforcer"

section \<open>Small steps on the state\<close>

definition upd_layer :: "('l \<Rightarrow> 'l) \<Rightarrow> ('l, 'c) enforcer \<Rightarrow> ('l, 'c) enforcer" where
  "upd_layer f s = s\<lparr>layer := f (layer s)\<rparr>"

text \<open>Dereferencing a \<open>Process*\<close>.\<close>

definition proc_at :: "pref \<Rightarrow> penf \<Rightarrow> process res" where
  "proc_at p s = (case procs (layer s) p of None \<Rightarrow> Inl Use_after_free | Some pr \<Rightarrow> Inr pr)"

definition set_proc :: "pref \<Rightarrow> process \<Rightarrow> penf \<Rightarrow> penf" where
  "set_proc p pr s = upd_layer (\<lambda>l. l\<lparr>procs := (procs l)(p := Some pr)\<rparr>) s"

text \<open>\<open>monitored_[h]\<close>.\<close>

definition monitored_at :: "str \<Rightarrow> penf \<Rightarrow> pref option" where
  "monitored_at h s = (case monitored (layer s) h of None \<Rightarrow> None | Some q \<Rightarrow> q)"

definition check_process_table :: "u32 \<Rightarrow> penf \<Rightarrow> bool" where
  "check_process_table pid s = alive (layer s) pid"

text \<open>\<open>close(fd); fdcb(fd, selread, 0);\<close> and the latter alone.\<close>

definition stop_reading :: "nat \<Rightarrow> penf \<Rightarrow> penf" where
  "stop_reading fd s = upd_layer (\<lambda>l. l\<lparr>read_cbs := (read_cbs l)(fd := None)\<rparr>) s"

definition close_fd :: "nat \<Rightarrow> penf \<Rightarrow> penf" where
  "close_fd fd s = stop_reading fd (upd_layer (\<lambda>l. l\<lparr>open_fds := open_fds l - {fd}\<rparr>) s)"

text \<open>Division and remainder of C, which truncate.\<close>

definition c_div :: "int \<Rightarrow> int \<Rightarrow> int" where
  "c_div a b = (if a < 0 then - (- a div b) else a div b)"

definition c_mod :: "int \<Rightarrow> int \<Rightarrow> int" where
  "c_mod a b = a - b * c_div a b"

section \<open>The virtual methods\<close>

definition ProcStopMonitoring :: "str \<Rightarrow> penf \<Rightarrow> penf res" where
  "ProcStopMonitoring h s =
     (case monitored_at h s of
        None \<Rightarrow> Inl Null_deref
      | Some p \<Rightarrow>
          res_bind (proc_at p s) (\<lambda>pr.
          let s1 = (case p_cb pr of None \<Rightarrow> s | Some i \<Rightarrow> timecb_remove i s)
          in Inr (set_proc p (pr\<lparr>p_cb := None, p_active := False\<rparr>) s1)))"

definition ProcInvalidTarget :: "str \<Rightarrow> penf \<Rightarrow> bool" where
  "ProcInvalidTarget h s \<longleftrightarrow> monitored (layer s) h = None"

definition ProcUpdateGenerations :: "str \<Rightarrow> penf \<Rightarrow> penf res" where
  "ProcUpdateGenerations h s = Inr s"

abbreviation proc_down :: "str \<Rightarrow> u32 \<Rightarrow> bool \<Rightarrow> bool \<Rightarrow> penf \<Rightarrow> penf res" where
  "proc_down \<equiv> ObserveDown ProcStopMonitoring"

definition ProcKill :: "str \<Rightarrow> penf \<Rightarrow> penf res" where
  "ProcKill h s =
     (case monitored_at h s of
        None \<Rightarrow> Inl Check_failed
      | Some p \<Rightarrow>
          res_bind (proc_at p s) (\<lambda>pr.
          if \<not> p_active pr then Inr s
          else if \<not> check_process_table (p_pid pr) s then proc_down h (p_state pr) False False s
          else if Killable h s then
            let s1 = upd_layer (\<lambda>l. l\<lparr>signals := signals l @ [p_pid pr]\<rparr>) s
            in if kill_outcome (layer s) (p_pid pr) = Kill_ESRCH
               then proc_down h (p_state pr) False False s1
               else Inr (schedule (After 0 (uint (confirm_wait_ns (layer s1))))
                           (CbLayer (CbConfirmDeath h True True)) s1)
          else proc_down h (p_state pr) False True s))"

definition ConfirmDeath :: "str \<Rightarrow> bool \<Rightarrow> bool \<Rightarrow> penf \<Rightarrow> penf res" where
  "ConfirmDeath h killed would_kill s =
     (case monitored_at h s of
        None \<Rightarrow> Inl Check_failed
      | Some p \<Rightarrow>
          res_bind (proc_at p s) (\<lambda>pr.
          if \<not> check_process_table (p_pid pr) s \<or> \<not> Killable h s
          then proc_down h (p_state pr) killed would_kill s
          else Inr (schedule (After 0 (uint (confirm_wait_ns (layer s))))
                      (CbLayer (CbConfirmDeath h killed would_kill)) s)))"

definition ProcessTimeout :: "pref \<Rightarrow> penf \<Rightarrow> penf res" where
  "ProcessTimeout p s =
     res_bind (proc_at p s) (\<lambda>pr.
       ProcKill (p_handle pr)
         (set_proc p (pr\<lparr>p_state := ENF_TIMEDOUT, p_cb := None\<rparr>) (close_fd (p_fd pr) s)))"

text \<open>\<open>GetProcByPid\<close> returns no structure for a process without a file in /proc.\<close>

definition GetCPUTime :: "process \<Rightarrow> penf \<Rightarrow> u32 res" where
  "GetCPUTime pr s =
     (case cpu_time (layer s) (p_pid pr) of None \<Rightarrow> Inl Null_deref | Some c \<Rightarrow> Inr c)"

text \<open>
  The quotient of the ticks by \<open>clck_tick_\<close> against the delay in seconds, over the rationals.
\<close>

definition cpu_exceeded :: "u32 \<Rightarrow> u32 \<Rightarrow> u32 \<Rightarrow> nat \<Rightarrow> bool" where
  "cpu_exceeded now start delay_ms tick \<longleftrightarrow> unat delay_ms * tick < unat (now - start) * 1000"

definition CheckCPUTime :: "pref \<Rightarrow> u32 \<Rightarrow> penf \<Rightarrow> penf res" where
  "CheckCPUTime p start_time s =
     res_bind (proc_at p s) (\<lambda>pr.
     res_bind (GetCPUTime pr s) (\<lambda>now.
     if cpu_exceeded now start_time (p_delay_ms pr) (clck_tick (layer s)) then
       ProcKill (p_handle pr)
         (set_proc p (pr\<lparr>p_state := ENF_CPU_TIMEOUT, p_cb := None\<rparr>) (close_fd (p_fd pr) s))
     else
       let delay_ms = sint (p_delay_ms pr * cpu_time_wait_multiplier (layer s))
       in Inr (set_proc p (pr\<lparr>p_cb := Some (next_id s)\<rparr>)
            (schedule (After (c_div delay_ms 1000) (c_mod delay_ms 1000 * 1000000))
               (CbLayer (CbCheckCPUTime p start_time)) s))))"

definition ProbeProcess :: "pref \<Rightarrow> penf \<Rightarrow> penf res" where
  "ProbeProcess p s =
     res_bind (proc_at p s) (\<lambda>pr.
     if check_process_table (p_pid pr) s \<and> send_ok (layer s) (p_fd pr) then
       let due = After (uint (p_delay_ms pr) div 1000) (uint (p_delay_ms pr) mod 1000 * 1000000)
       in res_bind
            (if p_delay pr = DELAY_REALTIME
             then Inr (schedule due (CbLayer (CbProcessTimeout p)) s)
             else res_bind (GetCPUTime pr s) (\<lambda>start_time.
                  Inr (schedule due (CbLayer (CbCheckCPUTime p start_time)) s))) (\<lambda>s1.
          Inr (upd_layer (\<lambda>l. l\<lparr>read_cbs := (read_cbs l)(p_fd pr := Some (RdProcessResponse p))\<rparr>)
                (set_proc p (pr\<lparr>p_cb := Some (next_id s)\<rparr>) s1)))
     else ProcKill (p_handle pr) (close_fd (p_fd pr) s))"

definition ProcStartMonitoring :: "str \<Rightarrow> penf \<Rightarrow> penf res" where
  "ProcStartMonitoring h s =
     (case monitored_at h s of
        None \<Rightarrow> Inl Null_deref
      | Some p \<Rightarrow>
          res_bind (proc_at p s) (\<lambda>pr.
          ProbeProcess p (set_proc p (pr\<lparr>p_active := True\<rparr>) s)))"

text \<open>The answer of a process; \<open>None\<close> for a read that is not a whole reply.\<close>

definition ProcessResponse :: "pref \<Rightarrow> u32 option \<Rightarrow> penf \<Rightarrow> penf res" where
  "ProcessResponse p recv s =
     res_bind (proc_at p s) (\<lambda>pr.
     let s1 = (case p_cb pr of None \<Rightarrow> s | Some i \<Rightarrow> timecb_remove i s);
         s2 = set_proc p (pr\<lparr>p_cb := None\<rparr>) s1
     in case recv of
          Some state \<Rightarrow>
            (if \<not> p_active pr then Inr (stop_reading (p_fd pr) s2)
             else if state = PROC_OBS_ALIVE then
               Inr (schedule (After 0 (uint (poll_freq_ns (layer s2)))) (CbLayer (CbProbeProcess p))
                     (ObserveUp (p_handle pr) s2))
             else ProcKill (p_handle pr) (set_proc p (pr\<lparr>p_cb := None, p_state := state\<rparr>) s2))
        | None \<Rightarrow> ProcKill (p_handle pr) (close_fd (p_fd pr) s2))"

section \<open>New processes\<close>

definition new_process :: "handshake \<Rightarrow> nat \<Rightarrow> process" where
  "new_process h cfd =
     \<lparr>p_handle = hs_handle h, p_pid = hs_pid h, p_delay = hs_delay h, p_delay_ms = hs_delay_ms h,
      p_fd = cfd, p_cb = None, p_state = 0, p_active = False\<rparr>"

definition add_process :: "handshake \<Rightarrow> nat \<Rightarrow> penf \<Rightarrow> penf" where
  "add_process h fd s =
     (let p = next_pref (layer s)
      in upd_layer (\<lambda>l. l\<lparr>procs := (procs l)(p := Some (new_process h fd)), next_pref := Suc p,
                         monitored := (monitored l)(hs_handle h := Some (Some p))\<rparr>) s)"

definition delete_process :: "pref \<Rightarrow> penf \<Rightarrow> penf" where
  "delete_process p s = upd_layer (\<lambda>l. l\<lparr>procs := (procs l)(p := None)\<rparr>) s"

text \<open>\<open>None\<close> for a read that is not a whole handshake.\<close>

definition ClientAcceptor :: "nat \<Rightarrow> handshake option \<Rightarrow> penf \<Rightarrow> penf res" where
  "ClientAcceptor fd hs s =
     (case hs of
        None \<Rightarrow> Inr (close_fd fd s)
      | Some h \<Rightarrow>
          (case monitored_at (hs_handle h) s of
             None \<Rightarrow> Inr (add_process h fd s)
           | Some current \<Rightarrow>
               res_bind (proc_at current s) (\<lambda>pr.
               if \<not> p_active pr \<and> \<not> check_process_table (p_pid pr) s
               then Inr (add_process h fd (delete_process current s))
               else Inr (close_fd fd s))))"

definition AcceptProcess :: "nat \<Rightarrow> penf \<Rightarrow> penf" where
  "AcceptProcess newfd s =
     upd_layer (\<lambda>l. l\<lparr>open_fds := insert newfd (open_fds l),
                     read_cbs := (read_cbs l)(newfd := Some RdClientAcceptor)\<rparr>) s"

section \<open>The whole enforcer\<close>

definition proc_ops :: "(proc_layer, proc_cb) layer_ops" where
  "proc_ops = \<lparr>StartMonitoring = ProcStartMonitoring, StopMonitoring = ProcStopMonitoring,
     InvalidTarget = ProcInvalidTarget, KillTarget = ProcKill,
     UpdateGenerations = ProcUpdateGenerations\<rparr>"

fun run_proc :: "proc_cb \<Rightarrow> clnt_stat \<Rightarrow> penf \<Rightarrow> penf res" where
  "run_proc (CbConfirmDeath h k w) st s = ConfirmDeath h k w s"
| "run_proc (CbProbeProcess p) st s = ProbeProcess p s"
| "run_proc (CbProcessTimeout p) st s = ProcessTimeout p s"
| "run_proc (CbCheckCPUTime p t) st s = CheckCPUTime p t s"

text \<open>
  The events outside the RPCs and timers: a connection on a descriptor that is free, a readable
  descriptor (with what a read of it as a handshake and as a reply gives), and a change of the
  environment.
\<close>

datatype proc_input =
    PAccept nat
  | PReadable nat "handshake option" "u32 option"
  | PProcesses "u32 \<Rightarrow> bool" "u32 \<Rightarrow> kill_result" "u32 \<Rightarrow> u32 option"
  | PSockets "nat \<Rightarrow> bool" bool
  | PDisk bool sync_result

fun proc_ext :: "proc_input \<Rightarrow> penf \<Rightarrow> penf res" where
  "proc_ext (PAccept fd) s =
     (if fd \<in> open_fds (layer s) then Inr s else Inr (AcceptProcess fd s))"
| "proc_ext (PReadable fd hs rp) s =
     (case read_cbs (layer s) fd of
        None \<Rightarrow> Inr s
      | Some RdClientAcceptor \<Rightarrow> ClientAcceptor fd hs s
      | Some (RdProcessResponse p) \<Rightarrow> ProcessResponse p rp s)"
| "proc_ext (PProcesses a k c) s =
     Inr (upd_layer (\<lambda>l. l\<lparr>alive := a, kill_outcome := k, cpu_time := c\<rparr>) s)"
| "proc_ext (PSockets so dg) s =
     Inr (upd_layer (\<lambda>l. l\<lparr>send_ok := so\<rparr>) (s\<lparr>sock_ok := dg\<rparr>))"
| "proc_ext (PDisk w y) s = Inr (s\<lparr>log_write_ok := w, log_sync := y\<rparr>)"

text \<open>
  The state after \<open>Init\<close> and \<open>InitGenerations\<close>: the two upper generations read from /mnt/gen, the
  configured times, the environment, and the log found on disk.
\<close>

definition ms_to_ns :: "u32 \<Rightarrow> u32" where
  "ms_to_ns ms = ms * 1000000"

definition proc_start ::
    "u32 \<Rightarrow> u32 \<Rightarrow> u32 \<Rightarrow> u32 \<Rightarrow> 32 word \<Rightarrow> nat \<Rightarrow> string \<Rightarrow> penf" where
  "proc_start domain_gen hypervisor_gen confirm_wait_ms poll_freq_ms mult tick log =
     InitGenerations
     \<lparr>gen_vec = [domain_gen, hypervisor_gen], generations = (\<lambda>_. 0), gen_log = log,
      log_discards = False, log_write_ok = True, log_sync = Sync_ok, sock_ok = True,
      heap = (\<lambda>_. \<lparr>fc_id = [], fc_up_intervals = [], fc_tag = 0\<rparr>), next_ref = 0,
      all_clients = [], waiting_for_up = (\<lambda>_. []), target_clients = (\<lambda>_. []),
      deadly = (\<lambda>_. []), pending = [], next_id = 0, outbox = [],
      layer = \<lparr>procs = (\<lambda>_. None), next_pref = 0, monitored = (\<lambda>_. None),
        read_cbs = (\<lambda>_. None), open_fds = {}, signals = [],
        confirm_wait_ns = ms_to_ns confirm_wait_ms, poll_freq_ns = ms_to_ns poll_freq_ms,
        cpu_time_wait_multiplier = mult, clck_tick = tick,
        alive = (\<lambda>_. False), kill_outcome = (\<lambda>_. Kill_ok), send_ok = (\<lambda>_. True),
        cpu_time = (\<lambda>_. None)\<rparr>\<rparr>"

definition proc_init :: "penf \<Rightarrow> bool" where
  "proc_init s \<longleftrightarrow> (\<exists>d h c p m t log. s = proc_start d h c p m t log)"

abbreviation proc_reachable :: "penf \<Rightarrow> bool" where
  "proc_reachable \<equiv> reachable proc_ops run_proc (\<lambda>s s'. \<exists>i. proc_ext i s = Inr s') proc_init"

section \<open>The invariant of the layer\<close>

text \<open>
  The table and the objects agree: an entry that is not null names a live object with that handle,
  and every live object is the entry of its handle.
\<close>

definition proc_linv :: "proc_layer \<Rightarrow> bool" where
  "proc_linv l \<longleftrightarrow>
     (\<forall>h p. monitored l h = Some (Some p) \<longrightarrow> (\<exists>pr. procs l p = Some pr \<and> p_handle pr = h)) \<and>
     (\<forall>p pr. procs l p = Some pr \<longrightarrow>
        p < next_pref l \<and> monitored l (p_handle pr) = Some (Some p))"

definition proc_mon :: "str \<Rightarrow> proc_layer \<Rightarrow> bool" where
  "proc_mon h l \<longleftrightarrow> (\<exists>p pr. monitored l h = Some (Some p) \<and> procs l p = Some pr \<and> p_active pr)"

definition proc_good :: "penf \<Rightarrow> bool" where
  "proc_good s \<longleftrightarrow> proc_linv (layer s) \<and> watched proc_mon s"

lemma upd_layer_frame [simp]:
  "layer (upd_layer f s) = f (layer s)" "core_inv (upd_layer f s) = core_inv s"
  "target_clients (upd_layer f s) = target_clients s" "pending (upd_layer f s) = pending s"
  "outbox (upd_layer f s) = outbox s" "generations (upd_layer f s) = generations s"
  "next_id (upd_layer f s) = next_id s" "deadly (upd_layer f s) = deadly s"
  "gen_vec (upd_layer f s) = gen_vec s" "heap (upd_layer f s) = heap s"
  by (simp_all add: upd_layer_def)

lemma same_core_upd_layer: "same_core s (upd_layer f s)"
  unfolding upd_layer_def same_core_def by (simp, rule exI [of _ "\<lambda>_. True"], simp)

lemma same_core_timecb_remove: "same_core s (timecb_remove i s)"
  by (auto simp: same_core_def timecb_remove_def)

lemma layer_timecb_remove [simp]: "layer (timecb_remove i s) = layer s"
  "target_clients (timecb_remove i s) = target_clients s"
  by (simp_all add: timecb_remove_def)

lemma proc_at_Inr [simp]: "proc_at p s = Inr pr \<longleftrightarrow> procs (layer s) p = Some pr"
  by (simp add: proc_at_def split: option.splits)

lemma monitored_at_Some: "monitored_at h s = Some p \<longleftrightarrow> monitored (layer s) h = Some (Some p)"
  by (simp add: monitored_at_def split: option.splits)

lemma ProcStopMonitoring_cases:
  assumes "ProcStopMonitoring h s = Inr s'"
  obtains p pr where "monitored (layer s) h = Some (Some p)" and "procs (layer s) p = Some pr"
    and "s' = set_proc p (pr\<lparr>p_cb := None, p_active := False\<rparr>)
      (case p_cb pr of None \<Rightarrow> s | Some i \<Rightarrow> timecb_remove i s)"
  using assms
  by (auto simp: ProcStopMonitoring_def monitored_at_Some Let_def split: option.splits)

lemma ProcStopMonitoring_core: "ProcStopMonitoring h s = Inr s' \<Longrightarrow> same_core s s'"
  by (erule ProcStopMonitoring_cases)
    (auto simp: set_proc_def same_core_upd_layer split: option.splits
      intro: same_core_trans [OF same_core_timecb_remove same_core_upd_layer])

lemma proc_linv_set:
  assumes "proc_linv (layer s)" and "procs (layer s) p = Some pr" and "p_handle pr' = p_handle pr"
  shows "proc_linv (layer (set_proc p pr' s))"
  using assms unfolding proc_linv_def set_proc_def upd_layer_frame
  by (simp, metis option.inject)

lemma proc_mon_set:
  assumes "procs (layer s) p = Some pr" and "p_active pr \<longrightarrow> p_active pr'" and "proc_mon h (layer s)"
  shows "proc_mon h (layer (set_proc p pr' s))"
  using assms by (auto simp: proc_mon_def set_proc_def)

lemma ProcStopMonitoring_linv:
  assumes "proc_linv (layer s)" and "ProcStopMonitoring h s = Inr s'"
  shows "proc_linv (layer s')"
  using assms(2)
proof (rule ProcStopMonitoring_cases)
  fix p pr
  assume "procs (layer s) p = Some pr" and
    "s' = set_proc p (pr\<lparr>p_cb := None, p_active := False\<rparr>)
      (case p_cb pr of None \<Rightarrow> s | Some i \<Rightarrow> timecb_remove i s)"
  then show ?thesis
    by (auto intro: proc_linv_set [of _ p pr] simp: assms(1) split: option.splits)
qed

lemma ProcStopMonitoring_mon:
  assumes "ProcStopMonitoring h s = Inr s'" and "proc_linv (layer s)" and "h' \<noteq> h"
    and "proc_mon h' (layer s)"
  shows "proc_mon h' (layer s')"
  using assms(1)
proof (rule ProcStopMonitoring_cases)
  fix p pr
  assume p: "monitored (layer s) h = Some (Some p)" "procs (layer s) p = Some pr" and
    s': "s' = set_proc p (pr\<lparr>p_cb := None, p_active := False\<rparr>)
      (case p_cb pr of None \<Rightarrow> s | Some i \<Rightarrow> timecb_remove i s)"
  from assms(4) obtain q qr where q: "monitored (layer s) h' = Some (Some q)"
    "procs (layer s) q = Some qr" "p_active qr" by (auto simp: proc_mon_def)
  have "q \<noteq> p" using p q(1) assms(2,3) unfolding proc_linv_def by (metis option.inject)
  with q s' show ?thesis by (auto simp: proc_mon_def set_proc_def split: option.splits)
qed

interpretation pe_stop: monitored_stopper ProcStopMonitoring proc_linv proc_mon
  by unfold_locales
    (auto intro: ProcStopMonitoring_core ProcStopMonitoring_linv ProcStopMonitoring_mon)

section \<open>What each method keeps\<close>

lemma core_inv_proc_upd [simp]:
  "core_inv (set_proc p pr s) = core_inv s" "core_inv (close_fd fd s) = core_inv s"
  "core_inv (stop_reading fd s) = core_inv s"
  by (simp_all add: set_proc_def close_fd_def stop_reading_def)

lemma core_inv_schedule_layer [simp]: "core_inv s \<Longrightarrow> core_inv (schedule d (CbLayer c) s)"
  by (rule core_inv_schedule) simp_all

lemma core_inv_stop_timer [simp]:
  "core_inv s \<Longrightarrow> core_inv (case i of None \<Rightarrow> s | Some j \<Rightarrow> timecb_remove j s)"
  by (simp add: core_inv_timecb_remove split: option.splits)

lemma ProcKill_inv: "ProcKill h s = Inr s' \<Longrightarrow> core_inv s \<Longrightarrow> core_inv s'"
  by (auto simp: ProcKill_def Let_def split: option.splits if_splits
      dest!: pe_stop.ObserveDown_inv)

lemma ConfirmDeath_inv: "ConfirmDeath h k w s = Inr s' \<Longrightarrow> core_inv s \<Longrightarrow> core_inv s'"
  by (auto simp: ConfirmDeath_def split: option.splits if_splits dest!: pe_stop.ObserveDown_inv)

lemma ProcessTimeout_inv: "ProcessTimeout p s = Inr s' \<Longrightarrow> core_inv s \<Longrightarrow> core_inv s'"
  by (auto simp: ProcessTimeout_def dest!: ProcKill_inv)

lemma CheckCPUTime_inv: "CheckCPUTime p t s = Inr s' \<Longrightarrow> core_inv s \<Longrightarrow> core_inv s'"
  by (auto simp: CheckCPUTime_def Let_def split: if_splits dest!: ProcKill_inv)

lemma ProbeProcess_inv: "ProbeProcess p s = Inr s' \<Longrightarrow> core_inv s \<Longrightarrow> core_inv s'"
  by (auto simp: ProbeProcess_def Let_def split: if_splits dest!: ProcKill_inv)

lemma ProcStartMonitoring_inv: "ProcStartMonitoring h s = Inr s' \<Longrightarrow> core_inv s \<Longrightarrow> core_inv s'"
  by (auto simp: ProcStartMonitoring_def split: option.splits dest!: ProbeProcess_inv)

lemma ProcessResponse_inv: "ProcessResponse p r s = Inr s' \<Longrightarrow> core_inv s \<Longrightarrow> core_inv s'"
  by (auto simp: ProcessResponse_def Let_def ObserveUp_inv split: option.splits if_splits
      dest!: ProcKill_inv)

lemma proc_ext_inv: "proc_ext i s = Inr s' \<Longrightarrow> core_inv s \<Longrightarrow> core_inv s'"
  by (cases i)
    (auto simp: ClientAcceptor_def AcceptProcess_def add_process_def delete_process_def Let_def
      core_inv_simps split: option.splits if_splits read_cb.splits dest!: ProcessResponse_inv)

interpretation pe: layer_contract proc_ops run_proc
proof unfold_locales
  fix c st and s s' :: penf
  show "core_inv s \<Longrightarrow> run_proc c st s = Inr s' \<Longrightarrow> core_inv s'"
    by (cases c) (auto dest!: ConfirmDeath_inv ProbeProcess_inv ProcessTimeout_inv CheckCPUTime_inv)
qed (auto simp: proc_ops_def ProcUpdateGenerations_def
      intro: ProcStopMonitoring_core ProcStartMonitoring_inv ProcKill_inv)

section \<open>Registered targets stay monitored\<close>

lemma proc_good_set:
  assumes "proc_good s" and "procs (layer s) p = Some pr" and "p_handle pr' = p_handle pr"
    and "p_active pr \<longrightarrow> p_active pr'"
  shows "proc_good (set_proc p pr' s)"
  using assms proc_linv_set [of s p pr pr'] proc_mon_set [of s p pr pr']
  by (auto simp: proc_good_def watched_def set_proc_def)

lemma proc_good_cong:
  assumes "procs (layer s') = procs (layer s)" and "monitored (layer s') = monitored (layer s)"
    and "next_pref (layer s') = next_pref (layer s)" and "target_clients s' = target_clients s"
  shows "proc_good s' = proc_good s"
  using assms by (simp add: proc_good_def watched_def proc_linv_def proc_mon_def)

lemma proc_good_simps [simp]:
  "proc_good (close_fd fd s) = proc_good s" "proc_good (stop_reading fd s) = proc_good s"
  "proc_good (schedule d cb s) = proc_good s" "proc_good (timecb_remove i s) = proc_good s"
  "procs (layer (close_fd fd s)) = procs (layer s)"
  "layer (set_proc p pr s) = (layer s)\<lparr>procs := (procs (layer s))(p := Some pr)\<rparr>"
  by (simp_all add: proc_good_def watched_def proc_linv_def proc_mon_def close_fd_def stop_reading_def
      set_proc_def)

lemma proc_down_good: "proc_down h st k w s = Inr s' \<Longrightarrow> proc_good s \<Longrightarrow> proc_good s'"
  using pe_stop.ObserveDown_watched [of h st k w s s'] watched_watched_but [of proc_mon s h]
  by (auto simp: proc_good_def)

lemma ProcKill_good:
  assumes "ProcKill h s = Inr s'" and "proc_good s"
  shows "proc_good s'"
proof -
  let ?f = "\<lambda>pr. upd_layer (\<lambda>l. l\<lparr>signals := signals l @ [p_pid pr]\<rparr>) s"
  have "proc_good (?f pr)" for pr using assms(2) by (subst proc_good_cong [of _ s]) simp_all
  with assms show ?thesis
    by (auto simp: ProcKill_def Let_def split: option.splits if_splits dest!: proc_down_good)
qed

lemma ProbeProcess_good:
  assumes "ProbeProcess p s = Inr s'" and "proc_good s"
  shows "proc_good s'"
proof -
  from assms(1) obtain pr where pr: "procs (layer s) p = Some pr"
    by (auto simp: ProbeProcess_def)
  show ?thesis
  proof (cases "check_process_table (p_pid pr) s \<and> send_ok (layer s) (p_fd pr)")
    case False
    with assms pr ProcKill_good [of "p_handle pr" "close_fd (p_fd pr) s" s'] show ?thesis
      by (auto simp: ProbeProcess_def)
  next
    case True
    with assms(1) pr obtain d c where
      s': "s' = upd_layer (\<lambda>l. l\<lparr>read_cbs := (read_cbs l)(p_fd pr := Some (RdProcessResponse p))\<rparr>)
                (set_proc p (pr\<lparr>p_cb := Some (next_id s)\<rparr>) (schedule d (CbLayer c) s))"
      by (auto simp: ProbeProcess_def Let_def split: if_splits)
    have "proc_good (set_proc p (pr\<lparr>p_cb := Some (next_id s)\<rparr>) (schedule d (CbLayer c) s))"
      by (rule proc_good_set [of _ p pr]) (use assms(2) pr in auto)
    then show ?thesis unfolding s' by (subst proc_good_cong) simp_all
  qed
qed

lemma ProcStartMonitoring_good:
  assumes "ProcStartMonitoring h s = Inr s'" and "proc_linv (layer s)"
    and "watched_but proc_mon h s"
  shows "proc_good s'"
proof -
  from assms(1) obtain p pr where p: "monitored (layer s) h = Some (Some p)"
    "procs (layer s) p = Some pr" "ProbeProcess p (set_proc p (pr\<lparr>p_active := True\<rparr>) s) = Inr s'"
    by (auto simp: ProcStartMonitoring_def monitored_at_Some split: option.splits)
  have "proc_linv (layer (set_proc p (pr\<lparr>p_active := True\<rparr>) s))"
    by (rule proc_linv_set [OF assms(2) p(2)]) simp
  moreover have "watched proc_mon (set_proc p (pr\<lparr>p_active := True\<rparr>) s)"
    unfolding watched_def
  proof (intro allI impI)
    fix t
    assume t: "target_clients (set_proc p (pr\<lparr>p_active := True\<rparr>) s) t \<noteq> []"
    show "proc_mon t (layer (set_proc p (pr\<lparr>p_active := True\<rparr>) s))"
    proof (cases "t = h")
      case True
      with p show ?thesis by (auto simp: proc_mon_def)
    next
      case False
      with assms(3) t have "proc_mon t (layer s)" by (simp add: watched_but_def set_proc_def)
      then show ?thesis by (rule proc_mon_set [OF p(2), rotated]) simp
    qed
  qed
  ultimately show ?thesis using ProbeProcess_good [OF p(3)] by (simp add: proc_good_def)
qed

lemma ProcessTimeout_good:
  assumes "ProcessTimeout p s = Inr s'" and "proc_good s"
  shows "proc_good s'"
proof -
  from assms(1) obtain pr where pr: "procs (layer s) p = Some pr"
    "ProcKill (p_handle pr)
       (set_proc p (pr\<lparr>p_state := ENF_TIMEDOUT, p_cb := None\<rparr>) (close_fd (p_fd pr) s)) = Inr s'"
    by (auto simp: ProcessTimeout_def)
  show ?thesis
    by (rule ProcKill_good [OF pr(2)], rule proc_good_set [of _ p pr]) (use assms(2) pr(1) in auto)
qed

lemma CheckCPUTime_good:
  assumes "CheckCPUTime p t s = Inr s'" and "proc_good s"
  shows "proc_good s'"
proof -
  from assms(1) obtain pr where pr: "procs (layer s) p = Some pr" by (auto simp: CheckCPUTime_def)
  have "proc_good (set_proc p (pr\<lparr>p_state := ENF_CPU_TIMEOUT, p_cb := None\<rparr>) (close_fd (p_fd pr) s))"
    by (rule proc_good_set [of _ p pr]) (use assms(2) pr in auto)
  moreover have "proc_good (set_proc p (pr\<lparr>p_cb := Some (next_id s)\<rparr>) (schedule d cb s))" for d cb
    by (rule proc_good_set [of _ p pr]) (use assms(2) pr in auto)
  ultimately show ?thesis
    using assms(1) pr ProcKill_good [of "p_handle pr" "set_proc p (pr\<lparr>p_state := ENF_CPU_TIMEOUT,
      p_cb := None\<rparr>) (close_fd (p_fd pr) s)" s']
    by (auto simp: CheckCPUTime_def Let_def split: if_splits)
qed

lemma ConfirmDeath_good: "ConfirmDeath h k w s = Inr s' \<Longrightarrow> proc_good s \<Longrightarrow> proc_good s'"
  by (auto simp: ConfirmDeath_def split: option.splits if_splits dest!: proc_down_good)

lemma run_proc_good: "run_proc c st s = Inr s' \<Longrightarrow> proc_good s \<Longrightarrow> proc_good s'"
  by (cases c)
    (auto intro: ConfirmDeath_good ProbeProcess_good ProcessTimeout_good CheckCPUTime_good)

lemma ProcessResponse_good:
  assumes "ProcessResponse p r s = Inr s'" and "proc_good s"
  shows "proc_good s'"
proof -
  from assms(1) obtain pr where pr: "procs (layer s) p = Some pr" by (auto simp: ProcessResponse_def)
  let ?s1 = "case p_cb pr of None \<Rightarrow> s | Some i \<Rightarrow> timecb_remove i s"
  let ?s2 = "set_proc p (pr\<lparr>p_cb := None\<rparr>) ?s1"
  have s1: "procs (layer ?s1) p = Some pr" "proc_good ?s1"
    using pr assms(2) by (simp_all split: option.splits)
  have s2: "proc_good ?s2"
    by (rule proc_good_set [of _ p pr]) (use s1 in auto)
  have s3: "proc_good (set_proc p (pr\<lparr>p_cb := None, p_state := st\<rparr>) ?s2)" for st
    by (rule proc_good_set [of _ p "pr\<lparr>p_cb := None\<rparr>"]) (use s2 in auto)
  have up: "proc_good (ObserveUp h ?s2)" for h
    using s2 by (subst proc_good_cong [of _ ?s2]) (simp_all add: frame)
  show ?thesis
  proof (cases r)
    case None
    with assms(1) pr s2 ProcKill_good [of "p_handle pr" "close_fd (p_fd pr) ?s2" s'] show ?thesis
      by (auto simp: ProcessResponse_def Let_def)
  next
    case (Some st)
    with assms(1) pr s2 up ProcKill_good [OF _ s3, of "p_handle pr" st s'] show ?thesis
      by (auto simp: ProcessResponse_def Let_def split: if_splits)
  qed
qed

lemma proc_linv_fresh: "proc_linv l \<Longrightarrow> procs l (next_pref l) = None"
  by (cases "procs l (next_pref l)") (auto simp: proc_linv_def)

lemma proc_linv_entry:
  "proc_linv l \<Longrightarrow> monitored l h = Some (Some p) \<Longrightarrow> \<exists>pr. procs l p = Some pr \<and> p_handle pr = h"
  by (simp add: proc_linv_def)

lemma proc_linv_object:
  "proc_linv l \<Longrightarrow> procs l p = Some pr \<Longrightarrow> p < next_pref l \<and> monitored l (p_handle pr) = Some (Some p)"
  by (simp add: proc_linv_def)

lemma add_process_linv:
  assumes "\<And>p pr. procs (layer s) p = Some pr \<Longrightarrow> p < next_pref (layer s) \<and>
      monitored (layer s) (p_handle pr) = Some (Some p) \<and> p_handle pr \<noteq> hs_handle h"
    and "\<And>h' p. h' \<noteq> hs_handle h \<Longrightarrow> monitored (layer s) h' = Some (Some p) \<Longrightarrow>
      \<exists>pr. procs (layer s) p = Some pr \<and> p_handle pr = h'"
  shows "proc_linv (layer (add_process h fd s))"
  unfolding proc_linv_def
proof (intro conjI allI impI)
  let ?s = "add_process h fd s"
  fix h' p
  assume m: "monitored (layer ?s) h' = Some (Some p)"
  show "\<exists>pr. procs (layer ?s) p = Some pr \<and> p_handle pr = h'"
  proof (cases "h' = hs_handle h")
    case True
    with m show ?thesis by (simp add: add_process_def Let_def new_process_def)
  next
    case False
    with m have m': "monitored (layer s) h' = Some (Some p)" by (simp add: add_process_def Let_def)
    from assms(2) [OF False m'] obtain pr where pr: "procs (layer s) p = Some pr" "p_handle pr = h'"
      by blast
    with assms(1) [OF pr(1)] show ?thesis by (simp add: add_process_def Let_def)
  qed
next
  let ?s = "add_process h fd s"
  fix p pr
  assume q: "procs (layer ?s) p = Some pr"
  have "p = next_pref (layer s) \<and> pr = new_process h fd \<or> procs (layer s) p = Some pr"
    using q by (simp add: add_process_def Let_def split: if_splits)
  with assms(1) [of p pr] show "p < next_pref (layer ?s)"
    "monitored (layer ?s) (p_handle pr) = Some (Some p)"
    by (auto simp: add_process_def Let_def new_process_def)
qed

lemma add_process_good:
  assumes "proc_linv (layer s)" and "monitored_at (hs_handle h) s = None" and "watched proc_mon s"
  shows "proc_good (add_process h fd s)"
proof -
  let ?p = "next_pref (layer s)"
  have n: "\<not> monitored (layer s) (hs_handle h) = Some (Some q)" for q
    using assms(2) by (simp add: monitored_at_def split: option.splits)
  have f: "procs (layer s) ?p = None" by (rule proc_linv_fresh [OF assms(1)])
  have "proc_linv (layer (add_process h fd s))"
    by (rule add_process_linv)
      (use n proc_linv_entry [OF assms(1)] proc_linv_object [OF assms(1)] in metis)+
  moreover have "proc_mon t (layer (add_process h fd s))" if "proc_mon t (layer s)" for t
    using that n f by (auto simp: proc_mon_def add_process_def Let_def)
  ultimately show ?thesis
    using assms(3) by (auto simp: proc_good_def watched_def add_process_def Let_def)
qed

text \<open>
  A new process takes the place of a dead one only when nobody has it monitored, so no client loses
  its target.
\<close>

lemma replace_process_good:
  assumes "proc_good s" and "monitored (layer s) (hs_handle h) = Some (Some q)"
    and "procs (layer s) q = Some qr" and "\<not> p_active qr"
  shows "proc_good (add_process h fd (delete_process q s))"
proof -
  let ?s = "delete_process q s" and ?p = "next_pref (layer s)"
  have l: "proc_linv (layer s)" "watched proc_mon s" using assms(1) by (simp_all add: proc_good_def)
  have f: "procs (layer s) ?p = None" by (rule proc_linv_fresh [OF l(1)])
  have u: "monitored (layer s) h' = Some (Some q) \<Longrightarrow> h' = hs_handle h" for h'
    using l(1) assms(2) unfolding proc_linv_def by (metis option.inject)
  have "proc_linv (layer (add_process h fd ?s))"
  proof (rule add_process_linv)
    fix p pr
    assume "procs (layer ?s) p = Some pr"
    then have p: "p \<noteq> q" "procs (layer s) p = Some pr"
      by (auto simp: delete_process_def split: if_splits)
    from proc_linv_object [OF l(1) p(2)] p(1) assms(2) show "p < next_pref (layer ?s) \<and>
      monitored (layer ?s) (p_handle pr) = Some (Some p) \<and> p_handle pr \<noteq> hs_handle h"
      by (auto simp: delete_process_def)
  next
    fix h' p
    assume h': "h' \<noteq> hs_handle h" "monitored (layer ?s) h' = Some (Some p)"
    then have m: "monitored (layer s) h' = Some (Some p)" by (simp add: delete_process_def)
    with h'(1) u have "p \<noteq> q" by auto
    with proc_linv_entry [OF l(1) m] show "\<exists>pr. procs (layer ?s) p = Some pr \<and> p_handle pr = h'"
      by (simp add: delete_process_def)
  qed
  moreover have "proc_mon t (layer (add_process h fd ?s))" if "proc_mon t (layer s)" for t
  proof -
    from that obtain p pr where p: "monitored (layer s) t = Some (Some p)"
      "procs (layer s) p = Some pr" "p_active pr" by (auto simp: proc_mon_def)
    then have "p \<noteq> q" using assms(3,4) by auto
    with p have "t \<noteq> hs_handle h" using assms(2) by auto
    with p \<open>p \<noteq> q\<close> f show ?thesis
      by (auto simp: proc_mon_def add_process_def delete_process_def Let_def)
  qed
  ultimately show ?thesis
    using l(2) by (auto simp: proc_good_def watched_def add_process_def delete_process_def Let_def)
qed

lemma ClientAcceptor_good:
  assumes "ClientAcceptor fd hs s = Inr s'" and "proc_good s"
  shows "proc_good s'"
  using assms add_process_good [of s _ fd] replace_process_good [OF assms(2)]
  by (auto simp: ClientAcceptor_def monitored_at_Some split: option.splits if_splits)
    (simp_all add: proc_good_def)

lemma proc_ext_good:
  assumes "proc_ext i s = Inr s'" and "proc_good s"
  shows "proc_good s'"
proof (cases i)
  case (PReadable fd hs rp)
  with assms show ?thesis
    by (auto split: option.splits read_cb.splits intro: ClientAcceptor_good ProcessResponse_good)
next
  case (PAccept fd)
  have "proc_good (AcceptProcess fd s)" 
    using assms(2) by (subst proc_good_cong [of _ s]) (simp_all add: AcceptProcess_def)
  with PAccept assms show ?thesis by (auto split: if_splits)
next
  case (PProcesses a k c)
  with assms show ?thesis by (auto simp: proc_good_def watched_def proc_linv_def proc_mon_def)
next
  case (PSockets so dg)
  with assms show ?thesis by (auto simp: proc_good_def watched_def proc_linv_def proc_mon_def)
next
  case (PDisk w y)
  with assms show ?thesis by (auto simp: proc_good_def watched_def)
qed

interpretation pem: monitored_layer proc_ops run_proc proc_linv proc_mon
proof unfold_locales
  fix s s' :: penf and t
  show "StartMonitoring proc_ops t s = Inr s' \<Longrightarrow> proc_linv (layer s) \<Longrightarrow> watched_but proc_mon t s \<Longrightarrow>
      proc_linv (layer s') \<and> watched proc_mon s'"
    using ProcStartMonitoring_good [of t s s'] by (simp add: proc_ops_def proc_good_def)
qed (auto simp: proc_ops_def ProcUpdateGenerations_def
      dest: ProcKill_good run_proc_good simp: proc_good_def
      intro: ProcStopMonitoring_linv ProcStopMonitoring_mon)

end
