(* ===== verification/Sample.thy ===== *)
theory Sample
  imports ProcessEnforcer
begin

text \<open>
  A concrete process enforcer on which the properties are instantiated: one active process ''app''
  with process id 7, and one client that is registered for it with a licence to kill, waits for its
  next sign of life and asked for one every 2.5 seconds.
\<close>

definition demo_layer :: proc_layer where
  "demo_layer = \<lparr>procs = (\<lambda>_. None)(0 := Some \<lparr>p_handle = ''app'', p_pid = 7, p_delay = 0,
       p_delay_ms = 1500, p_fd = 5, p_cb = None, p_state = 0, p_active = True\<rparr>),
     next_pref = 1, monitored = (\<lambda>_. None)(''app'' := Some (Some 0)), read_cbs = (\<lambda>_. None),
     open_fds = {5}, signals = [], confirm_wait_ns = 10000000, poll_freq_ns = 1000000000,
     cpu_time_wait_multiplier = 2, clck_tick = 100, alive = (\<lambda>p. p = 7),
     kill_outcome = (\<lambda>_. Kill_ok), send_ok = (\<lambda>_. True), cpu_time = (\<lambda>_. Some 0)\<rparr>"

definition demo_client :: falcon_client where
  "demo_client = \<lparr>fc_id = ''c'', fc_up_intervals = [(''app'', 2500)], fc_tag = 9\<rparr>"

definition demo :: penf where
  "demo = \<lparr>gen_vec = [1, 2], generations = (\<lambda>_. 0), gen_log = [], log_discards = False,
     log_write_ok = True, log_sync = Sync_ok, sock_ok = True,
     heap = (\<lambda>_. demo_client), next_ref = 1, all_clients = [(''c'', 0)],
     waiting_for_up = (\<lambda>_. [])(''app'' := [(''c'', 0)]),
     target_clients = (\<lambda>_. [])(''app'' := [(''c'', 0)]),
     deadly = (\<lambda>_. [])(''app'' := [(''c'', 0)]), pending = [], next_id = 0, outbox = [],
     layer = demo_layer\<rparr>"

lemma demo_core: "core_inv demo"
  by (simp add: core_inv_def tables_ok_def events_ok_def typed_def registered_def demo_def
      demo_client_def cid_def sm_ok_def sm_keys_def sm_get_def)

lemma demo_good: "proc_good demo"
  by (simp add: proc_good_def proc_linv_def watched_def proc_mon_def demo_def demo_layer_def)

text \<open>What evaluates the handlers on that state.\<close>

lemmas run_simps =
  fire_def ReportDown_def RemoveClient_def remove_from_target_def
  HandleClientHeartbeat_def DoHeartbeat_def timecb_remove_def kMaxRetries_def kClientRetry_def
  cs_count_def cs_erase_def sm_del_def sm_keys_def cid_def proc_ops_def ProcStopMonitoring_def
  monitored_at_def proc_at_def set_proc_def Let_def

section \<open>Runs from the start\<close>

text \<open>
  Inputs of a run: process 7 exists, connects on descriptor 5 and names itself ''app'', and a client
  registers for it, with or without the licence to kill.
\<close>

abbreviation demo_addr :: client_addr_t where
  "demo_addr \<equiv> \<lparr>ca_ipaddr = 0, ca_port = 0, ca_tag = 0\<rparr>"

definition demo_hs :: handshake where
  "demo_hs = \<lparr>hs_handle = ''app'', hs_pid = 7, hs_delay_ms = 1500, hs_delay = DELAY_REALTIME\<rparr>"

definition demo_reg :: "bool \<Rightarrow> spy_call" where
  "demo_reg lethal = SPY_REGISTER \<lparr>ra_target = \<lparr>tg_handle = ''app'', tg_generation = [1, 2, 0]\<rparr>,
     ra_lethal = lethal, ra_up_interval_ms = 2500, ra_client = demo_addr\<rparr>"

definition demo_start :: penf where
  "demo_start = proc_start 1 2 10 1000 2 100 []"

definition demo_inputs :: "bool \<Rightarrow> proc_input input list" where
  "demo_inputs lethal =
    [InLayer (PProcesses (\<lambda>p. p = 7) (\<lambda>_. Kill_ok) (\<lambda>_. Some 0)),
     InLayer (PAccept 5), InLayer (PReadable 5 (Some demo_hs) None), InRpc (demo_reg lethal)]"

definition demo_run :: "proc_input input list \<Rightarrow> penf res" where
  "demo_run xs = enf_run proc_ops run_proc proc_ext xs demo_start"

lemmas proc_simps =
  demo_run_def enf_run_def demo_start_def demo_inputs_def demo_hs_def demo_reg_def proc_start_def
  InitGenerations_def init_generations_Nil upd_layer_def AcceptProcess_def ClientAcceptor_def
  add_process_def delete_process_def new_process_def monitored_at_def proc_at_def set_proc_def
  DispatchRegister_def DispatchKill_def GenCheck_def proc_ops_def ProcUpdateGenerations_def
  ProcInvalidTarget_def ProcStartMonitoring_def ProbeProcess_def ProcKill_def ConfirmDeath_def
  ProcessTimeout_def ProcessResponse_def ProcStopMonitoring_def check_process_table_def
  target_gen_def reply_def emit_def schedule_def timecb_remove_def Let_def
  GetClient_def register_client_def RepeatWaiting_def read_interval_def set_interval_def
  cs_count_def cs_insert_def sm_insert_def sm_get_def cid_def DoHeartbeat_def Killable_def
  fire_def close_fd_def stop_reading_def ObserveDown_def observe_down_client_def
  ReportDown_def kMaxRetries_def down_arg_def IncrementGeneration_def ObserveUp_def

definition demo_cancel :: spy_call where
  "demo_cancel = SPY_CANCEL \<lparr>xa_target = \<lparr>tg_handle = ''app'', tg_generation = [1, 2, 0]\<rparr>,
     xa_client = demo_addr\<rparr>"

definition all_dead :: "proc_input input" where
  "all_dead = InLayer (PProcesses (\<lambda>_. False) (\<lambda>_. Kill_ok) (\<lambda>_. None))"

definition demo_kill :: spy_call where
  "demo_kill = SPY_KILL \<lparr>tg_handle = ''app'', tg_generation = [1, 2, 0]\<rparr>"

end
