(* ===== verification/EnforcerProps.thy ===== *)
theory EnforcerProps
  imports Sample
begin

text \<open>
  The properties of the code that every enforcer shares: generations and their log, the naming of
  clients, the timers, and the down reports.
\<close>

section \<open>Generations\<close>

lemma gen_compare_lex:
  "length ms = length qs \<Longrightarrow>
   gen_compare ms qs =
     (if ms = qs then FALCON_SUCCESS else if ms < qs then FALCON_FUTURE_GEN else FALCON_LONG_DEAD)"
proof (induction ms qs rule: list_induct2)
  case Nil
  then show ?case by simp
next
  case (Cons m ms q qs)
  then show ?case by (cases m q rule: linorder_cases) auto
qed

lemma GenCheck_cases:
  assumes "GenCheck ops t q s = Inr (st, s')"
  shows "UpdateGenerations ops t s = Inr s'"
    and "st = (if InvalidTarget ops t s' then FALCON_UNKNOWN_TARGET
               else if length (target_gen t s') \<noteq> length q then FALCON_BAD_GEN_VEC
               else if target_gen t s' = q then FALCON_SUCCESS
               else if target_gen t s' < q then FALCON_FUTURE_GEN else FALCON_LONG_DEAD)"
  using assms by (auto simp: GenCheck_def Let_def gen_compare_lex)

text \<open>
  C26. The check of a generation vector, after the layer has brought its own vector up to date, is
  the lexicographic comparison: an unknown target and a vector of the wrong length are reported as
  such, equal vectors succeed, a smaller query is long dead and a larger one is in the future.
\<close>

theorem GenCheck_reference:
  assumes "GenCheck ops t q s = Inr (st, s')"
  shows "UpdateGenerations ops t s = Inr s' \<and>
    st = (if InvalidTarget ops t s' then FALCON_UNKNOWN_TARGET
          else if length q \<noteq> length (gen_vec s') + 1 then FALCON_BAD_GEN_VEC
          else if q = gen_vec s' @ [generations s' t] then FALCON_SUCCESS
          else if gen_vec s' @ [generations s' t] < q then FALCON_FUTURE_GEN
          else FALCON_LONG_DEAD)"
  using GenCheck_cases [OF assms] by (auto simp: target_gen_def)

theorem GenCheck_reference_witness:
  "\<exists>s'. GenCheck proc_ops ''app'' [1, 1, 7] demo = Inr (FALCON_LONG_DEAD, s') \<and>
     FALCON_LONG_DEAD =
      (if InvalidTarget proc_ops ''app'' s' then FALCON_UNKNOWN_TARGET
          else if length [1, 1, 7 :: gen_no] \<noteq> length (gen_vec s') + 1 then FALCON_BAD_GEN_VEC
          else if [1, 1, 7] = gen_vec s' @ [generations s' ''app''] then FALCON_SUCCESS
          else if gen_vec s' @ [generations s' ''app''] < [1, 1, 7] then FALCON_FUTURE_GEN
          else FALCON_LONG_DEAD)"
proof -
  have "GenCheck proc_ops ''app'' [1, 1, 7] demo = Inr (FALCON_LONG_DEAD, demo)"
    by (simp add: GenCheck_def proc_ops_def ProcUpdateGenerations_def ProcInvalidTarget_def
        target_gen_def demo_def demo_layer_def)
  with GenCheck_reference [OF this] show ?thesis by blast
qed

text \<open>The lines of the log.\<close>

definition log_lines :: "str list \<Rightarrow> string" where
  "log_lines ts = concat (map (\<lambda>t. t @ [CHR 0x0A]) ts)"

definition line_ok :: "str \<Rightarrow> bool" where
  "line_ok t \<longleftrightarrow> CHR 0x0A \<notin> set t \<and> Suc (length t) < kTargetSize"

lemma fgets_aux_line:
  "CHR 0x0A \<notin> set t \<Longrightarrow> length t < n \<Longrightarrow>
   fgets_aux n (t @ CHR 0x0A # rest) = (t @ [CHR 0x0A], rest)"
proof (induction t arbitrary: n)
  case Nil
  then show ?case by (cases n) simp_all
next
  case (Cons c t)
  then show ?case by (cases n) auto
qed

lemma init_generations_line:
  assumes "line_ok t"
  shows "init_generations (t @ CHR 0x0A # rest) g = init_generations rest (g(t := g t + 1))"
proof -
  have "fgets_aux (kTargetSize - 1) (t @ CHR 0x0A # rest) = (t @ [CHR 0x0A], rest)"
    by (rule fgets_aux_line) (use assms in \<open>auto simp: line_ok_def\<close>)
  then have "fgets kTargetSize (t @ CHR 0x0A # rest) = Some (t @ [CHR 0x0A], rest)"
    by (simp add: fgets_def split: list.splits)
  then show ?thesis by (subst init_generations.simps) (simp add: Let_def)
qed

lemma init_generations_lines:
  assumes "\<And>t. t \<in> set ts \<Longrightarrow> line_ok t"
  shows "init_generations (log_lines ts) g = (\<lambda>t. g t + of_nat (count_list ts t))"
  using assms
proof (induction ts arbitrary: g)
  case Nil
  then show ?case by (simp add: log_lines_def init_generations_Nil)
next
  case (Cons t ts)
  have "init_generations (log_lines (t # ts)) g =
      init_generations (log_lines ts) (g(t := g t + 1))"
    using Cons.prems by (simp add: log_lines_def init_generations_line)
  with Cons show ?case by (auto simp: fun_eq_iff)
qed

lemma IncrementGeneration_log:
  assumes "IncrementGeneration t s = Inr s'" and "\<not> log_discards s"
  shows "gen_log s' = gen_log s @ t @ [CHR 0x0A]" and "\<not> log_discards s'"
    and "generations s' = (generations s)(t := generations s t + 1)"
  using assms by (auto simp: IncrementGeneration_def Let_def split: if_splits)

lemma increments_log:
  assumes "res_fold IncrementGeneration us s = Inr s'" and "\<not> log_discards s"
  shows "gen_log s' = gen_log s @ log_lines us \<and>
    generations s' = (\<lambda>t. generations s t + of_nat (count_list us t)) \<and> \<not> log_discards s'"
  using assms
proof (induction us arbitrary: s)
  case Nil
  then show ?case by (simp add: log_lines_def)
next
  case (Cons u us)
  then obtain s1 where s1: "IncrementGeneration u s = Inr s1"
    "res_fold IncrementGeneration us s1 = Inr s'" by auto
  note log = IncrementGeneration_log [OF s1(1) Cons.prems(2)]
  from Cons.IH [OF s1(2) log(2)] log(1,3) show ?case
    by (auto simp: log_lines_def fun_eq_iff)
qed

text \<open>
  C36. Crash recovery.  An enforcer that started from a log of whole lines and then incremented any
  targets can be restarted: reading the log back gives exactly the generations it had in memory,
  for targets whose names contain no newline and fit the line buffer.
\<close>

theorem generations_survive_restart:
  assumes "gen_log s = log_lines ts" and "generations s = init_generations (gen_log s) (\<lambda>_. 0)"
    and "\<not> log_discards s" and "\<forall>t \<in> set (ts @ us). line_ok t"
    and "res_fold IncrementGeneration us s = Inr s'"
  shows "init_generations (gen_log s') (\<lambda>_. 0) = generations s'"
proof -
  have "gen_log s' = log_lines (ts @ us)"
    using increments_log [OF assms(5,3)] assms(1) by (simp add: log_lines_def)
  moreover have "init_generations (log_lines (ts @ us)) (\<lambda>_. 0) =
      (\<lambda>t. of_nat (count_list (ts @ us) t))"
    using assms(4) by (subst init_generations_lines) auto
  moreover have "generations s = (\<lambda>t. of_nat (count_list ts t))"
    using assms(1,2,4) by (simp add: init_generations_lines)
  ultimately show ?thesis
    using increments_log [OF assms(5,3)] by (auto simp: fun_eq_iff)
qed

theorem generations_survive_restart_witness:
  "\<exists>s'. res_fold IncrementGeneration [''app'', ''b'', ''app''] demo = Inr s' \<and>
     init_generations (gen_log s') (\<lambda>_. 0) = generations s' \<and> generations s' ''app'' = 2"
proof -
  obtain s' where s': "res_fold IncrementGeneration [''app'', ''b'', ''app''] demo = Inr s'"
    "generations s' ''app'' = 2"
    by (simp add: IncrementGeneration_def demo_def)
  have "init_generations (gen_log s') (\<lambda>_. 0) = generations s'"
    by (rule generations_survive_restart [where ts = "[]", OF _ _ _ _ s'(1)])
      (simp_all add: demo_def log_lines_def init_generations_Nil line_ok_def kTargetSize_def)
  with s' show ?thesis by blast
qed

section \<open>Catching up with a generation\<close>

lemma IncrementGeneration_ok:
  assumes "log_write_ok s" and "log_sync s \<in> {Sync_ok, Sync_EROFS, Sync_EINVAL}"
    and "\<not> log_discards s"
  shows "IncrementGeneration t s =
    Inr (s\<lparr>gen_log := gen_log s @ t @ [CHR 0x0A],
           generations := (generations s)(t := generations s t + 1)\<rparr>)"
  using assms by (auto simp: IncrementGeneration_def Let_def)

lemma ff_loop_result:
  assumes "unat n - unat (generations s t) = k" and "generations s t \<le> n" and "log_write_ok s"
    and "log_sync s \<in> {Sync_ok, Sync_EROFS, Sync_EINVAL}" and "\<not> log_discards s"
  shows "ff_loop n t s = Inr (s\<lparr>gen_log := gen_log s @ log_lines (replicate k t),
                              generations := (generations s)(t := n)\<rparr>)"
  using assms
proof (induction k arbitrary: s)
  case 0
  then have "generations s t = n" by (simp add: word_le_nat_alt word_unat_eq_iff)
  moreover from this have "(generations s)(t := n) = generations s" by auto
  ultimately show ?case by (simp add: ff_loop.simps log_lines_def)
next
  case (Suc k)
  then have lt: "generations s t < n" by (simp add: word_less_nat_alt)
  let ?s1 = "s\<lparr>gen_log := gen_log s @ t @ [CHR 0x0A],
             generations := (generations s)(t := generations s t + 1)\<rparr>"
  have "ff_loop n t s = ff_loop n t ?s1"
    using lt IncrementGeneration_ok [OF Suc.prems(3-5), of t] by (subst ff_loop.simps) simp
  also have "\<dots> = Inr (?s1\<lparr>gen_log := gen_log ?s1 @ log_lines (replicate k t),
                              generations := (generations ?s1)(t := n)\<rparr>)"
    by (rule Suc.IH)
      (use Suc.prems lt unat_inc_less [OF lt] in \<open>auto simp: word_le_nat_alt word_less_nat_alt\<close>)
  finally show ?case by (simp add: log_lines_def) (simp add: fun_upd_def)
qed

text \<open>
  \<open>FastForwardGeneration\<close> returns, whatever the distance, with the generation at the value
  given: a smaller value is assigned and leaves no trace in the log, a larger one is reached by as
  many logged increments as it takes.
\<close>

theorem FastForwardGeneration_result:
  assumes "log_write_ok s" and "log_sync s \<in> {Sync_ok, Sync_EROFS, Sync_EINVAL}"
    and "\<not> log_discards s"
  shows "FastForwardGeneration t n s =
    Inr (s\<lparr>gen_log := gen_log s @ log_lines (replicate (unat n - unat (generations s t)) t),
           generations := (generations s)(t := n)\<rparr>)"
proof (cases "n < generations s t")
  case True
  then have "unat n - unat (generations s t) = 0" by (simp add: word_less_nat_alt)
  with True assms show ?thesis
    by (simp add: FastForwardGeneration_def ff_loop_result [where k = 0])
next
  case False
  with assms show ?thesis
    by (simp add: FastForwardGeneration_def ff_loop_result [where k = "unat n - unat (generations s t)"])
qed

theorem FastForwardGeneration_result_witness:
  "FastForwardGeneration ''app'' 2 demo =
     Inr (demo\<lparr>gen_log := gen_log demo @ log_lines (replicate 2 ''app''),
           generations := (generations demo)(''app'' := 2)\<rparr>)"
proof -
  have "unat (2 :: u32) - unat (generations demo ''app'') = 2" by (simp add: demo_def)
  with FastForwardGeneration_result [of demo "''app''" 2] show ?thesis by (simp add: demo_def)
qed

section \<open>Client names\<close>

lemma octets:
  "unat (x :: u32) = octet x 0 + 256 * (octet x 1 + 256 * (octet x 2 + 256 * octet x 3))"
proof -
  define n where "n = unat x"
  have "n < 4294967296" using unsigned_less [of x] by (simp add: n_def)
  then have "n div 256 div 256 div 256 < 256" by simp
  then have 3: "n div 256 div 256 div 256 mod 256 = n div 256 div 256 div 256" by simp
  have d: "n div 65536 = n div 256 div 256" "n div 16777216 = n div 256 div 256 div 256"
    by (simp_all add: div_mult2_eq [symmetric])
  have "n = n mod 256 + 256 * (n div 256)"
    and "n div 256 = n div 256 mod 256 + 256 * (n div 256 div 256)"
    and "n div 256 div 256 = n div 256 div 256 mod 256 + 256 * (n div 256 div 256 div 256)"
    by simp_all
  then show ?thesis
    unfolding octet_def n_def [symmetric] by (simp only: power_0 power_one_right div_by_1) (simp add: d 3)
qed

lemma octets_inj:
  assumes "\<And>i. i < 4 \<Longrightarrow> octet a i = octet b i"
  shows "a = b"
proof -
  have "unat a = unat b" using assms by (simp add: octets)
  then show ?thesis by (simp add: word_unat_eq_iff)
qed

lemma inet_ntoa_inj: "inet_ntoa a = inet_ntoa b \<longleftrightarrow> a = b"
proof
  assume e: "inet_ntoa a = inet_ntoa b"
  note dot = append_sep_inj [OF show_nat_no_sep [THEN conjunct2] show_nat_no_sep [THEN conjunct2]]
  note 0 = dot [OF e [unfolded inet_ntoa_def]]
  note 1 = dot [OF conjunct2 [OF 0]]
  note 2 = dot [OF conjunct2 [OF 1]]
  show "a = b"
  proof (rule octets_inj)
    fix i :: nat
    assume "i < 4"
    then consider "i = 0" | "i = 1" | "i = 2" | "i = 3" by linarith
    then show "octet a i = octet b i"
      using conjunct1 [OF 0] conjunct1 [OF 1] 2 by cases (simp_all add: show_nat_inj)
  qed
qed simp

lemma inet_ntoa_no_colon: "CHR '':'' \<notin> set (inet_ntoa a)"
  using show_nat_no_sep by (auto simp: inet_ntoa_def)

lemma two_digits_inj:
  "b < 256 \<Longrightarrow> d < 256 \<Longrightarrow> a * 256 + b = c * 256 + d \<longleftrightarrow> a = c \<and> b = (d :: nat)"
proof
  assume lt: "b < 256" "d < 256" and e: "a * 256 + b = c * 256 + d"
  from e have "(a * 256 + b) div 256 = (c * 256 + d) div 256" by simp
  with lt have "a = c" by simp
  with e show "a = c \<and> b = d" by simp
qed simp

lemma ntohs_eq_iff: "ntohs p = ntohs q \<longleftrightarrow> unat p mod 2 ^ 16 = unat q mod 2 ^ 16"
proof -
  have digits: "x mod 2 ^ 16 = (x div 256 mod 256) * 256 + x mod 256" for x :: nat
    using mod_mult2_eq [of x 256 256] by simp
  show ?thesis
    unfolding digits ntohs_def octet_def by (simp add: two_digits_inj conj_commute)
qed

text \<open>
  Two addresses name the same client exactly when they agree in address, tag and the low
  sixteen bits of the port: different clients never share an entry of the client tables.
\<close>

theorem client_id_of_inj:
  "client_id_of a = client_id_of b \<longleftrightarrow>
     ca_ipaddr a = ca_ipaddr b \<and> unat (ca_port a) mod 2 ^ 16 = unat (ca_port b) mod 2 ^ 16 \<and>
     ca_tag a = ca_tag b"
proof
  assume e: "client_id_of a = client_id_of b"
  note colon = show_nat_no_sep [THEN conjunct1]
  from append_sep_inj [OF inet_ntoa_no_colon inet_ntoa_no_colon e [unfolded client_id_of_def]]
  have 1: "inet_ntoa (ca_ipaddr a) = inet_ntoa (ca_ipaddr b)"
    and 2: "show_nat (ntohs (ca_port a)) @ CHR '':'' # show_nat (unat (ca_tag a)) =
        show_nat (ntohs (ca_port b)) @ CHR '':'' # show_nat (unat (ca_tag b))" by simp_all
  from append_sep_inj [OF colon colon 2] 1 show
    "ca_ipaddr a = ca_ipaddr b \<and> unat (ca_port a) mod 2 ^ 16 = unat (ca_port b) mod 2 ^ 16 \<and>
     ca_tag a = ca_tag b"
    by (simp add: show_nat_inj inet_ntoa_inj ntohs_eq_iff word_unat_eq_iff [of "ca_tag a"])
next
  assume "ca_ipaddr a = ca_ipaddr b \<and> unat (ca_port a) mod 2 ^ 16 = unat (ca_port b) mod 2 ^ 16 \<and>
     ca_tag a = ca_tag b"
  then show "client_id_of a = client_id_of b"
    using ntohs_eq_iff [of "ca_port a" "ca_port b"] by (simp add: client_id_of_def)
qed

section \<open>Signs of life\<close>

text \<open>
  The wait between two signs of life: a negative interval asks for one sign only, a zero
  interval puts the client back at once, and a positive one arms exactly one timer whose seconds
  and nanoseconds, both in range, are the interval in milliseconds.
\<close>

theorem RepeatWaiting_timer:
  assumes "cs_count (target_clients s t) s r"
    and "sm_get (fc_up_intervals (heap s r)) t = Some d"
  shows "(sint d < 0 \<longrightarrow> RepeatWaiting t r s = s) \<and>
    (d = 0 \<longrightarrow> sm_get (waiting_for_up (RepeatWaiting t r s) t) (cid s r) \<noteq> None \<and>
      pending (RepeatWaiting t r s) = pending s) \<and>
    (0 < sint d \<longrightarrow> (\<exists>sec ns. sec * 10 ^ 9 + ns = sint d * 10 ^ 6 \<and> 0 \<le> ns \<and> ns < 10 ^ 9 \<and>
      RepeatWaiting t r s = schedule (After sec ns) (CbAddToWaiting t r) s))"
proof (intro conjI impI)
  assume "sint d < 0"
  with assms show "RepeatWaiting t r s = s" by (simp add: RepeatWaiting_def read_interval_def)
next
  assume "d = 0"
  with assms show "sm_get (waiting_for_up (RepeatWaiting t r s) t) (cid s r) \<noteq> None"
    by (simp add: RepeatWaiting_def read_interval_def AddToWaiting_def cs_insert_def)
  from \<open>d = 0\<close> assms show "pending (RepeatWaiting t r s) = pending s"
    by (simp add: RepeatWaiting_def read_interval_def frame)
next
  assume pos: "0 < sint d"
  then have "d \<noteq> 0" by auto
  with pos assms have "RepeatWaiting t r s =
      schedule (After (sint d div 1000) (sint d mod 1000 * 1000000)) (CbAddToWaiting t r) s"
    by (simp add: RepeatWaiting_def read_interval_def)
  moreover have "q * 1000 + m = x \<Longrightarrow> q * 10 ^ 9 + m * 1000000 = x * 10 ^ 6" for q m x :: int
    by (auto simp: algebra_simps)
  from this [OF div_mult_mod_eq] have "sint d div 1000 * 10 ^ 9 + sint d mod 1000 * 1000000 = sint d * 10 ^ 6" .
  moreover have "m < 1000 \<Longrightarrow> m * 1000000 < 10 ^ 9" for m :: int by simp
  from this [of "sint d mod 1000"] have "sint d mod 1000 * 1000000 < 10 ^ 9" by simp
  moreover have "0 \<le> sint d mod 1000 * 1000000" by simp
  ultimately show "\<exists>sec ns. sec * 10 ^ 9 + ns = sint d * 10 ^ 6 \<and> 0 \<le> ns \<and> ns < 10 ^ 9 \<and>
      RepeatWaiting t r s = schedule (After sec ns) (CbAddToWaiting t r) s" by blast
qed

theorem RepeatWaiting_timer_witness:
  "RepeatWaiting ''app'' 0 demo = schedule (After 2 500000000) (CbAddToWaiting ''app'' 0) demo"
proof -
  have "cs_count (target_clients demo ''app'') demo 0"
    and "sm_get (fc_up_intervals (heap demo 0)) ''app'' = Some 2500"
    by (simp_all add: cs_count_def cid_def demo_def demo_client_def sm_get_def)
  from RepeatWaiting_timer [OF this] obtain sec ns :: int where
    r: "sec * 10 ^ 9 + ns = 2500 * 10 ^ 6" "0 \<le> ns" "ns < 10 ^ 9"
    "RepeatWaiting ''app'' 0 demo = schedule (After sec ns) (CbAddToWaiting ''app'' 0) demo"
    by auto
  then have "sec = 2" by simp
  with r show ?thesis by simp
qed

lemma RepeatWaiting_up_arg: "up_arg t r (RepeatWaiting t r' s) = up_arg t r s"
  by (auto simp: up_arg_def target_gen_def RepeatWaiting_def read_interval_def set_interval_def
      AddToWaiting_def schedule_def split: option.splits)

lemma observe_up_loop_outbox:
  "outbox (fold (observe_up_client t) rs s) = outbox s @ map (\<lambda>r. OutUp r (up_arg t r s)) rs"
proof (induction rs arbitrary: s)
  case Nil
  then show ?case by simp
next
  case (Cons r rs)
  have "up_arg t r' (emit m s) = up_arg t r' s" for r' m by (simp add: up_arg_def target_gen_def)
  with Cons show ?case by (simp add: observe_up_client_def frame RepeatWaiting_up_arg)
qed

text \<open>
  A sign of life is sent exactly once to every client that waits for one, in the order of the
  client ids, with the current generation vector of the target and the tag of the client.
\<close>

theorem ObserveUp_sends:
  "outbox (ObserveUp t s) = outbox s @
     map (\<lambda>(i, r). OutUp r \<lparr>up_handle = t, up_generation = gen_vec s @ [generations s t],
       up_tag = fc_tag (heap s r)\<rparr>) (waiting_for_up s t)"
proof -
  have "up_arg t r (s\<lparr>waiting_for_up := w\<rparr>) =
      \<lparr>up_handle = t, up_generation = gen_vec s @ [generations s t], up_tag = fc_tag (heap s r)\<rparr>"
    for r w by (simp add: up_arg_def target_gen_def)
  then show ?thesis
    by (simp add: ObserveUp_def Let_def observe_up_loop_outbox comp_def case_prod_unfold)
qed

section \<open>Down reports\<close>

lemma observe_down_loop_outbox:
  assumes "stopper stop" and "res_fold (observe_down_client stop t st k w) rs s = Inr s1"
  shows "outbox s1 = outbox s @ map (\<lambda>r. OutDown r (down_arg t st k w r s)) rs"
  using assms(2)
proof (induction rs arbitrary: s)
  case Nil
  then show ?case by simp
next
  case (Cons r rs)
  have "down_arg t st k w r' (schedule d cb (emit m s)) = down_arg t st k w r' s" for r' d cb m
    by (simp add: down_arg_def target_gen_def)
  with Cons show ?case by (auto simp: stopper.observe_down_client_eq [OF assms(1)])
qed

lemma observe_down_loop_waiting:
  assumes "stopper stop" and "res_fold (observe_down_client stop t st k w) rs s = Inr s1"
  shows "waiting_for_up s1 = waiting_for_up s \<and> target_clients s1 = target_clients s \<and>
    generations s1 = generations s \<and> deadly s1 = deadly s"
  by (rule res_fold_invariant [OF assms(2), where P = "\<lambda>u. waiting_for_up u = waiting_for_up s \<and>
      target_clients u = target_clients s \<and> generations u = generations s \<and> deadly u = deadly s"])
    (auto simp: stopper.observe_down_client_eq [OF assms(1)])

lemma ObserveDown_gens:
  assumes "stopper stop" and "ObserveDown stop t st k w s = Inr s'"
  shows "generations s' = (generations s)(t := generations s t + 1) \<and> gen_vec s' = gen_vec s"
proof -
  from assms(2) obtain s1 s2 where
    s1: "res_fold (observe_down_client stop t st k w) (map snd (target_clients s t)) s = Inr s1"
    and s2: "IncrementGeneration t s1 = Inr s2"
    and s': "stop t (s2\<lparr>target_clients := (target_clients s2)(t := []),
                      waiting_for_up := (waiting_for_up s2)(t := [])\<rparr>) = Inr s'"
    by (auto simp: ObserveDown_def)
  have "generations s1 = generations s \<and> gen_vec s1 = gen_vec s"
    by (rule res_fold_invariant [OF s1, where P = "\<lambda>u. generations u = generations s \<and>
        gen_vec u = gen_vec s"]) (auto simp: stopper.observe_down_client_eq [OF assms(1)])
  moreover have "generations s2 = (generations s1)(t := generations s1 t + 1) \<and> gen_vec s2 = gen_vec s1"
    using s2 by (auto simp: IncrementGeneration_def Let_def split: if_splits)
  ultimately show ?thesis
    using stopper.stop_core [OF assms(1) s'] by (simp add: same_core_def)
qed

lemma ObserveDown_sent:
  assumes "stopper stop" and "ObserveDown stop t st k w s = Inr s'"
  shows "outbox s' = outbox s @ map (\<lambda>(i, r). OutDown r (down_arg t st k w r s)) (target_clients s t)"
proof -
  from assms(2) obtain s1 s2 where
    s1: "res_fold (observe_down_client stop t st k w) (map snd (target_clients s t)) s = Inr s1"
    and s2: "IncrementGeneration t s1 = Inr s2"
    and s': "stop t (s2\<lparr>target_clients := (target_clients s2)(t := []),
                      waiting_for_up := (waiting_for_up s2)(t := [])\<rparr>) = Inr s'"
    by (auto simp: ObserveDown_def)
  have "outbox s2 = outbox s1" using s2 by (auto simp: IncrementGeneration_def Let_def split: if_splits)
  then show ?thesis
    using stopper.stop_core [OF assms(1) s'] observe_down_loop_outbox [OF assms(1) s1]
    by (simp add: same_core_def comp_def case_prod_unfold)
qed

lemma ObserveDown_tables:
  assumes "stopper stop" and "ObserveDown stop t st k w s = Inr s'"
  shows "target_clients s' = (target_clients s)(t := []) \<and>
    waiting_for_up s' = (waiting_for_up s)(t := []) \<and> deadly s' = deadly s"
proof -
  from assms(2) obtain s1 s2 where
    s1: "res_fold (observe_down_client stop t st k w) (map snd (target_clients s t)) s = Inr s1"
    and s2: "IncrementGeneration t s1 = Inr s2"
    and s': "stop t (s2\<lparr>target_clients := (target_clients s2)(t := []),
                      waiting_for_up := (waiting_for_up s2)(t := [])\<rparr>) = Inr s'"
    by (auto simp: ObserveDown_def)
  have "target_clients s2 = target_clients s1 \<and> waiting_for_up s2 = waiting_for_up s1 \<and> deadly s2 = deadly s1"
    using s2 by (auto simp: IncrementGeneration_def Let_def split: if_splits)
  then show ?thesis
    using stopper.stop_core [OF assms(1) s'] observe_down_loop_waiting [OF assms(1) s1]
    by (simp add: same_core_def)
qed

lemmas ObserveDown_effect = ObserveDown_sent ObserveDown_tables ObserveDown_gens

text \<open>
  C2. A down report: every client registered for the target, and nobody else, is sent exactly one
  \<open>CLIENT_DOWN\<close>, which carries the generation that died; the target then starts its next
  generation with no clients and nobody waiting for it, and other targets are untouched.  The
  licences to kill of the old generation stay.
\<close>

theorem ObserveDown_result:
  assumes "stopper stop" and "ObserveDown stop t st k w s = Inr s'"
  shows "outbox s' = outbox s @ map (\<lambda>(i, r). OutDown r
      \<lparr>dn_handle = t, dn_generation = gen_vec s @ [generations s t], dn_layer_status = st,
       dn_killed = k, dn_would_kill = w, dn_tag = fc_tag (heap s r)\<rparr>) (target_clients s t) \<and>
    generations s' = (generations s)(t := generations s t + 1) \<and>
    target_clients s' = (target_clients s)(t := []) \<and>
    waiting_for_up s' = (waiting_for_up s)(t := []) \<and> deadly s' = deadly s"
  using ObserveDown_effect [OF assms]
  by (simp add: down_arg_def target_gen_def)

theorem ObserveDown_result_witness:
  "\<exists>s'. ObserveDown ProcStopMonitoring ''app'' 1 True True demo = Inr s' \<and>
     outbox s' = [OutDown 0 \<lparr>dn_handle = ''app'', dn_generation = [1, 2, 0], dn_layer_status = 1,
       dn_killed = True, dn_would_kill = True, dn_tag = 9\<rparr>]"
proof -
  obtain s' where s': "ObserveDown ProcStopMonitoring ''app'' 1 True True demo = Inr s'"
    by (simp add: ObserveDown_def pe_stop.observe_down_client_eq IncrementGeneration_def
        ProcStopMonitoring_def monitored_at_def proc_at_def schedule_def emit_def demo_def
        demo_layer_def Let_def)
  from ObserveDown_result [OF pe_stop.stopper_axioms s'] s' show ?thesis
    by (simp add: demo_def demo_client_def)
qed


section \<open>Clients that do not answer\<close>

text \<open>The callback that was registered last runs, with the outcome \<open>st\<close> of its call.\<close>

definition fire_last ::
    "('l, 'c) layer_ops \<Rightarrow> ('c \<Rightarrow> clnt_stat \<Rightarrow> ('l, 'c) enforcer \<Rightarrow> ('l, 'c) enforcer res)
      \<Rightarrow> clnt_stat \<Rightarrow> ('l, 'c) enforcer \<Rightarrow> ('l, 'c) enforcer res" where
  "fire_last ops run_layer st s =
     (case pending s of [] \<Rightarrow> Inr s | es \<Rightarrow> fire ops run_layer (last es) st s)"

lemma fire_last_schedule:
  "fire_last ops run_layer st (schedule d cb s) =
     run_callback ops run_layer st cb (timecb_remove (next_id s) (schedule d cb s))"
  by (cases "pending s") (simp_all add: fire_last_def fire_def)

lemma timecb_remove_last:
  assumes "core_inv s"
  shows "timecb_remove (next_id s) (schedule d cb s) = s\<lparr>next_id := Suc (next_id s)\<rparr>"
proof -
  have "filter (\<lambda>e. ev_id e \<noteq> next_id s) (pending s) = pending s"
    using assms by (intro filter_True) (auto simp: core_inv_def events_ok_def)
  then show ?thesis by (simp add: timecb_remove_def schedule_def)
qed

lemma core_inv_next_id: "core_inv s \<Longrightarrow> core_inv (s\<lparr>next_id := Suc (next_id s)\<rparr>)"
  using cb_ok_cong [of "s\<lparr>next_id := Suc (next_id s)\<rparr>" s]
  by (auto simp: core_inv_def tables_ok_def events_ok_def typed_def registered_def cid_def less_Suc_eq)

lemma ReportDown_retry:
  assumes "n < kMaxRetries" and "st \<noteq> RPC_SUCCESS \<or> n = 0"
  shows "ReportDown stop cl arg n st s =
    Inr (schedule OnReply (CbReportDown cl arg (Suc n)) (emit (OutDown cl arg) s))"
  using assms by (auto simp: ReportDown_def)


abbreviation demo_down :: client_down_arg where
  "demo_down \<equiv> down_arg ''app'' 1 True True 0 demo"


text \<open>The outcomes \<open>sts\<close> of successive heartbeat calls, each run as the call ends.\<close>

fun heartbeats ::
    "('l, 'c) layer_ops \<Rightarrow> ('c \<Rightarrow> clnt_stat \<Rightarrow> ('l, 'c) enforcer \<Rightarrow> ('l, 'c) enforcer res)
      \<Rightarrow> clnt_stat list \<Rightarrow> ('l, 'c) enforcer \<Rightarrow> ('l, 'c) enforcer res" where
  "heartbeats ops run_layer [] s = Inr s"
| "heartbeats ops run_layer (st # sts) s =
     res_bind (fire_last ops run_layer st s) (heartbeats ops run_layer sts)"

lemma heartbeats_append:
  "heartbeats ops run_layer (xs @ ys) =
     (\<lambda>s. res_bind (heartbeats ops run_layer xs s) (heartbeats ops run_layer ys))"
  by (induction xs) (auto intro!: ext simp: res_bind_assoc)

lemma heartbeat_retry:
  assumes "core_inv v" and "cs_count (all_clients v) v cl" and "n < kClientRetry"
    and "st \<noteq> RPC_SUCCESS"
  shows "fire_last ops run_layer st (DoHeartbeat cl n v) =
    Inr (DoHeartbeat cl (Suc n) ((emit (OutNull cl) v)\<lparr>next_id := Suc (next_id v)\<rparr>))"
proof -
  let ?v = "(emit (OutNull cl) v)\<lparr>next_id := Suc (next_id v)\<rparr>"
  have "cs_count (all_clients ?v) ?v cl" using assms(2) by (simp add: cs_count_def cid_def)
  with assms(1,3,4) show ?thesis
    using timecb_remove_last [of "emit (OutNull cl) v"]
    by (simp add: DoHeartbeat_def fire_last_schedule HandleClientHeartbeat_def)
qed

lemma heartbeats_retry:
  assumes "core_inv v" and "cs_count (all_clients v) v cl" and "n + length sts \<le> kClientRetry"
    and "RPC_SUCCESS \<notin> set sts"
  shows "\<exists>v'. heartbeats ops run_layer sts (DoHeartbeat cl n v) =
      Inr (DoHeartbeat cl (n + length sts) v') \<and> core_inv v' \<and>
    outbox v' = outbox v @ replicate (length sts) (OutNull cl) \<and>
    all_clients v' = all_clients v \<and> heap v' = heap v"
  using assms
proof (induction sts arbitrary: n v)
  case Nil
  then show ?case by (intro exI [of _ v]) simp
next
  case (Cons st sts)
  let ?v = "(emit (OutNull cl) v)\<lparr>next_id := Suc (next_id v)\<rparr>"
  have step: "fire_last ops run_layer st (DoHeartbeat cl n v) = Inr (DoHeartbeat cl (Suc n) ?v)"
    by (rule heartbeat_retry) (use Cons.prems in auto)
  have inv: "core_inv ?v"
    using core_inv_next_id [of "emit (OutNull cl) v"] Cons.prems(1) by simp
  have cnt: "cs_count (all_clients ?v) ?v cl" using Cons.prems(2) by (simp add: cs_count_def cid_def)
  have "Suc n + length sts \<le> kClientRetry" "RPC_SUCCESS \<notin> set sts" using Cons.prems(3,4) by auto
  from Cons.IH [OF inv cnt this] show ?case by (auto simp: step)
qed

lemma GetClient_new:
  assumes "GetClient a s = Inr (r, s1)" and "sm_get (all_clients s) (client_id_of a) = None"
    and "core_inv s"
  obtains v where "s1 = DoHeartbeat r 0 v" and "core_inv v" and "cs_count (all_clients v) v r"
    and "cid v r = client_id_of a" and "outbox v = outbox s"
proof -
  define v where "v = s\<lparr>heap := (heap s)(next_ref s :=
        \<lparr>fc_id = client_id_of a, fc_up_intervals = [], fc_tag = ca_tag a\<rparr>),
      next_ref := Suc (next_ref s),
      all_clients := sm_put (client_id_of a) (next_ref s) (all_clients s)\<rparr>"
  have eq: "s1 = DoHeartbeat r 0 v" "r = next_ref s"
    using assms(1,2) by (auto simp: GetClient_def Let_def v_def split: if_splits)
  have "cid v r = client_id_of a" "cs_count (all_clients v) v r" "outbox v = outbox s"
    by (simp_all add: v_def eq(2) cid_def cs_count_def)
  moreover have "core_inv v"
    using GetClient_table_inv [OF assms(3)] by (simp add: v_def)
  ultimately show ?thesis using that eq(1) by blast
qed

text \<open>
  A new client is pinged at once, and as long as no ping is answered it is pinged again when
  the last one has failed.  It survives five failed pings, each of which took at most
  \<open>kClientTimeout\<close> = 90 seconds; the sixth failure, not before 540 seconds when they time out,
  removes it from all tables, after exactly six pings.
\<close>

theorem silent_client_heartbeat:
  assumes "stopper (StopMonitoring ops)" and "core_inv s"
    and "sm_get (all_clients s) (client_id_of a) = None" and "GetClient a s = Inr (r, s1)"
    and "RPC_SUCCESS \<notin> set sts" and "heartbeats ops run_layer sts s1 = Inr s2"
  shows "(length sts \<le> 5 \<longrightarrow> sm_get (all_clients s2) (client_id_of a) \<noteq> None \<and>
      outbox s2 = outbox s @ replicate (Suc (length sts)) (OutNull r)) \<and>
    (length sts = 6 \<longrightarrow> sm_get (all_clients s2) (client_id_of a) = None \<and>
      (\<forall>t. r \<notin> snd ` set (target_clients s2 t) \<and> r \<notin> snd ` set (deadly s2 t)) \<and>
      outbox s2 = outbox s @ replicate 6 (OutNull r))"
proof -
  from GetClient_new [OF assms(4,3,2)] obtain v where v: "s1 = DoHeartbeat r 0 v" "core_inv v"
    "cs_count (all_clients v) v r" "cid v r = client_id_of a" "outbox v = outbox s" by blast
  note run = heartbeats_retry [OF v(2,3)]
  have short: "sm_get (all_clients s2) (client_id_of a) \<noteq> None \<and>
      outbox s2 = outbox s @ replicate (Suc (length sts)) (OutNull r)" if "length sts \<le> 5"
  proof -
    have "0 + length sts \<le> kClientRetry" using that by (simp add: kClientRetry_def)
    from run [OF this assms(5), of ops run_layer] assms(6) v show ?thesis
      by (auto simp: DoHeartbeat_def cs_count_def replicate_append_same)
  qed
  have long: "sm_get (all_clients s2) (client_id_of a) = None \<and>
      (\<forall>t. r \<notin> snd ` set (target_clients s2 t) \<and> r \<notin> snd ` set (deadly s2 t)) \<and>
      outbox s2 = outbox s @ replicate 6 (OutNull r)" if "length sts = 6"
  proof -
    obtain sts' st where sts: "sts = sts' @ [st]" "length sts' = 5"
    proof (cases sts rule: rev_cases)
      case Nil
      with \<open>length sts = 6\<close> show ?thesis by simp
    next
      case (snoc ys y)
      with \<open>length sts = 6\<close> show ?thesis by (intro that) simp_all
    qed
    have "0 + length sts' \<le> kClientRetry" "RPC_SUCCESS \<notin> set sts'"
      using sts assms(5) by (auto simp: kClientRetry_def)
    from run [OF this, of ops run_layer] sts obtain v' where
      v': "heartbeats ops run_layer sts' s1 = Inr (DoHeartbeat r 5 v')" "core_inv v'"
      "outbox v' = outbox s @ replicate 5 (OutNull r)" "all_clients v' = all_clients v"
      "heap v' = heap v" using v(1,5) by auto
    with assms(6) v'(1) sts(1) have last: "fire_last ops run_layer st (DoHeartbeat r 5 v') = Inr s2"
      by (auto simp: heartbeats_append)
    let ?w = "(emit (OutNull r) v')\<lparr>next_id := Suc (next_id v')\<rparr>"
    have w: "core_inv ?w" using core_inv_next_id [of "emit (OutNull r) v'"] v'(2) by simp
    have "cs_count (all_clients ?w) ?w r" and cid: "cid ?w r = client_id_of a"
      using v'(4,5) v(3,4) by (simp_all add: cs_count_def cid_def)
    then have rem: "RemoveClient (StopMonitoring ops) r ?w = Inr s2"
      using last timecb_remove_last [of "emit (OutNull r) v'"] v'(2) assms(5) sts(1)
      by (auto simp: DoHeartbeat_def fire_last_schedule HandleClientHeartbeat_def kClientRetry_def
          split: if_splits)
    have "outbox ?w = outbox s @ replicate 6 (OutNull r)"
      using v'(3) by (simp add: eval_nat_numeral replicate_append_same)
    with stopper.RemoveClient_frame(5) [OF assms(1) rem]
      stopper.RemoveClient_gone [OF assms(1) rem w] cid
    show ?thesis by simp
  qed
  show ?thesis using short long by blast
qed

lemma demo_addr_new: "client_id_of demo_addr \<noteq> ''c''"
  by (simp add: client_id_of_def inet_ntoa_def octet_def show_nat.simps digit_def)

abbreviation six_timeouts :: "clnt_stat list" where
  "six_timeouts \<equiv> [RPC_TIMEDOUT, RPC_TIMEDOUT, RPC_TIMEDOUT, RPC_TIMEDOUT, RPC_TIMEDOUT, RPC_TIMEDOUT]"

theorem silent_client_heartbeat_witness:
  "\<exists>r s1 s2. GetClient demo_addr demo = Inr (r, s1) \<and>
     heartbeats proc_ops run_proc six_timeouts s1 = Inr s2 \<and>
     sm_get (all_clients s2) (client_id_of demo_addr) = None"
proof -
  have new: "sm_get (all_clients demo) (client_id_of demo_addr) = None"
    using demo_addr_new by (simp add: demo_def sm_get_def)
  have "\<exists>r s1 s2. GetClient demo_addr demo = Inr (r, s1) \<and>
     heartbeats proc_ops run_proc six_timeouts s1 = Inr s2"
    using demo_addr_new
    by (simp add: GetClient_def sm_get_def demo_def run_simps fire_last_def)
  then obtain r s1 s2 where r: "GetClient demo_addr demo = Inr (r, s1)"
    "heartbeats proc_ops run_proc six_timeouts s1 = Inr s2" by blast
  from silent_client_heartbeat [OF pe.stopper_axioms demo_core new r(1) _ r(2)] r
  show ?thesis by auto
qed

end
