(* ===== verification/ProcessProps.thy ===== *)
theory ProcessProps
  imports EnforcerProps
begin

text \<open>
  The properties of the process enforcer over all of its runs: the event loop never corrupts the
  client tables, a process for which clients are registered is being watched, and nothing is killed
  without a licence.
\<close>

section \<open>Invariants of every run\<close>

lemma proc_init_core: "proc_init s \<Longrightarrow> core_inv s"
  by (auto simp: proc_init_def proc_start_def InitGenerations_def core_inv_def tables_ok_def
      events_ok_def typed_def registered_def)

lemma proc_init_good: "proc_init s \<Longrightarrow> proc_good s"
  by (auto simp: proc_init_def proc_start_def InitGenerations_def proc_good_def proc_linv_def
      watched_def)

lemma proc_reachable_core: "proc_reachable s \<Longrightarrow> core_inv s"
  by (erule pe.reachable_core_inv) (auto intro: proc_init_core proc_ext_inv)

lemma proc_reachable_good: "proc_reachable s \<Longrightarrow> proc_good s"
  unfolding proc_good_def
  by (erule pem.reachable_watched)
    (auto dest: proc_init_good proc_ext_good simp: proc_good_def [symmetric])

text \<open>
  C29. In every state that the process enforcer can reach, by any calls, timers, connections and
  answers, the client tables are well formed: each client set is ordered and holds live clients
  under their own ids, every client registered for a target or licensed to kill it has an interval
  for it, and each pending heartbeat or down report has a retry count within its bound.
\<close>

theorem proc_tables_consistent:
  assumes "proc_reachable s"
  shows "tables_ok s \<and> (\<forall>e \<in> set (pending s). cb_ok s (ev_cb e)) \<and>
    distinct (map ev_id (pending s))"
  using proc_reachable_core [OF assms] by (auto simp: core_inv_def events_ok_def)

lemma start_run:
  "\<exists>s. demo_run (demo_inputs l) = Inr s \<and> target_clients s ''app'' \<noteq> []"
  by (simp add: proc_simps)

lemma demo_start_reachable: "proc_reachable demo_start"
  unfolding demo_start_def proc_init_def by (rule reach_start) blast

lemma demo_run_reachable: "demo_run xs = Inr s \<Longrightarrow> proc_reachable s"
  unfolding demo_run_def by (erule enf_run_reachable) (rule demo_start_reachable)

theorem proc_tables_consistent_witness:
  "\<exists>s. demo_run (demo_inputs True) = Inr s \<and> target_clients s ''app'' \<noteq> [] \<and> tables_ok s"
proof -
  from start_run obtain s where s: "demo_run (demo_inputs True) = Inr s"
    "target_clients s ''app'' \<noteq> []" by blast
  from proc_tables_consistent [OF demo_run_reachable [OF s(1)]] s show ?thesis by blast
qed

text \<open>
  C28. A process for which some client is registered is connected, known under its handle and
  actively monitored, in every reachable state: no client waits for news that nobody looks for.
\<close>

theorem proc_clients_are_watched:
  assumes "proc_reachable s" and "target_clients s t \<noteq> []"
  shows "\<exists>p pr. monitored (layer s) t = Some (Some p) \<and> procs (layer s) p = Some pr \<and>
    p_handle pr = t \<and> p_active pr"
proof -
  have g: "proc_linv (layer s)" "watched proc_mon s"
    using proc_reachable_good [OF assms(1)] by (simp_all add: proc_good_def)
  then obtain p pr where p: "monitored (layer s) t = Some (Some p)" "procs (layer s) p = Some pr"
    "p_active pr" using assms(2) by (auto simp: watched_def proc_mon_def)
  with proc_linv_entry [OF g(1) p(1)] show ?thesis by auto
qed

theorem proc_clients_are_watched_witness:
  "\<exists>s p pr. demo_run (demo_inputs False) = Inr s \<and> monitored (layer s) ''app'' = Some (Some p) \<and>
     procs (layer s) p = Some pr \<and> p_active pr"
proof -
  from start_run obtain s where s: "demo_run (demo_inputs False) = Inr s"
    "target_clients s ''app'' \<noteq> []" by blast
  from proc_clients_are_watched [OF demo_run_reachable [OF s(1)] s(2)] s(1) show ?thesis by blast
qed

section \<open>Killing\<close>

lemma target_gen_reply: "target_gen t (reply h g st s) = target_gen t s"
  by (simp add: target_gen_def reply_def)

text \<open>
  C27. A kill request for another generation than the current one, or for a target that is not
  known, changes nothing: no signal is sent, no generation ends, no client is told anything; the
  only effect is the reply with the reason.
\<close>

theorem stale_kill_is_harmless:
  assumes "g \<noteq> target_gen t s \<or> ProcInvalidTarget t s"
  shows "\<exists>st. Dispatch proc_ops (SPY_KILL \<lparr>tg_handle = t, tg_generation = g\<rparr>) s =
      Inr (s\<lparr>outbox := outbox s @ [OutReply \<lparr>sr_target = \<lparr>tg_handle = t,
        tg_generation = target_gen t s\<rparr>, sr_status = st\<rparr>]\<rparr>) \<and>
    st \<in> {FALCON_UNKNOWN_TARGET, FALCON_BAD_GEN_VEC, FALCON_FUTURE_GEN, FALCON_LONG_DEAD}"
proof -
  let ?st = "if ProcInvalidTarget t s then FALCON_UNKNOWN_TARGET
    else if length (target_gen t s) \<noteq> length g then FALCON_BAD_GEN_VEC
    else gen_compare (target_gen t s) g"
  have c: "GenCheck proc_ops t g s = Inr (?st, s)"
    by (simp add: GenCheck_def proc_ops_def ProcUpdateGenerations_def Let_def)
  have "?st \<in> {FALCON_UNKNOWN_TARGET, FALCON_BAD_GEN_VEC, FALCON_FUTURE_GEN, FALCON_LONG_DEAD}"
    using assms gen_compare_lex [of "target_gen t s" g] by auto
  moreover from this have "?st \<noteq> FALCON_SUCCESS" by auto
  then have "Dispatch proc_ops (SPY_KILL \<lparr>tg_handle = t, tg_generation = g\<rparr>) s =
      Inr (reply t (target_gen t s) ?st s)"
    using c by (simp add: DispatchKill_def Let_def)
  ultimately show ?thesis unfolding reply_def emit_def by blast
qed

theorem stale_kill_is_harmless_witness:
  "\<exists>st s'. Dispatch proc_ops (SPY_KILL \<lparr>tg_handle = ''app'', tg_generation = [1, 1, 9]\<rparr>) demo = Inr s' \<and>
     signals (layer s') = [] \<and> st \<in> {FALCON_UNKNOWN_TARGET, FALCON_BAD_GEN_VEC, FALCON_FUTURE_GEN,
       FALCON_LONG_DEAD}"
proof -
  have "[1, 1, 9] \<noteq> target_gen ''app'' demo \<or> ProcInvalidTarget ''app'' demo"
    by (simp add: target_gen_def demo_def)
  from stale_kill_is_harmless [OF this] show ?thesis by (auto simp: demo_def demo_layer_def)
qed

text \<open>What one step does to the list of signals.\<close>

definition licensed :: "penf \<Rightarrow> u32 \<Rightarrow> bool" where
  "licensed s pid \<longleftrightarrow> (\<exists>h p pr. monitored (layer s) h = Some (Some p) \<and>
     procs (layer s) p = Some pr \<and> p_pid pr = pid \<and> alive (layer s) pid \<and> Killable h s)"

definition kill_step :: "penf \<Rightarrow> penf \<Rightarrow> bool" where
  "kill_step s s' \<longleftrightarrow> signals (layer s') = signals (layer s) \<or>
     (\<exists>pid. signals (layer s') = signals (layer s) @ [pid] \<and> licensed s' pid)"

text \<open>\<open>kframe\<close>: the step sends no signal and changes nothing that a licence depends on.\<close>

definition kframe :: "penf \<Rightarrow> penf \<Rightarrow> bool" where
  "kframe s s' \<longleftrightarrow> signals (layer s') = signals (layer s) \<and> alive (layer s') = alive (layer s) \<and>
     monitored (layer s') = monitored (layer s) \<and> deadly s' = deadly s \<and>
     (\<forall>p. map_option p_pid (procs (layer s') p) = map_option p_pid (procs (layer s) p))"

lemma kframe_refl [simp]: "kframe s s"
  by (simp add: kframe_def)

lemma kframe_licensed:
  assumes "kframe s s'" and "licensed s pid"
  shows "licensed s' pid"
proof -
  from assms(2) obtain h p pr where p: "monitored (layer s) h = Some (Some p)"
    "procs (layer s) p = Some pr" "p_pid pr = pid" "alive (layer s) pid" "Killable h s"
    by (auto simp: licensed_def)
  from assms(1) have "map_option p_pid (procs (layer s') p) = Some pid"
    using p(2,3) by (simp add: kframe_def)
  then obtain pr' where "procs (layer s') p = Some pr'" "p_pid pr' = pid" by auto
  moreover have "monitored (layer s') h = Some (Some p)" "alive (layer s') pid" "Killable h s'"
    using p assms(1) by (simp_all add: kframe_def Killable_def)
  ultimately show ?thesis unfolding licensed_def by blast
qed

lemma kframe_kill: "kframe s s' \<Longrightarrow> kill_step s s'"
  by (simp add: kframe_def kill_step_def)

lemma kill_after: "signals (layer u) = signals (layer s) \<Longrightarrow> kill_step u s' \<Longrightarrow> kill_step s s'"
  by (simp add: kill_step_def)

lemma kill_before:
  assumes "kill_step s u" and "kframe u s'"
  shows "kill_step s s'"
  using assms(1) kframe_licensed [OF assms(2)] assms(2) by (auto simp: kill_step_def kframe_def)

lemma kframe_simps [simp]:
  "kframe s (schedule d cb s)" "kframe s (emit m s)" "kframe s (reply t g st s)"
  by (simp_all add: kframe_def reply_def)

lemma kframe_stop:
  assumes "ProcStopMonitoring h s = Inr s'"
  shows "kframe s s'"
  using assms
proof (rule ProcStopMonitoring_cases)
  fix p pr
  assume "procs (layer s) p = Some pr" and
    "s' = set_proc p (pr\<lparr>p_cb := None, p_active := False\<rparr>)
      (case p_cb pr of None \<Rightarrow> s | Some i \<Rightarrow> timecb_remove i s)"
  then show ?thesis
    by (auto simp: kframe_def set_proc_def timecb_remove_def split: option.splits)
qed

lemma kframe_down:
  assumes "proc_down h st k w s = Inr s'"
  shows "kframe s s'"
proof -
  from assms obtain s1 s2 where
    s1: "res_fold (observe_down_client ProcStopMonitoring h st k w) (map snd (target_clients s h)) s = Inr s1"
    and s2: "IncrementGeneration h s1 = Inr s2"
    and s': "ProcStopMonitoring h (s2\<lparr>target_clients := (target_clients s2)(h := []),
                      waiting_for_up := (waiting_for_up s2)(h := [])\<rparr>) = Inr s'"
    by (auto simp: ObserveDown_def)
  have "layer s2 = layer s \<and> deadly s2 = deadly s"
    using pe_stop.observe_down_loop_frame [OF s1] pe_stop.IncrementGeneration_frame [OF s2] by simp
  with kframe_stop [OF s'] show ?thesis by (simp add: kframe_def)
qed

lemma ProcKill_step:
  assumes "ProcKill h s = Inr s'"
  shows "kill_step s s'"
proof -
  from assms obtain p pr where p: "monitored (layer s) h = Some (Some p)" "procs (layer s) p = Some pr"
    by (auto simp: ProcKill_def monitored_at_Some split: option.splits)
  let ?s1 = "upd_layer (\<lambda>l. l\<lparr>signals := signals l @ [p_pid pr]\<rparr>) s"
  show ?thesis
  proof (cases "p_active pr \<and> check_process_table (p_pid pr) s \<and> Killable h s")
    case False
    have "monitored_at h s = Some p" using p(1) by (simp add: monitored_at_Some)
    with False assms p(2) show ?thesis
      by (auto simp: ProcKill_def intro!: kframe_kill split: if_splits dest: kframe_down)
  next
    case True
    have "kill_step s ?s1"
      using True p by (auto simp: kill_step_def licensed_def check_process_table_def Killable_def)
    moreover have "kframe ?s1 s'"
      using True assms p
      by (auto simp: ProcKill_def monitored_at_def Let_def split: if_splits dest: kframe_down)
    ultimately show ?thesis by (rule kill_before)
  qed
qed

lemma ConfirmDeath_step: "ConfirmDeath h k w s = Inr s' \<Longrightarrow> kill_step s s'"
  by (auto simp: ConfirmDeath_def split: option.splits if_splits intro!: kframe_kill dest: kframe_down)

lemma signals_simps [simp]:
  "signals (layer (close_fd fd s)) = signals (layer s)"
  "signals (layer (stop_reading fd s)) = signals (layer s)"
  by (simp_all add: close_fd_def stop_reading_def)

lemma kill_step_signals [simp]: "signals (layer s') = signals (layer s) \<Longrightarrow> kill_step s s'"
  by (simp add: kill_step_def)

lemma kill_step_simps [simp]:
  "kill_step (close_fd fd s) s' = kill_step s s'" "kill_step (stop_reading fd s) s' = kill_step s s'"
  "kill_step (set_proc p pr s) s' = kill_step s s'" "kill_step (timecb_remove i s) s' = kill_step s s'"
  by (simp_all add: kill_step_def)

lemma run_proc_step:
  assumes "run_proc c st s = Inr s'"
  shows "kill_step s s'"
proof (cases c)
  case (CbConfirmDeath h k w)
  with assms show ?thesis by (auto intro: ConfirmDeath_step)
next
  case (CbProbeProcess p)
  with assms show ?thesis
    by (auto simp: ProbeProcess_def Let_def split: if_splits dest!: ProcKill_step)
next
  case (CbProcessTimeout p)
  with assms show ?thesis by (auto simp: ProcessTimeout_def dest!: ProcKill_step)
next
  case (CbCheckCPUTime p t)
  with assms show ?thesis
    by (auto simp: CheckCPUTime_def Let_def split: if_splits dest!: ProcKill_step)
qed

lemma ProcStart_step: "ProcStartMonitoring h s = Inr s' \<Longrightarrow> kill_step s s'"
  using run_proc_step [of "CbProbeProcess p" undefined for p]
  by (auto simp: ProcStartMonitoring_def split: option.splits) (metis kill_step_simps(3))

lemma ProcessResponse_step: "ProcessResponse p r s = Inr s' \<Longrightarrow> kill_step s s'"
  by (auto simp: ProcessResponse_def Let_def frame split: option.splits if_splits
      dest!: ProcKill_step)

lemma proc_ext_step: "proc_ext i s = Inr s' \<Longrightarrow> kill_step s s'"
  by (cases i)
    (auto simp: ClientAcceptor_def AcceptProcess_def add_process_def delete_process_def Let_def
      split: option.splits if_splits read_cb.splits dest!: ProcessResponse_step)

lemma remove_loop_signals:
  "res_fold (remove_from_target ProcStopMonitoring c) ts s = Inr s' \<Longrightarrow>
   signals (layer s') = signals (layer s)"
  by (erule res_fold_invariant [where P = "\<lambda>u. signals (layer u) = signals (layer s)"])
    (auto simp: remove_from_target_def Let_def kframe_def split: if_splits dest!: kframe_stop)

lemma RemoveClient_signals:
  "RemoveClient ProcStopMonitoring c s = Inr s' \<Longrightarrow> signals (layer s') = signals (layer s)"
  by (auto simp: RemoveClient_def dest: remove_loop_signals)

lemma fire_step:
  assumes "fire proc_ops run_proc e st s = Inr s'"
  shows "kill_step s s'"
proof (cases "ev_cb e")
  case (CbLayer c)
  with assms run_proc_step [of c st "timecb_remove (ev_id e) s" s'] show ?thesis
    by (simp add: fire_def)
qed (use assms in \<open>auto simp: fire_def HandleClientHeartbeat_def DoHeartbeat_def ReportDown_def
      proc_ops_def Let_def cancel_client_def erase_interval_def frame
      split: if_splits dest!: RemoveClient_signals\<close>)

lemma Dispatch_step:
  assumes "Dispatch proc_ops c s = Inr s'"
  shows "kill_step s s'"
proof (cases c)
  case (SPY_REGISTER arg)
  let ?t = "tg_handle (ra_target arg)"
  have u: "GenCheck proc_ops t g s = Inr (st, u) \<Longrightarrow> u = s" for t g st u
    by (auto simp: GenCheck_def proc_ops_def ProcUpdateGenerations_def Let_def)
  show ?thesis
  proof -
    from assms SPY_REGISTER obtain st s1 where g: "GenCheck proc_ops ?t (tg_generation (ra_target arg)) s = Inr (st, s1)"
      and r: "(if st \<noteq> FALCON_SUCCESS then Inr (reply ?t (target_gen ?t s) st s1)
      else
        res_bind (GetClient (ra_client arg) s1) (\<lambda>(cl, s2).
        let new_client = (\<not> cs_count (target_clients s2 ?t) s2 cl);
            s3 = register_client arg cl s2
        in res_bind
             (if length (target_clients s3 ?t) = 1 \<and> new_client
              then StartMonitoring proc_ops ?t s3 else Inr s3) (\<lambda>s4.
           Inr (reply ?t (target_gen ?t s) FALCON_REGISTER_ACK s4)))) = Inr s'"
      by (auto simp: DispatchRegister_def Let_def)
    note s1 = u [OF g]
    show ?thesis
    proof (cases "st = FALCON_SUCCESS")
      case False
      with r s1 show ?thesis by (auto simp: reply_def)
    next
      case True
      with r obtain cl s2 s4 where c: "GetClient (ra_client arg) s1 = Inr (cl, s2)"
        and s4: "StartMonitoring proc_ops ?t (register_client arg cl s2) = Inr s4 \<or>
          s4 = register_client arg cl s2"
        and s': "s' = reply ?t (target_gen ?t s) FALCON_REGISTER_ACK s4"
        by (auto simp: Let_def split: if_splits) blast+
      have "signals (layer (register_client arg cl s2)) = signals (layer s)"
        using GetClient_frame(1) [OF c] s1 by (simp add: pem.register_client_frame)
      with s4 have "kill_step s s4"
        using ProcStart_step [of ?t "register_client arg cl s2" s4]
          kill_after [of "register_client arg cl s2" s s4] by (auto simp: proc_ops_def)
      then show ?thesis unfolding s' by (rule kill_before) simp
    qed
  qed
next
  case (SPY_CANCEL arg)
  have "signals (layer s') = signals (layer s)"
    using assms SPY_CANCEL
    by (auto simp: DispatchCancel_def GenCheck_def proc_ops_def ProcUpdateGenerations_def Let_def
        reply_def cancel_client_def erase_interval_def kframe_def split: if_splits
        dest!: GetClient_frame(1) RemoveClient_signals kframe_stop)
  then show ?thesis by simp
next
  case (SPY_KILL arg)
  let ?t = "tg_handle arg"
  from assms SPY_KILL have "(\<exists>st. s' = reply ?t (target_gen ?t s) st s) \<or>
      (\<exists>u. ProcKill ?t s = Inr u \<and> s' = reply ?t (target_gen ?t s) FALCON_KILL_ACK u)"
    by (auto simp: DispatchKill_def GenCheck_def proc_ops_def ProcUpdateGenerations_def Let_def
        split: if_splits)
  then show ?thesis by (auto simp: reply_def intro: kill_before dest!: ProcKill_step)
qed (use assms in \<open>auto simp: DispatchGetGen_def proc_ops_def ProcUpdateGenerations_def Let_def
      reply_def split: if_splits\<close>)

text \<open>
  C1. Nothing is killed without a licence.  Every step of the process enforcer sends at most one
  SIGKILL, and the process that gets it is in the process table, is the entry of some handle, and
  for that handle some client's licence to kill is held.
\<close>

theorem no_kill_without_licence:
  assumes "enf_step proc_ops run_proc proc_ext x s = Inr s'"
  shows "signals (layer s') = signals (layer s) \<or>
    (\<exists>h p pr. signals (layer s') = signals (layer s) @ [p_pid pr] \<and>
       monitored (layer s') h = Some (Some p) \<and> procs (layer s') p = Some pr \<and>
       alive (layer s') (p_pid pr) \<and> deadly s' h \<noteq> [])"
proof -
  have "kill_step s s'"
  proof (cases x)
    case (InFire i st)
    with assms show ?thesis
      by (auto split: option.splits dest: fire_step)
  qed (use assms in \<open>auto dest: Dispatch_step proc_ext_step\<close>)
  then show ?thesis unfolding kill_step_def licensed_def Killable_def by blast
qed


theorem no_kill_without_licence_witness:
  "\<exists>s'. enf_step proc_ops run_proc proc_ext (InRpc demo_kill) demo = Inr s' \<and>
     signals (layer s') = [7] \<and> deadly s' ''app'' \<noteq> []"
proof -
  obtain s' where s': "enf_step proc_ops run_proc proc_ext (InRpc demo_kill) demo = Inr s'"
    "signals (layer s') = [7]" "monitored (layer s') = (\<lambda>_. None)(''app'' := Some (Some 0))"
    by (simp add: proc_simps demo_kill_def demo_def demo_layer_def)
  from no_kill_without_licence [OF s'(1)] s'(2,3) have "deadly s' ''app'' \<noteq> []"
    by (auto simp: demo_def demo_layer_def split: if_splits)
  with s' show ?thesis by blast
qed

section \<open>Generations as fences\<close>



section \<open>Two defects, as runs\<close>

text \<open>
  The timer of the next probe is not remembered in \<open>p->cb\<close>, so that \<open>StopMonitoring\<close> does not
  remove it.  When the process dies after its last client has cancelled, and another process takes
  its handle before the timer runs, the timer uses the \<open>Process\<close> object that was deleted.
\<close>

lemma poll_after_delete:
  "demo_run (demo_inputs False @
     [InLayer (PReadable 5 None (Some PROC_OBS_ALIVE)), InRpc demo_cancel, all_dead,
      InLayer (PAccept 6), InLayer (PReadable 6 (Some demo_hs) None), InFire 3 RPC_SUCCESS]) =
   Inl Use_after_free"
  by (simp add: proc_simps DispatchCancel_def demo_cancel_def all_dead_def cancel_client_def
      erase_interval_def cs_erase_def sm_del_def RemoveClient_def remove_from_target_def sm_keys_def)

text \<open>
  A licensed kill that is repeated before the process has gone leaves two \<open>ConfirmDeath\<close> timers: one
  death is reported twice, and the second report ends a generation that nobody had started.
\<close>

lemma two_kills:
  "\<exists>s. demo_run (demo_inputs True @
     [InRpc demo_kill, InRpc demo_kill, all_dead, InFire 3 RPC_SUCCESS, InFire 4 RPC_SUCCESS]) = Inr s \<and>
   generations s ''app'' = 2"
  by (simp add: proc_simps demo_kill_def all_dead_def)

end
