(* ===== verification/ProcessObserver.thy ===== *)
theory ProcessObserver
  imports ProcessProps
begin

text \<open>
  The library in the application that answers the enforcer's probes
  (\<open>process_enforcer/process_observer.cc\<close>): its handshake as bytes, the thread that connects and answers, and what
  the enforcer makes of the handshake.
\<close>

section \<open>The handshake as bytes\<close>

definition kHandleSize :: nat where "kHandleSize = 32"
definition kDefaultDelay_ms :: u32 where "kDefaultDelay_ms = 100"

text \<open>The static variables of the library; \<open>handle_\<close> is never null once \<open>SetSpy\<close> has run.\<close>

record observer =
  ob_handle :: str
  ob_delay :: u8
  ob_delay_ms :: u32

text \<open>\<open>strndup\<close>; \<open>created\<close> tells whether the thread could be made.\<close>

definition SetSpy :: "str \<Rightarrow> u8 \<Rightarrow> u32 \<Rightarrow> bool \<Rightarrow> observer res" where
  "SetSpy handle delay delay_ms created =
     check created \<lparr>ob_handle = take kHandleSize handle, ob_delay = delay, ob_delay_ms = delay_ms\<rparr>"

definition SetSpy_default :: "str \<Rightarrow> bool \<Rightarrow> observer res" where
  "SetSpy_default handle created = SetSpy handle DELAY_REALTIME kDefaultDelay_ms created"

text \<open>The packed structure on a little-endian machine; \<open>strncpy\<close> fills up with zeros, if there is room.\<close>

definition le32 :: "u32 \<Rightarrow> u8 list" where
  "le32 w = [ucast w, ucast (drop_bit 8 w), ucast (drop_bit 16 w), ucast (drop_bit 24 w)]"

definition strncpy_bytes :: "nat \<Rightarrow> str \<Rightarrow> u8 list" where
  "strncpy_bytes n s = map (\<lambda>c. word_of_nat (of_char c)) (take n s) @ replicate (n - length s) 0"

definition handshake_bytes :: "observer \<Rightarrow> u32 \<Rightarrow> u8 list" where
  "handshake_bytes ob pid =
     strncpy_bytes kHandleSize (ob_handle ob) @ le32 pid @ le32 (ob_delay_ms ob) @ [ob_delay ob]"

definition sizeof_handshake :: int where "sizeof_handshake = 41"
definition sizeof_probe :: int where "sizeof_probe = 8"
definition sizeof_reply :: int where "sizeof_reply = 4"

section \<open>The thread\<close>

datatype ob_out =
    ObHandshake "u8 list"
  | ObReply u32
  | ObClose

datatype ob_pc = ObConnecting | ObProbing

record spy_thread =
  sp_pc :: ob_pc
  sp_out :: "ob_out list"

text \<open>
  What the system calls return: of a round of the outer loop up to its handshake, and of one of the inner
  loop with what the application's function says.
\<close>

datatype ob_event =
    EvConnect int int int
  | EvProbe int u32 int

fun SpyThread :: "observer \<Rightarrow> u32 \<Rightarrow> ob_event \<Rightarrow> spy_thread \<Rightarrow> spy_thread res" where
  "SpyThread ob pid (EvConnect sock conn sent) t =
     (if sp_pc t \<noteq> ObConnecting then Inr t
      else if \<not> 0 < sock then Inl Check_failed
      else if conn \<noteq> 0 then Inl Check_failed
      else if sent \<noteq> sizeof_handshake then Inl Check_failed
      else Inr (t\<lparr>sp_pc := ObProbing, sp_out := sp_out t @ [ObHandshake (handshake_bytes ob pid)]\<rparr>))"
| "SpyThread ob pid (EvProbe recvd state sent) t =
     (if sp_pc t \<noteq> ObProbing then Inr t
      else if recvd \<noteq> sizeof_probe then Inr (t\<lparr>sp_pc := ObConnecting, sp_out := sp_out t @ [ObClose]\<rparr>)
      else if sent \<noteq> sizeof_reply then
        Inr (t\<lparr>sp_pc := ObConnecting, sp_out := sp_out t @ [ObReply state, ObClose]\<rparr>)
      else Inr (t\<lparr>sp_out := sp_out t @ [ObReply state]\<rparr>))"

definition spy_start :: spy_thread where
  "spy_start = \<lparr>sp_pc = ObConnecting, sp_out = []\<rparr>"

definition spy_run :: "observer \<Rightarrow> u32 \<Rightarrow> ob_event list \<Rightarrow> spy_thread res" where
  "spy_run ob pid es = res_fold (SpyThread ob pid) es spy_start"

text \<open>As long as the enforcer probes, every probe is answered by what the application says.\<close>

lemma probes_answered:
  assumes "0 < sock"
  shows "spy_run ob pid (EvConnect sock 0 sizeof_handshake # map (\<lambda>st. EvProbe sizeof_probe st sizeof_reply) sts) =
    Inr \<lparr>sp_pc = ObProbing, sp_out = ObHandshake (handshake_bytes ob pid) # map ObReply sts\<rparr>"
proof -
  have "res_fold (SpyThread ob pid) (map (\<lambda>st. EvProbe sizeof_probe st sizeof_reply) sts) t =
      Inr (t\<lparr>sp_out := sp_out t @ map ObReply sts\<rparr>)" if "sp_pc t = ObProbing" for t
    using that by (induction sts arbitrary: t) simp_all
  then show ?thesis using assms by (simp add: spy_run_def spy_start_def)
qed

text \<open>An application whose enforcer is not there when it connects is aborted by its own observer.\<close>

lemma no_enforcer_aborts: "conn \<noteq> 0 \<Longrightarrow> spy_run ob pid (EvConnect sock conn sent # es) = Inl Check_failed"
  by (simp add: spy_run_def spy_start_def)

section \<open>The enforcer's view of the handshake\<close>

text \<open>
  \<open>ClientAcceptor\<close>: a read of the whole structure, whose field \<open>handle\<close> is then used as a C string: it
  ends at the first zero, which may be behind the field, or nowhere in the structure.
\<close>

definition le32_of :: "u8 list \<Rightarrow> u32" where
  "le32_of b = word_of_nat (((unat (b ! 3) * 256 + unat (b ! 2)) * 256 + unat (b ! 1)) * 256 + unat (b ! 0))"

definition recv_handshake :: "u8 list \<Rightarrow> handshake option res" where
  "recv_handshake b =
     (if length b \<noteq> nat sizeof_handshake then Inr None
      else if 0 \<notin> set b then Inl Bad_index
      else Inr (Some \<lparr>hs_handle = map (\<lambda>x. char_of (unat x)) (takeWhile (\<lambda>x. x \<noteq> 0) b),
             hs_pid = le32_of (drop kHandleSize b), hs_delay_ms = le32_of (drop (kHandleSize + 4) b),
             hs_delay = b ! (kHandleSize + 8)\<rparr>))"

lemma le32_roundtrip: "le32_of (le32 w @ r) = w"
  using word_of_bytes [of w] by (simp add: le32_of_def le32_def)

definition byte_of :: "char \<Rightarrow> u8" where
  "byte_of c = word_of_nat (of_char c)"

lemma unat_byte_of: "unat (byte_of c) = of_char c"
  by (simp add: byte_of_def unsigned_of_nat take_bit_nat_eq_self_iff)

lemma char_byte_of [simp]: "char_of (unat (byte_of c)) = c"
  by (simp add: unat_byte_of)

lemma byte_of_0: "byte_of c = 0 \<longleftrightarrow> c = CHR 0x00"
proof -
  have "byte_of CHR 0x00 = 0" by (simp add: byte_of_def)
  then show ?thesis by (metis char_byte_of)
qed

definition handshake_tail :: "observer \<Rightarrow> u32 \<Rightarrow> u8 list" where
  "handshake_tail ob pid = le32 pid @ le32 (ob_delay_ms ob) @ [ob_delay ob]"

lemma handshake_split:
  "handshake_bytes ob pid = map byte_of (take 32 (ob_handle ob)) @ replicate (32 - length (ob_handle ob)) 0 @
     handshake_tail ob pid"
  by (simp add: handshake_bytes_def strncpy_bytes_def kHandleSize_def handshake_tail_def byte_of_def)

lemma handshake_fields:
  assumes "length front = kHandleSize"
  shows "le32_of (drop kHandleSize (front @ handshake_tail ob pid)) = pid"
    and "le32_of (drop (kHandleSize + 4) (front @ handshake_tail ob pid)) = ob_delay_ms ob"
    and "(front @ handshake_tail ob pid) ! (kHandleSize + 8) = ob_delay ob"
    and "length (front @ handshake_tail ob pid) = nat sizeof_handshake"
proof -
  have l: "length (le32 w) = 4" for w by (simp add: le32_def)
  show "le32_of (drop kHandleSize (front @ handshake_tail ob pid)) = pid"
    using assms by (simp add: handshake_tail_def le32_roundtrip)
  have "drop (kHandleSize + 4) (front @ handshake_tail ob pid) = le32 (ob_delay_ms ob) @ [ob_delay ob]"
    using assms l [of pid] by (simp add: handshake_tail_def)
  then show "le32_of (drop (kHandleSize + 4) (front @ handshake_tail ob pid)) = ob_delay_ms ob"
    by (simp add: le32_roundtrip)
  show "(front @ handshake_tail ob pid) ! (kHandleSize + 8) = ob_delay ob"
    using assms by (simp add: handshake_tail_def nth_append le32_def)
  show "length (front @ handshake_tail ob pid) = nat sizeof_handshake"
    using assms by (simp add: handshake_tail_def l kHandleSize_def sizeof_handshake_def)
qed

lemma recv_handshake_bytes:
  assumes "length (ob_handle ob) \<le> 32" and "CHR 0x00 \<notin> set (ob_handle ob)"
  shows "recv_handshake (handshake_bytes ob pid) =
    (if 0 \<in> set (handshake_bytes ob pid)
     then Inr (Some \<lparr>hs_handle = map (\<lambda>x. char_of (unat x)) (takeWhile (\<lambda>x. x \<noteq> 0) (handshake_bytes ob pid)),
             hs_pid = pid, hs_delay_ms = ob_delay_ms ob, hs_delay = ob_delay ob\<rparr>)
     else Inl Bad_index)"
proof -
  let ?f = "map byte_of (ob_handle ob) @ replicate (32 - length (ob_handle ob)) 0"
  have b: "handshake_bytes ob pid = ?f @ handshake_tail ob pid" using assms(1) by (simp add: handshake_split)
  have "length ?f = kHandleSize" using assms(1) by (simp add: kHandleSize_def)
  note F = handshake_fields [OF this, of ob pid]
  show ?thesis unfolding b recv_handshake_def F by simp
qed

text \<open>
  What an application calls itself is what it is known by: a handle of fewer than 32 bytes arrives in the
  process enforcer as it was given to \<open>SetSpy\<close>, with the process id and the delay, and if no process of that name is known
  yet the enforcer then has it, inactive, ready for clients.  A longer handle is cut to 32 bytes and arrives with
  bytes of the process id behind it, unless the lowest of those is zero: it is never known by its name.
\<close>

theorem observer_registers:
  assumes "SetSpy h d ms created = Inr ob" and "CHR 0x00 \<notin> set h"
  shows "(length h < 32 \<and> monitored_at h s = None \<longrightarrow>
      (\<exists>hs s' p pr. recv_handshake (handshake_bytes ob pid) = Inr (Some hs) \<and>
         ClientAcceptor fd (Some hs) s = Inr s' \<and> monitored_at h s' = Some p \<and> proc_at p s' = Inr pr \<and>
         p_handle pr = h \<and> p_pid pr = pid \<and> p_delay_ms pr = ms \<and> p_delay pr = d \<and> p_fd pr = fd \<and>
         \<not> p_active pr)) \<and>
    (32 \<le> length h \<and> (ucast pid :: u8) \<noteq> 0 \<longrightarrow>
      (\<forall>hs. recv_handshake (handshake_bytes ob pid) = Inr (Some hs) \<longrightarrow>
         (\<exists>junk. junk \<noteq> [] \<and> hs_handle hs = take 32 h @ junk)))"
proof (intro conjI impI allI)
  have ob: "ob_handle ob = take 32 h" "ob_delay ob = d" "ob_delay_ms ob = ms"
    using assms(1) by (auto simp: SetSpy_def kHandleSize_def)
  have z: "CHR 0x00 \<notin> set (take 32 h)" using assms(2) by (meson in_set_takeD)
  have r: "length (ob_handle ob) \<le> 32" "CHR 0x00 \<notin> set (ob_handle ob)" using z by (simp_all add: ob)
  note R = recv_handshake_bytes [OF r, of pid]
  have nz: "\<forall>x \<in> set (map byte_of (take 32 h)). x \<noteq> 0" using z by (auto simp: byte_of_0)
  {
    assume a: "length h < 32 \<and> monitored_at h s = None"
    then have "32 - length h = Suc (31 - length h)" by arith
    then have "replicate (32 - length h) (0 :: u8) = 0 # replicate (31 - length h) 0" by simp
    then have b: "handshake_bytes ob pid = map byte_of h @ 0 # replicate (31 - length h) 0 @ handshake_tail ob pid"
      using a by (simp add: handshake_split ob)
    have "takeWhile (\<lambda>x. x \<noteq> 0) (handshake_bytes ob pid) = map byte_of h"
      using nz a unfolding b by (subst takeWhile_append2) auto
    then have "recv_handshake (handshake_bytes ob pid) =
        Inr (Some \<lparr>hs_handle = h, hs_pid = pid, hs_delay_ms = ms, hs_delay = d\<rparr>)"
      unfolding R using b by (simp add: ob comp_def)
    with a show "\<exists>hs s' p pr. recv_handshake (handshake_bytes ob pid) = Inr (Some hs) \<and>
         ClientAcceptor fd (Some hs) s = Inr s' \<and> monitored_at h s' = Some p \<and> proc_at p s' = Inr pr \<and>
         p_handle pr = h \<and> p_pid pr = pid \<and> p_delay_ms pr = ms \<and> p_delay pr = d \<and> p_fd pr = fd \<and>
         \<not> p_active pr"
      by (simp add: ClientAcceptor_def add_process_def new_process_def upd_layer_def monitored_at_def proc_at_def Let_def)
  }
  {
    fix hs
    assume a: "32 \<le> length h \<and> (ucast pid :: u8) \<noteq> 0" and h: "recv_handshake (handshake_bytes ob pid) = Inr (Some hs)"
    obtain t where "handshake_tail ob pid = ucast pid # t" by (simp add: handshake_tail_def le32_def)
    then have b: "handshake_bytes ob pid = map byte_of (take 32 h) @ ucast pid # t"
      using a by (simp add: handshake_split ob)
    have "takeWhile (\<lambda>x. x \<noteq> 0) (handshake_bytes ob pid) =
        map byte_of (take 32 h) @ ucast pid # takeWhile (\<lambda>x. x \<noteq> 0) t"
      using nz a unfolding b by (subst takeWhile_append2) auto
    then show "\<exists>junk. junk \<noteq> [] \<and> hs_handle hs = take 32 h @ junk"
      using h unfolding R by (auto simp: comp_def split: if_splits)
  }
qed

theorem observer_registers_witness:
  "\<exists>ob hs s' p. SetSpy ''app'' 0 1500 True = Inr ob \<and>
     recv_handshake (handshake_bytes ob 7) = Inr (Some hs) \<and> ClientAcceptor 5 (Some hs) demo_start = Inr s' \<and>
     monitored_at ''app'' s' = Some p"
proof -
  obtain ob where ob: "SetSpy ''app'' 0 1500 True = Inr ob" by (simp add: SetSpy_def)
  have "monitored_at ''app'' demo_start = None"
    by (simp add: monitored_at_def demo_start_def proc_start_def InitGenerations_def init_generations_Nil)
  with observer_registers [OF ob, of demo_start 7 5] ob show ?thesis by auto
qed

end
