(* ===== verification/ParseProc.thy ===== *)
theory ParseProc
  imports EnforcerProps
begin

text \<open>
  Reading \<open>/proc/<pid>/stat\<close> (\<open>process_enforcer/parse_proc.h\<close>, \<open>parse_proc.cc\<close>), with the conversions of
  \<open>sscanf\<close> that it uses, and the CPU time that the process enforcer takes from it.
\<close>

section \<open>The conversions of sscanf\<close>

definition isspace_c :: "char \<Rightarrow> bool" where
  "isspace_c c \<longleftrightarrow> (let n = of_char c :: nat in 9 \<le> n \<and> n \<le> 13 \<or> n = 32)"

definition isdigit_c :: "char \<Rightarrow> bool" where
  "isdigit_c c \<longleftrightarrow> (let n = of_char c :: nat in 48 \<le> n \<and> n \<le> 57)"

datatype conv = ConvD | ConvU | ConvLD | ConvLU | ConvS | ConvC

datatype scanned =
    Num32 "32 word"
  | Num64 "64 word"
  | Str str
  | Chr char

text \<open>An optional sign and at least one digit.\<close>

definition scan_digits :: "str \<Rightarrow> (bool \<times> nat \<times> str) option" where
  "scan_digits s =
     (let (neg, r) = (case s of [] \<Rightarrow> (False, []) | c # cs \<Rightarrow>
            (if c = CHR ''-'' then (True, cs) else if c = CHR ''+'' then (False, cs) else (False, s)));
          ds = takeWhile isdigit_c r
      in if ds = [] then None else Some (neg, read_nat 0 ds, dropWhile isdigit_c r))"

text \<open>\<open>strtol\<close> and \<open>strtoul\<close> on 64 bits, which saturate.\<close>

definition strtol_val :: "bool \<Rightarrow> nat \<Rightarrow> int" where
  "strtol_val neg n = (if neg then max (- (2 ^ 63)) (- int n) else min (2 ^ 63 - 1) (int n))"

definition strtoul_val :: "bool \<Rightarrow> nat \<Rightarrow> u64" where
  "strtoul_val neg n =
     (if 2 ^ 64 - 1 < n then - 1 else if neg then - word_of_nat n else word_of_nat n)"

text \<open>One conversion; the blank in front of it in the format skips white space.\<close>

definition scan_conv :: "conv \<Rightarrow> str \<Rightarrow> (scanned \<times> str) option" where
  "scan_conv c text =
     (let s = dropWhile isspace_c text in
      case c of
        ConvS \<Rightarrow>
          (let w = takeWhile (\<lambda>x. \<not> isspace_c x) s
           in if w = [] then None else Some (Str w, dropWhile (\<lambda>x. \<not> isspace_c x) s))
      | ConvC \<Rightarrow> (case s of [] \<Rightarrow> None | x # xs \<Rightarrow> Some (Chr x, xs))
      | _ \<Rightarrow>
          (case scan_digits s of
             None \<Rightarrow> None
           | Some (neg, n, r) \<Rightarrow>
               Some (case c of
                       ConvD \<Rightarrow> Num32 (word_of_int (strtol_val neg n))
                     | ConvU \<Rightarrow> Num32 (ucast (strtoul_val neg n))
                     | ConvLD \<Rightarrow> Num64 (word_of_int (strtol_val neg n))
                     | _ \<Rightarrow> Num64 (strtoul_val neg n), r)))"

text \<open>The values that are assigned before the first conversion that fails.\<close>

fun sscanf :: "conv list \<Rightarrow> str \<Rightarrow> scanned list" where
  "sscanf [] s = []"
| "sscanf (c # cs) s = (case scan_conv c s of None \<Rightarrow> [] | Some (v, r) \<Rightarrow> v # sscanf cs r)"

section \<open>The file\<close>

record proc_info =
  pi_pid :: "32 word"
  pi_cmd :: str
  pi_state :: char
  pi_ppid :: "32 word"
  pi_pgrp :: "32 word"
  pi_session :: "32 word"
  pi_tty_nr :: "32 word"
  pi_tpgid :: "32 word"
  pi_flags :: "32 word"
  pi_minflt :: u64
  pi_cminflt :: u64
  pi_majflt :: u64
  pi_cmajflt :: u64
  pi_utime :: u64
  pi_stime :: u64
  pi_cutime :: "64 word"
  pi_cstime :: "64 word"
  pi_priority :: "64 word"
  pi_nice :: "64 word"
  pi_num_threads :: "64 word"
  pi_itrealvalue :: "64 word"
  pi_starttime :: u64
  pi_vsize :: u64
  pi_rss :: "64 word"
  pi_rsslim :: u64
  pi_startcode :: u64
  pi_endcode :: u64
  pi_startstack :: u64
  pi_kstkesp :: u64
  pi_kstkeip :: u64
  pi_signal :: u64
  pi_blocked :: u64
  pi_sigignore :: u64
  pi_sigcatch :: u64
  pi_wchan :: u64
  pi_nswap :: u64
  pi_cnswap :: u64
  pi_exit_signal :: "32 word"
  pi_processor :: "32 word"
  pi_rt_priority :: "32 word"
  pi_policy :: "32 word"
  pi_delayacct_blkio_ticks :: u64
  pi_guest_time :: u64
  pi_cguest_time :: "64 word"

definition kMaxLineSize :: nat where "kMaxLineSize = 1024"
definition kNumProcStatFields :: nat where "kNumProcStatFields = 44"

definition kStatLineFmt :: "conv list" where
  "kStatLineFmt =
     [ConvD, ConvS, ConvC, ConvD, ConvD, ConvD, ConvD, ConvD, ConvU, ConvLU, ConvLU, ConvLU,
      ConvLU, ConvLU, ConvLU, ConvLD, ConvLD, ConvLD, ConvLD, ConvLD, ConvLD, ConvLU, ConvLU,
      ConvLD, ConvLU, ConvLU, ConvLU, ConvLU, ConvLU, ConvLU, ConvLU, ConvLU, ConvLU, ConvLU,
      ConvLU, ConvLU, ConvLU, ConvD, ConvD, ConvU, ConvU, ConvLU, ConvLU, ConvLD]"

fun w32 :: "scanned \<Rightarrow> 32 word" where
  "w32 (Num32 w) = w"
| "w32 _ = 0"

fun w64 :: "scanned \<Rightarrow> 64 word" where
  "w64 (Num64 w) = w"
| "w64 _ = 0"

fun sv_str :: "scanned \<Rightarrow> str" where
  "sv_str (Str s) = s"
| "sv_str _ = []"

fun sv_chr :: "scanned \<Rightarrow> char" where
  "sv_chr (Chr c) = c"
| "sv_chr _ = CHR 0x00"

text \<open>The assignments to the structure.\<close>

definition info_of :: "scanned list \<Rightarrow> proc_info" where
  "info_of vs =
     \<lparr>pi_pid = w32 (vs ! 0), pi_cmd = sv_str (vs ! 1), pi_state = sv_chr (vs ! 2), pi_ppid =
      w32 (vs ! 3), pi_pgrp = w32 (vs ! 4), pi_session = w32 (vs ! 5), pi_tty_nr = w32 (vs ! 6),
      pi_tpgid = w32 (vs ! 7), pi_flags = w32 (vs ! 8), pi_minflt = w64 (vs ! 9), pi_cminflt = w64
      (vs ! 10), pi_majflt = w64 (vs ! 11), pi_cmajflt = w64 (vs ! 12), pi_utime = w64 (vs ! 13),
      pi_stime = w64 (vs ! 14), pi_cutime = w64 (vs ! 15), pi_cstime = w64 (vs ! 16), pi_priority =
      w64 (vs ! 17), pi_nice = w64 (vs ! 18), pi_num_threads = w64 (vs ! 19), pi_itrealvalue = w64
      (vs ! 20), pi_starttime = w64 (vs ! 21), pi_vsize = w64 (vs ! 22), pi_rss = w64 (vs ! 23),
      pi_rsslim = w64 (vs ! 24), pi_startcode = w64 (vs ! 25), pi_endcode = w64 (vs ! 26),
      pi_startstack = w64 (vs ! 27), pi_kstkesp = w64 (vs ! 28), pi_kstkeip = w64 (vs ! 29),
      pi_signal = w64 (vs ! 30), pi_blocked = w64 (vs ! 31), pi_sigignore = w64 (vs ! 32),
      pi_sigcatch = w64 (vs ! 33), pi_wchan = w64 (vs ! 34), pi_nswap = w64 (vs ! 35), pi_cnswap =
      w64 (vs ! 36), pi_exit_signal = w32 (vs ! 37), pi_processor = w32 (vs ! 38), pi_rt_priority =
      w32 (vs ! 39), pi_policy = w32 (vs ! 40), pi_delayacct_blkio_ticks = w64 (vs ! 41),
      pi_guest_time = w64 (vs ! 42), pi_cguest_time = w64 (vs ! 43)\<rparr>"

text \<open>\<open>cmd\<close> has 24 bytes; a longer word is written past it.\<close>

definition cmd_overflows :: "scanned list \<Rightarrow> bool" where
  "cmd_overflows vs \<longleftrightarrow> 1 < length vs \<and> 24 \<le> length (sv_str (vs ! 1))"

definition ParseStat :: "str \<Rightarrow> proc_info res" where
  "ParseStat stat_line =
     (let vs = sscanf kStatLineFmt stat_line in
      if cmd_overflows vs then Inl Bad_index
      else check (length vs = kNumProcStatFields) (info_of vs))"

text \<open>The argument is what is in the file, \<open>None\<close> when it cannot be opened.\<close>

definition GetProcByPid :: "str option \<Rightarrow> proc_info option res" where
  "GetProcByPid file =
     (case file of
        None \<Rightarrow> Inr None
      | Some text \<Rightarrow>
          (case fgets kMaxLineSize text of
             None \<Rightarrow> Inl Check_failed
           | Some (line, _) \<Rightarrow> res_bind (ParseStat line) (\<lambda>i. Inr (Some i))))"

text \<open>\<open>ProcessEnforcer::GetCPUTime\<close>: the sum of the two times in 32 bits.\<close>

definition cpu_time_of :: "str option \<Rightarrow> u32 res" where
  "cpu_time_of file =
     res_bind (GetProcByPid file) (\<lambda>p.
       case p of None \<Rightarrow> Inl Null_deref | Some i \<Rightarrow> Inr (ucast (pi_utime i + pi_stime i)))"

section \<open>A line as the kernel writes it\<close>

definition info_vals :: "proc_info \<Rightarrow> scanned list" where
  "info_vals i =
     [Num32 (pi_pid i), Str (pi_cmd i), Chr (pi_state i), Num32 (pi_ppid i), Num32 (pi_pgrp i),
      Num32 (pi_session i), Num32 (pi_tty_nr i), Num32 (pi_tpgid i), Num32 (pi_flags i), Num64
      (pi_minflt i), Num64 (pi_cminflt i), Num64 (pi_majflt i), Num64 (pi_cmajflt i), Num64
      (pi_utime i), Num64 (pi_stime i), Num64 (pi_cutime i), Num64 (pi_cstime i), Num64 (pi_priority
      i), Num64 (pi_nice i), Num64 (pi_num_threads i), Num64 (pi_itrealvalue i), Num64 (pi_starttime
      i), Num64 (pi_vsize i), Num64 (pi_rss i), Num64 (pi_rsslim i), Num64 (pi_startcode i), Num64
      (pi_endcode i), Num64 (pi_startstack i), Num64 (pi_kstkesp i), Num64 (pi_kstkeip i), Num64
      (pi_signal i), Num64 (pi_blocked i), Num64 (pi_sigignore i), Num64 (pi_sigcatch i), Num64
      (pi_wchan i), Num64 (pi_nswap i), Num64 (pi_cnswap i), Num32 (pi_exit_signal i), Num32
      (pi_processor i), Num32 (pi_rt_priority i), Num32 (pi_policy i), Num64
      (pi_delayacct_blkio_ticks i), Num64 (pi_guest_time i), Num64 (pi_cguest_time i)]"
fun show_conv :: "conv \<times> scanned \<Rightarrow> str" where
  "show_conv (ConvD, Num32 w) = show_int (sint w)"
| "show_conv (ConvU, Num32 w) = show_nat (unat w)"
| "show_conv (ConvLD, Num64 w) = show_int (sint w)"
| "show_conv (ConvLU, Num64 w) = show_nat (unat w)"
| "show_conv (ConvS, Str s) = s"
| "show_conv (ConvC, Chr c) = [c]"
| "show_conv _ = []"

fun conv_ok :: "conv \<times> scanned \<Rightarrow> bool" where
  "conv_ok (ConvD, Num32 w) = True"
| "conv_ok (ConvU, Num32 w) = True"
| "conv_ok (ConvLD, Num64 w) = True"
| "conv_ok (ConvLU, Num64 w) = True"
| "conv_ok (ConvS, Str s) = (s \<noteq> [] \<and> (\<forall>c \<in> set s. \<not> isspace_c c))"
| "conv_ok (ConvC, Chr c) = (\<not> isspace_c c)"
| "conv_ok _ = False"

fun show_fields :: "(conv \<times> scanned) list \<Rightarrow> str" where
  "show_fields [] = []"
| "show_fields [f] = show_conv f"
| "show_fields (f # fs) = show_conv f @ CHR '' '' # show_fields fs"

definition stat_line :: "proc_info \<Rightarrow> str" where
  "stat_line i = show_fields (zip kStatLineFmt (info_vals i))"

definition ends :: "str \<Rightarrow> bool" where
  "ends r \<longleftrightarrow> r = [] \<or> isspace_c (hd r)"

lemma ends_simps [simp]: "ends []" "ends (c # r) \<longleftrightarrow> isspace_c c"
  by (simp_all add: ends_def)

lemma isspace_blank [simp]: "isspace_c CHR '' ''" "isspace_c CHR 0x0A"
  by (simp_all add: isspace_c_def)

lemma digit_not_space: "isdigit_c c \<Longrightarrow> \<not> isspace_c c"
  by (auto simp: isdigit_c_def isspace_c_def Let_def)

lemma show_nat_isdigit: "c \<in> set (show_nat n) \<Longrightarrow> isdigit_c c"
  using show_nat_digits [of c n] by (simp add: isdigit_c_def Let_def)

lemma show_nat_Nil [simp]: "show_nat n \<noteq> []"
  by (subst show_nat.simps) simp

lemma sign_not_digit: "isdigit_c c \<Longrightarrow> c \<noteq> CHR ''-'' \<and> c \<noteq> CHR ''+''"
  by (auto simp: isdigit_c_def Let_def)

lemma takeWhile_stop:
  assumes "\<forall>c \<in> set w. P c" and "r = [] \<or> \<not> P (hd r)"
  shows "takeWhile P (w @ r) = w" and "dropWhile P (w @ r) = r"
  using assms by (cases r; induction w; simp)+

lemma ends_not_digit: "ends r \<Longrightarrow> r = [] \<or> \<not> isdigit_c (hd r)"
  using digit_not_space by (auto simp: ends_def)

lemma scan_digits_nat:
  assumes "ends r"
  shows "scan_digits (show_nat n @ r) = Some (False, n, r)"
    and "scan_digits (CHR ''-'' # show_nat n @ r) = Some (True, n, r)"
proof -
  obtain c cs where c: "show_nat n = c # cs" by (cases "show_nat n") auto
  have "isdigit_c c" using show_nat_isdigit [of c n] by (simp add: c)
  note s = sign_not_digit [OF this]
  note t = takeWhile_stop [of "show_nat n" isdigit_c r, OF _ ends_not_digit [OF assms]]
  have d: "\<forall>c \<in> set (show_nat n). isdigit_c c" by (blast intro: show_nat_isdigit)
  show "scan_digits (show_nat n @ r) = Some (False, n, r)"
    using t d s read_show_nat [of n] by (simp add: scan_digits_def Let_def c)
  show "scan_digits (CHR ''-'' # show_nat n @ r) = Some (True, n, r)"
    using t d read_show_nat [of n] by (simp add: scan_digits_def Let_def)
qed

lemma scan_digits_int:
  assumes "ends r"
  shows "scan_digits (show_int i @ r) = Some (i < 0, nat \<bar>i\<bar>, r)"
  using scan_digits_nat [OF assms] by (simp add: show_int_def)

lemma minus_not_space: "\<not> isspace_c CHR ''-''"
  by (simp add: isspace_c_def)

lemma show_conv_no_space: "conv_ok f \<Longrightarrow> show_conv f \<noteq> [] \<and> (\<forall>c \<in> set (show_conv f). \<not> isspace_c c)"
  by (cases f rule: show_conv.cases)
    (auto simp: show_int_def minus_not_space dest: show_nat_isdigit digit_not_space)

lemma sint_bounds: "- (2 ^ 63) \<le> sint (w :: 64 word)" "sint w \<le> 2 ^ 63 - 1"
  "- (2 ^ 63) \<le> sint (v :: 32 word)" "sint v \<le> 2 ^ 63 - 1"
  using sint_range_size [of w] sint_range_size [of v] by (simp_all add: word_size)

lemma strtol_id: "- (2 ^ 63) \<le> i \<Longrightarrow> i \<le> 2 ^ 63 - 1 \<Longrightarrow> strtol_val (i < 0) (nat \<bar>i\<bar>) = i"
  by (auto simp: strtol_val_def)

lemma strtol_word:
  "word_of_int (strtol_val (sint w < 0) (nat \<bar>sint w\<bar>)) = (w :: 64 word)"
  "word_of_int (strtol_val (sint v < 0) (nat \<bar>sint v\<bar>)) = (v :: 32 word)"
  by (simp_all add: strtol_id [OF sint_bounds(1,2)] strtol_id [OF sint_bounds(3,4)])

lemma strtoul_word:
  "strtoul_val False (unat w) = w" "ucast (strtoul_val False (unat v)) = (v :: 32 word)"
proof -
  have "unat w < 2 ^ 64" using unsigned_less [of w] by simp
  then have "\<not> 2 ^ 64 - 1 < unat w" by linarith
  then show "strtoul_val False (unat w) = w" unfolding strtoul_val_def by simp
  have v: "unat v < 2 ^ 32" using unsigned_less [of v] by simp
  then have "strtoul_val False (unat v) = ucast v" by (simp add: strtoul_val_def unsigned_ucast_eq)
  then show "ucast (strtoul_val False (unat v)) = v"
    using v by (simp add: word_unat_eq_iff unsigned_ucast_eq take_bit_nat_eq_self_iff)
qed

lemma scan_show:
  assumes "conv_ok (c, v)" and "ends r"
  shows "scan_conv c (show_conv (c, v) @ r) = Some (v, r)"
proof -
  have n: "show_conv (c, v) \<noteq> []" "\<forall>x \<in> set (show_conv (c, v)). \<not> isspace_c x"
    using show_conv_no_space [OF assms(1)] by auto
  then have d: "dropWhile isspace_c (show_conv (c, v) @ r) = show_conv (c, v) @ r"
    by (cases "show_conv (c, v)") auto
  have w: "r = [] \<or> \<not> \<not> isspace_c (hd r)" using assms(2) by (auto simp: ends_def)
  note t = takeWhile_stop [of _ "\<lambda>x. \<not> isspace_c x", OF _ w]
  show ?thesis
    using assms(1) n t d
    by (cases "(c, v)" rule: show_conv.cases)
      (auto simp: scan_conv_def Let_def scan_digits_int [OF assms(2)] scan_digits_nat [OF assms(2)]
        strtol_word strtoul_word)
qed

lemma scan_conv_blank: "isspace_c b \<Longrightarrow> scan_conv c (b # s) = scan_conv c s"
  by (simp add: scan_conv_def)

lemma sscanf_blank: "isspace_c b \<Longrightarrow> sscanf cs (b # s) = sscanf cs s"
  by (cases cs) (simp_all add: scan_conv_blank)

lemma sscanf_fields:
  "\<forall>f \<in> set fs. conv_ok f \<Longrightarrow> ends r \<Longrightarrow> sscanf (map fst fs) (show_fields fs @ r) = map snd fs"
proof (induction fs rule: show_fields.induct)
  case (2 f)
  then show ?case by (cases f) (simp add: scan_show)
next
  case (3 f g fs)
  obtain c v where f: "f = (c, v)" by (cases f)
  have "scan_conv c (show_conv (c, v) @ (CHR '' '' # show_fields (g # fs) @ r)) =
      Some (v, CHR '' '' # show_fields (g # fs) @ r)"
    using 3 f by (intro scan_show) auto
  then show ?case using 3 f sscanf_blank [of "CHR '' ''" "map fst (g # fs)" "show_fields (g # fs) @ r"]
    by simp
qed simp

lemma fgets_aux_short:
  "\<forall>c \<in> set l. c \<noteq> CHR 0x0A \<Longrightarrow> Suc (length l) \<le> n \<Longrightarrow> fgets_aux n (l @ CHR 0x0A # r) = (l @ [CHR 0x0A], r)"
proof (induction l arbitrary: n)
  case Nil
  then show ?case by (cases n) simp_all
next
  case (Cons c l)
  then show ?case by (cases n) simp_all
qed

lemma show_fields_chars:
  "\<forall>f \<in> set fs. conv_ok f \<Longrightarrow> c \<in> set (show_fields fs) \<Longrightarrow> c \<noteq> CHR 0x0A"
proof (induction fs rule: show_fields.induct)
  case (2 f)
  then show ?case using show_conv_no_space [of f] isspace_blank(2) by auto
next
  case (3 f g fs)
  then show ?case using show_conv_no_space [of f] isspace_blank(2) by auto
qed simp

lemma stat_fields_ok:
  assumes "pi_cmd i \<noteq> []" and "\<forall>c \<in> set (pi_cmd i). \<not> isspace_c c" and "\<not> isspace_c (pi_state i)"
  shows "\<forall>f \<in> set (zip kStatLineFmt (info_vals i)). conv_ok f"
  using assms by (simp add: kStatLineFmt_def info_vals_def)

lemma info_of_vals: "info_of (info_vals i) = i"
  by (simp add: info_of_def info_vals_def)

lemma ParseStat_line:
  assumes "pi_cmd i \<noteq> []" and "\<forall>c \<in> set (pi_cmd i). \<not> isspace_c c" and "\<not> isspace_c (pi_state i)"
    and "length (pi_cmd i) < 24"
  shows "ParseStat (stat_line i @ [CHR 0x0A]) = Inr i"
proof -
  have l: "length (info_vals i) = 44" "length kStatLineFmt = 44" by (simp_all add: info_vals_def kStatLineFmt_def)
  have "sscanf kStatLineFmt (stat_line i @ [CHR 0x0A]) = info_vals i"
    using sscanf_fields [OF stat_fields_ok [OF assms(1-3)], of "[CHR 0x0A]"] l by (simp add: stat_line_def)
  moreover have "\<not> cmd_overflows (info_vals i)"
    using assms(4) by (simp add: cmd_overflows_def info_vals_def)
  ultimately show ?thesis by (simp add: ParseStat_def l kNumProcStatFields_def info_of_vals)
qed


definition demo_stat :: proc_info where
  "demo_stat =
     \<lparr>pi_pid = 7, pi_cmd = ''(app)'', pi_state = CHR ''S'', pi_ppid = 0, pi_pgrp = 0,
      pi_session = 0, pi_tty_nr = 0, pi_tpgid = 0, pi_flags = 0, pi_minflt = 0, pi_cminflt = 0,
      pi_majflt = 0, pi_cmajflt = 0, pi_utime = 250, pi_stime = 30, pi_cutime = 0, pi_cstime = 0,
      pi_priority = 0, pi_nice = - 5, pi_num_threads = 0, pi_itrealvalue = 0, pi_starttime = 0,
      pi_vsize = 0, pi_rss = 0, pi_rsslim = 0, pi_startcode = 0, pi_endcode = 0, pi_startstack = 0,
      pi_kstkesp = 0, pi_kstkeip = 0, pi_signal = 0, pi_blocked = 0, pi_sigignore = 0, pi_sigcatch =
      0, pi_wchan = 0, pi_nswap = 0, pi_cnswap = 0, pi_exit_signal = 0, pi_processor = 0,
      pi_rt_priority = 0, pi_policy = 0, pi_delayacct_blkio_ticks = 0, pi_guest_time = 0,
      pi_cguest_time = 0\<rparr>"

lemma demo_stat_length: "length (stat_line demo_stat) < 1023"
  by (simp add: demo_stat_def stat_line_def kStatLineFmt_def info_vals_def show_int_def show_nat.simps)


text \<open>A program may choose a name with a blank; then the next letter is taken for the state and the parse aborts.\<close>

lemma blank_in_name_aborts: "ParseStat (''7 (my app) S 1 7 7'' @ s) = Inl Check_failed"
  by (simp add: ParseStat_def kStatLineFmt_def scan_conv_def scan_digits_def isspace_c_def isdigit_c_def
      strtol_val_def cmd_overflows_def kNumProcStatFields_def)

end
