(* ===== verification/VmmUtil.thy ===== *)
theory VmmUtil
  imports EnforcerDefs
begin

text \<open>
  falcon/vmm_enforcer/util.cc: from the address of a virtual machine to the switch port that it is
  on, through the ARP table and the forwarding table of the bridge, and what switches a port off.
  The kernel's tables are texts and lists given by the environment; the parsing is the code's.
\<close>

section \<open>Scanning text\<close>

text \<open>Lines as successive \<open>fgets(buf, n, f)\<close> calls return them.\<close>

function file_lines :: "nat \<Rightarrow> string \<Rightarrow> string list" where
  "file_lines n cs = (case fgets n cs of None \<Rightarrow> [] | Some (l, r) \<Rightarrow> l # file_lines n r)"
  by pat_completeness auto
termination
  by (relation "measure (\<lambda>(n, cs). length cs)") (auto dest: fgets_shorter)

declare file_lines.simps [simp del]

text \<open>The pieces that repeated \<open>strsep(&s, " ")\<close> returns before it returns NULL.\<close>

fun strsep :: "char \<Rightarrow> string \<Rightarrow> string list" where
  "strsep d [] = [[]]"
| "strsep d (c # cs) =
     (if c = d then [] # strsep d cs
      else (case strsep d cs of [] \<Rightarrow> [[c]] | p # ps \<Rightarrow> (c # p) # ps))"

lemma strsep_not_Nil [simp]: "strsep d cs \<noteq> []"
  by (induction cs) (auto split: list.splits)

definition hex_digit :: "char \<Rightarrow> nat option" where
  "hex_digit c =
     (let n = of_char c in
      if 48 \<le> n \<and> n \<le> 57 then Some (n - 48)
      else if 97 \<le> n \<and> n \<le> 102 then Some (n - 87)
      else if 65 \<le> n \<and> n \<le> 70 then Some (n - 55) else None)"

text \<open>\<open>%2x\<close>: one or two hexadecimal digits.\<close>

definition scan_2x :: "string \<Rightarrow> (nat \<times> string) option" where
  "scan_2x cs =
     (case cs of
        [] \<Rightarrow> None
      | a # r \<Rightarrow>
          (case hex_digit a of
             None \<Rightarrow> None
           | Some x \<Rightarrow>
               (case r of
                  [] \<Rightarrow> Some (x, [])
                | b # r' \<Rightarrow>
                    (case hex_digit b of None \<Rightarrow> Some (x, r) | Some y \<Rightarrow> Some (x * 16 + y, r')))))"

text \<open>
  \<open>sscanf(s, "%2x:%2x:%2x:%2x:%2x:%2x", ...)\<close>.  The code does not look at the number of
  conversions, so a text that stops early leaves the other bytes uninitialised: \<open>None\<close>.
\<close>

fun scan_mac :: "nat \<Rightarrow> string \<Rightarrow> nat list option" where
  "scan_mac 0 cs = Some []"
| "scan_mac (Suc n) cs =
     (case scan_2x cs of
        None \<Rightarrow> None
      | Some (x, r) \<Rightarrow>
          if n = 0 then Some [x]
          else (case r of
                  c # r' \<Rightarrow> if c = CHR '':'' then map_option ((#) x) (scan_mac n r') else None
                | [] \<Rightarrow> None))"

section \<open>The ARP table\<close>

definition LINE_BUF_SIZE :: nat where "LINE_BUF_SIZE = 512"

text \<open>
  The inner loop: the first piece of 17 characters is the MAC address.  The test of the loop never
  fails, so on a line without such a piece \<open>strlen\<close> is called with NULL.
\<close>

fun find_mac :: "string list \<Rightarrow> nat list res" where
  "find_mac [] = Inl Null_deref"
| "find_mac (p # ps) =
     (if length p = 17
      then (case scan_mac 6 p of None \<Rightarrow> Inl Uninit_read | Some m \<Rightarrow> Inr m)
      else find_mac ps)"

fun arp_lookup :: "string \<Rightarrow> string list \<Rightarrow> nat list option res" where
  "arp_lookup ip [] = Inr None"
| "arp_lookup ip (l # ls) =
     (case strsep CHR '' '' l of
        [] \<Rightarrow> arp_lookup ip ls
      | p # ps \<Rightarrow>
          if p = ip then res_bind (find_mac ps) (\<lambda>m. Inr (Some m)) else arp_lookup ip ls)"

definition get_mac_from_ip :: "string \<Rightarrow> string \<Rightarrow> nat list option res" where
  "get_mac_from_ip arp_table ip = arp_lookup ip (file_lines LINE_BUF_SIZE arp_table)"

section \<open>The forwarding table\<close>

type_synonym fdb_entry = "nat list \<times> nat"

definition CHUNK :: nat where "CHUNK = 128"

text \<open>
  \<open>br_read_fdb(br, buf, offset, n)\<close> is a library call: at most \<open>n\<close> entries from \<open>offset\<close> on, or a
  negative result.  It is a parameter of the loop; \<open>None\<close> is the negative result.  The fuel bounds
  the number of calls.
\<close>

fun read_fdb ::
    "(nat \<Rightarrow> nat \<Rightarrow> fdb_entry list option) \<Rightarrow> nat \<Rightarrow> fdb_entry list \<Rightarrow> fdb_entry list option option" where
  "read_fdb br 0 acc = None"
| "read_fdb br (Suc k) acc =
     (case br (length acc) CHUNK of
        None \<Rightarrow> Some None
      | Some [] \<Rightarrow> Some (Some acc)
      | Some es \<Rightarrow> read_fdb br k (acc @ es))"

text \<open>The scan of the table: the first entry with that address; ports are numbered from 2.\<close>

fun fdb_port :: "nat list \<Rightarrow> fdb_entry list \<Rightarrow> int" where
  "fdb_port mac [] = -1"
| "fdb_port mac ((m, p) # es) = (if m = mac then int p - 2 else fdb_port mac es)"

definition br_table :: "fdb_entry list \<Rightarrow> nat \<Rightarrow> nat \<Rightarrow> fdb_entry list option" where
  "br_table t off n = Some (take n (drop off t))"

definition get_port_from_mac ::
    "(nat \<Rightarrow> nat \<Rightarrow> fdb_entry list option) \<Rightarrow> nat \<Rightarrow> nat list \<Rightarrow> int option" where
  "get_port_from_mac br fuel mac =
     (case read_fdb br fuel [] of
        None \<Rightarrow> None
      | Some None \<Rightarrow> Some (-1)
      | Some (Some es) \<Rightarrow> Some (fdb_port mac es))"

definition get_port_from_ip ::
    "string \<Rightarrow> (nat \<Rightarrow> nat \<Rightarrow> fdb_entry list option) \<Rightarrow> nat \<Rightarrow> u32 \<Rightarrow> int option res" where
  "get_port_from_ip arp_table br fuel ip =
     res_bind (get_mac_from_ip arp_table (inet_ntoa ip)) (\<lambda>m.
       Inr (case m of None \<Rightarrow> Some (-1) | Some mac \<Rightarrow> get_port_from_mac br fuel mac))"

section \<open>Names\<close>

definition IFNAMSIZ :: nat where "IFNAMSIZ = 16"

definition get_vlan_from_port :: "int \<Rightarrow> str" where
  "get_vlan_from_port port = take (IFNAMSIZ - 1) (''vlan'' @ show_int (port + 2))"

definition check_sanity :: "str \<Rightarrow> u32 \<Rightarrow> bool" where
  "check_sanity hostname addr = True"

text \<open>The file that \<open>stop_port\<close> writes a zero to.\<close>

definition port_path :: "int \<Rightarrow> str" where
  "port_path port = ''/proc/switch/eth0/port/'' @ show_int port @ ''/enable''"

section \<open>Properties of the lookups\<close>

text \<open>
  Against a table the loop of reads collects all of it, whatever its length, in one call per chunk
  and a last one.
\<close>

lemma read_fdb_prefix:
  assumes "length t \<le> off + k * CHUNK" and "off \<le> length t"
  shows "read_fdb (br_table t) (Suc k) (take off t) = Some (Some t)"
  using assms
proof (induction k arbitrary: off)
  case 0
  then show ?case by (simp add: br_table_def)
next
  case (Suc k)
  show ?case
  proof (cases "off = length t")
    case True
    then show ?thesis by (simp add: br_table_def)
  next
    case False
    with Suc.prems(2) have lt: "off < length t" by simp
    let ?es = "take CHUNK (drop off t)"
    let ?off = "min (off + CHUNK) (length t)"
    have ne: "?es \<noteq> []" using lt by (simp add: CHUNK_def)
    have acc: "take off t @ ?es = take ?off t"
      by (simp only: take_add [symmetric]) (simp add: min_def)
    have "length t \<le> ?off + k * CHUNK"
      using Suc.prems(1) by (cases "off + CHUNK \<le> length t") (simp_all add: min_def CHUNK_def)
    from Suc.IH [OF this] have rest: "read_fdb (br_table t) (Suc k) (take off t @ ?es) = Some (Some t)"
      by (simp only: acc)
    obtain e es where es: "?es = e # es" using ne by (cases ?es) auto
    then have "br_table t (length (take off t)) CHUNK = Some (e # es)"
      using Suc.prems(2) by (simp add: br_table_def min_absorb2)
    then have "read_fdb (br_table t) (Suc (Suc k)) (take off t) =
        read_fdb (br_table t) (Suc k) (take off t @ e # es)"
      by (subst read_fdb.simps(2)) (simp only: option.case list.case)
    with rest es show ?thesis by simp
  qed
qed

lemma read_fdb_all: "read_fdb (br_table t) (length t + 2) [] = Some (Some t)"
proof -
  have "length t \<le> 0 + (length t + 1) * CHUNK" by (simp add: CHUNK_def)
  from read_fdb_prefix [OF this] show ?thesis by simp
qed

lemma fdb_port_find:
  "fdb_port mac es = (case find (\<lambda>e. fst e = mac) es of None \<Rightarrow> -1 | Some e \<Rightarrow> int (snd e) - 2)"
  by (induction mac es rule: fdb_port.induct) auto

text \<open>A MAC address printed the usual way is scanned back.\<close>

definition hex_char :: "nat \<Rightarrow> char" where
  "hex_char d = (if d < 10 then char_of (48 + d) else char_of (87 + d))"

definition show_2x :: "nat \<Rightarrow> string" where
  "show_2x b = [hex_char (b div 16), hex_char (b mod 16)]"

fun show_mac :: "nat list \<Rightarrow> string" where
  "show_mac [] = []"
| "show_mac [b] = show_2x b"
| "show_mac (b # bs) = show_2x b @ CHR '':'' # show_mac bs"

lemma hex_digit_char: "d < 16 \<Longrightarrow> hex_digit (hex_char d) = Some d"
  by (auto simp: hex_digit_def hex_char_def Let_def)

lemma scan_show_2x: "b < 256 \<Longrightarrow> scan_2x (show_2x b @ r) = Some (b, r)"
  by (simp add: scan_2x_def show_2x_def hex_digit_char)

lemma scan_show_mac:
  "length m = n \<Longrightarrow> (\<forall>b \<in> set m. b < 256) \<Longrightarrow> scan_mac n (show_mac m) = Some m"
proof (induction m arbitrary: n rule: show_mac.induct)
  case 1
  then show ?case by simp
next
  case (2 b)
  then show ?case using scan_show_2x [of b "[]"] by (cases n) auto
next
  case (3 b c bs)
  then show ?case by (cases n) (auto simp: scan_show_2x)
qed

lemma length_show_mac: "m \<noteq> [] \<Longrightarrow> length (show_mac m) = 3 * length m - 1"
  by (induction m rule: show_mac.induct) (auto simp: show_2x_def)

lemma strsep_append: "strsep d (a @ d # b) = strsep d a @ strsep d b"
  by (induction a) (auto split: list.splits)

lemma strsep_single: "d \<notin> set a \<Longrightarrow> strsep d a = [a]"
  by (induction a) auto

lemma high_digit: "b < 256 \<Longrightarrow> b div 16 < (16 :: nat)"
  by simp

lemma hex_char_not_space: "d < 16 \<Longrightarrow> hex_char d \<noteq> CHR '' ''"
  using hex_digit_char [of d] by (auto simp: hex_digit_def)

lemma show_mac_no_space: "\<forall>b \<in> set m. b < 256 \<Longrightarrow> CHR '' '' \<notin> set (show_mac m)"
proof -
  have "b < 256 \<Longrightarrow> CHR '' '' \<notin> set (show_2x b)" for b
    using hex_char_not_space [of "b div 16"] high_digit [of b] hex_char_not_space [of "b mod 16"]
    by (auto simp: show_2x_def dest: sym)
  then show "\<forall>b \<in> set m. b < 256 \<Longrightarrow> ?thesis"
    by (induction m rule: show_mac.induct) auto
qed

lemma inet_ntoa_no_space: "CHR '' '' \<notin> set (inet_ntoa ip)"
  using show_nat_digits [of "CHR '' ''"] by (auto simp: inet_ntoa_def)

lemma find_mac_first:
  "\<forall>p \<in> set ps. length p \<noteq> 17 \<Longrightarrow> find_mac (ps @ qs) = find_mac qs"
  by (induction ps) auto

lemma arp_lookup_skip:
  "\<forall>l \<in> set pre. hd (strsep CHR '' '' l) \<noteq> ip \<Longrightarrow> arp_lookup ip (pre @ ls) = arp_lookup ip ls"
  by (induction pre) (auto split: list.splits)

text \<open>
  The port of a virtual machine.  When the line of its address in the ARP table has the
  kernel's format, with no other column of 17 characters in front of the MAC address, and the bridge
  serves a table of any length, the lookup returns without a fault: the port of the first entry
  with that MAC address, less 2, or -1 when there is none.
\<close>

theorem get_port_from_ip_finds:
  assumes "file_lines LINE_BUF_SIZE arp =
      pre @ (inet_ntoa ip @ CHR '' '' # mid @ CHR '' '' # show_mac mac @ CHR '' '' # dev) # post"
    and "\<forall>l \<in> set pre. hd (strsep CHR '' '' l) \<noteq> inet_ntoa ip"
    and "\<forall>p \<in> set (strsep CHR '' '' mid). length p \<noteq> 17"
    and "length mac = 6" and "\<forall>b \<in> set mac. b < 256"
  shows "get_port_from_ip arp (br_table t) (length t + 2) ip =
    Inr (Some (case find (\<lambda>e. fst e = mac) t of None \<Rightarrow> -1 | Some e \<Rightarrow> int (snd e) - 2))"
proof -
  have mac: "mac \<noteq> []" using assms(4) by auto
  have pieces: "strsep CHR '' '' (inet_ntoa ip @ CHR '' '' # mid @ CHR '' '' # show_mac mac @ CHR '' '' # dev) =
      inet_ntoa ip # strsep CHR '' '' mid @ show_mac mac # strsep CHR '' '' dev"
    by (simp add: strsep_append strsep_single inet_ntoa_no_space show_mac_no_space [OF assms(5)])
  have "find_mac (strsep CHR '' '' mid @ show_mac mac # strsep CHR '' '' dev) = Inr mac"
    using assms(4,5) length_show_mac [OF mac]
    by (simp add: find_mac_first [OF assms(3)] scan_show_mac)
  then have "get_mac_from_ip arp (inet_ntoa ip) = Inr (Some mac)"
    by (simp add: get_mac_from_ip_def assms(1) arp_lookup_skip [OF assms(2)] pieces)
  then show ?thesis
    using read_fdb_all [of t]
    by (simp add: get_port_from_ip_def get_port_from_mac_def fdb_port_find)
qed

theorem get_port_from_ip_finds_witness:
  "get_port_from_ip (''IP address HW'' @ [CHR 0x0A] @ ''0.0.0.0 0x1 0x2   00:1f:c0:00:02:ff * br0'' @ [CHR 0x0A])
     (br_table [([1, 2, 3, 4, 5, 6], 2), ([0, 31, 192, 0, 2, 255], 5)]) 4 0 = Inr (Some 3)"
proof -
  let ?arp = "''IP address HW'' @ [CHR 0x0A] @ ''0.0.0.0 0x1 0x2   00:1f:c0:00:02:ff * br0'' @ [CHR 0x0A]"
  let ?t = "[([1, 2, 3, 4, 5, 6], 2), ([0, 31, 192, 0, 2, 255], 5)]"
  have ip: "inet_ntoa 0 = ''0.0.0.0''"
    by (simp add: inet_ntoa_def octet_def show_nat.simps digit_def char_of_eq_iff)
  have mac: "show_mac [0, 31, 192, 0, 2, 255] = ''00:1f:c0:00:02:ff''"
    by (simp add: show_2x_def hex_char_def char_of_eq_iff)
  have lines: "file_lines LINE_BUF_SIZE ?arp = [''IP address HW'' @ [CHR 0x0A]] @
      (inet_ntoa 0 @ CHR '' '' # ''0x1 0x2  '' @ CHR '' '' # show_mac [0, 31, 192, 0, 2, 255] @ CHR '' '' # ''* br0'' @ [CHR 0x0A]) # []"
    unfolding ip mac
    by (subst file_lines.simps, subst file_lines.simps, subst file_lines.simps)
      (simp add: fgets_def LINE_BUF_SIZE_def eval_nat_numeral)
  from get_port_from_ip_finds [OF lines, where t = ?t] show ?thesis
    by (simp add: ip eval_nat_numeral)
qed

end
