(* ===== verification/VmmEnforcer.thy ===== *)
theory VmmEnforcer
  imports VmmUtil EnforcerContract
begin

text \<open>
  The enforcer of the virtual machine monitor layer, which runs on the router
  (falcon/vmm_enforcer/vmm_enforcer.cc): machines register with it, it watches the bytes that their
  network interface receives, sends a probe when there were none, and cuts a machine that does not
  answer off the network by switching its port off.
\<close>

section \<open>State\<close>

type_synonym vref = nat
type_synonym mref = nat
type_synonym cell = nat

text \<open>\<open>class VMM\<close>.  Times are nanoseconds.\<close>

record vmm =
  v_handle :: str
  v_vlan_id :: str
  v_ipaddr :: u32
  v_switch_port :: u32
  v_monitored :: bool
  v_last_query :: int
  v_count :: u64

text \<open>
  The callbacks of the layer: \<open>MonitorAction\<close>, as the end of a probe or as a timer, and \<open>Retry\<close>.
  The message of a probe and the pointer to its call are shared objects (\<open>mref\<close>, \<open>cell\<close>).
\<close>

datatype vmm_cb =
    CbMonitorAction str u64 mref cell
  | CbRetry vref cell nat

datatype obs_out =
    ObsReplyVoid
  | ObsReplyGen u32
  | ObsIgnore

text \<open>
  \<open>monitored_vmms\<close> tells an absent key from a null pointer.  \<open>net_dev\<close> is the text of
  /proc/net/dev, \<open>arp_table\<close> that of /proc/net/arp, \<open>fdb\<close> the forwarding table, \<open>port_file_ok\<close>
  whether the file of a port can be written, \<open>clock\<close> the real time; \<open>probes\<close> are the probes put on
  the wire, \<open>ports_off\<close> the port files to which a zero was written.
\<close>

record vmm_layer =
  vmms :: "vref \<Rightarrow> vmm"
  next_vref :: nat
  monitored_vmms :: "str \<Rightarrow> vref option option"
  msgs :: "mref \<Rightarrow> u32"
  next_mref :: nat
  cells :: "cell \<Rightarrow> (nat \<times> u32) option"
  next_cell :: nat
  probes :: "(u32 \<times> u32) list"
  ports_off :: "str list"
  obs_outbox :: "obs_out list"
  max_vmm_retry :: u32
  vmm_check :: "int \<times> int"
  vmm_resp :: "int \<times> int"
  vmm_to :: "int \<times> int"
  max_poll_period :: "int option"
  net_dev :: string
  arp_table :: string
  fdb :: "fdb_entry list"
  port_file_ok :: "str \<Rightarrow> bool"
  clock :: int

type_synonym venf = "(vmm_layer, vmm_cb) enforcer"

definition VMM_TIMEDOUT :: u32 where "VMM_TIMEDOUT = 0"
definition VMM_CANCELED :: u32 where "VMM_CANCELED = 1"
definition kVMMRetry :: nat where "kVMMRetry = 5"
definition kVMMResp_us :: u32 where "kVMMResp_us = 20000"
definition kMaxPollPeriod_ms :: int where "kMaxPollPeriod_ms = 6000"

section \<open>Small steps\<close>

definition vupd :: "(vmm_layer \<Rightarrow> vmm_layer) \<Rightarrow> venf \<Rightarrow> venf" where
  "vupd f s = s\<lparr>layer := f (layer s)\<rparr>"

text \<open>\<open>monitored_vmms_[h]\<close>, followed by \<open>CHECK(target)\<close>.\<close>

definition vmm_at :: "str \<Rightarrow> venf \<Rightarrow> vref res" where
  "vmm_at h s =
     (case monitored_vmms (layer s) h of Some (Some v) \<Rightarrow> Inr v | _ \<Rightarrow> Inl Check_failed)"

definition set_vmm :: "vref \<Rightarrow> vmm \<Rightarrow> venf \<Rightarrow> venf" where
  "set_vmm v m s = vupd (\<lambda>l. l\<lparr>vmms := (vmms l)(v := m)\<rparr>) s"

definition set_cell :: "cell \<Rightarrow> (nat \<times> u32) option \<Rightarrow> venf \<Rightarrow> venf" where
  "set_cell c x s = vupd (\<lambda>l. l\<lparr>cells := (cells l)(c := x)\<rparr>) s"

definition new_msg :: "u32 \<Rightarrow> venf \<Rightarrow> mref \<times> venf" where
  "new_msg c s = (next_mref (layer s),
     vupd (\<lambda>l. l\<lparr>msgs := (msgs l)(next_mref l := c), next_mref := Suc (next_mref l)\<rparr>) s)"

definition new_cell :: "venf \<Rightarrow> cell \<times> venf" where
  "new_cell s = (next_cell (layer s),
     vupd (\<lambda>l. l\<lparr>cells := (cells l)(next_cell l := None), next_cell := Suc (next_cell l)\<rparr>) s)"

definition obs_emit :: "obs_out \<Rightarrow> venf \<Rightarrow> venf" where
  "obs_emit x s = vupd (\<lambda>l. l\<lparr>obs_outbox := obs_outbox l @ [x]\<rparr>) s"

definition stop_port :: "int \<Rightarrow> venf \<Rightarrow> venf res" where
  "stop_port port s =
     (if port_file_ok (layer s) (port_path port)
      then Inr (vupd (\<lambda>l. l\<lparr>ports_off := ports_off l @ [port_path port]\<rparr>) s)
      else Inl Check_failed)"

section \<open>Received bytes\<close>

definition is_space :: "char \<Rightarrow> bool" where
  "is_space c \<longleftrightarrow> c = CHR '' '' \<or> 9 \<le> (of_char c :: nat) \<and> (of_char c :: nat) \<le> 13"

definition is_digit :: "char \<Rightarrow> bool" where
  "is_digit c \<longleftrightarrow> 48 \<le> (of_char c :: nat) \<and> (of_char c :: nat) \<le> 57"

text \<open>\<open>%ld\<close>: white space, a sign, digits.\<close>

definition scan_ld :: "string \<Rightarrow> (int \<times> string) option" where
  "scan_ld cs =
     (let a = dropWhile is_space cs;
          (neg, b) = (case a of
                        CHR ''-'' # r \<Rightarrow> (True, r)
                      | CHR ''+'' # r \<Rightarrow> (False, r)
                      | _ \<Rightarrow> (False, a));
          ds = takeWhile is_digit b
      in if ds = [] then None
         else Some ((if neg then - int (read_nat 0 ds) else int (read_nat 0 ds)), dropWhile is_digit b))"

fun scan_lds :: "nat \<Rightarrow> string \<Rightarrow> int list" where
  "scan_lds 0 cs = []"
| "scan_lds (Suc n) cs = (case scan_ld cs of None \<Rightarrow> [] | Some (x, r) \<Rightarrow> x # scan_lds n r)"

text \<open>\<open>sscanf(buf, "%s", name)\<close>; no word is a failed \<open>CHECK\<close>.\<close>

definition scan_word :: "string \<Rightarrow> string" where
  "scan_word cs = takeWhile (\<lambda>c. \<not> is_space c) (dropWhile is_space cs)"

text \<open>The loop over the lines; of the fifteen numbers the eighth is skipped.\<close>

fun rx_lines :: "str \<Rightarrow> string list \<Rightarrow> u64 res" where
  "rx_lines ifname [] = Inl Check_failed"
| "rx_lines ifname (l # ls) =
     (let name = takeWhile (\<lambda>c. c \<noteq> CHR '':'') l; nums = scan_lds 15 (tl (dropWhile (\<lambda>c. c \<noteq> CHR '':'') l)) in
      if CHR '':'' \<notin> set l \<or> scan_word name = [] then Inl Check_failed
      else if length nums \<noteq> 15 then rx_lines ifname ls
      else if scan_word name \<noteq> ifname then rx_lines ifname ls
      else Inr (word_of_int (hd nums)))"

definition rx_bytes_of :: "string \<Rightarrow> str \<Rightarrow> u64 res" where
  "rx_bytes_of file ifname = rx_lines ifname (drop 2 (file_lines 512 file))"

definition GetRXBytes :: "str \<Rightarrow> venf \<Rightarrow> u64 res" where
  "GetRXBytes h s =
     (case monitored_vmms (layer s) h of
        Some (Some v) \<Rightarrow> rx_bytes_of (net_dev (layer s)) (v_vlan_id (vmms (layer s) v))
      | _ \<Rightarrow> Inl Null_deref)"

section \<open>The virtual methods\<close>

definition VmmStopMonitoring :: "str \<Rightarrow> venf \<Rightarrow> venf res" where
  "VmmStopMonitoring h s =
     res_bind (vmm_at h s) (\<lambda>v.
       let m = vmms (layer s) v in
       Inr (if v_monitored m then set_vmm v (m\<lparr>v_monitored := False\<rparr>) s else s))"

definition VmmInvalidTarget :: "str \<Rightarrow> venf \<Rightarrow> bool" where
  "VmmInvalidTarget h s \<longleftrightarrow> monitored_vmms (layer s) h = None"

definition VmmKill :: "str \<Rightarrow> venf \<Rightarrow> venf res" where
  "VmmKill h s =
     res_bind (vmm_at h s) (\<lambda>v. stop_port (sint (v_switch_port (vmms (layer s) v))) s)"

definition VmmUpdateGenerations :: "str \<Rightarrow> venf \<Rightarrow> venf res" where
  "VmmUpdateGenerations h s = Inr s"

abbreviation vmm_down :: "str \<Rightarrow> u32 \<Rightarrow> bool \<Rightarrow> bool \<Rightarrow> venf \<Rightarrow> venf res" where
  "vmm_down \<equiv> ObserveDown VmmStopMonitoring"

definition poll_expired :: "vmm \<Rightarrow> venf \<Rightarrow> bool" where
  "poll_expired m s \<longleftrightarrow>
     (case max_poll_period (layer s) of None \<Rightarrow> False | Some p \<Rightarrow> p < clock (layer s) - v_last_query m)"

text \<open>The probe of \<open>MonitorAction\<close>: a call with a time limit, and the timer of the first retry.\<close>

definition send_probe :: "str \<Rightarrow> vref \<Rightarrow> u64 \<Rightarrow> venf \<Rightarrow> venf" where
  "send_probe h v new_rx s =
     (let m = vmms (layer s) v;
          arg = ucast (v_count m) :: u32;
          s1 = set_vmm v (m\<lparr>v_count := v_count m + 1\<rparr>) s;
          (res, s2) = new_msg 0 s1;
          (cb, s3) = new_cell s2;
          s4 = vupd (\<lambda>l. l\<lparr>probes := probes l @ [(v_ipaddr m, arg)]\<rparr>) s3;
          s5 = schedule (OnReplyWithin (fst (vmm_to (layer s))) (snd (vmm_to (layer s))))
                 (CbLayer (CbMonitorAction h new_rx res cb)) s4;
          s6 = set_cell cb (Some (next_id s4, arg)) s5;
          s7 = schedule (After (fst (vmm_resp (layer s))) (snd (vmm_resp (layer s))))
                 (CbLayer (CbRetry v cb 0)) s6
      in set_vmm v ((vmms (layer s7) v)\<lparr>v_last_query := clock (layer s7)\<rparr>) s7)"

definition MonitorAction :: "str \<Rightarrow> u64 \<Rightarrow> mref \<Rightarrow> cell \<Rightarrow> clnt_stat \<Rightarrow> venf \<Rightarrow> venf res" where
  "MonitorAction h rx msg old_cb st s =
     res_bind (vmm_at h s) (\<lambda>v.
       let m = vmms (layer s) v in
       if \<not> v_monitored m then Inr s
       else if st = RPC_TIMEDOUT then
         let killable = Killable h s in
         res_bind (if killable then VmmKill h s else Inr s) (\<lambda>s1.
           vmm_down h VMM_TIMEDOUT killable True (set_cell old_cb None s1))
       else if (ucast (msgs (layer s) msg) :: u64) < v_count m then Inr s
       else if st \<noteq> RPC_SUCCESS then Inl Check_failed
       else
         let s1 = set_cell old_cb None (ObserveUp h s) in
         res_bind (GetRXBytes h s1) (\<lambda>new_rx.
           if poll_expired (vmms (layer s1) v) s1 \<or> new_rx = rx
           then Inr (send_probe h v new_rx s1)
           else Inr (schedule (After (fst (vmm_check (layer s1))) (snd (vmm_check (layer s1))))
                      (CbLayer (CbMonitorAction h new_rx msg old_cb)) s1)))"

definition VmmStartMonitoring :: "str \<Rightarrow> venf \<Rightarrow> venf res" where
  "VmmStartMonitoring h s =
     res_bind (vmm_at h s) (\<lambda>v.
       let m = vmms (layer s) v;
           s1 = set_vmm v (m\<lparr>v_monitored := True\<rparr>) s;
           (msg, s2) = new_msg (ucast (v_count m)) s1;
           (cb, s3) = new_cell s2
       in res_bind (GetRXBytes h s3) (\<lambda>rx. MonitorAction h rx msg cb RPC_SUCCESS s3))"

text \<open>
  The pointer of a cell is to a call, of which the model keeps the id and the argument; \<open>xmit\<close> puts
  the probe of that call on the wire again.
\<close>

definition Retry :: "vref \<Rightarrow> cell \<Rightarrow> nat \<Rightarrow> venf \<Rightarrow> venf" where
  "Retry v cb retries s =
     (let m = vmms (layer s) v in
      case cells (layer s) cb of
        None \<Rightarrow> s
      | Some (call, arg) \<Rightarrow>
          if v_monitored m \<and> retries < kVMMRetry then
            schedule (After (fst (vmm_resp (layer s))) (snd (vmm_resp (layer s))))
              (CbLayer (CbRetry v cb (Suc retries)))
              (vupd (\<lambda>l. l\<lparr>probes := probes l @ [(v_ipaddr m, arg)]\<rparr>) s)
          else s)"

section \<open>The observers\<close>

datatype obs_call =
    VMM_OBS_NULL
  | VMM_OBS_REGISTER str u32
  | VMM_OBS_CANCEL str
  | VMM_OBS_PROBE u32

text \<open>
  util.h declares \<open>get_port_from_ip\<close> with result \<open>bool\<close> and util.cc defines it with result \<open>int\<close>:
  the caller sees the low byte of the result.
\<close>

definition as_bool_result :: "int \<Rightarrow> int" where
  "as_bool_result p = p mod 256"

definition port_of :: "u32 \<Rightarrow> venf \<Rightarrow> int option res" where
  "port_of ip s = get_port_from_ip (arp_table (layer s)) (br_table (fdb (layer s)))
     (length (fdb (layer s)) + 2) ip"

definition obs_register :: "str \<Rightarrow> u32 \<Rightarrow> int \<Rightarrow> venf \<Rightarrow> venf" where
  "obs_register h ip port s =
     (let l = layer s; v = next_vref l;
          new_vmm = \<lparr>v_handle = h, v_vlan_id = get_vlan_from_port port, v_ipaddr = ip,
            v_switch_port = word_of_int port, v_monitored = False, v_last_query = clock l, v_count = 0\<rparr>;
          vm1 = (case monitored_vmms l h of
                   Some (Some old) \<Rightarrow> (vmms l)(old := (vmms l old)\<lparr>v_monitored := False\<rparr>)
                 | _ \<Rightarrow> vmms l)
      in obs_emit (ObsReplyGen (GetGeneration h s))
           (vupd (\<lambda>l. l\<lparr>vmms := vm1(v := new_vmm), next_vref := Suc v,
              monitored_vmms := (monitored_vmms l)(h := Some (Some v))\<rparr>) s))"

text \<open>
  \<open>ObserverDispatch\<close>.  Looking a handle up with \<open>operator[]\<close> in the cancel case leaves a null entry
  behind, and that case falls through into the next one.
\<close>

fun VmmObserverDispatch :: "obs_call \<Rightarrow> venf \<Rightarrow> venf res" where
  "VmmObserverDispatch VMM_OBS_NULL s = Inr (obs_emit ObsReplyVoid s)"
| "VmmObserverDispatch (VMM_OBS_REGISTER h ip) s =
     (let s1 = (if check_sanity h ip then s else obs_emit ObsIgnore s) in
      res_bind (port_of ip s1) (\<lambda>p.
        case p of None \<Rightarrow> Inl Spin
        | Some port \<Rightarrow> Inr (obs_register h ip (as_bool_result port) s1)))"
| "VmmObserverDispatch (VMM_OBS_CANCEL h) s =
     (case monitored_vmms (layer s) h of
        Some (Some v) \<Rightarrow>
          res_bind (VmmStopMonitoring h s) (\<lambda>s1.
          res_bind (vmm_down h VMM_CANCELED False False s1) (\<lambda>s2.
            Inr (obs_emit ObsIgnore s2)))
      | _ \<Rightarrow>
          Inr (obs_emit ObsIgnore (obs_emit ObsIgnore
            (vupd (\<lambda>l. l\<lparr>monitored_vmms := (monitored_vmms l)(h := Some None)\<rparr>) s))))"
| "VmmObserverDispatch (VMM_OBS_PROBE c) s = Inr (obs_emit ObsIgnore s)"

text \<open>The answer of a machine to a probe (falcon/os_enforcer/vmm_observer.cc).\<close>

fun ObserverReply :: "obs_call \<Rightarrow> u32 option" where
  "ObserverReply (VMM_OBS_PROBE c) = Some (c + 1)"
| "ObserverReply _ = None"

section \<open>The whole enforcer\<close>

definition vmm_ops :: "(vmm_layer, vmm_cb) layer_ops" where
  "vmm_ops = \<lparr>StartMonitoring = VmmStartMonitoring, StopMonitoring = VmmStopMonitoring,
     InvalidTarget = VmmInvalidTarget, KillTarget = VmmKill,
     UpdateGenerations = VmmUpdateGenerations\<rparr>"

fun run_vmm :: "vmm_cb \<Rightarrow> clnt_stat \<Rightarrow> venf \<Rightarrow> venf res" where
  "run_vmm (CbMonitorAction h rx msg cb) st s = MonitorAction h rx msg cb st s"
| "run_vmm (CbRetry v cb n) st s = Inr (Retry v cb n s)"

text \<open>
  The other events: a call of an observer, the reply to a probe (which the RPC library writes into
  the message of the call before its callback runs), and a change of the environment.
\<close>

datatype vmm_input =
    VObs obs_call
  | VReply mref u32
  | VTables string string "fdb_entry list" "str \<Rightarrow> bool"
  | VClock int
  | VEnv bool sync_result bool

fun vmm_ext :: "vmm_input \<Rightarrow> venf \<Rightarrow> venf res" where
  "vmm_ext (VObs c) s = VmmObserverDispatch c s"
| "vmm_ext (VReply m c) s = Inr (vupd (\<lambda>l. l\<lparr>msgs := (msgs l)(m := c)\<rparr>) s)"
| "vmm_ext (VTables nd at t pf) s =
     Inr (vupd (\<lambda>l. l\<lparr>net_dev := nd, arp_table := at, fdb := t, port_file_ok := pf\<rparr>) s)"
| "vmm_ext (VClock t) s = Inr (vupd (\<lambda>l. l\<lparr>clock := t\<rparr>) s)"
| "vmm_ext (VEnv w y k) s = Inr (s\<lparr>log_write_ok := w, log_sync := y, sock_ok := k\<rparr>)"

text \<open>
  The times of \<open>Init\<close>: the products are 32-bit, the quotient and remainder by a long are not.
\<close>

definition us_to_timer :: "u32 \<Rightarrow> int \<times> int" where
  "us_to_timer us = (let ns = uint (us * 1000) in (ns div 1000000000, ns mod 1000000000))"

definition poll_period_of :: "int \<Rightarrow> int option" where
  "poll_period_of ms = (if ms < 0 then None else Some (ms * 1000000))"

definition vmm_start :: "u32 \<Rightarrow> u32 \<Rightarrow> u32 \<Rightarrow> int \<Rightarrow> string \<Rightarrow> venf" where
  "vmm_start retry check_us resp_us poll_ms log =
     InitGenerations
     \<lparr>gen_vec = [], generations = (\<lambda>_. 0), gen_log = log,
      log_discards = False, log_write_ok = True, log_sync = Sync_ok, sock_ok = True,
      heap = (\<lambda>_. \<lparr>fc_id = [], fc_up_intervals = [], fc_tag = 0\<rparr>), next_ref = 0,
      all_clients = [], waiting_for_up = (\<lambda>_. []), target_clients = (\<lambda>_. []),
      deadly = (\<lambda>_. []), pending = [], next_id = 0, outbox = [],
      layer = \<lparr>vmms = (\<lambda>_. \<lparr>v_handle = [], v_vlan_id = [], v_ipaddr = 0, v_switch_port = 0,
          v_monitored = False, v_last_query = 0, v_count = 0\<rparr>), next_vref = 0,
        monitored_vmms = (\<lambda>_. None), msgs = (\<lambda>_. 0), next_mref = 0, cells = (\<lambda>_. None),
        next_cell = 0, probes = [], ports_off = [], obs_outbox = [], max_vmm_retry = retry,
        vmm_check = us_to_timer check_us, vmm_resp = us_to_timer resp_us,
        vmm_to = us_to_timer (resp_us * (retry + 1)), max_poll_period = poll_period_of poll_ms,
        net_dev = [], arp_table = [], fdb = [], port_file_ok = (\<lambda>_. True), clock = 0\<rparr>\<rparr>"

definition vmm_init :: "venf \<Rightarrow> bool" where
  "vmm_init s \<longleftrightarrow> (\<exists>r c p m log. s = vmm_start r c p m log)"

abbreviation vmm_reachable :: "venf \<Rightarrow> bool" where
  "vmm_reachable \<equiv> reachable vmm_ops run_vmm (\<lambda>s s'. \<exists>i. vmm_ext i s = Inr s') vmm_init"

section \<open>The contract\<close>

lemma vupd_frame [simp]:
  "layer (vupd f s) = f (layer s)" "core_inv (vupd f s) = core_inv s"
  "target_clients (vupd f s) = target_clients s" "pending (vupd f s) = pending s"
  "outbox (vupd f s) = outbox s" "generations (vupd f s) = generations s"
  "next_id (vupd f s) = next_id s" "deadly (vupd f s) = deadly s"
  "gen_vec (vupd f s) = gen_vec s" "heap (vupd f s) = heap s"
  by (simp_all add: vupd_def)

lemma same_core_vupd: "same_core s (vupd f s)"
  unfolding vupd_def same_core_def by (simp, rule exI [of _ "\<lambda>_. True"], simp)

lemma VmmStop_core: "VmmStopMonitoring h s = Inr s' \<Longrightarrow> same_core s s'"
  by (auto simp: VmmStopMonitoring_def Let_def set_vmm_def same_core_vupd same_core_refl)

interpretation ve_stop: stopper VmmStopMonitoring
  by unfold_locales (rule VmmStop_core)

lemma core_inv_vmm_upd [simp]:
  "core_inv (set_vmm v m s) = core_inv s" "core_inv (set_cell c x s) = core_inv s"
  "core_inv (obs_emit y s) = core_inv s"
  by (simp_all add: set_vmm_def set_cell_def obs_emit_def)

lemma new_msg_inv: "new_msg c s = (r, s') \<Longrightarrow> core_inv s \<Longrightarrow> core_inv s'"
  by (auto simp: new_msg_def)

lemma new_cell_inv: "new_cell s = (r, s') \<Longrightarrow> core_inv s \<Longrightarrow> core_inv s'"
  by (auto simp: new_cell_def)

lemma core_inv_schedule_cb [simp]: "core_inv s \<Longrightarrow> core_inv (schedule d (CbLayer c) s)"
  by (rule core_inv_schedule) simp_all

lemma send_probe_inv: "core_inv s \<Longrightarrow> core_inv (send_probe h v rx s)"
  by (simp add: send_probe_def Let_def new_msg_def new_cell_def)

lemma stop_port_inv: "stop_port p s = Inr s' \<Longrightarrow> core_inv s \<Longrightarrow> core_inv s'"
  by (auto simp: stop_port_def split: if_splits)

lemma VmmKill_inv: "VmmKill h s = Inr s' \<Longrightarrow> core_inv s \<Longrightarrow> core_inv s'"
  by (auto simp: VmmKill_def dest!: stop_port_inv)

lemma MonitorAction_inv: "MonitorAction h rx m c st s = Inr s' \<Longrightarrow> core_inv s \<Longrightarrow> core_inv s'"
  by (auto simp: MonitorAction_def Let_def ObserveUp_inv send_probe_inv split: if_splits
      dest!: VmmKill_inv ve_stop.ObserveDown_inv)

lemma VmmStart_inv: "VmmStartMonitoring h s = Inr s' \<Longrightarrow> core_inv s \<Longrightarrow> core_inv s'"
  by (auto simp: VmmStartMonitoring_def Let_def new_msg_def new_cell_def dest!: MonitorAction_inv)

lemma Retry_inv: "core_inv s \<Longrightarrow> core_inv (Retry v c n s)"
  by (simp add: Retry_def Let_def split: option.splits)

lemma VmmObserver_inv: "VmmObserverDispatch c s = Inr s' \<Longrightarrow> core_inv s \<Longrightarrow> core_inv s'"
  by (cases c)
    (auto simp: Let_def obs_register_def check_sanity_def split: option.splits
      dest!: ve_stop.stop_inv ve_stop.ObserveDown_inv)

lemma vmm_ext_inv: "vmm_ext i s = Inr s' \<Longrightarrow> core_inv s \<Longrightarrow> core_inv s'"
  by (cases i) (auto dest!: VmmObserver_inv)

interpretation ve: layer_contract vmm_ops run_vmm
proof unfold_locales
  fix c st and s s' :: venf
  show "core_inv s \<Longrightarrow> run_vmm c st s = Inr s' \<Longrightarrow> core_inv s'"
    by (cases c) (auto simp: Retry_inv dest!: MonitorAction_inv)
qed (auto simp: vmm_ops_def VmmUpdateGenerations_def intro: VmmStop_core VmmStart_inv VmmKill_inv)

section \<open>What switches ports off\<close>

interpretation vp: layer_view vmm_ops ports_off
  by unfold_locales
    (auto simp: vmm_ops_def VmmUpdateGenerations_def VmmStopMonitoring_def Let_def set_vmm_def
      vmm_at_def split: option.splits)

lemma new_objects_frame [simp]:
  "ports_off (layer (snd (new_msg c s))) = ports_off (layer s)"
  "ports_off (layer (snd (new_cell s))) = ports_off (layer s)"
  by (simp_all add: new_msg_def new_cell_def)

lemma send_probe_ports: "ports_off (layer (send_probe h v rx s)) = ports_off (layer s)"
  by (simp add: send_probe_def Let_def new_msg_def new_cell_def set_vmm_def set_cell_def)

lemma VmmKill_ports:
  assumes "VmmKill h s = Inr s'"
  obtains v where "monitored_vmms (layer s) h = Some (Some v)"
    and "ports_off (layer s') = ports_off (layer s) @ [port_path (sint (v_switch_port (vmms (layer s) v)))]"
  using assms
  by (auto simp: VmmKill_def vmm_at_def stop_port_def split: option.splits if_splits)

lemma MonitorAction_ports:
  assumes "MonitorAction h rx m c st s = Inr s'"
  shows "ports_off (layer s') = ports_off (layer s) \<or>
    st = RPC_TIMEDOUT \<and> Killable h s \<and> (\<exists>v. monitored_vmms (layer s) h = Some (Some v) \<and>
      v_monitored (vmms (layer s) v) \<and>
      ports_off (layer s') = ports_off (layer s) @ [port_path (sint (v_switch_port (vmms (layer s) v)))])"
proof -
  from assms obtain v where v: "monitored_vmms (layer s) h = Some (Some v)"
    by (auto simp: MonitorAction_def vmm_at_def split: option.splits)
  have down: "ports_off (layer u') = ports_off (layer u)" if "vmm_down h x k w u = Inr u'" for x k w u u'
    using vp.ObserveDown_view [of h x k w u u'] that by (simp add: vmm_ops_def)
  show ?thesis
  proof (cases "v_monitored (vmms (layer s) v) \<and> st = RPC_TIMEDOUT")
    case True
    with assms v show ?thesis
      by (auto simp: MonitorAction_def vmm_at_def Let_def set_cell_def split: if_splits
          dest!: down elim!: VmmKill_ports)
  next
    case False
    with assms v show ?thesis
      by (auto simp: MonitorAction_def vmm_at_def Let_def set_cell_def send_probe_ports frame
          split: if_splits)
  qed
qed

lemma VmmStart_ports: "VmmStartMonitoring h s = Inr s' \<Longrightarrow> ports_off (layer s') = ports_off (layer s)"
  by (auto simp: VmmStartMonitoring_def Let_def new_msg_def new_cell_def set_vmm_def
      dest!: MonitorAction_ports)

lemma VmmObserver_ports: "VmmObserverDispatch c s = Inr s' \<Longrightarrow> ports_off (layer s') = ports_off (layer s)"
  using vp.ObserveDown_view vp.stop_view
  by (cases c)
    (auto simp: Let_def obs_register_def check_sanity_def obs_emit_def vmm_ops_def split: option.splits)

end
