(* ===== verification/VmmProps.thy ===== *)
theory VmmProps
  imports VmmEnforcer EnforcerProps
begin

text \<open>
  The properties of the router's enforcer: its timers, the freshness of probes, what a time-out
  does, and what it takes to cut a machine off.
\<close>

section \<open>A concrete state and runs\<close>

text \<open>
  A machine ''vm'' on port 3, monitored, with one client that may kill it and waits for its signs of
  life; its fifth probe is open.
\<close>

definition vdemo_layer :: vmm_layer where
  "vdemo_layer = \<lparr>vmms = (\<lambda>_. \<lparr>v_handle = ''vm'', v_vlan_id = ''vlan5'', v_ipaddr = 9, v_switch_port = 3,
          v_monitored = True, v_last_query = 0, v_count = 5\<rparr>), next_vref = 1,
        monitored_vmms = (\<lambda>_. None)(''vm'' := Some (Some 0)), msgs = (\<lambda>_. 0), next_mref = 1,
        cells = (\<lambda>_. Some (0, 4)), next_cell = 1, probes = [], ports_off = [], obs_outbox = [],
        max_vmm_retry = 5, vmm_check = (0, 20000000), vmm_resp = (0, 20000000), vmm_to = (0, 120000000),
        max_poll_period = Some 6000000000, net_dev = [], arp_table = [], fdb = [],
        port_file_ok = (\<lambda>_. True), clock = 0\<rparr>"

definition vdemo :: venf where
  "vdemo = \<lparr>gen_vec = [], generations = (\<lambda>_. 0), gen_log = [], log_discards = False,
     log_write_ok = True, log_sync = Sync_ok, sock_ok = True,
     heap = (\<lambda>_. \<lparr>fc_id = ''c'', fc_up_intervals = [(''vm'', 0)], fc_tag = 9\<rparr>), next_ref = 1,
     all_clients = [(''c'', 0)], waiting_for_up = (\<lambda>_. [])(''vm'' := [(''c'', 0)]),
     target_clients = (\<lambda>_. [])(''vm'' := [(''c'', 0)]),
     deadly = (\<lambda>_. [])(''vm'' := [(''c'', 0)]),
     pending = [Event 0 (OnReplyWithin 0 120000000) (CbLayer (CbMonitorAction ''vm'' 0 0 0))],
     next_id = 1, outbox = [], layer = vdemo_layer\<rparr>"

lemmas vmm_simps =
  vdemo_def vdemo_layer_def MonitorAction_def VmmKill_def vmm_at_def stop_port_def set_vmm_def
  set_cell_def vupd_def Let_def ObserveDown_def ve_stop.observe_down_client_eq
  IncrementGeneration_def VmmStopMonitoring_def Killable_def schedule_def emit_def timecb_remove_def
  fire_def

section \<open>Timers\<close>

text \<open>
  A configured time in microseconds becomes seconds and nanoseconds in range that add up to it
  as long as it is below 4.294968 seconds; above, the 32-bit product wraps around and the timer is
  what is left of it.
\<close>

theorem us_to_timer_exact:
  "0 \<le> snd (us_to_timer us) \<and> snd (us_to_timer us) < 10 ^ 9 \<and> 0 \<le> fst (us_to_timer us) \<and>
   fst (us_to_timer us) * 10 ^ 9 + snd (us_to_timer us) = uint us * 1000 mod 2 ^ 32 \<and>
   (fst (us_to_timer us) * 10 ^ 9 + snd (us_to_timer us) = uint us * 1000 \<longleftrightarrow> uint us < 4294968)"
proof -
  let ?n = "uint (us * 1000)"
  have n: "?n = uint us * 1000 mod 2 ^ 32" by (simp add: uint_word_ariths)
  have sum: "fst (us_to_timer us) * 10 ^ 9 + snd (us_to_timer us) = ?n"
    by (simp add: us_to_timer_def Let_def)
  have "?n = uint us * 1000 \<longleftrightarrow> uint us < 4294968"
  proof
    assume "?n = uint us * 1000"
    moreover have "?n < 2 ^ 32" unfolding n by simp
    ultimately show "uint us < 4294968" by simp
  next
    assume "uint us < 4294968"
    then show "?n = uint us * 1000" unfolding n by (intro mod_pos_pos_trivial) auto
  qed
  moreover have "0 \<le> ?n" by simp
  ultimately show ?thesis using sum n by (auto simp: us_to_timer_def Let_def)
qed

section \<open>Probes\<close>

lemma send_probe_frame:
  "v_count (vmms (layer (send_probe h v rx s)) v) = v_count (vmms (layer s) v) + 1"
  "probes (layer (send_probe h v rx s)) =
     probes (layer s) @ [(v_ipaddr (vmms (layer s) v), ucast (v_count (vmms (layer s) v)))]"
  by (simp_all add: send_probe_def Let_def new_msg_def new_cell_def set_vmm_def set_cell_def)

lemma unat_reply: "unat (ucast (ucast (d :: u64) + 1 :: u32) :: u64) = (unat d mod 2 ^ 32 + 1) mod 2 ^ 32"
proof -
  have "unat (ucast (w :: u32) :: u64) = unat w" for w
  proof -
    have "unat w < 2 ^ 32" using unsigned_less [of w] by simp
    then show ?thesis by (simp add: unsigned_ucast_eq take_bit_eq_mod)
  qed
  moreover have "unat (ucast d :: u32) = unat d mod 2 ^ 32"
    by (simp add: unsigned_ucast_eq take_bit_eq_mod)
  ultimately show ?thesis by (simp add: unat_word_ariths(1))
qed

text \<open>
  Freshness of probes.  The probe that is sent carries the count of the machine.  The answer of
  an observer to it counts as a sign of life and the answer to any earlier probe does not, until the
  64-bit count of the machine reaches 2^32: from then on no answer counts any more.
\<close>

theorem probe_freshness:
  assumes "d \<le> v_count (vmms (layer s) v)"
    and "ObserverReply (VMM_OBS_PROBE (ucast d)) = Some r"
    and "unat (v_count (vmms (layer s) v)) + 1 < 2 ^ 64"
  shows "snd (last (probes (layer (send_probe h v rx s)))) = ucast (v_count (vmms (layer s) v)) \<and>
    (unat (v_count (vmms (layer s) v)) + 1 < 2 ^ 32 \<longrightarrow>
      ((ucast r :: u64) < v_count (vmms (layer (send_probe h v rx s)) v) \<longleftrightarrow>
       d < v_count (vmms (layer s) v))) \<and>
    (2 ^ 32 \<le> unat (v_count (vmms (layer s) v)) + 1 \<longrightarrow>
      (ucast r :: u64) < v_count (vmms (layer (send_probe h v rx s)) v))"
proof -
  let ?c = "v_count (vmms (layer s) v)"
  have r: "unat (ucast r :: u64) = (unat d mod 2 ^ 32 + 1) mod 2 ^ 32"
    using assms(2) unat_reply [of d] by auto
  have c: "unat (?c + 1) = unat ?c + 1"
    using assms(3) by (simp add: unat_word_ariths(1))
  have d: "unat d \<le> unat ?c" using assms(1) by (simp add: word_le_nat_alt)
  have "(ucast r :: u64) < ?c + 1 \<longleftrightarrow> d < ?c" if "unat ?c + 1 < 2 ^ 32"
  proof -
    have "unat (ucast r :: u64) = unat d + 1" unfolding r using that d by simp
    then show ?thesis by (simp add: word_less_nat_alt c)
  qed
  moreover have "(ucast r :: u64) < ?c + 1" if "2 ^ 32 \<le> unat ?c + 1"
  proof -
    have "unat (ucast r :: u64) < 2 ^ 32" unfolding r by simp
    with that show ?thesis by (simp add: word_less_nat_alt c)
  qed
  ultimately show ?thesis by (simp add: send_probe_frame)
qed

theorem probe_freshness_witness:
  "\<not> (ucast (6 :: u32) :: u64) < v_count (vmms (layer (send_probe ''vm'' 0 0 vdemo)) 0) \<and>
   (ucast (5 :: u32) :: u64) < v_count (vmms (layer (send_probe ''vm'' 0 0 vdemo)) 0)"
proof -
  have c: "v_count (vmms (layer vdemo) 0) = 5" by (simp add: vdemo_def vdemo_layer_def)
  have "ObserverReply (VMM_OBS_PROBE (ucast (5 :: u64))) = Some 6"
    and "ObserverReply (VMM_OBS_PROBE (ucast (4 :: u64))) = Some 5" by simp_all
  from probe_freshness [OF _ this(1), of vdemo 0 "''vm''" 0] probe_freshness [OF _ this(2), of vdemo 0 "''vm''" 0]
  show ?thesis by (simp add: c)
qed

text \<open>The retries of a probe whose call stays open, as the timer runs \<open>k\<close> times.\<close>

fun retry_chain :: "nat \<Rightarrow> vref \<Rightarrow> cell \<Rightarrow> nat \<Rightarrow> venf \<Rightarrow> venf" where
  "retry_chain 0 v cb n s = s"
| "retry_chain (Suc k) v cb n s = retry_chain k v cb (Suc n) (Retry v cb n s)"

lemma Retry_frame:
  "vmms (layer (Retry v cb n s)) = vmms (layer s)" "cells (layer (Retry v cb n s)) = cells (layer s)"
  by (simp_all add: Retry_def Let_def split: option.splits)

lemma retry_chain_probes:
  assumes "cells (layer s) cb = Some (call, arg)" and "v_monitored (vmms (layer s) v)"
  shows "probes (layer (retry_chain k v cb n s)) =
    probes (layer s) @ replicate (min k (kVMMRetry - n)) (v_ipaddr (vmms (layer s) v), arg)"
  using assms
proof (induction k arbitrary: n s)
  case 0
  then show ?case by simp
next
  case (Suc k)
  have "probes (layer (retry_chain (Suc k) v cb n s)) =
      probes (layer (Retry v cb n s)) @
        replicate (min k (kVMMRetry - Suc n)) (v_ipaddr (vmms (layer s) v), arg)"
    using Suc.IH [of "Retry v cb n s" "Suc n"] Suc.prems by (simp add: Retry_frame)
  also have "\<dots> = probes (layer s) @ replicate (min (Suc k) (kVMMRetry - n)) (v_ipaddr (vmms (layer s) v), arg)"
  proof (cases "n < kVMMRetry")
    case True
    then have "min (Suc k) (kVMMRetry - n) = Suc (min k (kVMMRetry - Suc n))" by (simp add: Suc_diff_Suc)
    with True Suc.prems show ?thesis by (simp add: Retry_def Let_def)
  next
    case False
    with Suc.prems show ?thesis by (simp add: Retry_def Let_def)
  qed
  finally show ?case .
qed

text \<open>
  A probe whose call stays open is retransmitted at most five times, with the same count and to
  the same machine, however often its timer runs, and whatever number of retries is configured.
\<close>

theorem retransmissions_bounded:
  assumes "cells (layer s) cb = Some (call, arg)" and "v_monitored (vmms (layer s) v)"
  shows "probes (layer (retry_chain k v cb 0 s)) =
    probes (layer s) @ replicate (min k 5) (v_ipaddr (vmms (layer s) v), arg)"
  using retry_chain_probes [OF assms, of k 0] by (simp add: kVMMRetry_def)

theorem retransmissions_bounded_witness:
  "probes (layer (retry_chain 100 0 0 0 vdemo)) = replicate 5 (9, 4)"
proof -
  have "cells (layer vdemo) 0 = Some (0, 4)" and "v_monitored (vmms (layer vdemo) 0)"
    by (simp_all add: vdemo_def vdemo_layer_def)
  from retransmissions_bounded [OF this, of 100] show ?thesis by (simp add: vdemo_def vdemo_layer_def)
qed

section \<open>Time-outs\<close>

text \<open>
  A monitored machine whose probe timed out is declared down: its clients get one report each,
  which says killed exactly when one of them had given the licence, and in that case, and only then,
  the port of the machine has been switched off; the machine is not monitored any more, the next
  generation begins, and the retries of the probe are over.
\<close>

theorem timeout_declares_down:
  assumes "MonitorAction h rx msg cb RPC_TIMEDOUT s = Inr s'"
    and "monitored_vmms (layer s) h = Some (Some v)" and "v_monitored (vmms (layer s) v)"
  shows "ports_off (layer s') = ports_off (layer s) @
      (if Killable h s then [port_path (sint (v_switch_port (vmms (layer s) v)))] else []) \<and>
    outbox s' = outbox s @ map (\<lambda>(i, r). OutDown r
      \<lparr>dn_handle = h, dn_generation = gen_vec s @ [generations s h], dn_layer_status = VMM_TIMEDOUT,
       dn_killed = Killable h s, dn_would_kill = True, dn_tag = fc_tag (heap s r)\<rparr>) (target_clients s h) \<and>
    generations s' h = generations s h + 1 \<and> target_clients s' h = [] \<and>
    \<not> v_monitored (vmms (layer s') v) \<and> cells (layer s') cb = None"
proof -
  from assms obtain s1 where s1: "(if Killable h s then VmmKill h s else Inr s) = Inr s1"
    and s': "vmm_down h VMM_TIMEDOUT (Killable h s) True (set_cell cb None s1) = Inr s'"
    by (auto simp: MonitorAction_def vmm_at_def Let_def)
  define u where "u = set_cell cb None s1"
  have u: "ports_off (layer u) = ports_off (layer s) @
      (if Killable h s then [port_path (sint (v_switch_port (vmms (layer s) v)))] else [])"
    "outbox u = outbox s" "gen_vec u = gen_vec s" "generations u = generations s" "heap u = heap s"
    "target_clients u = target_clients s" "vmms (layer u) = vmms (layer s)"
    "monitored_vmms (layer u) = monitored_vmms (layer s)" "cells (layer u) cb = None"
    using s1 assms(2)
    by (auto simp: u_def set_cell_def VmmKill_def vmm_at_def stop_port_def split: if_splits)
  note down = ObserveDown_effect [OF ve_stop.stopper_axioms s' [folded u_def]]
  from ObserveDown_stop [OF ve_stop.stopper_axioms s' [folded u_def]] obtain w where
    w: "layer w = layer u" "VmmStopMonitoring h w = Inr s'" by blast
  then have "ports_off (layer s') = ports_off (layer u) \<and> \<not> v_monitored (vmms (layer s') v) \<and>
      cells (layer s') cb = None"
    using assms(2) u by (auto simp: VmmStopMonitoring_def vmm_at_def Let_def set_vmm_def split: if_splits)
  with down u show ?thesis by (simp add: down_arg_def target_gen_def)
qed

theorem timeout_declares_down_witness:
  "\<exists>s'. MonitorAction ''vm'' 0 0 0 RPC_TIMEDOUT vdemo = Inr s' \<and>
     ports_off (layer s') = [port_path 3] \<and> generations s' ''vm'' = 1"
proof -
  obtain s' where s': "MonitorAction ''vm'' 0 0 0 RPC_TIMEDOUT vdemo = Inr s'"
    by (simp add: vmm_simps)
  have "monitored_vmms (layer vdemo) ''vm'' = Some (Some 0)" "v_monitored (vmms (layer vdemo) 0)"
    by (simp_all add: vdemo_def vdemo_layer_def)
  from timeout_declares_down [OF s' this] s' show ?thesis
    by (simp add: vdemo_def vdemo_layer_def Killable_def)
qed

section \<open>Cutting a machine off\<close>

text \<open>
  C22. A step of the router's enforcer switches at most one port off, that of a registered machine,
  and does so for one of two reasons only: a kill request that names the current generation of that
  machine, or the time-out of a probe of a monitored machine for which a licence to kill is held.
\<close>

theorem no_port_off_without_reason:
  assumes "enf_step vmm_ops run_vmm vmm_ext x s = Inr s'"
  shows "ports_off (layer s') = ports_off (layer s) \<or>
    (\<exists>h v. monitored_vmms (layer s) h = Some (Some v) \<and>
       ports_off (layer s') = ports_off (layer s) @ [port_path (sint (v_switch_port (vmms (layer s) v)))] \<and>
       (x = InRpc (SPY_KILL \<lparr>tg_handle = h, tg_generation = gen_vec s @ [generations s h]\<rparr>) \<or>
        (\<exists>i. x = InFire i RPC_TIMEDOUT) \<and> v_monitored (vmms (layer s) v) \<and> deadly s h \<noteq> []))"
proof (cases x)
  case (InRpc c)
  have upd: "GenCheck vmm_ops t q s = Inr (FALCON_SUCCESS, u) \<Longrightarrow> u = s \<and> q = target_gen t s" for t q u
    using GenCheck_cases(2) [of vmm_ops t q s FALCON_SUCCESS u]
    by (auto simp: GenCheck_def vmm_ops_def VmmUpdateGenerations_def Let_def split: if_splits)
  from InRpc assms have "Dispatch vmm_ops c s = Inr s'" by simp
  from vp.Dispatch_view [OF this] show ?thesis
  proof (elim disjE exE conjE)
    fix arg u u'
    assume "c = SPY_REGISTER arg" "ports_off (layer u) = ports_off (layer s)"
      "StartMonitoring vmm_ops (tg_handle (ra_target arg)) u = Inr u'" "layer s' = layer u'"
    then show ?thesis using VmmStart_ports [of "tg_handle (ra_target arg)" u u'] by (simp add: vmm_ops_def)
  next
    fix arg u u'
    assume k: "c = SPY_KILL arg"
      "GenCheck vmm_ops (tg_handle arg) (tg_generation arg) s = Inr (FALCON_SUCCESS, u)"
      "KillTarget vmm_ops (tg_handle arg) u = Inr u'" "layer s' = layer u'"
    from k(3) have "VmmKill (tg_handle arg) u = Inr u'" by (simp add: vmm_ops_def)
    then obtain v where v: "monitored_vmms (layer u) (tg_handle arg) = Some (Some v)"
      "ports_off (layer u') = ports_off (layer u) @ [port_path (sint (v_switch_port (vmms (layer u) v)))]"
      by (rule VmmKill_ports)
    have "arg = \<lparr>tg_handle = tg_handle arg, tg_generation = tg_generation arg\<rparr>" by simp
    with upd [OF k(2)] have "x = InRpc (SPY_KILL \<lparr>tg_handle = tg_handle arg,
        tg_generation = gen_vec s @ [generations s (tg_handle arg)]\<rparr>)"
      using InRpc k(1) by (simp add: target_gen_def)
    with v k(4) upd [OF k(2)] show ?thesis by auto
  qed simp
next
  case (InFire i st)
  show ?thesis
  proof (cases "find (\<lambda>e. ev_id e = i) (pending s)")
    case None
    with assms InFire show ?thesis by simp
  next
    case (Some e)
    let ?s = "timecb_remove (ev_id e) s"
    have fr: "layer ?s = layer s" "deadly ?s = deadly s" by (simp_all add: timecb_remove_def)
    from assms InFire Some have run: "run_callback vmm_ops run_vmm st (ev_cb e) ?s = Inr s'"
      by (simp add: fire_def)
    show ?thesis
    proof (cases "ev_cb e")
      case (CbLayer c)
      show ?thesis
      proof (cases c)
        case (CbMonitorAction h rx m cb)
        with run CbLayer have "MonitorAction h rx m cb st ?s = Inr s'" by simp
        from MonitorAction_ports [OF this] InFire fr show ?thesis by (auto simp: Killable_def)
      next
        case (CbRetry v cb n)
        with run CbLayer fr show ?thesis by (auto simp: Retry_def Let_def split: option.splits if_splits)
      qed
    qed (use run fr vp.callback_view [of run_vmm st "ev_cb e" ?s s'] in auto)
  qed
next
  case (InLayer i)
  with assms show ?thesis by (cases i) (auto dest: VmmObserver_ports)
qed

theorem no_port_off_without_reason_witness:
  "\<exists>s'. enf_step vmm_ops run_vmm vmm_ext (InFire 0 RPC_TIMEDOUT) vdemo = Inr s' \<and>
     ports_off (layer s') = [port_path 3] \<and> deadly vdemo ''vm'' \<noteq> []"
proof -
  obtain s' where s': "enf_step vmm_ops run_vmm vmm_ext (InFire 0 RPC_TIMEDOUT) vdemo = Inr s'"
    "ports_off (layer s') = [port_path 3]"
    by (simp add: vmm_simps vmm_ops_def)
  from no_port_off_without_reason [OF s'(1)] s'(2) have "deadly vdemo ''vm'' \<noteq> []"
    by (auto simp: vdemo_def vdemo_layer_def split: if_splits)
  with s' show ?thesis by blast
qed

section \<open>Two defects, as runs\<close>

text \<open>
  A machine that registers again while clients are registered for it gets a new, unmonitored entry:
  nobody watches it any more, and its clients are not told.
\<close>

lemma reregistration_unwatches:
  "\<exists>s' v. vmm_ext (VObs (VMM_OBS_REGISTER ''vm'' 0)) vdemo = Inr s' \<and> target_clients s' ''vm'' \<noteq> [] \<and>
     outbox s' = [] \<and> monitored_vmms (layer s') ''vm'' = Some (Some v) \<and>
     \<not> v_monitored (vmms (layer s') v)"
proof -
  have "port_of 0 vdemo = Inr (Some (-1))"
    by (simp add: port_of_def get_port_from_ip_def get_mac_from_ip_def vdemo_def vdemo_layer_def
        file_lines.simps fgets_def LINE_BUF_SIZE_def eval_nat_numeral)
  then show ?thesis
    by (simp add: check_sanity_def obs_register_def obs_emit_def vupd_def Let_def vdemo_def vdemo_layer_def)
qed

text \<open>
  A cancellation by a machine that is not registered leaves a null entry behind; the target counts
  as valid from then on, and the next registration of a client for it ends the enforcer.
\<close>

lemma cancel_then_register_crashes:
  "enf_run vmm_ops run_vmm vmm_ext
     [InLayer (VObs (VMM_OBS_CANCEL ''x'')),
      InRpc (SPY_REGISTER \<lparr>ra_target = \<lparr>tg_handle = ''x'', tg_generation = [0]\<rparr>, ra_lethal = False,
        ra_up_interval_ms = 1000, ra_client = demo_addr\<rparr>)]
     (vmm_start 5 20000 20000 6000 []) = Inl Check_failed"
  by (simp add: enf_run_def vmm_start_def InitGenerations_def init_generations_Nil obs_emit_def
      vupd_def DispatchRegister_def GenCheck_def vmm_ops_def VmmUpdateGenerations_def
      VmmInvalidTarget_def target_gen_def Let_def GetClient_def sm_get_def DoHeartbeat_def
      schedule_def emit_def cs_count_def cs_insert_def sm_insert_def register_client_def
      RepeatWaiting_def read_interval_def set_interval_def cid_def VmmStartMonitoring_def vmm_at_def)

end
