(* ===== verification/OsEnforcer.thy ===== *)
theory OsEnforcer
  imports EnforcerContract
begin

text \<open>
  The enforcer of the operating system layer (falcon/os_enforcer/os_enforcer.cc) and its workers
  (falcon/os_enforcer/os_worker.cc).  It runs on the host of virtual machines; for every domain that
  is watched it spawns a worker, which probes the domain through libvirt and writes what it finds
  into a pipe.
\<close>

section \<open>The worker\<close>

datatype worker_state = VM_OK | VM_ERROR | VM_NEEDS_KILL | VM_KILLED | VM_DEAD

fun worker_state_code :: "worker_state \<Rightarrow> u32" where
  "worker_state_code VM_OK = 0"
| "worker_state_code VM_ERROR = 1"
| "worker_state_code VM_NEEDS_KILL = 2"
| "worker_state_code VM_KILLED = 3"
| "worker_state_code VM_DEAD = 4"

text \<open>What \<open>virDomainDoNtfaProbe\<close> returns.\<close>

datatype probe_result = NTFA_ALIVE | NTFA_INACTIVE | NTFA_DEAD | NTFA_OTHER

text \<open>
  \<open>put_status\<close>: the \<open>n\<close>-th write to the pipe; when it fails the worker exits.  A run of the worker
  is what it has written and, once it has ended, whether it ended with success.
\<close>

type_synonym worker_run = "worker_state list \<times> bool option"

definition put_status :: "(nat \<Rightarrow> bool) \<Rightarrow> nat \<Rightarrow> worker_state \<Rightarrow> worker_run \<Rightarrow> worker_run" where
  "put_status pipe n st k = (if pipe n then (st # fst k, snd k) else ([], Some True))"

text \<open>
  \<open>while (virDomainIsActive(dom)) virDomainDestroy(dom);\<close> over the answers of libvirt: the number of
  destroy calls, \<open>None\<close> while the domain still is active.
\<close>

fun destroy_loop :: "bool list \<Rightarrow> nat option" where
  "destroy_loop [] = None"
| "destroy_loop (active # as) = (if active then map_option Suc (destroy_loop as) else Some 0)"

fun worker_loop :: "bool \<Rightarrow> (nat \<Rightarrow> bool) \<Rightarrow> bool list \<Rightarrow> nat \<Rightarrow> probe_result list \<Rightarrow> worker_run" where
  "worker_loop lethal pipe acts n [] = ([], None)"
| "worker_loop lethal pipe acts n (NTFA_ALIVE # ps) =
     put_status pipe n VM_OK (worker_loop lethal pipe acts (Suc n) ps)"
| "worker_loop lethal pipe acts n (NTFA_INACTIVE # ps) = put_status pipe n VM_DEAD ([], Some True)"
| "worker_loop lethal pipe acts n (NTFA_DEAD # ps) =
     (if lethal
      then (case destroy_loop acts of
              None \<Rightarrow> ([], None)
            | Some k \<Rightarrow> put_status pipe n VM_KILLED ([], Some True))
      else put_status pipe n VM_NEEDS_KILL ([], Some True))"
| "worker_loop lethal pipe acts n (NTFA_OTHER # ps) = put_status pipe n VM_ERROR ([], Some False)"

text \<open>\<open>main\<close> of the worker; \<open>known\<close> is whether libvirt knows the domain.\<close>

definition worker_main ::
    "nat \<Rightarrow> bool \<Rightarrow> (nat \<Rightarrow> bool) \<Rightarrow> bool list \<Rightarrow> probe_result list \<Rightarrow> worker_run" where
  "worker_main argc known pipe acts ps =
     (if \<not> known then put_status pipe 0 VM_ERROR ([], Some False)
      else worker_loop (argc = 3) pipe acts 0 ps)"

text \<open>The handler of SIGUSR1, with the answer of \<open>virDomainIsActive\<close>.\<close>

definition shutdown_notification_callback :: "bool \<Rightarrow> int \<Rightarrow> (nat \<Rightarrow> bool) \<Rightarrow> nat \<Rightarrow> worker_run" where
  "shutdown_notification_callback known ret pipe n =
     (if \<not> known then put_status pipe n VM_ERROR ([], Some False)
      else if ret = 1 then ([], None)
      else if ret = 0 then put_status pipe n VM_DEAD ([], Some True)
      else put_status pipe n VM_NEEDS_KILL ([], Some True))"

section \<open>State\<close>

text \<open>
  \<open>active_domains\<close> is whether the pointer of a handle is not null.  The answers of libvirt are the
  environment: the domains it knows, whether one is active (or libvirt fails, which counts as
  active), whether destroying it succeeds, and the generation it keeps.
\<close>

datatype os_cb = CbSetGeneration

record os_layer =
  active_domains :: "str \<Rightarrow> bool"
  worker_fds :: "nat \<Rightarrow> str option"
  next_fd :: nat
  spawned :: "(str \<times> bool) list"
  destroyed :: "str list"
  vir_known :: "str \<Rightarrow> bool"
  vir_active :: "str \<Rightarrow> bool"
  vir_destroy_ok :: "str \<Rightarrow> bool"
  vir_generation :: "str \<Rightarrow> u32"

type_synonym osenf = "(os_layer, os_cb) enforcer"

definition oupd :: "(os_layer \<Rightarrow> os_layer) \<Rightarrow> osenf \<Rightarrow> osenf" where
  "oupd f s = s\<lparr>layer := f (layer s)\<rparr>"

definition set_active :: "str \<Rightarrow> bool \<Rightarrow> osenf \<Rightarrow> osenf" where
  "set_active h b s = oupd (\<lambda>l. l\<lparr>active_domains := (active_domains l)(h := b)\<rparr>) s"

definition close_worker :: "nat \<Rightarrow> osenf \<Rightarrow> osenf" where
  "close_worker fd s = oupd (\<lambda>l. l\<lparr>worker_fds := (worker_fds l)(fd := None)\<rparr>) s"

section \<open>The virtual methods\<close>

definition OsStartMonitoring :: "str \<Rightarrow> osenf \<Rightarrow> osenf res" where
  "OsStartMonitoring h s =
     (if \<not> vir_known (layer s) h then Inl Check_failed
      else
        let fd = next_fd (layer s);
            s1 = oupd (\<lambda>l. l\<lparr>spawned := spawned l @ [(h, Killable h s)], next_fd := Suc fd,
                            worker_fds := (worker_fds l)(fd := Some h)\<rparr>) s
        in Inr (set_active h True s1))"

definition OsStopMonitoring :: "str \<Rightarrow> osenf \<Rightarrow> osenf res" where
  "OsStopMonitoring h s = Inr (set_active h False s)"

definition OsInvalidTarget :: "str \<Rightarrow> osenf \<Rightarrow> bool" where
  "OsInvalidTarget h s \<longleftrightarrow> \<not> active_domains (layer s) h \<and> \<not> vir_known (layer s) h"

abbreviation os_down :: "str \<Rightarrow> u32 \<Rightarrow> bool \<Rightarrow> bool \<Rightarrow> osenf \<Rightarrow> osenf res" where
  "os_down \<equiv> ObserveDown OsStopMonitoring"

definition OsKill :: "str \<Rightarrow> osenf \<Rightarrow> osenf res" where
  "OsKill h s =
     (if \<not> active_domains (layer s) h then Inl Check_failed
      else if vir_active (layer s) h then
        (if vir_destroy_ok (layer s) h
         then os_down h 0 True True (oupd (\<lambda>l. l\<lparr>destroyed := destroyed l @ [h]\<rparr>) s)
         else Inl Check_failed)
      else os_down h 0 True True s)"

definition OsUpdateGenerations :: "str \<Rightarrow> osenf \<Rightarrow> osenf res" where
  "OsUpdateGenerations h s =
     (if active_domains (layer s) h then Inr s
      else if \<not> vir_known (layer s) h then Inr s
      else FastForwardGeneration h (vir_generation (layer s) h) s)"

section \<open>Events\<close>

text \<open>The end of the \<open>SPY_GET_GEN\<close> call to the router.\<close>

definition SetGeneration :: "spy_res \<Rightarrow> clnt_stat \<Rightarrow> osenf \<Rightarrow> osenf res" where
  "SetGeneration r st s =
     (if st = RPC_SUCCESS then Inr (s\<lparr>gen_vec := tg_generation (sr_target r)\<rparr>) else Inl Check_failed)"

text \<open>\<open>rd\<close> is what a read of the pipe gives, \<open>None\<close> for less than a whole state.\<close>

definition HandleWorker :: "str \<Rightarrow> nat \<Rightarrow> worker_state option \<Rightarrow> osenf \<Rightarrow> osenf res" where
  "HandleWorker h fd rd s =
     (if \<not> active_domains (layer s) h then Inr (close_worker fd s)
      else
        case rd of
          None \<Rightarrow> Inl Check_failed
        | Some VM_OK \<Rightarrow> Inr (ObserveUp h s)
        | Some st \<Rightarrow>
            res_bind
              (case st of
                 VM_KILLED \<Rightarrow> os_down h (worker_state_code st) False True s
               | VM_DEAD \<Rightarrow> os_down h (worker_state_code st) False False s
               | _ \<Rightarrow> (if Killable h s then OsKill h s
                      else os_down h (worker_state_code st) False True s)) (\<lambda>s1.
            Inr (set_active h False (close_worker fd s1))))"

definition os_ops :: "(os_layer, os_cb) layer_ops" where
  "os_ops = \<lparr>StartMonitoring = OsStartMonitoring, StopMonitoring = OsStopMonitoring,
     InvalidTarget = OsInvalidTarget, KillTarget = OsKill,
     UpdateGenerations = OsUpdateGenerations\<rparr>"

text \<open>The enforcer has no timers of its own; the end of its one call is an event below.\<close>

fun run_os :: "os_cb \<Rightarrow> clnt_stat \<Rightarrow> osenf \<Rightarrow> osenf res" where
  "run_os CbSetGeneration st s = Inr s"

datatype os_input =
    OReadable nat "worker_state option"
  | OSetGeneration spy_res clnt_stat
  | OLibvirt "str \<Rightarrow> bool" "str \<Rightarrow> bool" "str \<Rightarrow> bool" "str \<Rightarrow> u32"
  | OEnv bool sync_result bool

fun os_ext :: "os_input \<Rightarrow> osenf \<Rightarrow> osenf res" where
  "os_ext (OReadable fd rd) s =
     (case worker_fds (layer s) fd of None \<Rightarrow> Inr s | Some h \<Rightarrow> HandleWorker h fd rd s)"
| "os_ext (OSetGeneration r st) s = SetGeneration r st s"
| "os_ext (OLibvirt k a d g) s =
     Inr (oupd (\<lambda>l. l\<lparr>vir_known := k, vir_active := a, vir_destroy_ok := d, vir_generation := g\<rparr>) s)"
| "os_ext (OEnv w y k) s = Inr (s\<lparr>log_write_ok := w, log_sync := y, sock_ok := k\<rparr>)"

text \<open>The log of this enforcer is /dev/null; its generations come from libvirt.\<close>

definition os_start :: osenf where
  "os_start =
     \<lparr>gen_vec = [], generations = (\<lambda>_. 0), gen_log = [],
      log_discards = True, log_write_ok = True, log_sync = Sync_EINVAL, sock_ok = True,
      heap = (\<lambda>_. \<lparr>fc_id = [], fc_up_intervals = [], fc_tag = 0\<rparr>), next_ref = 0,
      all_clients = [], waiting_for_up = (\<lambda>_. []), target_clients = (\<lambda>_. []),
      deadly = (\<lambda>_. []), pending = [], next_id = 0, outbox = [],
      layer = \<lparr>active_domains = (\<lambda>_. False), worker_fds = (\<lambda>_. None), next_fd = 3, spawned = [],
        destroyed = [], vir_known = (\<lambda>_. False), vir_active = (\<lambda>_. False),
        vir_destroy_ok = (\<lambda>_. True), vir_generation = (\<lambda>_. 0)\<rparr>\<rparr>"

abbreviation os_reachable :: "osenf \<Rightarrow> bool" where
  "os_reachable \<equiv> reachable os_ops run_os (\<lambda>s s'. \<exists>i. os_ext i s = Inr s') (\<lambda>s. s = os_start)"

section \<open>The contracts\<close>

lemma oupd_frame [simp]:
  "layer (oupd f s) = f (layer s)" "core_inv (oupd f s) = core_inv s"
  "target_clients (oupd f s) = target_clients s" "outbox (oupd f s) = outbox s"
  "generations (oupd f s) = generations s" "deadly (oupd f s) = deadly s"
  "gen_vec (oupd f s) = gen_vec s" "heap (oupd f s) = heap s"
  by (simp_all add: oupd_def)

lemma same_core_oupd: "same_core s (oupd f s)"
  unfolding oupd_def same_core_def by (simp, rule exI [of _ "\<lambda>_. True"], simp)

lemma core_inv_os_upd [simp]:
  "core_inv (set_active h b s) = core_inv s" "core_inv (close_worker fd s) = core_inv s"
  by (simp_all add: set_active_def close_worker_def)

definition os_mon :: "str \<Rightarrow> os_layer \<Rightarrow> bool" where
  "os_mon h l \<longleftrightarrow> active_domains l h"

interpretation oe_stop: monitored_stopper OsStopMonitoring "\<lambda>_. True" os_mon
  by unfold_locales (auto simp: OsStopMonitoring_def set_active_def same_core_oupd os_mon_def)

lemma OsStart_inv: "OsStartMonitoring h s = Inr s' \<Longrightarrow> core_inv s \<Longrightarrow> core_inv s'"
  by (auto simp: OsStartMonitoring_def Let_def split: if_splits)

lemma OsKill_inv: "OsKill h s = Inr s' \<Longrightarrow> core_inv s \<Longrightarrow> core_inv s'"
  by (auto simp: OsKill_def split: if_splits dest!: oe_stop.ObserveDown_inv)

lemma OsUpdate_inv: "OsUpdateGenerations h s = Inr s' \<Longrightarrow> core_inv s \<Longrightarrow> core_inv s'"
  by (auto simp: OsUpdateGenerations_def split: if_splits dest: FastForwardGeneration_inv)

lemma HandleWorker_inv: "HandleWorker h fd rd s = Inr s' \<Longrightarrow> core_inv s \<Longrightarrow> core_inv s'"
  by (auto simp: HandleWorker_def ObserveUp_inv split: if_splits option.splits worker_state.splits
      dest!: OsKill_inv oe_stop.ObserveDown_inv)

lemma os_ext_inv: "os_ext i s = Inr s' \<Longrightarrow> core_inv s \<Longrightarrow> core_inv s'"
  by (cases i) (auto simp: SetGeneration_def split: option.splits if_splits dest!: HandleWorker_inv)

interpretation oe: layer_contract os_ops run_os
proof unfold_locales
  fix c st and s s' :: osenf
  show "core_inv s \<Longrightarrow> run_os c st s = Inr s' \<Longrightarrow> core_inv s'" by (cases c) auto
qed (auto simp: os_ops_def intro: OsStart_inv OsKill_inv OsUpdate_inv oe_stop.stop_core)

section \<open>Registered domains are watched\<close>

abbreviation os_watched :: "osenf \<Rightarrow> bool" where
  "os_watched s \<equiv> watched os_mon s"

lemma os_watched_cong:
  "active_domains (layer s') = active_domains (layer s) \<Longrightarrow> target_clients s' = target_clients s \<Longrightarrow>
   os_watched s' = os_watched s"
  by (simp add: watched_def os_mon_def)

lemma os_down_watched:
  "os_down h st k w s = Inr s' \<Longrightarrow> os_watched s \<Longrightarrow> os_watched s' \<and> target_clients s' h = []"
  using oe_stop.ObserveDown_watched [of h st k w s s'] watched_watched_but [of os_mon s h] by blast

lemma OsKill_watched:
  assumes "OsKill h s = Inr s'" and "os_watched s"
  shows "os_watched s' \<and> target_clients s' h = []"
proof -
  have "os_watched (oupd (\<lambda>l. l\<lparr>destroyed := destroyed l @ [h]\<rparr>) s)"
    using assms(2) by (subst os_watched_cong [of _ s]) simp_all
  with assms show ?thesis by (auto simp: OsKill_def split: if_splits dest: os_down_watched)
qed

lemma ff_loop_frame: "ff_loop n t s = Inr s' \<Longrightarrow> layer s' = layer s \<and> target_clients s' = target_clients s"
proof (induction n t s rule: ff_loop.induct)
  case (1 n t s)
  show ?case
  proof (cases "generations s t < n")
    case False
    with "1.prems" show ?thesis by (simp add: ff_loop.simps [of n t s])
  next
    case True
    with "1.prems"(1) obtain u where u: "IncrementGeneration t s = Inr u" "ff_loop n t u = Inr s'"
      by (auto simp: ff_loop.simps [of n t s] split: sum.splits)
    from "1.IH" [OF True u(1) u(2)] oe_stop.IncrementGeneration_frame [OF u(1)] show ?thesis
      by (auto simp: IncrementGeneration_def)
  qed
qed

lemma OsUpdate_watched: "OsUpdateGenerations h s = Inr s' \<Longrightarrow> os_watched s \<Longrightarrow> os_watched s'"
  by (auto simp: OsUpdateGenerations_def FastForwardGeneration_def watched_def
      split: if_splits dest!: ff_loop_frame)

lemma close_unwatched:
  assumes "os_watched s" and "target_clients s h = []"
  shows "os_watched (set_active h False (close_worker fd s))"
  using assms by (auto simp: watched_def os_mon_def set_active_def close_worker_def)

lemma HandleWorker_watched:
  assumes "HandleWorker h fd rd s = Inr s'" and "os_watched s"
  shows "os_watched s'"
proof (cases "active_domains (layer s) h")
  case False
  with assms show ?thesis
    by (auto simp: HandleWorker_def close_worker_def watched_def os_mon_def)
next
  case True
  have up: "os_watched (ObserveUp h s)"
    using assms(2) by (subst os_watched_cong [of _ s]) (simp_all add: frame)
  from True assms(1) consider "s' = ObserveUp h s"
    | s1 where "os_watched s1" "target_clients s1 h = []" "s' = set_active h False (close_worker fd s1)"
    by (auto simp: HandleWorker_def split: option.splits worker_state.splits if_splits
        dest: os_down_watched [OF _ assms(2)] OsKill_watched [OF _ assms(2)])
  then show ?thesis by cases (use up close_unwatched in auto)
qed

lemma os_ext_watched: "os_ext i s = Inr s' \<Longrightarrow> os_watched s \<Longrightarrow> os_watched s'"
  by (cases i)
    (auto simp: SetGeneration_def watched_def os_mon_def split: option.splits if_splits
      dest: HandleWorker_watched [unfolded watched_def os_mon_def])

interpretation oem: monitored_layer os_ops run_os "\<lambda>_. True" os_mon
proof unfold_locales
  fix c st and s s' :: osenf and t
  show "True \<Longrightarrow> watched_but os_mon t s \<Longrightarrow> StartMonitoring os_ops t s = Inr s' \<Longrightarrow>
      True \<and> os_watched s'"
    by (auto simp: os_ops_def OsStartMonitoring_def Let_def watched_but_def watched_def os_mon_def
        set_active_def split: if_splits)
  show "True \<Longrightarrow> os_watched s \<Longrightarrow> run_os c st s = Inr s' \<Longrightarrow> True \<and> os_watched s'"
    by (cases c) auto
qed (auto simp: os_ops_def dest: OsKill_watched OsUpdate_watched
      intro: oe_stop.stop_linv oe_stop.stop_mon)

end
