(* ===== verification/OsProps.thy ===== *)
theory OsProps
  imports OsEnforcer EnforcerProps
begin

text \<open>The properties of the host's enforcer and of its workers.\<close>

section \<open>Workers\<close>

text \<open>The states that end a worker.\<close>

lemma put_status_cases:
  "put_status pipe n st k = ([], Some True) \<or> put_status pipe n st k = (st # fst k, snd k)"
  by (simp add: put_status_def)

lemma worker_loop_shape:
  "\<exists>k fin. fst (worker_loop lethal pipe acts n ps) = replicate k VM_OK @ fin \<and>
     (fin = [] \<or> (\<exists>st. fin = [st] \<and> st \<noteq> VM_OK \<and> snd (worker_loop lethal pipe acts n ps) \<noteq> None \<and>
       (st = VM_KILLED \<longrightarrow> lethal \<and> destroy_loop acts \<noteq> None) \<and> (st = VM_NEEDS_KILL \<longrightarrow> \<not> lethal) \<and>
       k < length ps))"
proof (induction lethal pipe acts n ps rule: worker_loop.induct)
  case (2 lethal pipe acts n ps)
  then obtain k fin where *: "fst (worker_loop lethal pipe acts (Suc n) ps) = replicate k VM_OK @ fin"
    "fin = [] \<or> (\<exists>st. fin = [st] \<and> st \<noteq> VM_OK \<and> snd (worker_loop lethal pipe acts (Suc n) ps) \<noteq> None \<and>
       (st = VM_KILLED \<longrightarrow> lethal \<and> destroy_loop acts \<noteq> None) \<and> (st = VM_NEEDS_KILL \<longrightarrow> \<not> lethal) \<and>
       k < length ps)" by blast
  show ?case
  proof (cases "pipe n")
    case True
    with * show ?thesis
      by (intro exI [of _ "Suc k"] exI [of _ fin]) (auto simp: put_status_def)
  next
    case False
    then show ?thesis by (intro exI [of _ 0] exI [of _ "[]"]) (simp add: put_status_def)
  qed
qed (rule exI [of _ 0], force simp: put_status_def split: option.splits)+

lemma destroy_loop_inactive: "destroy_loop as \<noteq> None \<Longrightarrow> \<exists>i. i < length as \<and> \<not> as ! i"
proof (induction as)
  case Nil
  then show ?case by simp
next
  case (Cons a as)
  then show ?case by (cases a) (auto intro: exI [of _ 0] exI [of _ "Suc i" for i])
qed

text \<open>
  What a worker writes is any number of signs of life and then at most one last state, after
  which it has ended.  A worker that may kill never asks to be killed for; one that may not never
  says that it killed; and "killed" is written only after libvirt said that the domain is no longer
  active.
\<close>

theorem worker_reports:
  "\<exists>k fin. fst (worker_main argc known pipe acts ps) = replicate k VM_OK @ fin \<and>
     (fin = [] \<or> (\<exists>st. fin = [st] \<and> st \<noteq> VM_OK \<and> snd (worker_main argc known pipe acts ps) \<noteq> None \<and>
       (st = VM_KILLED \<longrightarrow> argc = 3 \<and> (\<exists>i. i < length acts \<and> \<not> acts ! i)) \<and>
       (st = VM_NEEDS_KILL \<longrightarrow> argc \<noteq> 3)))"
proof -
  show ?thesis
  proof (cases known)
    case False
    then show ?thesis
      by (intro exI [of _ 0]) (auto simp: worker_main_def put_status_def)
  next
    case True
    obtain k fin where *: "fst (worker_loop (argc = 3) pipe acts 0 ps) = replicate k VM_OK @ fin"
      "fin = [] \<or> (\<exists>st. fin = [st] \<and> st \<noteq> VM_OK \<and> snd (worker_loop (argc = 3) pipe acts 0 ps) \<noteq> None \<and>
       (st = VM_KILLED \<longrightarrow> argc = 3 \<and> destroy_loop acts \<noteq> None) \<and> (st = VM_NEEDS_KILL \<longrightarrow> argc \<noteq> 3))"
      using worker_loop_shape [of "argc = 3" pipe acts 0 ps] by blast
    show ?thesis
      by (rule exI [of _ k], rule exI [of _ fin])
        (use * True destroy_loop_inactive [of acts] in \<open>auto simp: worker_main_def\<close>)
  qed
qed

theorem worker_reports_witness:
  "\<exists>k. fst (worker_main 3 True (\<lambda>_. True) [True, False] [NTFA_ALIVE, NTFA_DEAD]) =
     replicate k VM_OK @ [VM_KILLED]"
proof -
  have e: "fst (worker_main 3 True (\<lambda>_. True) [True, False] [NTFA_ALIVE, NTFA_DEAD]) = [VM_OK, VM_KILLED]"
    by (simp add: worker_main_def put_status_def)
  obtain k fin where f: "[VM_OK, VM_KILLED] = replicate k VM_OK @ fin" "fin = [] \<or> (\<exists>st. fin = [st])"
    using worker_reports [of 3 True "\<lambda>_. True" "[True, False]" "[NTFA_ALIVE, NTFA_DEAD]"] unfolding e by blast
  have "VM_KILLED \<in> set (replicate k VM_OK @ fin)" unfolding f(1) [symmetric] by simp
  then have "VM_KILLED \<in> set fin" by auto
  with f show ?thesis unfolding e by (intro exI [of _ k]) auto
qed

section \<open>The enforcer\<close>

lemma os_start_ok: "core_inv os_start" "os_watched os_start"
  by (auto simp: os_start_def core_inv_def tables_ok_def events_ok_def typed_def registered_def
      watched_def)

text \<open>
  C32. In every state that the host's enforcer can reach the client tables are well formed, and a
  domain for which a client is registered is an active one, so that what its worker reports is
  heard.
\<close>

theorem os_clients_are_watched:
  assumes "os_reachable s"
  shows "tables_ok s \<and> (\<forall>t. target_clients s t \<noteq> [] \<longrightarrow> active_domains (layer s) t)"
proof -
  have "core_inv s"
    by (rule oe.reachable_core_inv [OF assms]) (auto simp: os_start_ok dest: os_ext_inv)
  moreover have "True \<and> os_watched s"
    by (rule oem.reachable_watched [OF assms]) (auto simp: os_start_ok dest: os_ext_watched)
  ultimately show ?thesis by (simp add: core_inv_def watched_def os_mon_def)
qed

definition os_down_msgs :: "str \<Rightarrow> u32 \<Rightarrow> bool \<Rightarrow> bool \<Rightarrow> osenf \<Rightarrow> out list" where
  "os_down_msgs h st k w s = map (\<lambda>(i, r). OutDown r
      \<lparr>dn_handle = h, dn_generation = gen_vec s @ [generations s h], dn_layer_status = st,
       dn_killed = k, dn_would_kill = w, dn_tag = fc_tag (heap s r)\<rparr>) (target_clients s h)"

lemma os_down_result:
  assumes "os_down h st k w s = Inr s'"
  shows "outbox s' = outbox s @ os_down_msgs h st k w s \<and> generations s' h = generations s h + 1 \<and>
    target_clients s' h = [] \<and> destroyed (layer s') = destroyed (layer s)"
proof -
  obtain u where u: "layer u = layer s" "OsStopMonitoring h u = Inr s'"
    using ObserveDown_stop [OF oe_stop.stopper_axioms assms] by blast
  from ObserveDown_effect [OF oe_stop.stopper_axioms assms] u show ?thesis
    by (auto simp: os_down_msgs_def down_arg_def target_gen_def OsStopMonitoring_def set_active_def)
qed

text \<open>
  C21. When the worker of a watched domain writes anything but a sign of life, every registered
  client gets exactly one report, the generation ends and the domain is no longer active; the
  report says killed exactly when the domain needed to be killed (or its worker failed) and some
  client had given the licence, and then the domain has been destroyed unless it was inactive
  already.  A domain that its worker killed is reported as one that would have to be killed.
\<close>

theorem worker_state_reported:
  assumes "HandleWorker h fd (Some st) s = Inr s'" and "active_domains (layer s) h"
    and "st \<noteq> VM_OK"
  shows "generations s' h = generations s h + 1 \<and> target_clients s' h = [] \<and>
    \<not> active_domains (layer s') h \<and> worker_fds (layer s') fd = None \<and>
    (if st \<in> {VM_ERROR, VM_NEEDS_KILL} \<and> deadly s h \<noteq> []
     then outbox s' = outbox s @ os_down_msgs h 0 True True s \<and>
       destroyed (layer s') = destroyed (layer s) @ (if vir_active (layer s) h then [h] else [])
     else outbox s' = outbox s @ os_down_msgs h (worker_state_code st) False (st \<noteq> VM_DEAD) s \<and>
       destroyed (layer s') = destroyed (layer s))"
proof -
  let ?d = "oupd (\<lambda>l. l\<lparr>destroyed := destroyed l @ [h]\<rparr>) s"
  have d: "os_down_msgs h x k w ?d = os_down_msgs h x k w s" for x k w
    by (simp add: os_down_msgs_def)
  from assms obtain s1 where s': "s' = set_active h False (close_worker fd s1)"
    and s1: "(case st of VM_KILLED \<Rightarrow> os_down h (worker_state_code st) False True s
               | VM_DEAD \<Rightarrow> os_down h (worker_state_code st) False False s
               | _ \<Rightarrow> (if Killable h s then OsKill h s
                      else os_down h (worker_state_code st) False True s)) = Inr s1"
    by (cases st) (auto simp: HandleWorker_def)
  have "generations s1 h = generations s h + 1 \<and> target_clients s1 h = [] \<and>
    (if st \<in> {VM_ERROR, VM_NEEDS_KILL} \<and> deadly s h \<noteq> []
     then outbox s1 = outbox s @ os_down_msgs h 0 True True s \<and>
       destroyed (layer s1) = destroyed (layer s) @ (if vir_active (layer s) h then [h] else [])
     else outbox s1 = outbox s @ os_down_msgs h (worker_state_code st) False (st \<noteq> VM_DEAD) s \<and>
       destroyed (layer s1) = destroyed (layer s))"
  proof (cases "st \<in> {VM_ERROR, VM_NEEDS_KILL} \<and> deadly s h \<noteq> []")
    case True
    then have "OsKill h s = Inr s1" using s1 by (auto simp: Killable_def)
    with assms(2) True show ?thesis
      by (auto simp: OsKill_def d split: if_splits dest!: os_down_result)
  next
    case False
    then have "os_down h (worker_state_code st) False (st \<noteq> VM_DEAD) s = Inr s1"
      using s1 assms(3) by (cases st) (auto simp: Killable_def)
    from os_down_result [OF this] False show ?thesis by auto
  qed
  then show ?thesis by (auto simp: s' set_active_def close_worker_def)
qed

section \<open>A concrete run\<close>

definition os_demo_inputs :: "os_input input list" where
  "os_demo_inputs =
    [InLayer (OLibvirt (\<lambda>h. h = ''dom'') (\<lambda>_. True) (\<lambda>_. True) (\<lambda>_. 0)),
     InLayer (OSetGeneration \<lparr>sr_target = \<lparr>tg_handle = ''host'', tg_generation = [4]\<rparr>, sr_status = FALCON_GEN_RESP\<rparr> RPC_SUCCESS)]"

definition os_demo_register :: "os_input input" where
  "os_demo_register = InRpc (SPY_REGISTER \<lparr>ra_target = \<lparr>tg_handle = ''dom'', tg_generation = [4, 0]\<rparr>, ra_lethal = True,
        ra_up_interval_ms = 1000, ra_client = demo_addr\<rparr>)"

definition os_demo_run :: "os_input input list \<Rightarrow> osenf res" where
  "os_demo_run xs = enf_run os_ops run_os os_ext xs os_start"

lemmas os_simps =
  os_demo_run_def enf_run_def os_demo_inputs_def os_demo_register_def os_start_def oupd_def
  SetGeneration_def DispatchRegister_def DispatchKill_def GenCheck_def os_ops_def
  OsUpdateGenerations_def OsInvalidTarget_def FastForwardGeneration_def ff_loop.simps target_gen_def
  Let_def GetClient_def sm_get_def DoHeartbeat_def schedule_def emit_def cs_count_def cs_insert_def
  sm_insert_def register_client_def RepeatWaiting_def read_interval_def set_interval_def cid_def
  OsStartMonitoring_def set_active_def Killable_def reply_def

lemma os_run:
  "\<exists>s s'. os_demo_run (os_demo_inputs @ [os_demo_register]) = Inr s \<and> target_clients s ''dom'' \<noteq> [] \<and>
     deadly s ''dom'' \<noteq> [] \<and> vir_active (layer s) ''dom'' \<and> destroyed (layer s) = [] \<and>
     active_domains (layer s) ''dom'' \<and> HandleWorker ''dom'' 3 (Some VM_NEEDS_KILL) s = Inr s'"
  by (simp add: os_simps HandleWorker_def OsKill_def ObserveDown_def oe_stop.observe_down_client_eq
      IncrementGeneration_def OsStopMonitoring_def)

lemma os_demo_reachable: "os_demo_run xs = Inr s \<Longrightarrow> os_reachable s"
  unfolding os_demo_run_def by (erule enf_run_reachable) (rule reach_start, simp)

theorem os_clients_are_watched_witness:
  "\<exists>s. os_demo_run (os_demo_inputs @ [os_demo_register]) = Inr s \<and> active_domains (layer s) ''dom''"
proof -
  from os_run obtain s where s: "os_demo_run (os_demo_inputs @ [os_demo_register]) = Inr s"
    "target_clients s ''dom'' \<noteq> []" by blast
  from os_clients_are_watched [OF os_demo_reachable [OF s(1)]] s show ?thesis by blast
qed

theorem worker_state_reported_witness:
  "\<exists>s s'. os_demo_run (os_demo_inputs @ [os_demo_register]) = Inr s \<and>
     HandleWorker ''dom'' 3 (Some VM_NEEDS_KILL) s = Inr s' \<and> destroyed (layer s') = [''dom''] \<and>
     \<not> active_domains (layer s') ''dom''"
proof -
  from os_run obtain s s' where s: "os_demo_run (os_demo_inputs @ [os_demo_register]) = Inr s"
    "deadly s ''dom'' \<noteq> []" "vir_active (layer s) ''dom''" "destroyed (layer s) = []"
    and act: "active_domains (layer s) ''dom''"
    and s': "HandleWorker ''dom'' 3 (Some VM_NEEDS_KILL) s = Inr s'" by blast
  from worker_state_reported [OF s' act] s s' show ?thesis by auto
qed

text \<open>
  A domain that libvirt knows but nobody watches is a valid target: a kill request for it, with its
  current generation, passes the check, fails the \<open>CHECK\<close> of \<open>Kill\<close> and ends the enforcer.
\<close>

lemma kill_idle_domain_crashes:
  "os_demo_run (os_demo_inputs @ [InRpc (SPY_KILL \<lparr>tg_handle = ''dom'', tg_generation = [4, 0]\<rparr>)]) =
   Inl Check_failed"
  by (simp add: os_simps OsKill_def)

end
