(* ===== verification/Config.thy ===== *)
theory Config
  imports StdMap
begin

text \<open>
  The configuration (common/config.cc, include/config.h): a flat JSON map, read through the
  callbacks of the yajl parser into a table of untyped pointers, from which the components read
  typed values with defaults.
\<close>

section \<open>State\<close>

text \<open>
  What a pointer of \<open>config_\<close> points to.  A double is kept as its bits.
\<close>

datatype cval =
    CBool bool
  | CLong "64 word"
  | CDouble "64 word"
  | CStr string

text \<open>
  \<open>config_\<close> holds a null pointer for a key that was only asked for; \<open>key_type_\<close> is 0 for a key
  that was never stored; \<open>cf_freed\<close> are the keys whose object \<open>DeleteConfig\<close> has freed (the pointer
  stays in the table).
\<close>

record config =
  cf_map :: "(string, cval option) smap"
  cf_type :: "string \<Rightarrow> char option"
  cf_freed :: "string set"
  next_key :: string
  started_map :: bool

definition config_start :: config where
  "config_start = \<lparr>cf_map = [], cf_type = (\<lambda>_. None), cf_freed = {}, next_key = [], started_map = False\<rparr>"

section \<open>The callbacks of the parser\<close>

datatype yajl_event =
    YNull
  | YBool bool
  | YInt int
  | YDouble "64 word"
  | YStr string
  | YMapStart
  | YMapKey string
  | YMapEnd
  | YArrayStart
  | YArrayEnd

definition store :: "cval \<Rightarrow> char \<Rightarrow> config \<Rightarrow> config" where
  "store v c s =
     s\<lparr>cf_map := sm_put (next_key s) (Some v) (cf_map s),
       cf_type := (cf_type s)(next_key s \<mapsto> c),
       cf_freed := cf_freed s - {next_key s}\<rparr>"

definition handle_bool :: "bool \<Rightarrow> config \<Rightarrow> config" where
  "handle_bool v s = store (CBool v) CHR ''b'' s"

definition handle_int :: "int \<Rightarrow> config \<Rightarrow> config" where
  "handle_int v s = store (CLong (word_of_int v)) CHR ''i'' s"

definition handle_double :: "64 word \<Rightarrow> config \<Rightarrow> config" where
  "handle_double v s = store (CDouble v) CHR ''d'' s"

definition handle_str :: "string \<Rightarrow> config \<Rightarrow> config" where
  "handle_str v s = store (CStr v) CHR ''s'' s"

definition map_start :: "config \<Rightarrow> config res" where
  "map_start s = (if started_map s then Inl Exit_called else Inr (s\<lparr>started_map := True\<rparr>))"

definition map_key :: "string \<Rightarrow> config \<Rightarrow> config" where
  "map_key k s = s\<lparr>next_key := k\<rparr>"

fun yajl_callback :: "yajl_event \<Rightarrow> config \<Rightarrow> config res" where
  "yajl_callback YNull s = Inr s"
| "yajl_callback (YBool v) s = Inr (handle_bool v s)"
| "yajl_callback (YInt v) s = Inr (handle_int v s)"
| "yajl_callback (YDouble v) s = Inr (handle_double v s)"
| "yajl_callback (YStr v) s = Inr (handle_str v s)"
| "yajl_callback YMapStart s = map_start s"
| "yajl_callback (YMapKey k) s = Inr (map_key k s)"
| "yajl_callback YMapEnd s = Inr s"
| "yajl_callback YArrayStart s = Inl Exit_called"
| "yajl_callback YArrayEnd s = Inl Exit_called"

section \<open>Loading\<close>

definition kBufferSize :: nat where "kBufferSize = 4096"

text \<open>The results of successive \<open>fread\<close> calls: the last one is shorter than the buffer.\<close>

function file_chunks :: "string \<Rightarrow> string list" where
  "file_chunks cs =
     (if length cs < kBufferSize then [cs]
      else take kBufferSize cs # file_chunks (drop kBufferSize cs))"
  by pat_completeness auto
termination
  by (relation "measure length") (auto simp: kBufferSize_def)

declare file_chunks.simps [simp del]

text \<open>
  The parser is a library: \<open>parse\<close> consumes a chunk and calls the callbacks, \<open>complete\<close> ends the
  document; both give the events, or \<open>None\<close> for an error.
\<close>

fun parse_chunks ::
    "('y \<Rightarrow> string \<Rightarrow> ('y \<times> yajl_event list) option) \<Rightarrow> ('y \<Rightarrow> yajl_event list option)
      \<Rightarrow> 'y \<Rightarrow> string list \<Rightarrow> config \<Rightarrow> config res" where
  "parse_chunks parse complete h [] s =
     (case complete h of None \<Rightarrow> Inl Check_failed | Some es \<Rightarrow> res_fold yajl_callback es s)"
| "parse_chunks parse complete h (b # bs) s =
     (case parse h b of
        None \<Rightarrow> Inl Check_failed
      | Some (h', es) \<Rightarrow> res_bind (res_fold yajl_callback es s) (parse_chunks parse complete h' bs))"

text \<open>\<open>None\<close> for a file that cannot be opened: \<open>fread\<close> on NULL.\<close>

definition LoadConfig ::
    "('y \<Rightarrow> string \<Rightarrow> ('y \<times> yajl_event list) option) \<Rightarrow> ('y \<Rightarrow> yajl_event list option)
      \<Rightarrow> 'y \<Rightarrow> string option \<Rightarrow> config \<Rightarrow> config res" where
  "LoadConfig parse complete h file s =
     (case file of
        None \<Rightarrow> Inl Null_deref
      | Some cs \<Rightarrow> parse_chunks parse complete h (file_chunks cs) s)"

section \<open>Reading\<close>

text \<open>
  \<open>config_[key]\<close>: a missing key is inserted with a null pointer.
\<close>

definition config_lookup :: "string \<Rightarrow> config \<Rightarrow> cval option \<times> config" where
  "config_lookup k s =
     (case sm_get (cf_map s) k of
        Some v \<Rightarrow> (v, s)
      | None \<Rightarrow> (None, s\<lparr>cf_map := sm_put k None (cf_map s)\<rparr>))"

text \<open>
  \<open>*static_cast<T*>(val)\<close> on a little-endian machine, for the types the program reads.  A cast of an
  object that is smaller than the type, or not of that kind, is undefined.
\<close>

definition read_word :: "cval \<Rightarrow> ('w::len) word res" where
  "read_word v =
     (case v of CLong w \<Rightarrow> Inr (ucast w) | CDouble w \<Rightarrow> Inr (ucast w) | _ \<Rightarrow> Inl Uninit_read)"

unbundle bit_operations_syntax

definition read_bool :: "cval \<Rightarrow> bool res" where
  "read_bool v =
     (case v of
        CBool b \<Rightarrow> Inr b
      | CLong w \<Rightarrow>
          (if w AND 255 = 0 then Inr False else if w AND 255 = 1 then Inr True else Inl Uninit_read)
      | _ \<Rightarrow> Inl Uninit_read)"

definition read_str :: "cval \<Rightarrow> string res" where
  "read_str v = (case v of CStr c \<Rightarrow> Inr c | _ \<Rightarrow> Inl Uninit_read)"

text \<open>The overload that tells whether there is a value.\<close>

definition GetFromConfig_opt ::
    "(cval \<Rightarrow> 'a res) \<Rightarrow> string \<Rightarrow> config \<Rightarrow> ('a option \<times> config) res" where
  "GetFromConfig_opt cast k s =
     (let (v, s1) = config_lookup k s in
      case v of
        None \<Rightarrow> Inr (None, s1)
      | Some c \<Rightarrow>
          if k \<in> cf_freed s then Inl Use_after_free
          else res_bind (cast c) (\<lambda>x. Inr (Some x, s1)))"

text \<open>The overloads with a default.\<close>

definition GetFromConfig ::
    "(cval \<Rightarrow> 'a res) \<Rightarrow> string \<Rightarrow> 'a \<Rightarrow> config \<Rightarrow> ('a \<times> config) res" where
  "GetFromConfig cast k dflt s =
     res_bind (GetFromConfig_opt cast k s) (\<lambda>(x, s1).
       Inr (case x of Some y \<Rightarrow> y | None \<Rightarrow> dflt, s1))"

section \<open>Deleting\<close>

text \<open>
  One turn of the loop of \<open>DeleteConfig\<close>, for the entry \<open>(k, v)\<close>.  A value that was freed before is
  freed twice.
\<close>

definition delete_entry :: "string \<times> cval option \<Rightarrow> config \<Rightarrow> config res" where
  "delete_entry e s =
     (case cf_type s (fst e) of
        None \<Rightarrow> Inr s
      | Some c \<Rightarrow>
          if snd e = None then Inr s
          else if fst e \<in> cf_freed s then Inl Use_after_free
          else Inr (s\<lparr>cf_freed := insert (fst e) (cf_freed s)\<rparr>))"

definition DeleteConfig :: "config \<Rightarrow> config res" where
  "DeleteConfig s = res_fold delete_entry (cf_map s) s"

section \<open>Properties\<close>

lemma file_chunks_concat: "concat (file_chunks cs) = cs"
  by (induction cs rule: file_chunks.induct) (subst file_chunks.simps, simp)

lemma file_chunks_last: "length (last (file_chunks cs)) < kBufferSize"
proof (induction cs rule: file_chunks.induct)
  case (1 cs)
  have "file_chunks xs \<noteq> []" for xs by (subst file_chunks.simps) simp
  with 1 show ?case by (subst file_chunks.simps) auto
qed

text \<open>A flat map of the configuration language as the parser's events.\<close>

fun value_event :: "cval option \<Rightarrow> yajl_event" where
  "value_event None = YNull"
| "value_event (Some (CBool b)) = YBool b"
| "value_event (Some (CLong w)) = YInt (sint w)"
| "value_event (Some (CDouble w)) = YDouble w"
| "value_event (Some (CStr c)) = YStr c"

definition flat_events :: "(string \<times> cval option) list \<Rightarrow> yajl_event list" where
  "flat_events kvs = YMapStart # concat (map (\<lambda>(k, v). [YMapKey k, value_event v]) kvs) @ [YMapEnd]"

text \<open>The last value for a key that is not null.\<close>

definition last_value :: "(string \<times> cval option) list \<Rightarrow> string \<Rightarrow> cval option" where
  "last_value kvs k = (case find (\<lambda>e. fst e = k \<and> snd e \<noteq> None) (rev kvs) of None \<Rightarrow> None | Some e \<Rightarrow> snd e)"

lemma last_value_snoc:
  "last_value (kvs @ [(k', v)]) k = (if k' = k \<and> v \<noteq> None then v else last_value kvs k)"
  by (cases v) (auto simp: last_value_def)

lemma value_event_callback:
  "\<exists>c. yajl_callback (value_event v) s =
     Inr (case v of None \<Rightarrow> s | Some x \<Rightarrow> store x c s)"
  by (cases v rule: value_event.cases)
    (auto simp: handle_bool_def handle_int_def handle_double_def handle_str_def)

lemma flat_loop:
  "\<exists>s'. res_fold yajl_callback (concat (map (\<lambda>(k, v). [YMapKey k, value_event v]) kvs)) s = Inr s' \<and>
     (\<forall>k. sm_get (cf_map s) k = None \<longrightarrow> sm_get (cf_map s') k = map_option Some (last_value kvs k)) \<and>
     (cf_freed s = {} \<longrightarrow> cf_freed s' = {})"
proof (induction kvs rule: rev_induct)
  case Nil
  then show ?case by (auto simp: last_value_def)
next
  case (snoc e kvs)
  obtain k v where e: "e = (k, v)" by (cases e)
  from snoc obtain s1 where s1:
    "res_fold yajl_callback (concat (map (\<lambda>(k, v). [YMapKey k, value_event v]) kvs)) s = Inr s1"
    "\<forall>k. sm_get (cf_map s) k = None \<longrightarrow> sm_get (cf_map s1) k = map_option Some (last_value kvs k)"
    "cf_freed s = {} \<longrightarrow> cf_freed s1 = {}" by blast
  obtain c where c: "yajl_callback (value_event v) (map_key k s1) =
      Inr (case v of None \<Rightarrow> map_key k s1 | Some x \<Rightarrow> store x c (map_key k s1))"
    using value_event_callback by blast
  define s' where "s' = (case v of None \<Rightarrow> map_key k s1 | Some x \<Rightarrow> store x c (map_key k s1))"
  have "res_fold yajl_callback (concat (map (\<lambda>(k, v). [YMapKey k, value_event v]) (kvs @ [e]))) s = Inr s'"
    using s1(1) by (simp add: e res_fold_append c s'_def)
  moreover have "sm_get (cf_map s') j = map_option Some (last_value (kvs @ [e]) j)"
    if "sm_get (cf_map s) j = None" for j
    using s1(2) that by (cases v) (auto simp: e s'_def last_value_snoc store_def map_key_def)
  moreover have "cf_freed s = {} \<longrightarrow> cf_freed s' = {}"
    using s1(3) by (cases v) (auto simp: s'_def store_def map_key_def)
  ultimately show ?case by blast
qed

text \<open>The events of a whole file, over its chunks; \<open>None\<close> if the parser rejects one of them.\<close>

fun chunk_events ::
    "('y \<Rightarrow> string \<Rightarrow> ('y \<times> yajl_event list) option) \<Rightarrow> ('y \<Rightarrow> yajl_event list option)
      \<Rightarrow> 'y \<Rightarrow> string list \<Rightarrow> yajl_event list option" where
  "chunk_events parse complete h [] = complete h"
| "chunk_events parse complete h (b # bs) =
     (case parse h b of
        None \<Rightarrow> None
      | Some (h', es) \<Rightarrow> map_option (\<lambda>es'. es @ es') (chunk_events parse complete h' bs))"

lemma parse_chunks_events:
  "chunk_events parse complete h bs = Some es \<Longrightarrow>
   parse_chunks parse complete h bs s = res_fold yajl_callback es s"
proof (induction bs arbitrary: h es s)
  case Nil
  then show ?case by simp
next
  case (Cons b bs)
  then obtain h' es1 es2 where "parse h b = Some (h', es1)"
      "chunk_events parse complete h' bs = Some es2" "es = es1 @ es2"
    by (auto split: option.splits)
  then show ?case using Cons.IH [of h' es2]
    by (cases "res_fold yajl_callback es1 s") (simp_all add: res_fold_append)
qed

text \<open>
  Loading a configuration that is a flat map and reading from it: whatever keys and values the
  map has, in whatever order and however the parser splits them over the chunks of the file, loading
  succeeds, and reading a key then gives the last value of it that is not null, cast to the type that
  is asked for, or the default when there is none.
\<close>

theorem config_last_value:
  assumes "chunk_events parse complete h (file_chunks cs) = Some (flat_events kvs)"
  shows "\<exists>s. LoadConfig parse complete h (Some cs) config_start = Inr s \<and>
    GetFromConfig cast k d s =
      (case last_value kvs k of
         None \<Rightarrow> Inr (d, s\<lparr>cf_map := sm_put k None (cf_map s)\<rparr>)
       | Some v \<Rightarrow> res_bind (cast v) (\<lambda>x. Inr (x, s)))"
proof -
  let ?s0 = "config_start\<lparr>started_map := True\<rparr>"
  obtain s where s:
    "res_fold yajl_callback (concat (map (\<lambda>(k, v). [YMapKey k, value_event v]) kvs)) ?s0 = Inr s"
    "\<forall>k. sm_get (cf_map ?s0) k = None \<longrightarrow> sm_get (cf_map s) k = map_option Some (last_value kvs k)"
    "cf_freed ?s0 = {} \<longrightarrow> cf_freed s = {}"
    using flat_loop by blast
  have "LoadConfig parse complete h (Some cs) config_start = Inr s"
    using s(1) parse_chunks_events [OF assms]
    by (simp add: LoadConfig_def flat_events_def map_start_def config_start_def res_fold_append)
  with s(2,3) show ?thesis
    by (cases "last_value kvs k")
      (auto simp: GetFromConfig_def GetFromConfig_opt_def config_lookup_def config_start_def res_bind_assoc)
qed

theorem config_last_value_witness:
  "\<exists>s. LoadConfig (\<lambda>h b. Some (h @ b, []))
      (\<lambda>h. Some (flat_events
         [(h, Some (CLong 7)), (''b'', Some (CBool True)), (h, Some (CLong 4294967301)), (h, None)]))
      '''' (Some ''a'') config_start = Inr s \<and>
     GetFromConfig read_word ''a'' (1 :: 32 word) s = Inr (5, s)"
proof -
  let ?k = "[(''a'', Some (CLong 7)), (''b'', Some (CBool True)), (''a'', Some (CLong 4294967301)), (''a'', None)]"
  have e: "chunk_events (\<lambda>h b. Some (h @ b, []))
      (\<lambda>h. Some (flat_events
         [(h, Some (CLong 7)), (''b'', Some (CBool True)), (h, Some (CLong 4294967301)), (h, None)]))
      '''' (file_chunks ''a'') = Some (flat_events ?k)"
    by (simp add: file_chunks.simps kBufferSize_def)
  have w: "(4294967301 :: 32 word) = 5" by (simp add: word_unat_eq_iff)
  from config_last_value [OF e, of read_word "''a''" "1 :: 32 word"] show ?thesis
    by (simp add: last_value_def read_word_def w)
qed

text \<open>After \<open>DeleteConfig\<close> a stored value is still reachable and freed.\<close>

lemma read_after_delete:
  "res_bind (res_bind (res_fold yajl_callback (flat_events [(''a'', Some (CLong 7))]) config_start) DeleteConfig)
     (GetFromConfig read_word ''a'' (1 :: 32 word)) = Inl Use_after_free"
  by (simp add: flat_events_def map_start_def config_start_def map_key_def handle_int_def store_def
      DeleteConfig_def delete_entry_def GetFromConfig_def GetFromConfig_opt_def config_lookup_def
      sm_get_def)

end
