(* ===== verification/FalconCallback.thy ===== *)
theory FalconCallback
  imports Protocol
begin

text \<open>
  The callback objects of the client library (client/FalconCallback.h, FalconCallback.cc), the
  generation vectors it compares (client/Generation.cc) and the comparison of times of its watchdog
  (client/Watchdog.cc).  A call of the application's function runs in a thread of its own; the model
  returns the calls that are started, in the order in which their threads are created.
\<close>

unbundle bit_operations_syntax

section \<open>Generations\<close>

text \<open>The operators of Generation.cc: the loops compare an element of the first vector with itself.\<close>

fun self_equal :: "gen_no list \<Rightarrow> nat list \<Rightarrow> bool" where
  "self_equal g [] = True"
| "self_equal g (i # is) = (if g ! i \<noteq> g ! i then False else self_equal g is)"

definition gen_eq :: "gen_no list \<Rightarrow> gen_no list \<Rightarrow> bool" where
  "gen_eq g1 g2 =
     (if length g1 \<noteq> length g2 then False else self_equal g1 [0..<length g1])"

definition gen_neq :: "gen_no list \<Rightarrow> gen_no list \<Rightarrow> bool" where
  "gen_neq g1 g2 = (\<not> gen_eq g1 g2)"

text \<open>\<open>size() - 1\<close> is an unsigned 64-bit subtraction.\<close>

definition IsChild :: "gen_no list \<Rightarrow> gen_no list \<Rightarrow> bool" where
  "IsChild g1 g2 =
     (if (word_of_nat (length g1) :: u64) \<noteq> word_of_nat (length g2) - 1 then False
      else self_equal g1 [0..<length g1])"

text \<open>Only the lengths matter.\<close>

lemma self_equal_True [simp]: "self_equal g is"
  by (induction "is") simp_all

lemma gen_eq_iff [simp]: "gen_eq g1 g2 \<longleftrightarrow> length g1 = length g2"
  by (simp add: gen_eq_def)

lemma gen_eq_ignores_values: "gen_eq [1] [2]" and IsChild_ignores_values: "IsChild [1] [2, 3]"
  by (simp_all add: IsChild_def)

section \<open>Times\<close>

record timespec =
  tv_sec :: int
  tv_nsec :: int

text \<open>\<open>operator>\<close> of Watchdog.cc, which compares \<open>t1.tv_nsec\<close> with itself.\<close>

definition ts_gt :: "timespec \<Rightarrow> timespec \<Rightarrow> bool" where
  "ts_gt t1 t2 \<longleftrightarrow> tv_sec t1 > tv_sec t2 \<or> (tv_sec t1 = tv_sec t2 \<and> tv_nsec t1 > tv_nsec t1)"

lemma ts_gt_iff [simp]: "ts_gt t1 t2 \<longleftrightarrow> tv_sec t1 > tv_sec t2"
  by (simp add: ts_gt_def)

section \<open>State\<close>

text \<open>
  Functions of the application and its data are numbers; a null function is \<open>None\<close> and null data
  is 0.  The deferred members are \<open>None\<close> until the three deferred members are first written: status, remote
  status, index.
\<close>

record fcallback =
  fc_f :: "nat option"
  fc_h :: "str list"
  fc_cd :: nat
  fc_repeatable :: bool
  fc_run_final :: bool
  fc_deferred :: "(u32 \<times> u32 \<times> u32) option"

definition new_callback :: "nat option \<Rightarrow> str list \<Rightarrow> nat \<Rightarrow> bool \<Rightarrow> fcallback" where
  "new_callback f h cd rep =
     \<lparr>fc_f = f, fc_h = h, fc_cd = cd, fc_repeatable = rep, fc_run_final = False, fc_deferred = None\<rparr>"

text \<open>What the thread of a call passes to the application.\<close>

record cb_call =
  cl_f :: nat
  cl_handle :: "str list"
  cl_data :: nat
  cl_falcon :: u32
  cl_remote :: u32

section \<open>Operations\<close>

definition cb_run_thread :: "nat \<Rightarrow> str list \<Rightarrow> nat \<Rightarrow> u32 \<Rightarrow> u32 \<Rightarrow> u32 \<Rightarrow> cb_call" where
  "cb_run_thread f h cd fs rs idx =
     \<lparr>cl_f = f, cl_handle = h, cl_data = cd, cl_falcon = (push_bit 16 idx) OR fs, cl_remote = rs\<rparr>"

text \<open>The first position of a layer in a handle, its length if there is none.\<close>

fun layer_index :: "str \<Rightarrow> str list \<Rightarrow> nat" where
  "layer_index lid [] = 0"
| "layer_index lid (x # xs) = (if x = lid then 0 else Suc (layer_index lid xs))"

definition call_index :: "str \<Rightarrow> u32 \<Rightarrow> str list \<Rightarrow> u32" where
  "call_index lid fs h =
     (if fs = SIGN_OF_LIFE then word_of_nat (length h) - 1 else word_of_nat (layer_index lid h))"

text \<open>\<open>operator()\<close>.\<close>

definition cb_invoke :: "str \<Rightarrow> u32 \<Rightarrow> u32 \<Rightarrow> fcallback \<Rightarrow> fcallback \<times> cb_call list" where
  "cb_invoke lid fs rs cb =
     (let i = call_index lid fs (fc_h cb);
          (cb1, calls) =
            (case fc_f cb of
               Some f \<Rightarrow> (cb, [cb_run_thread f (fc_h cb) (fc_cd cb) fs rs i])
             | None \<Rightarrow> (if \<not> fc_run_final cb then cb\<lparr>fc_deferred := Some (fs, rs, i)\<rparr> else cb, []))
      in (if \<not> fc_repeatable cb \<or> fs \<noteq> SIGN_OF_LIFE then cb1\<lparr>fc_f := None, fc_run_final := True\<rparr> else cb1,
          calls))"

definition Deactivate :: "fcallback \<Rightarrow> fcallback" where
  "Deactivate cb = cb\<lparr>fc_f := None\<rparr>"

text \<open>The thread of a call with a null function dereferences it.\<close>

definition Reactivate :: "nat option \<Rightarrow> nat \<Rightarrow> fcallback \<Rightarrow> (fcallback \<times> cb_call list \<times> bool) res" where
  "Reactivate f cd cb =
     (let cb1 = cb\<lparr>fc_f := f, fc_cd := (if cd \<noteq> 0 then cd else fc_cd cb)\<rparr> in
      if fc_run_final cb1 then
        case fc_deferred cb1 of
          None \<Rightarrow> Inl Uninit_read
        | Some (fs, rs, i) \<Rightarrow>
            (case f of
               None \<Rightarrow> Inl Null_deref
             | Some g \<Rightarrow> Inr (cb1, [cb_run_thread g (fc_h cb1) (fc_cd cb1) fs rs i], True))
      else Inr (cb1, [], False))"

definition SetData :: "nat \<Rightarrow> fcallback \<Rightarrow> fcallback" where
  "SetData d cb = cb\<lparr>fc_cd := d\<rparr>"

definition HasRunFinal :: "fcallback \<Rightarrow> bool" where
  "HasRunFinal cb = fc_run_final cb"

section \<open>Facts\<close>

lemma call_index_live: "call_index lid SIGN_OF_LIFE h = word_of_nat (length h) - 1"
  by (simp add: call_index_def)

lemma cb_invoke_keeps:
  "fc_h (fst (cb_invoke lid fs rs cb)) = fc_h cb"
  "fc_cd (fst (cb_invoke lid fs rs cb)) = fc_cd cb"
  "fc_repeatable (fst (cb_invoke lid fs rs cb)) = fc_repeatable cb"
  by (auto simp: cb_invoke_def Let_def split: option.splits)

lemma cb_invoke_final_mono: "fc_run_final cb \<Longrightarrow> fc_run_final (fst (cb_invoke lid fs rs cb))"
  by (auto simp: cb_invoke_def Let_def split: option.splits)

lemma cb_invoke_final: "fs \<noteq> SIGN_OF_LIFE \<Longrightarrow> fc_run_final (fst (cb_invoke lid fs rs cb))"
  by (auto simp: cb_invoke_def Let_def split: option.splits)

section \<open>What the application sees\<close>

text \<open>A sequence of events of the layers: the handle, status and remote status of each.\<close>

fun cb_events :: "(str \<times> u32 \<times> u32) list \<Rightarrow> fcallback \<Rightarrow> fcallback \<times> cb_call list" where
  "cb_events [] cb = (cb, [])"
| "cb_events ((lid, fs, rs) # es) cb =
     (let (cb1, c1) = cb_invoke lid fs rs cb; (cb2, c2) = cb_events es cb1 in (cb2, c1 @ c2))"

text \<open>The specification: signs of life up to the first other event, and that one.\<close>

fun until_final :: "(str \<times> u32 \<times> u32) list \<Rightarrow> (str \<times> u32 \<times> u32) list" where
  "until_final [] = []"
| "until_final ((lid, fs, rs) # es) =
     (if fs = SIGN_OF_LIFE then (lid, fs, rs) # until_final es else [(lid, fs, rs)])"

definition cb_spec_call :: "nat \<Rightarrow> fcallback \<Rightarrow> (str \<times> u32 \<times> u32) \<Rightarrow> cb_call" where
  "cb_spec_call g cb e =
     (case e of (lid, fs, rs) \<Rightarrow> cb_run_thread g (fc_h cb) (fc_cd cb) fs rs (call_index lid fs (fc_h cb)))"

definition has_final :: "(str \<times> u32 \<times> u32) list \<Rightarrow> bool" where
  "has_final es = (\<exists>e\<in>set es. fst (snd e) \<noteq> SIGN_OF_LIFE)"

lemma has_final_Nil [simp]: "\<not> has_final []"
  by (simp add: has_final_def)

lemma cb_events_silent:
  assumes "fc_f cb = None" and "fc_run_final cb"
  shows "cb_events es cb = (cb, [])"
  using assms
proof (induction es)
  case Nil
  then show ?case by simp
next
  case (Cons e es)
  obtain lid fs rs where e: "e = (lid, fs, rs)" by (cases e)
  have "cb\<lparr>fc_f := None, fc_run_final := True\<rparr> = cb" using Cons.prems by simp
  then have "cb_invoke lid fs rs cb = (cb, [])" using Cons.prems by (simp add: cb_invoke_def)
  with Cons e show ?case by simp
qed

lemma cb_events_active:
  assumes "fc_f cb = Some g" and "\<not> fc_run_final cb" and "fc_repeatable cb"
  shows "cb_events es cb =
    (if has_final es then cb\<lparr>fc_f := None, fc_run_final := True\<rparr> else cb,
     map (cb_spec_call g cb) (until_final es))"
  using assms
proof (induction es)
  case Nil
  then show ?case by (simp add: has_final_def)
next
  case (Cons e es)
  obtain lid fs rs where e: "e = (lid, fs, rs)" by (cases e)
  show ?case
  proof (cases "fs = SIGN_OF_LIFE")
    case True
    then have "cb_invoke lid fs rs cb = (cb, [cb_spec_call g cb e])"
      using Cons.prems by (simp add: cb_invoke_def cb_spec_call_def e)
    with Cons True e show ?thesis by (simp add: has_final_def)
  next
    case False
    then have "cb_invoke lid fs rs cb = (cb\<lparr>fc_f := None, fc_run_final := True\<rparr>, [cb_spec_call g cb e])"
      using Cons.prems by (simp add: cb_invoke_def cb_spec_call_def e)
    moreover have "cb_events es (cb\<lparr>fc_f := None, fc_run_final := True\<rparr>) = (cb\<lparr>fc_f := None, fc_run_final := True\<rparr>, [])"
      by (rule cb_events_silent) simp_all
    ultimately show ?thesis using False e by (simp add: has_final_def)
  qed
qed

text \<open>Before the application has given its function, the last event before the first final one counts.\<close>

lemma cb_events_deferred:
  assumes "fc_f cb = None" and "\<not> fc_run_final cb" and "fc_repeatable cb"
  shows "cb_events es cb =
    (if es = [] then cb else
       (case last (until_final es) of (lid, fs, rs) \<Rightarrow>
          cb\<lparr>fc_deferred := Some (fs, rs, call_index lid fs (fc_h cb)), fc_run_final := has_final es\<rparr>), [])"
  using assms
proof (induction es arbitrary: cb)
  case Nil
  then show ?case by (simp add: has_final_def)
next
  case (Cons e es)
  obtain lid fs rs where e: "e = (lid, fs, rs)" by (cases e)
  show ?case
  proof (cases "fs = SIGN_OF_LIFE")
    case True
    let ?cb = "cb\<lparr>fc_deferred := Some (fs, rs, call_index lid fs (fc_h cb))\<rparr>"
    have "cb_invoke lid fs rs cb = (?cb, [])"
      using Cons.prems True by (simp add: cb_invoke_def)
    moreover have "until_final es \<noteq> [] \<longleftrightarrow> es \<noteq> []" by (cases es rule: until_final.cases) auto
    ultimately show ?thesis using Cons.IH [of ?cb] Cons.prems True
      by (auto simp: has_final_def e split: prod.splits)
  next
    case False
    let ?cb = "cb\<lparr>fc_deferred := Some (fs, rs, call_index lid fs (fc_h cb)), fc_run_final := True\<rparr>"
    have "?cb\<lparr>fc_f := None\<rparr> = ?cb" using Cons.prems by simp
    then have "cb_invoke lid fs rs cb = (?cb, [])"
      using Cons.prems False by (simp add: cb_invoke_def)
    moreover have "cb_events es ?cb = (?cb, [])"
      by (rule cb_events_silent) (simp_all add: Cons.prems)
    ultimately show ?thesis using False e by (simp add: has_final_def)
  qed
qed


lemmas callback_simps =
  new_callback_def cb_invoke_def call_index_def cb_run_thread_def Reactivate_def Deactivate_def
  SetData_def HasRunFinal_def client_status_defs


text \<open>
  The comment in FalconCallback.h promises one call per registration.  An activation that delivers
  an event leaves the function in place, so a later event of another layer of the same handle is
  delivered as well; and an activation after an event that was delivered directly reads the deferred
  members, which nobody has written.
\<close>

lemma two_final_calls:
  "let (cb1, c1) = cb_invoke ''a'' DOWN_FROM_REMOTE 0 (new_callback None [''a'', ''h''] 0 True) in
   case Reactivate (Some 9) 0 cb1 of
     Inr (cb2, c2, late) \<Rightarrow> length (c1 @ c2 @ snd (cb_invoke ''h'' KILLED_BY_REMOTE 0 cb2)) = 2
   | Inl e \<Rightarrow> False"
  by (simp add: callback_simps)

lemma reactivate_reads_garbage:
  "Reactivate (Some 9) 0 (fst (cb_invoke ''a'' DOWN_FROM_REMOTE 0 (new_callback (Some 8) [''a''] 0 True)))
     = Inl Uninit_read"
  by (simp add: callback_simps)

text \<open>A status that was deferred before a function was set can be delivered after the final one.\<close>

lemma stale_sign_of_life:
  "let (cb1, c1) = cb_invoke ''a'' SIGN_OF_LIFE 0 (new_callback None [''a''] 0 True) in
   case Reactivate (Some 9) 0 cb1 of
     Inr (cb2, c2, late) \<Rightarrow>
       (let (cb3, c3) = cb_invoke ''a'' DOWN_FROM_REMOTE 7 cb2 in
        case Reactivate (Some 9) 0 cb3 of
          Inr (cb4, c4, late') \<Rightarrow> map cl_falcon (c1 @ c2 @ c3 @ c4) = [0, SIGN_OF_LIFE]
        | Inl e \<Rightarrow> False)
   | Inl e \<Rightarrow> False"
  by (simp add: callback_simps)

end
