(* ===== verification/FalconLayer.thy ===== *)
theory FalconLayer
  imports FalconCallback
begin

text \<open>
  The layers of the client library (client/FalconLayer.h, FalconLayer.cc, CallbackList.cc): a tree of
  objects that own their children through shared pointers and know their parents through weak ones,
  with the calls to the enforcers and the callback lists.  The watchdogs of the leaves are here as
  state; their thread is in theory Watchdog.
\<close>

section \<open>State\<close>

text \<open>
  A layer is known by a number, given in the order of creation; 0 is the base layer.
  \<open>ly_watchdog\<close> and \<open>ly_clnt\<close> tell whether \<open>watchdog_\<close> and \<open>clnt_\<close> are set.  A null pointer that
  \<open>children_[k]\<close> leaves behind is an absent key.
\<close>

record layer =
  ly_handle :: str
  ly_gen :: "gen_no list"
  ly_killable :: bool
  ly_cbs :: "nat list"
  ly_base :: bool
  ly_watchdog :: bool
  ly_parent :: "nat option"
  ly_children :: "(str, nat) smap"
  ly_leaves :: "str \<Rightarrow> int"
  ly_clnt :: bool
  ly_addr :: client_addr_t

text \<open>
  Where the thread of a watchdog is: waiting for its timeout, about to kill the target of a layer,
  waiting for the report after a kill, about to cancel the \<open>i\<close>-th pair of its lists (with the last value of
  \<open>curr_layer\<close>), killing at the base layer for ever, or finished.
\<close>

datatype dog_pc =
    DogWait
  | DogKill "nat option" str
  | DogRetry nat str timespec
  | DogCancel nat "nat option"
  | DogSpin nat
  | DogDone

text \<open>A watchdog is known by the number of the layer that has it.\<close>

record watchdog =
  wd_start :: "nat option"
  wd_target :: str
  wd_timeout :: timespec
  wd_stopping :: bool
  wd_aggravated :: bool
  wd_has_timeout :: bool
  wd_up_callback :: "nat option"
  wd_pp_list :: "nat list"
  wd_id_list :: "str list"
  wd_pc :: dog_pc

record falcon_request =
  rq_stop :: bool
  rq_idlist :: "str list"
  rq_data :: nat
  rq_lethal :: bool
  rq_cb :: "nat option"
  rq_e2etimeout :: "32 word"

text \<open>The builder: idle, or inside the loop of a request with its callback, \<open>i\<close> and \<open>curr_layer\<close>.\<close>

datatype builder_pc =
    BIdle
  | BLoop nat falcon_request nat int "nat option"

record falcon_target =
  ft_cb :: nat
  ft_top :: nat

text \<open>
  The client: the heap of layers and of callbacks, the watchdogs, \<open>layer_map_\<close> (weak pointers),
  the queue of requests with their numbers and the requests that were completed; then what the
  threads have done: the calls of the application's functions and the calls to the enforcers with
  the layer that made them.
\<close>

record fclient =
  fc_layers :: "(nat, layer) smap"
  fc_next :: nat
  fc_cbs :: "fcallback list"
  fc_dogs :: "(nat, watchdog) smap"
  fc_layer_map :: "u32 \<Rightarrow> nat option"
  fc_counter :: u32
  fc_addr :: client_addr_t
  fc_queue :: "(nat \<times> falcon_request) list"
  fc_requests :: nat
  fc_completed :: "(nat \<times> falcon_target) list"
  fc_builder :: builder_pc
  fc_calls :: "cb_call list"
  fc_sent :: "(nat \<times> spy_call) list"

abbreviation layer_of :: "fclient \<Rightarrow> nat \<Rightarrow> layer option" where
  "layer_of s i \<equiv> sm_get (fc_layers s) i"

abbreviation dog_of :: "fclient \<Rightarrow> nat \<Rightarrow> watchdog option" where
  "dog_of s d \<equiv> sm_get (fc_dogs s) d"

definition set_layer :: "nat \<Rightarrow> layer \<Rightarrow> fclient \<Rightarrow> fclient" where
  "set_layer i l s = s\<lparr>fc_layers := sm_put i l (fc_layers s)\<rparr>"

definition set_dog :: "nat \<Rightarrow> watchdog \<Rightarrow> fclient \<Rightarrow> fclient" where
  "set_dog d w s = s\<lparr>fc_dogs := sm_put d w (fc_dogs s)\<rparr>"

definition send_call :: "nat \<Rightarrow> spy_call \<Rightarrow> fclient \<Rightarrow> fclient" where
  "send_call i c s = s\<lparr>fc_sent := fc_sent s @ [(i, c)]\<rparr>"

section \<open>Reference counts\<close>

text \<open>
  The strong pointers of the stacks: the layer that a watchdog or the builder works on.
\<close>

definition dog_pins :: "watchdog \<Rightarrow> nat list" where
  "dog_pins w =
     (case wd_pc w of
        DogKill (Some i) t \<Rightarrow> [i] | DogRetry i t to \<Rightarrow> [i] | DogSpin i \<Rightarrow> [i]
      | DogCancel k (Some i) \<Rightarrow> [i] | _ \<Rightarrow> [])"

definition pins :: "fclient \<Rightarrow> nat list" where
  "pins s =
     0 # (case fc_builder s of BLoop c r j i (Some l) \<Rightarrow> [l] | _ \<Rightarrow> []) @
     concat (map (\<lambda>(d, w). dog_pins w) (fc_dogs s))"

text \<open>
  A layer lives while its parent lives and has it as a child, or a stack points to it.  Parents are
  created before their children, so one pass in the order of creation finds the living ones.
\<close>

definition owned_by :: "(nat, layer) smap \<Rightarrow> nat \<Rightarrow> layer \<Rightarrow> nat \<Rightarrow> bool" where
  "owned_by h i l p =
     (case sm_get h p of None \<Rightarrow> False | Some pl \<Rightarrow> sm_get (ly_children pl) (ly_handle l) = Some i)"

fun live_ids :: "nat list \<Rightarrow> (nat, layer) smap \<Rightarrow> nat list \<Rightarrow> (nat \<times> layer) list \<Rightarrow> nat list" where
  "live_ids roots h L [] = L"
| "live_ids roots h L ((i, l) # ls) =
     (if i \<in> set roots \<or>
         (case ly_parent l of None \<Rightarrow> False | Some p \<Rightarrow> p \<in> set L \<and> owned_by h i l p)
      then live_ids roots h (i # L) ls
      else live_ids roots h L ls)"

text \<open>The destructor: \<open>Watchdog::Stop\<close> starts a thread that sets \<open>stopping_\<close>.\<close>

definition Stop :: "watchdog \<Rightarrow> watchdog" where
  "Stop w = w\<lparr>wd_stopping := True\<rparr>"

definition collect :: "fclient \<Rightarrow> fclient" where
  "collect s =
     (let L = live_ids (pins s) (fc_layers s) [] (fc_layers s);
          dead = map fst (filter (\<lambda>(i, l). i \<notin> set L \<and> ly_watchdog l) (fc_layers s))
      in s\<lparr>fc_layers := filter (\<lambda>(i, l). i \<in> set L) (fc_layers s),
           fc_dogs := map (\<lambda>(d, w). (d, if d \<in> set dead then Stop w else w)) (fc_dogs s)\<rparr>)"

section \<open>Callback lists\<close>

definition CallbackList_Add :: "nat \<Rightarrow> layer \<Rightarrow> layer" where
  "CallbackList_Add c l = l\<lparr>ly_cbs := ly_cbs l @ [c]\<rparr>"

text \<open>One callback object is called.\<close>

definition invoke :: "str \<Rightarrow> u32 \<Rightarrow> u32 \<Rightarrow> nat \<Rightarrow> fclient \<Rightarrow> fclient" where
  "invoke lid fs rs c s =
     (let (cb, calls) = cb_invoke lid fs rs (fc_cbs s ! c) in
      s\<lparr>fc_cbs := (fc_cbs s)[c := cb], fc_calls := fc_calls s @ calls\<rparr>)"

text \<open>\<open>CallbackList::Run\<close> on the list of layer \<open>i\<close>: the list is emptied, then each is called.\<close>

definition RunCallbacks :: "nat \<Rightarrow> str \<Rightarrow> u32 \<Rightarrow> u32 \<Rightarrow> fclient \<Rightarrow> fclient" where
  "RunCallbacks i lid fs rs s =
     (case layer_of s i of
        None \<Rightarrow> s
      | Some l \<Rightarrow> fold (invoke lid fs rs) (ly_cbs l) (set_layer i (l\<lparr>ly_cbs := []\<rparr>) s))"

section \<open>Reports\<close>

text \<open>\<open>Watchdog::Pet\<close>, through \<open>FalconLayer::SetUpCallbackTime\<close>.\<close>

definition Pet :: "nat \<Rightarrow> fclient \<Rightarrow> fclient" where
  "Pet i s =
     (case dog_of s i of
        None \<Rightarrow> s
      | Some w \<Rightarrow>
          (case wd_up_callback w of
             None \<Rightarrow> s
           | Some c \<Rightarrow> invoke (wd_target w) SIGN_OF_LIFE 0 c s))"

definition SetUpCallbackTime :: "nat \<Rightarrow> fclient \<Rightarrow> fclient" where
  "SetUpCallbackTime i s =
     (case layer_of s i of None \<Rightarrow> s | Some l \<Rightarrow> (if ly_watchdog l then Pet i s else s))"

definition child_of :: "fclient \<Rightarrow> nat \<Rightarrow> str \<Rightarrow> (nat \<times> layer) option" where
  "child_of s p k =
     (case layer_of s p of
        None \<Rightarrow> None
      | Some pl \<Rightarrow>
          (case sm_get (ly_children pl) k of
             None \<Rightarrow> None
           | Some i \<Rightarrow> map_option (Pair i) (layer_of s i)))"

definition DoChildUp :: "nat \<Rightarrow> str \<Rightarrow> gen_no list \<Rightarrow> fclient \<Rightarrow> fclient" where
  "DoChildUp p child gen s =
     (case child_of s p child of
        None \<Rightarrow> s
      | Some (i, c) \<Rightarrow> (if gen_eq (ly_gen c) gen then SetUpCallbackTime i s else s))"

definition erase_child :: "nat \<Rightarrow> str \<Rightarrow> fclient \<Rightarrow> fclient" where
  "erase_child p child s =
     (case layer_of s p of
        None \<Rightarrow> s
      | Some pl \<Rightarrow> set_layer p (pl\<lparr>ly_children := sm_del child (ly_children pl)\<rparr>) s)"

definition DoChildDown :: "nat \<Rightarrow> str \<Rightarrow> gen_no list \<Rightarrow> u32 \<Rightarrow> u32 \<Rightarrow> fclient \<Rightarrow> fclient" where
  "DoChildDown p child gen fs rs s =
     (case child_of s p child of
        None \<Rightarrow> s
      | Some (i, c) \<Rightarrow>
          (if gen_eq (ly_gen c) gen
           then collect (erase_child p child (RunCallbacks i child fs rs s))
           else s))"

section \<open>Calls to the enforcers\<close>

text \<open>
  What comes back from \<open>clnt_call\<close>: the result buffer was cleared before, so a call that fails
  leaves \<open>FALCON_SUCCESS\<close> and an empty target in it.
\<close>

record rpc_reply =
  rp_stat :: clnt_stat
  rp_res :: spy_res

definition rpc_result :: "rpc_reply \<Rightarrow> clnt_stat \<times> spy_res" where
  "rpc_result r =
     (rp_stat r,
      if rp_stat r = RPC_SUCCESS then rp_res r
      else \<lparr>sr_target = \<lparr>tg_handle = [], tg_generation = []\<rparr>, sr_status = FALCON_SUCCESS\<rparr>)"

text \<open>\<open>InitRPCArgs\<close>: the target and the client's address of this layer.\<close>

definition InitRPCArgs :: "fclient \<Rightarrow> nat \<Rightarrow> str \<Rightarrow> gen_no list option \<Rightarrow> target_t" where
  "InitRPCArgs s p child gen =
     \<lparr>tg_handle = child,
      tg_generation =
        (case gen of
           Some g \<Rightarrow> g
         | None \<Rightarrow> (case child_of s p child of None \<Rightarrow> [] | Some (i, c) \<Rightarrow> ly_gen c))\<rparr>"

text \<open>\<open>clnt_call\<close> through a null client dereferences it.\<close>

definition clnt_call :: "nat \<Rightarrow> layer \<Rightarrow> spy_call \<Rightarrow> fclient \<Rightarrow> fclient res" where
  "clnt_call p pl c s = (if ly_clnt pl then Inr (send_call p c s) else Inl Null_deref)"

definition CancelChild :: "nat \<Rightarrow> str \<Rightarrow> fclient \<Rightarrow> (fclient \<times> bool) res" where
  "CancelChild p child s =
     (case layer_of s p of
        None \<Rightarrow> Inr (s, False)
      | Some pl \<Rightarrow>
          if ly_base pl then Inr (s, False)
          else
            let n = ly_leaves pl child - 1;
                s1 = set_layer p (pl\<lparr>ly_leaves := (ly_leaves pl)(child := n)\<rparr>) s
            in if n \<noteq> 0 then Inr (s1, False)
               else
                 res_bind
                   (clnt_call p pl
                      (SPY_CANCEL \<lparr>xa_target = InitRPCArgs s1 p child None, xa_client = ly_addr pl\<rparr>) s1)
                   (\<lambda>s2. Inr (s2, True)))"

text \<open>
  \<open>KillChild\<close>: the result and the state; at the base layer it never returns, which is the result
  \<open>None\<close>.
\<close>

definition KillChild :: "nat \<Rightarrow> str \<Rightarrow> rpc_reply \<Rightarrow> fclient \<Rightarrow> (fclient \<times> int option) res" where
  "KillChild p child reply s =
     (case layer_of s p of
        None \<Rightarrow> Inl Use_after_free
      | Some pl \<Rightarrow>
          if ly_base pl then Inr (s, None)
          else
            case child_of s p child of
              None \<Rightarrow> Inr (s, Some (- 1))
            | Some (i, c) \<Rightarrow>
                if \<not> ly_killable c then Inr (RunCallbacks i child FALCON_E2E_TIMEOUT 0 s, Some 0)
                else
                  res_bind (clnt_call p pl (SPY_KILL (InitRPCArgs s p child None)) s) (\<lambda>s1.
                    let (st, res) = rpc_result reply in
                    if st \<noteq> RPC_SUCCESS \<or> sr_status res \<noteq> FALCON_KILL_ACK then
                      if st = RPC_SUCCESS \<and> sr_status res = FALCON_LONG_DEAD
                      then Inr (RunCallbacks i child KILL_LONG_DEAD 0 s1, Some 0)
                      else Inr (s1, Some 1)
                    else Inr (s1, Some (- 1))))"

section \<open>New layers\<close>

text \<open>
  The lists that \<open>Watchdog::Run\<close> builds before its first wait: each layer from the parent of the
  leaf to the base layer with the child to cancel at it.  Parents have smaller numbers; the fuel is
  the number of the first layer plus one.
\<close>

fun ancestors :: "nat \<Rightarrow> (nat, layer) smap \<Rightarrow> nat option \<Rightarrow> str \<Rightarrow> (nat \<times> str) list" where
  "ancestors 0 h cur t = []"
| "ancestors (Suc n) h cur t =
     (case cur of
        None \<Rightarrow> []
      | Some i \<Rightarrow>
          (case sm_get h i of
             None \<Rightarrow> []
           | Some l \<Rightarrow> (i, t) # ancestors n h (ly_parent l) (ly_handle l)))"

definition new_watchdog :: "fclient \<Rightarrow> nat option \<Rightarrow> str \<Rightarrow> watchdog" where
  "new_watchdog s start t =
     (let ps = ancestors (case start of None \<Rightarrow> 0 | Some p \<Rightarrow> Suc p) (fc_layers s) start t in
      \<lparr>wd_start = start, wd_target = t, wd_timeout = \<lparr>tv_sec = 0, tv_nsec = 0\<rparr>, wd_stopping = False,
       wd_aggravated = False, wd_has_timeout = False, wd_up_callback = None,
       wd_pp_list = map fst ps, wd_id_list = map snd ps, wd_pc = DogWait\<rparr>)"

text \<open>
  The constructor; \<open>sock\<close> tells whether the socket and the RPC client could be created.
\<close>

definition new_layer ::
    "str \<Rightarrow> gen_no list \<Rightarrow> bool \<Rightarrow> nat option \<Rightarrow> client_addr_t \<Rightarrow> bool \<Rightarrow> bool \<Rightarrow> bool \<Rightarrow> fclient
      \<Rightarrow> (fclient \<times> nat) res" where
  "new_layer h g killable parent addr has_watchdog is_base sock s =
     (let i = fc_next s;
          l = \<lparr>ly_handle = h, ly_gen = g, ly_killable = killable, ly_cbs = [], ly_base = is_base,
               ly_watchdog = has_watchdog, ly_parent = parent, ly_children = [], ly_leaves = (\<lambda>_. 0),
               ly_clnt = (\<not> has_watchdog \<and> \<not> is_base), ly_addr = addr\<rparr>;
          s1 = (set_layer i l s)\<lparr>fc_next := Suc i\<rparr>
      in if has_watchdog then Inr (set_dog i (new_watchdog s parent h) s1, i)
         else if \<not> is_base then check sock (s1, i)
         else Inr (s1, i))"

text \<open>What the network gives to \<open>AddChild\<close>: the address look-up, the socket, and the two replies.\<close>

record add_env =
  ae_resolved :: bool
  ae_socket :: bool
  ae_gen :: rpc_reply
  ae_register :: rpc_reply

text \<open>\<open>children_[child] = ret; child_leaves_[child]++; ret->AddCallback(cb)\<close>.\<close>

definition AddCallback :: "nat \<Rightarrow> nat \<Rightarrow> fclient \<Rightarrow> fclient" where
  "AddCallback i cb s =
     (case layer_of s i of None \<Rightarrow> s | Some l \<Rightarrow> set_layer i (CallbackList_Add cb l) s)"

definition adopt :: "nat \<Rightarrow> str \<Rightarrow> nat \<Rightarrow> nat \<Rightarrow> fclient \<Rightarrow> fclient" where
  "adopt p child i cb s =
     (case layer_of s p of
        None \<Rightarrow> s
      | Some pl \<Rightarrow>
          AddCallback i cb
            (set_layer p (pl\<lparr>ly_children := sm_put child i (ly_children pl),
                            ly_leaves := (ly_leaves pl)(child := ly_leaves pl child + 1)\<rparr>) s))"

text \<open>\<open>kSecondsToMilliseconds * timeout\<close> as \<open>long\<close>, stored in 32 bits.\<close>

definition up_interval :: "bool \<Rightarrow> 32 word \<Rightarrow> 32 word" where
  "up_interval leaf timeout =
     (if leaf \<and> 0 \<le> sint timeout then word_of_int (1000 * sint timeout) else - 1)"

text \<open>
  \<open>AddChild\<close>.  The result \<open>None\<close> is a null pointer.
\<close>

definition AddChild ::
    "nat \<Rightarrow> str \<Rightarrow> bool \<Rightarrow> client_addr_t \<Rightarrow> 32 word \<Rightarrow> bool \<Rightarrow> nat option \<Rightarrow> nat \<Rightarrow> add_env \<Rightarrow> fclient
      \<Rightarrow> (fclient \<times> nat option) res" where
  "AddChild p child killable addr timeout leaf parent cb env s =
     (case layer_of s p of
        None \<Rightarrow> Inl Use_after_free
      | Some pl \<Rightarrow>
          case child_of s p child of
            Some (i, c) \<Rightarrow> Inr (AddCallback i cb s, Some i)
          | None \<Rightarrow>
              if \<not> leaf \<and> \<not> ae_resolved env then Inr (s, None)
              else if ly_base pl then
                res_bind (new_layer child (ly_gen pl) killable parent addr leaf False (ae_socket env) s)
                  (\<lambda>(s1, i). Inr (adopt p child i cb s1, Some i))
              else
                res_bind (clnt_call p pl (SPY_GET_GEN (InitRPCArgs s p child None)) s) (\<lambda>s1.
                  let (st, res) = rpc_result (ae_gen env); new_gen = tg_generation (sr_target res) in
                  if st \<noteq> RPC_SUCCESS \<or> sr_status res \<noteq> FALCON_GEN_RESP then Inr (s1, None)
                  else if \<not> IsChild (ly_gen pl) new_gen then Inr (s1, None)
                  else
                    res_bind
                      (clnt_call p pl
                        (SPY_REGISTER
                           \<lparr>ra_target = InitRPCArgs s1 p child (Some new_gen), ra_lethal = killable,
                            ra_up_interval_ms = up_interval leaf timeout, ra_client = ly_addr pl\<rparr>) s1)
                      (\<lambda>s2.
                        let (st', res') = rpc_result (ae_register env) in
                        if st' = RPC_SUCCESS \<and> sr_status res' = FALCON_REGISTER_ACK then
                          res_bind (new_layer child new_gen killable parent addr leaf False (ae_socket env) s2)
                            (\<lambda>(s3, i). Inr (adopt p child i cb s3, Some i))
                        else Inr (s2, None))))"

end
