(* ===== verification/FalconClient.thy ===== *)
theory FalconClient
  imports FalconLayer
begin

text \<open>
  The threads of the client library: the watchdog of a leaf (client/Watchdog.cc), the builder that
  works on the requests and the handlers of the reports (client/FalconClient.cc, client_ops.cc), and
  the functions that the application calls (client/client.cc).  A thread runs from one blocking point
  to the next in one step; a call to an enforcer belongs to the step, its reply is an input.
\<close>

section \<open>The thread of a watchdog\<close>

definition set_pc :: "nat \<Rightarrow> dog_pc \<Rightarrow> fclient \<Rightarrow> fclient" where
  "set_pc d pc s =
     (case dog_of s d of None \<Rightarrow> s | Some w \<Rightarrow> set_dog d (w\<lparr>wd_pc := pc\<rparr>) s)"

text \<open>\<open>lock()\<close> of a weak pointer.\<close>

definition weak_lock :: "fclient \<Rightarrow> nat option \<Rightarrow> nat option" where
  "weak_lock s p =
     (case p of None \<Rightarrow> None | Some i \<Rightarrow> (if layer_of s i = None then None else Some i))"

text \<open>
  The first loop, woken up by a signal or the time limit (\<open>ok\<close>: \<open>retval\<close> is 0 or \<open>ETIMEDOUT\<close>).
\<close>

definition dog_wait :: "nat \<Rightarrow> watchdog \<Rightarrow> bool \<Rightarrow> timespec \<Rightarrow> fclient \<Rightarrow> fclient res" where
  "dog_wait d w ok now s =
     (if \<not> ok then Inl Check_failed
      else if (\<not> wd_has_timeout w \<or> ts_gt (wd_timeout w) now) \<and> \<not> wd_stopping w \<and> \<not> wd_aggravated w
      then Inr s
      else Inr (set_pc d (DogKill (weak_lock s (wd_start w)) (wd_target w)) s))"

definition kFalconSpyRetry :: int where "kFalconSpyRetry = 3"

text \<open>\<open>curr_target = curr_layer->GetLayerId(); curr_layer = curr_layer->GetParent()\<close>.\<close>

definition dog_up :: "nat \<Rightarrow> nat \<Rightarrow> fclient \<Rightarrow> fclient res" where
  "dog_up d p s =
     (case layer_of s p of
        None \<Rightarrow> Inl Use_after_free
      | Some pl \<Rightarrow> Inr (collect (set_pc d (DogKill (weak_lock s (ly_parent pl)) (ly_handle pl)) s)))"

text \<open>One turn of the second loop up to the wait.\<close>

definition dog_kill ::
    "nat \<Rightarrow> watchdog \<Rightarrow> nat option \<Rightarrow> str \<Rightarrow> rpc_reply \<Rightarrow> timespec \<Rightarrow> fclient \<Rightarrow> fclient res" where
  "dog_kill d w cur t reply now s =
     (case cur of
        None \<Rightarrow> Inr (set_pc d (DogCancel 0 None) s)
      | Some p \<Rightarrow>
          if wd_stopping w then Inr (set_pc d (DogCancel 0 cur) s)
          else
            res_bind (KillChild p t reply s) (\<lambda>(s1, ret).
              case ret of
                None \<Rightarrow> Inr (set_pc d (DogSpin p) s1)
              | Some r \<Rightarrow>
                  if r = 0 then Inr (set_pc d (DogCancel 0 cur) s1)
                  else if r < 0
                  then Inr (set_pc d (DogRetry p t (now\<lparr>tv_sec := tv_sec now + kFalconSpyRetry\<rparr>)) s1)
                  else dog_up d p s1))"

text \<open>The wait in it, woken up.\<close>

definition dog_retry ::
    "nat \<Rightarrow> watchdog \<Rightarrow> nat \<Rightarrow> timespec \<Rightarrow> bool \<Rightarrow> timespec \<Rightarrow> fclient \<Rightarrow> fclient res" where
  "dog_retry d w p limit ok now s =
     (if \<not> ok then Inl Check_failed
      else if ts_gt limit now \<and> \<not> wd_stopping w then Inr s
      else dog_up d p s)"

text \<open>One turn of the third loop, or its end.\<close>

definition dog_cancel :: "nat \<Rightarrow> watchdog \<Rightarrow> nat \<Rightarrow> fclient \<Rightarrow> fclient res" where
  "dog_cancel d w k s =
     (if k < length (wd_pp_list w) then
        let cur = weak_lock s (Some (wd_pp_list w ! k)) in
        case cur of
          None \<Rightarrow> Inr (collect (set_pc d (DogCancel (Suc k) None) s))
        | Some p \<Rightarrow>
            res_bind (CancelChild p (wd_id_list w ! k) s) (\<lambda>(s1, sent).
              Inr (collect (set_pc d (DogCancel (Suc k) cur) s1)))
      else Inr (collect (set_pc d DogDone s)))"

text \<open>\<open>Watchdog::Run\<close>: a step of the thread with what it may learn in it.\<close>

definition dog_run :: "nat \<Rightarrow> bool \<Rightarrow> timespec \<Rightarrow> rpc_reply \<Rightarrow> fclient \<Rightarrow> fclient res" where
  "dog_run d ok now reply s =
     (case dog_of s d of
        None \<Rightarrow> Inr s
      | Some w \<Rightarrow>
          (case wd_pc w of
             DogWait \<Rightarrow> dog_wait d w ok now s
           | DogKill cur t \<Rightarrow> dog_kill d w cur t reply now s
           | DogRetry p t limit \<Rightarrow> dog_retry d w p limit ok now s
           | DogCancel k cur \<Rightarrow> dog_cancel d w k s
           | DogSpin p \<Rightarrow> Inr s
           | DogDone \<Rightarrow> Inr s))"

text \<open>\<open>StartTimer\<close> and \<open>StopTimer\<close>.\<close>

definition Watchdog_StartTimer :: "nat \<Rightarrow> 32 word \<Rightarrow> timespec \<Rightarrow> watchdog \<Rightarrow> watchdog" where
  "Watchdog_StartTimer cb timeout now w =
     w\<lparr>wd_up_callback := Some cb, wd_has_timeout := True,
       wd_timeout := now\<lparr>tv_sec := tv_sec now + sint timeout\<rparr>\<rparr>"

definition Watchdog_StopTimer :: "watchdog \<Rightarrow> watchdog" where
  "Watchdog_StopTimer w = w\<lparr>wd_has_timeout := False\<rparr>"

text \<open>\<open>Cancel\<close> locks \<open>watchdog_lock_\<close> where it should unlock it.\<close>

definition Watchdog_Cancel :: "watchdog \<Rightarrow> fclient res" where
  "Watchdog_Cancel w = Inl Self_deadlock"

section \<open>The client\<close>

definition client_start :: "client_addr_t \<Rightarrow> fclient" where
  "client_start a =
     \<lparr>fc_layers =
        [(0, \<lparr>ly_handle = [], ly_gen = [], ly_killable = False, ly_cbs = [], ly_base = True,
              ly_watchdog = False, ly_parent = None, ly_children = [], ly_leaves = (\<lambda>_. 0),
              ly_clnt = False, ly_addr = a\<lparr>ca_tag := 0\<rparr>\<rparr>)],
      fc_next = 1, fc_cbs = [], fc_dogs = [], fc_layer_map = (\<lambda>_. None), fc_counter = 0,
      fc_addr = a\<lparr>ca_tag := 0\<rparr>, fc_queue = [], fc_requests = 0, fc_completed = [],
      fc_builder = BIdle, fc_calls = [], fc_sent = []\<rparr>"

definition GetNextLayerId :: "fclient \<Rightarrow> u32 \<times> fclient" where
  "GetNextLayerId s = (let c = fc_counter s + 1 in (c, s\<lparr>fc_counter := c\<rparr>))"

definition GetLayer :: "u32 \<Rightarrow> fclient \<Rightarrow> nat option" where
  "GetLayer cid s = weak_lock s (fc_layer_map s cid)"

definition AddLayer :: "u32 \<Rightarrow> nat \<Rightarrow> fclient \<Rightarrow> fclient res" where
  "AddLayer cid i s =
     (if GetLayer cid s \<noteq> None then Inl Check_failed
      else Inr (s\<lparr>fc_layer_map := (fc_layer_map s)(cid \<mapsto> i)\<rparr>))"

definition ReceivedUp :: "u32 \<Rightarrow> str \<Rightarrow> gen_no list \<Rightarrow> fclient \<Rightarrow> fclient" where
  "ReceivedUp cid handle gen s =
     (case GetLayer cid s of None \<Rightarrow> s | Some p \<Rightarrow> DoChildUp p handle gen s)"

definition ReceivedDown :: "u32 \<Rightarrow> str \<Rightarrow> gen_no list \<Rightarrow> u32 \<Rightarrow> u32 \<Rightarrow> fclient \<Rightarrow> fclient" where
  "ReceivedDown cid handle gen fs rs s =
     (case GetLayer cid s of None \<Rightarrow> s | Some p \<Rightarrow> DoChildDown p handle gen fs rs s)"

definition client_up_1_svc :: "client_up_arg \<Rightarrow> fclient \<Rightarrow> fclient" where
  "client_up_1_svc arg s = ReceivedUp (up_tag arg) (up_handle arg) (up_generation arg) s"

definition client_down_1_svc :: "client_down_arg \<Rightarrow> fclient \<Rightarrow> fclient" where
  "client_down_1_svc arg s =
     (let fs = (if \<not> dn_killed arg \<and> \<not> dn_would_kill arg then DOWN_FROM_REMOTE
                else if dn_killed arg then KILLED_BY_REMOTE
                else REMOTE_WOULD_KILL)
      in ReceivedDown (dn_tag arg) (dn_handle arg) (dn_generation arg) fs (dn_layer_status arg) s)"

section \<open>The builder\<close>

definition set_builder :: "builder_pc \<Rightarrow> fclient \<Rightarrow> fclient" where
  "set_builder b s = s\<lparr>fc_builder := b\<rparr>"

text \<open>\<open>Complete\<close> of a request.\<close>

definition Complete :: "nat \<Rightarrow> falcon_target \<Rightarrow> fclient \<Rightarrow> fclient" where
  "Complete n t s = s\<lparr>fc_completed := fc_completed s @ [(n, t)]\<rparr>"

text \<open>The head of the loop: the next request.\<close>

definition builder_next :: "fclient \<Rightarrow> fclient" where
  "builder_next s =
     (case fc_queue s of
        [] \<Rightarrow> s
      | (n, r) # q \<Rightarrow>
          let s1 = s\<lparr>fc_queue := q\<rparr> in
          if rq_stop r then s1
          else
            let cb = length (fc_cbs s1);
                s2 = s1\<lparr>fc_cbs := fc_cbs s1 @ [new_callback (rq_cb r) (rq_idlist r) (rq_data r) True]\<rparr>
            in set_builder (BLoop n r cb (int (length (rq_idlist r)) - 1) (Some 0)) s2)"

text \<open>One turn of the loop over the layers of the handle, from the last to the first.\<close>

definition builder_layer ::
    "add_env \<Rightarrow> nat \<Rightarrow> falcon_request \<Rightarrow> nat \<Rightarrow> int \<Rightarrow> nat \<Rightarrow> fclient \<Rightarrow> fclient res" where
  "builder_layer env n r cb i p s =
     (let (tag, s1) = GetNextLayerId s in
      res_bind
        (AddChild p (rq_idlist r ! nat i) (rq_lethal r) ((fc_addr s1)\<lparr>ca_tag := tag\<rparr>) (rq_e2etimeout r)
           (i = 0) (Some p) cb env s1)
        (\<lambda>(s2, cur).
          res_bind
            (case cur of
               Some l \<Rightarrow> (if i \<noteq> 0 then AddLayer tag l s2 else Inr s2)
             | None \<Rightarrow> Inr s2)
            (\<lambda>s3. Inr (collect (set_builder (BLoop n r cb (i - 1) cur) s3)))))"

text \<open>
  After the loop: the error callback, for the element of the handle that \<open>i\<close> has come to, or the
  completed request.
\<close>

definition builder_done :: "nat \<Rightarrow> falcon_request \<Rightarrow> nat \<Rightarrow> int \<Rightarrow> nat option \<Rightarrow> fclient \<Rightarrow> fclient res" where
  "builder_done n r cb i cur s =
     (case cur of
        None \<Rightarrow>
          if i < 0 then Inl Bad_index
          else Inr (set_builder BIdle (invoke (rq_idlist r ! nat i) REGISTRATION_ERROR 0 cb s))
      | Some l \<Rightarrow>
          Inr (collect (set_builder BIdle (Complete n \<lparr>ft_cb = cb, ft_top = l\<rparr> s))))"

definition start_builder :: "add_env \<Rightarrow> fclient \<Rightarrow> fclient res" where
  "start_builder env s =
     (case fc_builder s of
        BIdle \<Rightarrow> Inr (builder_next s)
      | BLoop n r cb i cur \<Rightarrow>
          (case cur of
             Some p \<Rightarrow>
               (if i \<ge> 0 then builder_layer env n r cb i p s else builder_done n r cb i cur s)
           | None \<Rightarrow> builder_done n r cb i cur s))"

section \<open>The application's functions\<close>

definition enqueue :: "falcon_request \<Rightarrow> fclient \<Rightarrow> fclient" where
  "enqueue r s =
     s\<lparr>fc_queue := fc_queue s @ [(fc_requests s, r)], fc_requests := Suc (fc_requests s)\<rparr>"

definition StartMonitoring :: "str list \<Rightarrow> bool \<Rightarrow> nat option \<Rightarrow> nat \<Rightarrow> 32 word \<Rightarrow> fclient \<Rightarrow> fclient" where
  "StartMonitoring handle lethal cb cd e2e s =
     enqueue \<lparr>rq_stop = False, rq_idlist = handle, rq_data = cd, rq_lethal = lethal, rq_cb = cb,
              rq_e2etimeout = e2e\<rparr> s"

definition StopMonitoring :: "str list \<Rightarrow> fclient \<Rightarrow> fclient" where
  "StopMonitoring handle s =
     enqueue \<lparr>rq_stop = True, rq_idlist = handle, rq_data = 0, rq_lethal = False, rq_cb = None,
              rq_e2etimeout = - 1\<rparr> s"

text \<open>\<open>GetCompleted\<close>: the caller of \<open>init\<close> waits until the request has a target.\<close>

definition GetCompleted :: "nat \<Rightarrow> fclient \<Rightarrow> falcon_target option" where
  "GetCompleted n s = map_of (fc_completed s) n"

definition falcon_init :: "str list \<Rightarrow> bool \<Rightarrow> nat \<Rightarrow> 32 word \<Rightarrow> fclient \<Rightarrow> fclient" where
  "falcon_init ids lethal cd period s = StartMonitoring ids lethal None cd period s"

text \<open>The leaf's watchdog, when its layer is alive and has one.\<close>

definition target_dog :: "falcon_target \<Rightarrow> fclient \<Rightarrow> watchdog option" where
  "target_dog t s =
     (case layer_of s (ft_top t) of
        None \<Rightarrow> None
      | Some l \<Rightarrow> (if ly_watchdog l then dog_of s (ft_top t) else None))"

definition uninit :: "falcon_target \<Rightarrow> fclient \<Rightarrow> fclient res" where
  "uninit t s = (case target_dog t s of None \<Rightarrow> Inr s | Some w \<Rightarrow> Watchdog_Cancel w)"

definition startTimer :: "falcon_target \<Rightarrow> 32 word \<Rightarrow> timespec \<Rightarrow> fclient \<Rightarrow> fclient" where
  "startTimer t e2e now s =
     (if 0 < sint e2e then
        case target_dog t s of
          None \<Rightarrow> s
        | Some w \<Rightarrow> set_dog (ft_top t) (Watchdog_StartTimer (ft_cb t) e2e now w) s
      else s)"

definition setCallback :: "falcon_target \<Rightarrow> nat option \<Rightarrow> fclient \<Rightarrow> fclient res" where
  "setCallback t f s =
     res_bind (Reactivate f 0 (fc_cbs s ! ft_cb t)) (\<lambda>(cb, calls, late).
       Inr (s\<lparr>fc_cbs := (fc_cbs s)[ft_cb t := cb], fc_calls := fc_calls s @ calls\<rparr>))"

definition falcon_startMonitoring ::
    "falcon_target \<Rightarrow> nat option \<Rightarrow> 32 word \<Rightarrow> timespec \<Rightarrow> fclient \<Rightarrow> fclient res" where
  "falcon_startMonitoring t f e2e now s =
     res_bind (setCallback t f s) (\<lambda>s1. Inr (startTimer t e2e now s1))"

definition query_alive :: "falcon_target \<Rightarrow> fclient \<Rightarrow> bool" where
  "query_alive t s = (\<not> HasRunFinal (fc_cbs s ! ft_cb t))"

definition stopTimer :: "falcon_target \<Rightarrow> fclient \<Rightarrow> fclient" where
  "stopTimer t s =
     (case target_dog t s of
        None \<Rightarrow> s
      | Some w \<Rightarrow> set_dog (ft_top t) (Watchdog_StopTimer w) s)"

definition removeCallback :: "falcon_target \<Rightarrow> fclient \<Rightarrow> fclient" where
  "removeCallback t s =
     s\<lparr>fc_cbs := (fc_cbs s)[ft_cb t := Deactivate (fc_cbs s ! ft_cb t)]\<rparr>"

definition falcon_stopMonitoring :: "falcon_target \<Rightarrow> fclient \<Rightarrow> fclient" where
  "falcon_stopMonitoring t s = removeCallback t (stopTimer t s)"

unbundle bit_operations_syntax

definition status_msg :: "str list" where
  "status_msg =
     [''down, not killed'', ''down, killed'', ''down, would kill'', ''remote error'', ''unknown error'',
      ''end-to-end timeout expired'', ''down, learned from end-to-end timeout'', ''registration error'',
      ''signs of life'']"

text \<open>\<open>LogCallbackData\<close>: the layer and the message that it prints.\<close>

definition LogCallbackData :: "str list \<Rightarrow> u32 \<Rightarrow> u32 \<Rightarrow> (str \<times> str \<times> u32) res" where
  "LogCallbackData ids fs rs =
     (let idx = drop_bit 16 fs; st = fs XOR (push_bit 16 idx) in
      if unat idx < length ids \<and> unat st < length status_msg
      then Inr (ids ! unat idx, status_msg ! unat st, rs)
      else Inl Bad_index)"

section \<open>Steps\<close>

text \<open>
  The application can use the targets it was given; \<open>now\<close> is what \<open>clock_gettime\<close> returns.
\<close>

datatype client_event =
    CInit "str list" bool nat "32 word"
  | CStop "str list"
  | CBuild add_env
  | CUp client_up_arg
  | CDown client_down_arg
  | CDog nat bool timespec rpc_reply
  | CStartMonitoring nat "nat option" "32 word" timespec
  | CStartTimer nat "32 word" timespec
  | CStopMonitoring nat
  | CUninit nat

definition with_target :: "nat \<Rightarrow> fclient \<Rightarrow> (falcon_target \<Rightarrow> fclient res) \<Rightarrow> fclient res" where
  "with_target n s f = (case GetCompleted n s of None \<Rightarrow> Inr s | Some t \<Rightarrow> f t)"

fun client_step :: "client_event \<Rightarrow> fclient \<Rightarrow> fclient res" where
  "client_step (CInit ids lethal cd period) s = Inr (falcon_init ids lethal cd period s)"
| "client_step (CStop ids) s = Inr (StopMonitoring ids s)"
| "client_step (CBuild env) s = start_builder env s"
| "client_step (CUp arg) s = Inr (client_up_1_svc arg s)"
| "client_step (CDown arg) s = Inr (client_down_1_svc arg s)"
| "client_step (CDog d ok now reply) s = dog_run d ok now reply s"
| "client_step (CStartMonitoring n f e2e now) s =
     with_target n s (\<lambda>t. falcon_startMonitoring t f e2e now s)"
| "client_step (CStartTimer n e2e now) s = with_target n s (\<lambda>t. Inr (startTimer t e2e now s))"
| "client_step (CStopMonitoring n) s = with_target n s (\<lambda>t. Inr (falcon_stopMonitoring t s))"
| "client_step (CUninit n) s = with_target n s (\<lambda>t. uninit t s)"

inductive client_reachable :: "fclient \<Rightarrow> bool" where
  start: "client_reachable (client_start a)"
| step: "client_reachable s \<Longrightarrow> client_step e s = Inr s' \<Longrightarrow> client_reachable s'"

definition client_run :: "client_event list \<Rightarrow> fclient \<Rightarrow> fclient res" where
  "client_run es s = res_fold client_step es s"

end
