(* ===== verification/ClientInv.thy ===== *)
theory ClientInv
  imports FalconClient
begin

text \<open>
  The invariant of the client library and its preservation by every operation.
\<close>

section \<open>The invariant\<close>

text \<open>Layers form a tree of weak and strong pointers that agree; children are younger.\<close>

definition tree_inv :: "fclient \<Rightarrow> bool" where
  "tree_inv s \<longleftrightarrow>
     sm_ok (fc_layers s) \<and> (\<exists>l. layer_of s 0 = Some l) \<and>
     (\<forall>i l. layer_of s i = Some l \<longrightarrow>
        i < fc_next s \<and> (ly_base l \<longleftrightarrow> i = 0) \<and>
        (\<forall>p. ly_parent l = Some p \<longrightarrow> p < i) \<and>
        (\<forall>k j. sm_get (ly_children l) k = Some j \<longrightarrow>
           (\<exists>c. layer_of s j = Some c \<and> ly_handle c = k \<and> ly_parent c = Some i)))"

definition finished :: "fclient \<Rightarrow> nat \<Rightarrow> bool" where
  "finished s c \<longleftrightarrow> fc_run_final (fc_cbs s ! c)"

text \<open>The callback \<open>c\<close> is registered with the layer \<open>i\<close>; the base layer knows of every callback.\<close>

definition knows :: "fclient \<Rightarrow> nat \<Rightarrow> nat \<Rightarrow> bool" where
  "knows s i c \<longleftrightarrow> (\<exists>l. layer_of s i = Some l \<and> (i = 0 \<or> c \<in> set (ly_cbs l)))"

definition attached :: "fclient \<Rightarrow> nat \<Rightarrow> layer \<Rightarrow> nat \<Rightarrow> bool" where
  "attached s i l p \<longleftrightarrow> ly_parent l = Some p \<and> owned_by (fc_layers s) i l p"

text \<open>
  A layer that has a callback without a final event hangs in the tree, and its parent has the
  callback as well.
\<close>

definition cb_inv :: "fclient \<Rightarrow> bool" where
  "cb_inv s \<longleftrightarrow>
     (\<forall>i l c. layer_of s i = Some l \<longrightarrow> c \<in> set (ly_cbs l) \<longrightarrow>
        c < length (fc_cbs s) \<and> (finished s c \<or> (\<exists>p. attached s i l p \<and> knows s p c)))"

definition tgt_inv :: "fclient \<Rightarrow> bool" where
  "tgt_inv s \<longleftrightarrow>
     (\<forall>(n, t) \<in> set (fc_completed s).
        ft_cb t < length (fc_cbs s) \<and> (finished s (ft_cb t) \<or> knows s (ft_top t) (ft_cb t)))"

definition bld_inv :: "fclient \<Rightarrow> bool" where
  "bld_inv s \<longleftrightarrow>
     (case fc_builder s of
        BIdle \<Rightarrow> True
      | BLoop n r cb i cur \<Rightarrow>
          cb < length (fc_cbs s) \<and> i < int (length (rq_idlist r)) \<and>
          (\<forall>p. cur = Some p \<longrightarrow> finished s cb \<or> knows s p cb))"

definition pin_inv :: "fclient \<Rightarrow> bool" where
  "pin_inv s \<longleftrightarrow> (\<forall>x \<in> set (pins s). layer_of s x \<noteq> None)"

definition dog_inv :: "fclient \<Rightarrow> bool" where
  "dog_inv s \<longleftrightarrow>
     (\<forall>i l. layer_of s i = Some l \<longrightarrow> ly_watchdog l \<longrightarrow>
        (\<exists>w. dog_of s i = Some w \<and> wd_target w = ly_handle l \<and> wd_start w = ly_parent l)) \<and>
     (\<forall>d w. dog_of s d = Some w \<longrightarrow>
        d < fc_next s \<and> (layer_of s d = None \<longrightarrow> wd_stopping w) \<and>
        (\<forall>l. layer_of s d = Some l \<longrightarrow> ly_watchdog l) \<and>
        (\<forall>c. wd_up_callback w = Some c \<longrightarrow> c < length (fc_cbs s))) \<and>
     sm_ok (fc_dogs s)"

definition client_inv :: "fclient \<Rightarrow> bool" where
  "client_inv s \<longleftrightarrow>
     tree_inv s \<and> cb_inv s \<and> tgt_inv s \<and> bld_inv s \<and> pin_inv s \<and> dog_inv s"

lemmas inv_defs =
  client_inv_def tree_inv_def cb_inv_def tgt_inv_def bld_inv_def pin_inv_def dog_inv_def

lemma client_invD:
  assumes "client_inv s"
  shows "tree_inv s" "cb_inv s" "tgt_inv s" "bld_inv s" "pin_inv s" "dog_inv s"
  using assms by (simp_all add: client_inv_def)

lemma cb_invD:
  assumes "cb_inv s" and "layer_of s i = Some l" and "c \<in> set (ly_cbs l)"
  shows "c < length (fc_cbs s)" "finished s c \<or> (\<exists>p. attached s i l p \<and> knows s p c)"
  using assms by (auto simp: cb_inv_def)

lemma dog_invD:
  assumes "dog_inv s"
  shows "layer_of s i = Some l \<Longrightarrow> ly_watchdog l \<Longrightarrow>
      \<exists>w. dog_of s i = Some w \<and> wd_target w = ly_handle l \<and> wd_start w = ly_parent l"
    "dog_of s d = Some w \<Longrightarrow> d < fc_next s"
    "dog_of s d = Some w \<Longrightarrow> layer_of s d = None \<Longrightarrow> wd_stopping w"
    "dog_of s d = Some w \<Longrightarrow> layer_of s d = Some l \<Longrightarrow> ly_watchdog l"
    "dog_of s d = Some w \<Longrightarrow> wd_up_callback w = Some c \<Longrightarrow> c < length (fc_cbs s)"
  using assms unfolding dog_inv_def by blast+

section \<open>The living layers\<close>

lemma live_ids_bounds:
  "set L \<subseteq> set (live_ids roots h L ls) \<and> set (live_ids roots h L ls) \<subseteq> set L \<union> fst ` set ls"
  by (induction roots h L ls rule: live_ids.induct) auto

lemma live_ids_iff:
  assumes "sorted_wrt (<) (map fst ls)" and "\<forall>x\<in>set L. \<forall>(i, l)\<in>set ls. x < i"
    and "\<forall>(i, l)\<in>set ls. \<forall>p. ly_parent l = Some p \<longrightarrow> p < i" and "(i, l) \<in> set ls"
  shows "i \<in> set (live_ids roots h L ls) \<longleftrightarrow>
    i \<in> set roots \<or> (\<exists>p. ly_parent l = Some p \<and> p \<in> set (live_ids roots h L ls) \<and> owned_by h i l p)"
  using assms
proof (induction roots h L ls arbitrary: rule: live_ids.induct)
  case (1 roots h L)
  then show ?case by simp
next
  case (2 roots h L j m ls)
  let ?keep = "j \<in> set roots \<or>
    (case ly_parent m of None \<Rightarrow> False | Some p \<Rightarrow> p \<in> set L \<and> owned_by h j m p)"
  define L' where "L' = (if ?keep then j # L else L)"
  have R: "live_ids roots h L ((j, m) # ls) = live_ids roots h L' ls" by (simp add: L'_def)
  have L': "\<forall>x\<in>set L'. \<forall>(i, l)\<in>set ls. x < i"
    using "2.prems"(1,2) by (auto simp: L'_def)
  show ?case
  proof (cases "(i, l) \<in> set ls")
    case True
    then show ?thesis
      using "2.IH" "2.prems"(1,3) L' unfolding R
      by (cases ?keep) (simp_all add: L'_def split del: if_split)
  next
    case False
    then have ij: "i = j" "l = m" using "2.prems"(4) by auto
    have new: "x \<in> set (live_ids roots h L' ls) \<longleftrightarrow> x \<in> set L'" if "x \<le> j" for x
      using live_ids_bounds [of L' roots h ls] "2.prems"(1) that by fastforce
    have jL: "j \<notin> set L" using "2.prems"(2) by auto
    have "j \<in> set (live_ids roots h L' ls) \<longleftrightarrow> ?keep" using new [of j] jL by (simp add: L'_def)
    also have "\<dots> \<longleftrightarrow> j \<in> set roots \<or>
        (\<exists>p. ly_parent m = Some p \<and> p \<in> set (live_ids roots h L' ls) \<and> owned_by h j m p)"
    proof (cases "ly_parent m")
      case None
      then show ?thesis by simp
    next
      case (Some p)
      then have "p < j" using "2.prems"(3) by auto
      then have "p \<in> set (live_ids roots h L' ls) \<longleftrightarrow> p \<in> set L" using new [of p] by (auto simp: L'_def)
      with Some show ?thesis by simp
    qed
    finally show ?thesis using ij R by simp
  qed
qed

definition alive :: "fclient \<Rightarrow> nat set" where
  "alive s = set (live_ids (pins s) (fc_layers s) [] (fc_layers s))"

lemma alive_iff:
  assumes "tree_inv s" and "layer_of s i = Some l"
  shows "i \<in> alive s \<longleftrightarrow> i \<in> set (pins s) \<or> (\<exists>p. attached s i l p \<and> p \<in> alive s)"
proof -
  have ok: "sm_ok (fc_layers s)" using assms(1) by (simp add: tree_inv_def)
  have "\<forall>(i, l)\<in>set (fc_layers s). \<forall>p. ly_parent l = Some p \<longrightarrow> p < i"
    using assms(1) sm_ok_in_iff [OF ok] by (fastforce simp: tree_inv_def)
  with ok assms(2) show ?thesis
    unfolding alive_def attached_def
    by (subst live_ids_iff [of "fc_layers s" "[]" i l])
      (auto simp: sm_ok_def sm_keys_def sm_get_Some_in)
qed

lemma map_of_filter_key: "map_of (filter (\<lambda>(i, l). P i) xs) k = (if P k then map_of xs k else None)"
  by (induction xs) auto

lemma collect_layer:
  "layer_of (collect s) i = (if i \<in> alive s then layer_of s i else None)"
  using map_of_filter_key [of "\<lambda>i. i \<in> alive s" "fc_layers s" i]
  by (simp add: collect_def Let_def alive_def sm_get_def)

lemma map_of_map_val: "map_of (map (\<lambda>(k, v). (k, f k v)) xs) d = map_option (f d) (map_of xs d)"
  by (induction xs) auto

definition dead_dog :: "fclient \<Rightarrow> nat \<Rightarrow> bool" where
  "dead_dog s d \<longleftrightarrow> d \<notin> alive s \<and> (\<exists>l. (d, l) \<in> set (fc_layers s) \<and> ly_watchdog l)"

lemma collect_dog:
  "dog_of (collect s) d = map_option (\<lambda>w. if dead_dog s d then Stop w else w) (dog_of s d)"
proof -
  have "(d \<in> set (map fst (filter (\<lambda>(i, l). i \<notin> alive s \<and> ly_watchdog l) (fc_layers s)))) = dead_dog s d" for d
    by (force simp: dead_dog_def)
  then have "fc_dogs (collect s) = map (\<lambda>(d, w). (d, if dead_dog s d then Stop w else w)) (fc_dogs s)"
    by (simp add: collect_def Let_def alive_def [symmetric])
  then show ?thesis
    using map_of_map_val [of "\<lambda>d w. if dead_dog s d then Stop w else w" "fc_dogs s" d]
    by (simp add: sm_get_def)
qed

lemma collect_frame [simp]:
  "fc_next (collect s) = fc_next s" "fc_cbs (collect s) = fc_cbs s"
  "fc_completed (collect s) = fc_completed s" "fc_builder (collect s) = fc_builder s"
  "fc_layer_map (collect s) = fc_layer_map s" "fc_counter (collect s) = fc_counter s"
  "fc_calls (collect s) = fc_calls s" "fc_sent (collect s) = fc_sent s"
  "fc_queue (collect s) = fc_queue s" "fc_requests (collect s) = fc_requests s"
  "fc_addr (collect s) = fc_addr s"
  by (simp_all add: collect_def Let_def)

lemma Stop_simps [simp]:
  "wd_pc (Stop w) = wd_pc w" "wd_target (Stop w) = wd_target w" "wd_start (Stop w) = wd_start w"
  "wd_up_callback (Stop w) = wd_up_callback w" "wd_stopping (Stop w)"
  "dog_pins (Stop w) = dog_pins w"
  by (simp_all add: Stop_def dog_pins_def)

lemma collect_pins [simp]: "pins (collect s) = pins s"
proof -
  have "map (\<lambda>(d, w). dog_pins w) (fc_dogs (collect s)) = map (\<lambda>(d, w). dog_pins w) (fc_dogs s)"
    by (auto simp: collect_def Let_def)
  then show ?thesis by (simp add: pins_def)
qed

lemma collect_ok: "sm_ok (fc_layers s) \<Longrightarrow> sm_ok (fc_layers (collect s))"
  and collect_dogs_ok: "sm_ok (fc_dogs s) \<Longrightarrow> sm_ok (fc_dogs (collect s))"
  by (auto simp: collect_def Let_def sm_ok_def sm_keys_def sorted_wrt_map case_prod_beta
      intro: sorted_wrt_filter)

text \<open>A layer that knows of a callback without a final event is alive.\<close>

lemma knows_alive:
  assumes "tree_inv s" and "cb_inv s" and "knows s i c" and "\<not> finished s c"
  shows "i \<in> alive s"
  using assms(3)
proof (induction i rule: less_induct)
  case (less i)
  then obtain l where l: "layer_of s i = Some l" "i = 0 \<or> c \<in> set (ly_cbs l)"
    by (auto simp: knows_def)
  show ?case
  proof (cases "i = 0")
    case True
    then show ?thesis using alive_iff [OF assms(1) l(1)] by (simp add: pins_def)
  next
    case False
    then obtain p where p: "attached s i l p" "knows s p c"
      using l cb_invD(2) [OF assms(2)] assms(4) by blast
    moreover have "p < i" using p(1) l(1) assms(1) by (auto simp: tree_inv_def attached_def)
    ultimately show ?thesis using less.IH alive_iff [OF assms(1) l(1)] by blast
  qed
qed

lemma collect_finished [simp]: "finished (collect s) c = finished s c"
  by (simp add: finished_def)

lemma collect_knows:
  assumes "tree_inv s" and "cb_inv s" and "knows s i c" and "\<not> finished s c"
  shows "knows (collect s) i c"
  using knows_alive [OF assms] assms(3) by (simp add: knows_def collect_layer)

lemma collect_tree: "tree_inv s \<Longrightarrow> tree_inv (collect s)"
proof -
  assume t: "tree_inv s"
  have z: "0 \<in> alive s"
    using t alive_iff [OF t] by (auto simp: tree_inv_def pins_def)
  have ch: "j \<in> alive s"
    if h: "layer_of s i = Some l" "i \<in> alive s" "sm_get (ly_children l) k = Some j" for i l k j
  proof -
    obtain c where c: "layer_of s j = Some c" "ly_handle c = k" "ly_parent c = Some i"
      using t h(1,3) unfolding tree_inv_def by blast
    then have "attached s j c i" using h by (simp add: attached_def owned_by_def)
    with h(2) alive_iff [OF t c(1)] show ?thesis by blast
  qed
  show ?thesis
    using t z ch by (fastforce simp: tree_inv_def collect_layer collect_ok split: if_splits)
qed

lemma attached_collect:
  assumes "attached s i l p" and "p \<in> alive s"
  shows "attached (collect s) i l p"
  using assms by (auto simp: attached_def owned_by_def collect_layer split: option.splits)

lemma collect_cb:
  assumes "tree_inv s" and "cb_inv s"
  shows "cb_inv (collect s)"
  unfolding cb_inv_def
proof (intro allI impI)
  fix i l c
  assume l: "layer_of (collect s) i = Some l" and c: "c \<in> set (ly_cbs l)"
  then have l': "layer_of s i = Some l" by (simp add: collect_layer split: if_splits)
  show "c < length (fc_cbs (collect s)) \<and>
    (finished (collect s) c \<or> (\<exists>p. attached (collect s) i l p \<and> knows (collect s) p c))"
  proof (cases "finished s c")
    case True
    then show ?thesis using assms(2) l' c by (auto simp: cb_inv_def)
  next
    case False
    then obtain p where p: "attached s i l p" "knows s p c" "c < length (fc_cbs s)"
      using assms(2) l' c unfolding cb_inv_def by blast
    with False assms attached_collect [OF p(1) knows_alive [OF assms p(2) False]]
      collect_knows [OF assms p(2) False] show ?thesis by auto
  qed
qed

lemma collect_inv: "client_inv s \<Longrightarrow> client_inv (collect s)"
proof -
  assume i: "client_inv s"
  note t = client_invD(1) [OF i] and c = client_invD(2) [OF i]
  have "tgt_inv (collect s)"
    using client_invD(3) [OF i] collect_knows [OF t c] by (fastforce simp: tgt_inv_def)
  moreover have "bld_inv (collect s)"
    using client_invD(4) [OF i] collect_knows [OF t c]
    by (fastforce simp: bld_inv_def split: builder_pc.splits)
  moreover have "pin_inv (collect s)"
    using client_invD(5) [OF i] alive_iff [OF t] by (fastforce simp: pin_inv_def collect_layer)
  moreover have "dog_inv (collect s)"
  proof -
    have d: "dog_inv s" by (fact client_invD(6) [OF i])
    have "wd_stopping w" if h: "dog_of (collect s) d = Some w" "layer_of (collect s) d = None" for d w
    proof (cases "layer_of s d")
      case None
      then show ?thesis using h d by (auto simp: dog_inv_def collect_dog split: if_splits)
    next
      case (Some l)
      with h(2) have "d \<notin> alive s" by (simp add: collect_layer split: if_splits)
      moreover obtain w' where "dog_of s d = Some w'" "w = (if dead_dog s d then Stop w' else w')"
        using h(1) by (auto simp: collect_dog)
      moreover from this Some d have "ly_watchdog l" unfolding dog_inv_def by blast
      ultimately show ?thesis using Some by (auto simp: dead_dog_def sm_get_Some_in)
    qed
    moreover have "\<exists>w. dog_of (collect s) i = Some w \<and> wd_target w = ly_handle l \<and> wd_start w = ly_parent l"
      if h: "layer_of (collect s) i = Some l" "ly_watchdog l" for i l
    proof -
      have "layer_of s i = Some l" using h(1) by (simp add: collect_layer split: if_splits)
      then obtain w where "dog_of s i = Some w" "wd_target w = ly_handle l" "wd_start w = ly_parent l"
        using dog_invD(1) [OF d _ h(2)] by blast
      then show ?thesis by (cases "dead_dog s i") (simp_all add: collect_dog)
    qed
    moreover have "d < fc_next s \<and> (\<forall>l. layer_of (collect s) d = Some l \<longrightarrow> ly_watchdog l) \<and>
        (\<forall>c. wd_up_callback w = Some c \<longrightarrow> c < length (fc_cbs s))"
      if h: "dog_of (collect s) d = Some w" for d w
    proof -
      obtain w' where "dog_of s d = Some w'" "w = (if dead_dog s d then Stop w' else w')"
        using h by (auto simp: collect_dog)
      then show ?thesis using dog_invD(2-5) [OF d] by (auto simp: collect_layer split: if_splits)
    qed
    ultimately show ?thesis using collect_dogs_ok [of s] d by (simp add: dog_inv_def)
  qed
  ultimately show ?thesis using collect_tree [OF t] collect_cb [OF t c] by (simp add: client_inv_def)
qed


section \<open>Callbacks\<close>

lemma invoke_frame [simp]:
  "fc_layers (invoke lid fs rs c s) = fc_layers s" "fc_next (invoke lid fs rs c s) = fc_next s"
  "fc_dogs (invoke lid fs rs c s) = fc_dogs s" "fc_builder (invoke lid fs rs c s) = fc_builder s"
  "fc_completed (invoke lid fs rs c s) = fc_completed s" "fc_layer_map (invoke lid fs rs c s) = fc_layer_map s"
  "fc_counter (invoke lid fs rs c s) = fc_counter s" "fc_sent (invoke lid fs rs c s) = fc_sent s"
  "fc_queue (invoke lid fs rs c s) = fc_queue s" "fc_requests (invoke lid fs rs c s) = fc_requests s"
  "fc_addr (invoke lid fs rs c s) = fc_addr s"
  "length (fc_cbs (invoke lid fs rs c s)) = length (fc_cbs s)"
  "pins (invoke lid fs rs c s) = pins s"
  by (simp_all add: invoke_def pins_def split: prod.splits)

lemma invoke_nth:
  "c < length (fc_cbs s) \<Longrightarrow> fc_cbs (invoke lid fs rs c s) ! d =
     (if d = c then fst (cb_invoke lid fs rs (fc_cbs s ! c)) else fc_cbs s ! d)"
  by (simp add: invoke_def nth_list_update split: prod.splits)

lemma invoke_finished:
  assumes "c < length (fc_cbs s)"
  shows "finished s d \<Longrightarrow> finished (invoke lid fs rs c s) d"
    and "fs \<noteq> SIGN_OF_LIFE \<Longrightarrow> finished (invoke lid fs rs c s) c"
  using assms by (auto simp: finished_def invoke_nth cb_invoke_final_mono cb_invoke_final)

text \<open>A state whose callbacks have only progressed.\<close>

definition cbs_progress :: "fclient \<Rightarrow> fclient \<Rightarrow> bool" where
  "cbs_progress s s' \<longleftrightarrow>
     length (fc_cbs s') = length (fc_cbs s) \<and> (\<forall>c. finished s c \<longrightarrow> finished s' c)"

text \<open>What callbacks, messages and requests do is not seen by the invariant.\<close>

lemma inv_cong:
  assumes "client_inv s" and "cbs_progress s s'" and "fc_layers s' = fc_layers s"
    and "fc_next s' = fc_next s" and "fc_dogs s' = fc_dogs s" and "fc_builder s' = fc_builder s"
    and "fc_completed s' = fc_completed s"
  shows "client_inv s'"
proof -
  note t = client_invD [OF assms(1)]
  have k: "knows s' = knows s" "attached s' = attached s"
    using assms(3) by (simp_all add: fun_eq_iff knows_def attached_def)
  have f: "finished s c \<Longrightarrow> finished s' c" "length (fc_cbs s') = length (fc_cbs s)" for c
    using assms(2) by (auto simp: cbs_progress_def)
  have "tree_inv s'" using t(1) assms(3,4) by (simp add: tree_inv_def)
  moreover have "cb_inv s'"
    unfolding cb_inv_def assms(3) k f(2) using cb_invD [OF t(2)] f(1) by blast
  moreover have "tgt_inv s'" using t(3) k f assms(7) by (fastforce simp: tgt_inv_def)
  moreover have "bld_inv s'" using t(4) k f assms(6) by (fastforce simp: bld_inv_def split: builder_pc.splits)
  moreover have "pin_inv s'" using t(5) assms(3,5,6) by (simp add: pin_inv_def pins_def)
  moreover have "dog_inv s'" using t(6) assms(3-5) f by (simp add: dog_inv_def)
  ultimately show ?thesis by (simp add: client_inv_def)
qed

lemma invoke_inv: "client_inv s \<Longrightarrow> c < length (fc_cbs s) \<Longrightarrow> client_inv (invoke lid fs rs c s)"
  by (erule inv_cong) (simp_all add: cbs_progress_def invoke_finished)

lemma Pet_inv: "client_inv s \<Longrightarrow> client_inv (Pet i s)"
  using dog_invD(5) [OF client_invD(6)]
  by (auto simp: Pet_def intro: invoke_inv split: option.splits)

lemma DoChildUp_inv: "client_inv s \<Longrightarrow> client_inv (DoChildUp p k g s)"
  by (auto simp: DoChildUp_def SetUpCallbackTime_def intro: Pet_inv split: option.splits)

lemma fold_invoke:
  assumes "\<forall>c\<in>set cs. c < length (fc_cbs s)"
  shows "cbs_progress s (fold (invoke lid fs rs) cs s)"
    and "fs \<noteq> SIGN_OF_LIFE \<Longrightarrow> c \<in> set cs \<Longrightarrow> finished (fold (invoke lid fs rs) cs s) c"
proof -
  have "cbs_progress s (fold (invoke lid fs rs) cs s) \<and>
     (fs \<noteq> SIGN_OF_LIFE \<longrightarrow> (\<forall>c\<in>set cs. finished (fold (invoke lid fs rs) cs s) c))"
    using assms
  proof (induction cs arbitrary: s)
    case Nil
    then show ?case by (simp add: cbs_progress_def)
  next
    case (Cons a cs)
    let ?s = "invoke lid fs rs a s"
    have "cbs_progress ?s (fold (invoke lid fs rs) cs ?s) \<and>
       (fs \<noteq> SIGN_OF_LIFE \<longrightarrow> (\<forall>c\<in>set cs. finished (fold (invoke lid fs rs) cs ?s) c))"
      using Cons by simp
    moreover have "cbs_progress s ?s" "fs \<noteq> SIGN_OF_LIFE \<Longrightarrow> finished ?s a"
      using Cons.prems invoke_finished [of a s] by (auto simp: cbs_progress_def)
    ultimately show ?case by (auto simp: cbs_progress_def)
  qed
  then show "cbs_progress s (fold (invoke lid fs rs) cs s)"
    and "fs \<noteq> SIGN_OF_LIFE \<Longrightarrow> c \<in> set cs \<Longrightarrow> finished (fold (invoke lid fs rs) cs s) c"
    by auto
qed

lemma fold_invoke_frame [simp]:
  "fc_layers (fold (invoke lid fs rs) cs s) = fc_layers s"
  "fc_next (fold (invoke lid fs rs) cs s) = fc_next s"
  "fc_dogs (fold (invoke lid fs rs) cs s) = fc_dogs s"
  "fc_builder (fold (invoke lid fs rs) cs s) = fc_builder s"
  "fc_completed (fold (invoke lid fs rs) cs s) = fc_completed s"
  "fc_layer_map (fold (invoke lid fs rs) cs s) = fc_layer_map s"
  "fc_counter (fold (invoke lid fs rs) cs s) = fc_counter s"
  "fc_sent (fold (invoke lid fs rs) cs s) = fc_sent s"
  by (induction cs arbitrary: s) simp_all


section \<open>Updates of one layer\<close>

lemma set_layer_frame [simp]:
  "fc_next (set_layer i l s) = fc_next s" "fc_cbs (set_layer i l s) = fc_cbs s"
  "fc_dogs (set_layer i l s) = fc_dogs s" "fc_builder (set_layer i l s) = fc_builder s"
  "fc_completed (set_layer i l s) = fc_completed s" "fc_layer_map (set_layer i l s) = fc_layer_map s"
  "fc_counter (set_layer i l s) = fc_counter s" "fc_sent (set_layer i l s) = fc_sent s"
  "fc_calls (set_layer i l s) = fc_calls s"
  "fc_queue (set_layer i l s) = fc_queue s" "fc_requests (set_layer i l s) = fc_requests s"
  "fc_addr (set_layer i l s) = fc_addr s"
  "pins (set_layer i l s) = pins s" "finished (set_layer i l s) c = finished s c"
  "layer_of (set_layer i l s) j = (if j = i then Some l else layer_of s j)"
  by (simp_all add: set_layer_def pins_def finished_def)

lemma tree_invD:
  assumes "tree_inv s" and "layer_of s i = Some l"
  shows "i < fc_next s" "ly_base l \<longleftrightarrow> i = 0" "ly_parent l = Some p \<Longrightarrow> p < i"
    "sm_get (ly_children l) k = Some j \<Longrightarrow>
       \<exists>c. layer_of s j = Some c \<and> ly_handle c = k \<and> ly_parent c = Some i"
  using assms unfolding tree_inv_def by blast+

text \<open>
  A layer keeps its place, may lose finished callbacks and children without open callbacks, and
  may get callbacks that its parent knows.
\<close>

definition layer_change :: "fclient \<Rightarrow> nat \<Rightarrow> layer \<Rightarrow> layer \<Rightarrow> bool" where
  "layer_change s i l l' \<longleftrightarrow>
     ly_handle l' = ly_handle l \<and> ly_parent l' = ly_parent l \<and> ly_base l' = ly_base l \<and>
     ly_watchdog l' = ly_watchdog l \<and>
     (\<forall>k j. sm_get (ly_children l') k = Some j \<longrightarrow> sm_get (ly_children l) k = Some j) \<and>
     (\<forall>c\<in>set (ly_cbs l). finished s c \<or> c \<in> set (ly_cbs l')) \<and>
     (\<forall>c\<in>set (ly_cbs l'). c \<in> set (ly_cbs l) \<or>
        c < length (fc_cbs s) \<and> (finished s c \<or> (\<exists>p. attached s i l p \<and> knows s p c))) \<and>
     (\<forall>k j m. sm_get (ly_children l) k = Some j \<longrightarrow> sm_get (ly_children l') k \<noteq> Some j \<longrightarrow>
        layer_of s j = Some m \<longrightarrow> (\<forall>c\<in>set (ly_cbs m). finished s c))"

lemma set_layer_knows:
  assumes "layer_change s i l l'" and "layer_of s i = Some l" and "knows s j c"
  shows "finished s c \<or> knows (set_layer i l' s) j c"
  using assms by (auto simp: knows_def layer_change_def)

lemma layer_changeD:
  assumes "layer_change s i l l'"
  shows "ly_handle l' = ly_handle l" "ly_parent l' = ly_parent l" "ly_base l' = ly_base l"
    "ly_watchdog l' = ly_watchdog l"
    "sm_get (ly_children l') k = Some j \<Longrightarrow> sm_get (ly_children l) k = Some j"
    "c \<in> set (ly_cbs l) \<Longrightarrow> finished s c \<or> c \<in> set (ly_cbs l')"
    "c \<in> set (ly_cbs l') \<Longrightarrow> c \<in> set (ly_cbs l) \<or>
        c < length (fc_cbs s) \<and> (finished s c \<or> (\<exists>p. attached s i l p \<and> knows s p c))"
    "sm_get (ly_children l) k = Some j \<Longrightarrow> sm_get (ly_children l') k \<noteq> Some j \<Longrightarrow>
        layer_of s j = Some m \<Longrightarrow> c \<in> set (ly_cbs m) \<Longrightarrow> finished s c"
  using assms unfolding layer_change_def by blast+

lemma set_layer_attached:
  assumes "tree_inv s" and "layer_of s i = Some l" and "layer_change s i l l'"
    and "attached s j m p" and "layer_of s j = Some m" and "c \<in> set (ly_cbs m)" and "\<not> finished s c"
    and "ly_handle m' = ly_handle m" and "ly_parent m' = ly_parent m"
  shows "attached (set_layer i l' s) j m' p"
proof (cases "p = i")
  case True
  have "sm_get (ly_children l) (ly_handle m) = Some j"
    using assms(2,4) True by (simp add: attached_def owned_by_def)
  then have "sm_get (ly_children l') (ly_handle m) = Some j"
    using layer_changeD(8) [OF assms(3) _ _ assms(5,6)] assms(7) by blast
  then show ?thesis using True assms(4,8,9) by (simp add: attached_def owned_by_def)
next
  case False
  then show ?thesis
    using assms(4,8,9) by (auto simp: attached_def owned_by_def split: option.splits)
qed

lemma set_layer_cb:
  assumes "tree_inv s" and "cb_inv s" and "layer_of s i = Some l" and "layer_change s i l l'"
  shows "cb_inv (set_layer i l' s)"
  unfolding cb_inv_def
proof (intro allI impI)
  fix j m' c
  assume m': "layer_of (set_layer i l' s) j = Some m'" "c \<in> set (ly_cbs m')"
  note D = layer_changeD [OF assms(4)]
  consider (old) m where "layer_of s j = Some m" "ly_handle m' = ly_handle m"
      "ly_parent m' = ly_parent m" "c \<in> set (ly_cbs m)"
    | (new) "j = i" "m' = l'" "c \<notin> set (ly_cbs l)"
    using m' assms(3) D(1,2) by (cases "j = i") auto
  then have "c < length (fc_cbs s) \<and> (finished s c \<or>
    (\<exists>p. attached (set_layer i l' s) j m' p \<and> knows (set_layer i l' s) p c))"
  proof cases
    case old
    show ?thesis
    proof (cases "finished s c")
      case True
      then show ?thesis using cb_invD(1) [OF assms(2) old(1,4)] by simp
    next
      case False
      then obtain p where p: "attached s j m p" "knows s p c"
        using cb_invD(2) [OF assms(2) old(1,4)] by blast
      from set_layer_attached [OF assms(1,3,4) p(1) old(1,4) False old(2,3)]
        set_layer_knows [OF assms(4,3) p(2)] False cb_invD(1) [OF assms(2) old(1,4)]
      show ?thesis by blast
    qed
  next
    case new
    with D(7) m' have n: "c < length (fc_cbs s)" "finished s c \<or> (\<exists>p. attached s i l p \<and> knows s p c)"
      by blast+
    have "attached (set_layer i l' s) i l' p" if "attached s i l p" for p
    proof -
      have "p < i" using that tree_invD(3) [OF assms(1,3)] by (simp add: attached_def)
      then show ?thesis using that D(1,2) by (auto simp: attached_def owned_by_def split: option.splits)
    qed
    with n new set_layer_knows [OF assms(4,3)] show ?thesis by blast
  qed
  then show "c < length (fc_cbs (set_layer i l' s)) \<and> (finished (set_layer i l' s) c \<or>
    (\<exists>p. attached (set_layer i l' s) j m' p \<and> knows (set_layer i l' s) p c))"
    by simp
qed

lemma set_layer_tree:
  assumes "tree_inv s" and "layer_of s i = Some l" and "layer_change s i l l'"
  shows "tree_inv (set_layer i l' s)"
proof -
  note D = layer_changeD [OF assms(3)] and T = tree_invD [OF assms(1)]
  have "\<exists>c. layer_of (set_layer i l' s) j = Some c \<and> ly_handle c = k \<and> ly_parent c = Some i'"
    if h: "layer_of (set_layer i l' s) i' = Some m" "sm_get (ly_children m) k = Some j" for i' m k j
  proof -
    obtain m0 where "layer_of s i' = Some m0" "sm_get (ly_children m0) k = Some j"
      using h D(5) assms(2) by (cases "i' = i") auto
    then obtain c where "layer_of s j = Some c" "ly_handle c = k" "ly_parent c = Some i'"
      using T(4) by blast
    then show ?thesis using D(1,2) assms(2) by (cases "j = i") auto
  qed
  moreover have "sm_ok (fc_layers (set_layer i l' s))"
    using assms(1) by (simp add: tree_inv_def set_layer_def sm_ok_put)
  moreover have "\<exists>l. layer_of (set_layer i l' s) 0 = Some l"
    using assms(1) by (simp add: tree_inv_def)
  moreover have "i' < fc_next s \<and> (ly_base m \<longleftrightarrow> i' = 0) \<and> (\<forall>p. ly_parent m = Some p \<longrightarrow> p < i')"
    if "layer_of (set_layer i l' s) i' = Some m" for i' m
    using that T [of i l] T [of i' m] D(2,3) assms(2) by (cases "i' = i") auto
  ultimately show ?thesis by (simp add: tree_inv_def)
qed

lemma set_layer_inv:
  assumes "client_inv s" and "layer_of s i = Some l" and "layer_change s i l l'"
  shows "client_inv (set_layer i l' s)"
proof -
  note I = client_invD [OF assms(1)]
  have "tgt_inv (set_layer i l' s)"
    using I(3) set_layer_knows [OF assms(3,2)] by (fastforce simp: tgt_inv_def)
  moreover have "bld_inv (set_layer i l' s)"
    using I(4) set_layer_knows [OF assms(3,2)] by (fastforce simp: bld_inv_def split: builder_pc.splits)
  moreover have "pin_inv (set_layer i l' s)"
    using I(5) by (simp add: pin_inv_def)
  moreover have "dog_inv (set_layer i l' s)"
    using I(6) layer_changeD(1,2,4) [OF assms(3)] assms(2) unfolding dog_inv_def by simp
  ultimately show ?thesis
    using set_layer_tree [OF I(1) assms(2,3)] set_layer_cb [OF I(1,2) assms(2,3)]
    by (simp add: client_inv_def)
qed

section \<open>Reports and calls\<close>

lemma invoke_set_layer:
  "invoke lid fs rs c (set_layer i l s) = set_layer i l (invoke lid fs rs c s)"
  by (simp add: invoke_def set_layer_def split: prod.splits)

lemma fold_invoke_set_layer:
  "fold (invoke lid fs rs) cs (set_layer i l s) = set_layer i l (fold (invoke lid fs rs) cs s)"
  by (induction cs arbitrary: s) (simp_all add: invoke_set_layer)

lemma RunCallbacks_alt:
  "layer_of s i = Some l \<Longrightarrow>
   RunCallbacks i lid fs rs s = set_layer i (l\<lparr>ly_cbs := []\<rparr>) (fold (invoke lid fs rs) (ly_cbs l) s)"
  by (simp add: RunCallbacks_def fold_invoke_set_layer)

lemma fold_invoke_inv:
  assumes "client_inv s" and "\<forall>c\<in>set cs. c < length (fc_cbs s)"
  shows "client_inv (fold (invoke lid fs rs) cs s)"
  by (rule inv_cong [OF assms(1) fold_invoke(1) [OF assms(2)]]) simp_all

lemma RunCallbacks_inv:
  assumes "client_inv s" and "fs \<noteq> SIGN_OF_LIFE"
  shows "client_inv (RunCallbacks i lid fs rs s)"
proof (cases "layer_of s i")
  case None
  with assms show ?thesis by (simp add: RunCallbacks_def)
next
  case (Some l)
  let ?s = "fold (invoke lid fs rs) (ly_cbs l) s"
  have len: "\<forall>c\<in>set (ly_cbs l). c < length (fc_cbs s)"
    using cb_invD(1) [OF client_invD(2) [OF assms(1)] Some] by blast
  have "layer_change ?s i l (l\<lparr>ly_cbs := []\<rparr>)"
    using fold_invoke(2) [OF len assms(2)] by (simp add: layer_change_def)
  with fold_invoke_inv [OF assms(1) len] Some show ?thesis
    by (simp add: RunCallbacks_alt set_layer_inv)
qed

lemma RunCallbacks_progress:
  assumes "client_inv s"
  shows "cbs_progress s (RunCallbacks i lid fs rs s)"
proof (cases "layer_of s i")
  case None
  then show ?thesis by (simp add: RunCallbacks_def cbs_progress_def)
next
  case (Some l)
  then have "\<forall>c\<in>set (ly_cbs l). c < length (fc_cbs s)"
    using cb_invD(1) [OF client_invD(2) [OF assms] Some] by blast
  from fold_invoke(1) [OF this, of lid fs rs] show ?thesis
    using Some by (simp add: RunCallbacks_alt cbs_progress_def finished_def)
qed

lemma RunCallbacks_frame [simp]:
  "fc_next (RunCallbacks i lid fs rs s) = fc_next s"
  "fc_dogs (RunCallbacks i lid fs rs s) = fc_dogs s"
  "fc_builder (RunCallbacks i lid fs rs s) = fc_builder s"
  "fc_completed (RunCallbacks i lid fs rs s) = fc_completed s"
  "fc_layer_map (RunCallbacks i lid fs rs s) = fc_layer_map s"
  "fc_counter (RunCallbacks i lid fs rs s) = fc_counter s"
  "fc_sent (RunCallbacks i lid fs rs s) = fc_sent s"
  "pins (RunCallbacks i lid fs rs s) = pins s"
  by (auto simp: RunCallbacks_def pins_def split: option.splits)

lemma RunCallbacks_layer:
  "layer_of (RunCallbacks i lid fs rs s) j =
     (if j = i then map_option (\<lambda>l. l\<lparr>ly_cbs := []\<rparr>) (layer_of s i) else layer_of s j)"
  by (auto simp: RunCallbacks_def split: option.splits)

lemma child_of_Some:
  assumes "child_of s p k = Some (i, c)"
  obtains pl where "layer_of s p = Some pl" "sm_get (ly_children pl) k = Some i" "layer_of s i = Some c"
  using assms by (auto simp: child_of_def split: option.splits)

lemma child_of_child:
  assumes "tree_inv s" and "child_of s p k = Some (i, c)"
  shows "ly_handle c = k" "ly_parent c = Some p" "p < i"
  using assms(2) tree_invD(4) [OF assms(1)] tree_invD(3) [OF assms(1)]
  by (fastforce elim!: child_of_Some)+

lemma DoChildDown_inv:
  assumes "client_inv s" and "fs \<noteq> SIGN_OF_LIFE"
  shows "client_inv (DoChildDown p k g fs rs s)"
proof (cases "child_of s p k")
  case None
  then show ?thesis using assms by (simp add: DoChildDown_def)
next
  case (Some ic)
  obtain i c where ic: "ic = (i, c)" by (cases ic)
  with Some obtain pl where pl: "layer_of s p = Some pl" "sm_get (ly_children pl) k = Some i"
      "layer_of s i = Some c"
    by (auto elim: child_of_Some)
  have "p < i" using child_of_child(3) [OF client_invD(1) [OF assms(1)]] Some ic by simp
  let ?s = "RunCallbacks i k fs rs s"
  have "layer_of ?s p = Some pl" using pl \<open>p < i\<close> by (simp add: RunCallbacks_layer)
  moreover have "layer_change ?s p pl (pl\<lparr>ly_children := sm_del k (ly_children pl)\<rparr>)"
    using pl by (auto simp: layer_change_def RunCallbacks_layer split: if_splits)
  ultimately have "client_inv (erase_child p k ?s)"
    using RunCallbacks_inv [OF assms] by (simp add: erase_child_def set_layer_inv)
  then show ?thesis using assms Some ic by (simp add: DoChildDown_def collect_inv)
qed


lemma send_call_frame [simp]:
  "fc_layers (send_call i c s) = fc_layers s" "fc_next (send_call i c s) = fc_next s"
  "fc_cbs (send_call i c s) = fc_cbs s" "fc_dogs (send_call i c s) = fc_dogs s"
  "fc_builder (send_call i c s) = fc_builder s" "fc_completed (send_call i c s) = fc_completed s"
  "fc_layer_map (send_call i c s) = fc_layer_map s" "fc_counter (send_call i c s) = fc_counter s"
  "fc_addr (send_call i c s) = fc_addr s"
  "pins (send_call i c s) = pins s" "finished (send_call i c s) d = finished s d"
  "knows (send_call i c s) j d = knows s j d" "child_of (send_call i c s) p k = child_of s p k"
  by (simp_all add: send_call_def pins_def finished_def knows_def child_of_def split: option.splits)

lemma send_call_inv: "client_inv s \<Longrightarrow> client_inv (send_call i c s)"
  by (erule inv_cong) (simp_all add: cbs_progress_def)

lemma clnt_call_Inr: "clnt_call p pl c s = Inr s' \<longleftrightarrow> ly_clnt pl \<and> s' = send_call p c s"
  by (auto simp: clnt_call_def)

text \<open>\<open>child_leaves_\<close> is only a counter.\<close>

lemma leaves_inv:
  assumes "client_inv s" and "layer_of s i = Some l"
  shows "client_inv (set_layer i (l\<lparr>ly_leaves := f\<rparr>) s)"
  by (rule set_layer_inv [OF assms]) (simp add: layer_change_def)

lemma CancelChild_inv:
  assumes "client_inv s" and "CancelChild p k s = Inr (s', b)"
  shows "client_inv s'" "fc_builder s' = fc_builder s" "fc_dogs s' = fc_dogs s"
    "layer_of s' i = None \<longleftrightarrow> layer_of s i = None"
  using assms leaves_inv [OF assms(1)]
  by (auto simp: CancelChild_def Let_def clnt_call_Inr send_call_inv split: option.splits if_splits)

lemma CancelChild_alive:
  assumes "CancelChild p k s = Inr (s', b)" and "layer_of s i = Some y"
  shows "\<exists>y. layer_of s' i = Some y"
  using assms
  by (auto simp: CancelChild_def Let_def clnt_call_Inr split: option.splits if_splits)

lemma KillChild_frame:
  assumes "KillChild p k r s = Inr (s', b)"
  shows "fc_builder s' = fc_builder s" "fc_dogs s' = fc_dogs s" "fc_completed s' = fc_completed s"
    "layer_of s' i = None \<longleftrightarrow> layer_of s i = None" "fc_counter s' = fc_counter s"
    "fc_layer_map s' = fc_layer_map s" "fc_next s' = fc_next s"
  using assms
  by (auto simp: KillChild_def Let_def clnt_call_Inr RunCallbacks_layer split: option.splits if_splits prod.splits)

lemma KillChild_inv:
  assumes "client_inv s" and "KillChild p k r s = Inr (s', b)"
  shows "client_inv s'"
  using assms
  by (auto simp: KillChild_def Let_def clnt_call_Inr client_status_defs
      intro!: RunCallbacks_inv send_call_inv split: option.splits if_splits prod.splits)

section \<open>Watchdogs\<close>

lemma set_dog_frame [simp]:
  "fc_layers (set_dog d w s) = fc_layers s" "fc_next (set_dog d w s) = fc_next s"
  "fc_cbs (set_dog d w s) = fc_cbs s" "fc_builder (set_dog d w s) = fc_builder s"
  "fc_completed (set_dog d w s) = fc_completed s" "fc_layer_map (set_dog d w s) = fc_layer_map s"
  "fc_counter (set_dog d w s) = fc_counter s" "fc_sent (set_dog d w s) = fc_sent s"
  "fc_addr (set_dog d w s) = fc_addr s" "fc_calls (set_dog d w s) = fc_calls s"
  "fc_queue (set_dog d w s) = fc_queue s" "fc_requests (set_dog d w s) = fc_requests s"
  "finished (set_dog d w s) c = finished s c" "knows (set_dog d w s) i c = knows s i c"
  "attached (set_dog d w s) i l p = attached s i l p"
  "dog_of (set_dog d w s) d' = (if d' = d then Some w else dog_of s d')"
  by (simp_all add: set_dog_def finished_def knows_def attached_def)

lemma in_pins:
  "x \<in> set (pins s) \<longleftrightarrow> x = 0 \<or>
     (\<exists>n r cb i. fc_builder s = BLoop n r cb i (Some x)) \<or> (\<exists>d w. (d, w) \<in> set (fc_dogs s) \<and> x \<in> set (dog_pins w))"
proof (cases "fc_builder s")
  case BIdle
  then show ?thesis by (force simp: pins_def)
next
  case (BLoop n r cb i cur)
  then show ?thesis by (cases cur) (force simp: pins_def)+
qed

lemma set_dog_pins:
  assumes "x \<in> set (pins (set_dog d w s))"
  shows "x \<in> set (pins s) \<or> x \<in> set (dog_pins w)"
  using assms by (auto simp: in_pins set_dog_def dest!: in_sm_put)

text \<open>A watchdog may move on, to layers that are alive.\<close>

lemma set_dog_inv:
  assumes "client_inv s" and "dog_of s d = Some w"
    and "wd_target w' = wd_target w" and "wd_start w' = wd_start w" and "wd_stopping w' = wd_stopping w"
    and "\<forall>c. wd_up_callback w' = Some c \<longrightarrow> wd_up_callback w = Some c \<or> c < length (fc_cbs s)"
    and "\<forall>x\<in>set (dog_pins w'). layer_of s x \<noteq> None"
  shows "client_inv (set_dog d w' s)"
proof -
  note I = client_invD [OF assms(1)]
  have "pin_inv (set_dog d w' s)"
    using I(5) assms(7) by (auto simp: pin_inv_def dest!: set_dog_pins)
  moreover have "dog_inv (set_dog d w' s)"
  proof -
    note D = dog_invD [OF I(6)]
    have "\<exists>v. dog_of (set_dog d w' s) i = Some v \<and> wd_target v = ly_handle l \<and> wd_start v = ly_parent l"
      if h: "layer_of s i = Some l" "ly_watchdog l" for i l
      using D(1) [OF h] assms(2-4) by (cases "i = d") auto
    moreover have "e < fc_next s \<and> (layer_of s e = None \<longrightarrow> wd_stopping v) \<and>
        (\<forall>l. layer_of s e = Some l \<longrightarrow> ly_watchdog l) \<and> (\<forall>c. wd_up_callback v = Some c \<longrightarrow> c < length (fc_cbs s))"
      if h: "dog_of (set_dog d w' s) e = Some v" for e v
    proof (cases "e = d")
      case True
      then show ?thesis using h assms(5,6) D(2-5) [OF assms(2)] by auto
    next
      case False
      then show ?thesis using h D(2-5) [of e v] by auto
    qed
    moreover have "sm_ok (fc_dogs (set_dog d w' s))"
      using I(6) by (simp add: dog_inv_def set_dog_def sm_ok_put)
    ultimately show ?thesis by (simp add: dog_inv_def)
  qed
  ultimately show ?thesis
    using I by (cases "fc_builder s")
      (simp_all add: client_inv_def tree_inv_def cb_inv_def tgt_inv_def bld_inv_def case_prod_beta)
qed

lemma set_pc_inv:
  assumes "client_inv s" and "\<forall>w. \<forall>x\<in>set (dog_pins (w\<lparr>wd_pc := pc\<rparr>)). layer_of s x \<noteq> None"
  shows "client_inv (set_pc d pc s)"
  using assms by (auto simp: set_pc_def intro: set_dog_inv split: option.splits)

lemma weak_lock_Some: "weak_lock s p = Some i \<longleftrightarrow> p = Some i \<and> layer_of s i \<noteq> None"
  by (auto simp: weak_lock_def split: option.splits)

lemma dog_pins_kill: "x \<in> set (dog_pins (w\<lparr>wd_pc := DogKill c t\<rparr>)) \<longleftrightarrow> c = Some x"
  and dog_pins_retry: "x \<in> set (dog_pins (w\<lparr>wd_pc := DogRetry i t l\<rparr>)) \<longleftrightarrow> x = i"
  and dog_pins_spin: "x \<in> set (dog_pins (w\<lparr>wd_pc := DogSpin i\<rparr>)) \<longleftrightarrow> x = i"
  and dog_pins_cancel: "x \<in> set (dog_pins (w\<lparr>wd_pc := DogCancel k c\<rparr>)) \<longleftrightarrow> c = Some x"
  and dog_pins_done: "x \<notin> set (dog_pins (w\<lparr>wd_pc := DogDone\<rparr>))"
  by (auto simp: dog_pins_def split: option.splits)

lemmas dog_pins_pc = dog_pins_kill dog_pins_retry dog_pins_spin dog_pins_cancel dog_pins_done

lemma dog_up_inv: "client_inv s \<Longrightarrow> dog_up d p s = Inr s' \<Longrightarrow> client_inv s'"
  by (auto simp: dog_up_def dog_pins_pc weak_lock_Some intro!: collect_inv set_pc_inv split: option.splits)

lemma pinned_alive:
  assumes "client_inv s" and "dog_of s d = Some w" and "x \<in> set (dog_pins w)"
  shows "layer_of s x \<noteq> None"
proof -
  have "x \<in> set (pins s)" using assms(2,3) by (auto simp: in_pins dest: sm_get_Some_in)
  then show ?thesis using client_invD(5) [OF assms(1)] by (auto simp: pin_inv_def)
qed

lemma dog_run_inv:
  assumes "client_inv s" and "dog_run d ok now r s = Inr s'"
  shows "client_inv s'"
proof (cases "dog_of s d")
  case None
  with assms show ?thesis by (simp add: dog_run_def)
next
  case (Some w)
  note P = pinned_alive [OF assms(1) Some]
  show ?thesis
  proof (cases "wd_pc w")
    case DogWait
    then show ?thesis using assms Some
      by (auto simp: dog_run_def dog_wait_def dog_pins_pc weak_lock_Some intro!: set_pc_inv split: if_splits)
  next
    case (DogKill cur t)
    have A: "cur = Some p \<Longrightarrow> layer_of s p \<noteq> None" for p
      using P DogKill by (auto simp: dog_pins_def)
    then have K: "\<exists>l. layer_of s1 p = Some l" if "cur = Some p" "KillChild p t r s = Inr (s1, b)" for p s1 b
      using that KillChild_frame(4) [OF that(2), of p] by auto
    from DogKill A show ?thesis using assms Some KillChild_inv [OF assms(1)]
      by (auto simp: dog_run_def dog_kill_def dog_pins_pc K intro!: set_pc_inv
          elim: dog_up_inv [OF KillChild_inv [OF assms(1)], rotated] split: if_splits option.splits)
  next
    case (DogRetry p t limit)
    then show ?thesis using assms Some
      by (auto simp: dog_run_def dog_retry_def dest: dog_up_inv split: if_splits)
  next
    case (DogCancel k cur)
    then show ?thesis using assms Some CancelChild_inv [OF assms(1)]
      by (auto simp: dog_run_def dog_cancel_def Let_def dog_pins_pc weak_lock_Some
          intro!: collect_inv set_pc_inv dest: CancelChild_alive split: if_splits option.splits)
  next
    case (DogSpin p)
    then show ?thesis using assms Some by (simp add: dog_run_def)
  next
    case DogDone
    then show ?thesis using assms Some by (simp add: dog_run_def)
  qed
qed


section \<open>New layers\<close>

text \<open>A callback is added to a layer whose parent knows it.\<close>

lemma AddCallback_inv:
  assumes "client_inv s" and "layer_of s i = Some l" and "c < length (fc_cbs s)"
    and "finished s c \<or> (\<exists>p. attached s i l p \<and> knows s p c)"
  shows "client_inv (AddCallback i c s)"
  using assms by (auto simp: AddCallback_def CallbackList_Add_def layer_change_def intro!: set_layer_inv)

lemma AddCallback_frame [simp]:
  "fc_next (AddCallback i c s) = fc_next s" "fc_cbs (AddCallback i c s) = fc_cbs s"
  "fc_dogs (AddCallback i c s) = fc_dogs s" "fc_builder (AddCallback i c s) = fc_builder s"
  "fc_completed (AddCallback i c s) = fc_completed s" "fc_layer_map (AddCallback i c s) = fc_layer_map s"
  "fc_counter (AddCallback i c s) = fc_counter s" "fc_sent (AddCallback i c s) = fc_sent s"
  "fc_calls (AddCallback i c s) = fc_calls s" "fc_addr (AddCallback i c s) = fc_addr s"
  "fc_queue (AddCallback i c s) = fc_queue s" "finished (AddCallback i c s) d = finished s d"
  "pins (AddCallback i c s) = pins s"
  by (auto simp: AddCallback_def split: option.splits)

lemma AddCallback_layer:
  "layer_of (AddCallback i c s) j =
     (if j = i then map_option (CallbackList_Add c) (layer_of s i) else layer_of s j)"
  by (auto simp: AddCallback_def split: option.splits)

lemma AddCallback_knows: "layer_of s i = Some l \<Longrightarrow> knows (AddCallback i c s) i c"
  by (simp add: knows_def AddCallback_layer CallbackList_Add_def)

text \<open>A new layer that nobody owns yet.\<close>

lemma new_layer_frame:
  assumes "new_layer h g k p a dog False sock s = Inr (s', i)"
  shows "fc_cbs s' = fc_cbs s" "fc_builder s' = fc_builder s" "fc_completed s' = fc_completed s"
    "fc_layer_map s' = fc_layer_map s" "fc_counter s' = fc_counter s" "fc_sent s' = fc_sent s"
    "fc_calls s' = fc_calls s" "fc_addr s' = fc_addr s" "fc_queue s' = fc_queue s"
    "fc_next s' = Suc (fc_next s)" "i = fc_next s"
    "layer_of s' j = (if j = i then
       Some \<lparr>ly_handle = h, ly_gen = g, ly_killable = k, ly_cbs = [], ly_base = False,
             ly_watchdog = dog, ly_parent = p, ly_children = [], ly_leaves = (\<lambda>_. 0),
             ly_clnt = (\<not> dog), ly_addr = a\<rparr> else layer_of s j)"
    "dog_of s' j = (if dog \<and> j = i then Some (new_watchdog s p h) else dog_of s j)"
  using assms by (auto simp: new_layer_def Let_def split: if_splits)

lemma new_layer_pins:
  assumes "new_layer h g k p a dog False sock s = Inr (s', i)" and "x \<in> set (pins s')"
  shows "x \<in> set (pins s)"
proof -
  have "dog_pins (new_watchdog s p h) = []" by (simp add: new_watchdog_def dog_pins_def Let_def)
  with assms show ?thesis
    by (auto simp: in_pins new_layer_def Let_def set_dog_def set_layer_def dest!: in_sm_put split: if_splits)
qed

lemma fresh_id:
  assumes "tree_inv s" shows "layer_of s (fc_next s) = None"
proof (cases "layer_of s (fc_next s)")
  case (Some l)
  then show ?thesis using tree_invD(1) [OF assms Some] by simp
qed simp

lemma knows_new_layer:
  assumes "new_layer h g k p a dog False sock s = Inr (s', i)" and "tree_inv s" and "knows s j c"
  shows "knows s' j c"
  using assms(3) fresh_id [OF assms(2)] new_layer_frame(11,12) [OF assms(1)] by (auto simp: knows_def)

lemma attached_new_layer:
  assumes "new_layer h g k p a dog False sock s = Inr (s', i)" and "tree_inv s" and "attached s j l q"
  shows "attached s' j l q"
  using assms(3) fresh_id [OF assms(2)] new_layer_frame(11,12) [OF assms(1)]
  by (auto simp: attached_def owned_by_def split: option.splits)

lemma new_layer_inv:
  assumes "client_inv s" and "layer_of s q = Some pl"
    and new: "new_layer h g k (Some q) a dog False sock s = Inr (s', i)"
  shows "client_inv s'"
proof -
  note I = client_invD [OF assms(1)] and F = new_layer_frame [OF new]
  have T: "tree_inv s'"
  proof -
    have "sm_ok (fc_layers s')"
      using new I(1) by (auto simp: new_layer_def Let_def tree_inv_def set_layer_def sm_ok_put split: if_splits)
    moreover have "\<exists>l. layer_of s' 0 = Some l" using I(1) by (auto simp: tree_inv_def F(12))
    moreover have "j < fc_next s' \<and> (ly_base l \<longleftrightarrow> j = 0) \<and> (\<forall>p. ly_parent l = Some p \<longrightarrow> p < j) \<and>
        (\<forall>k m. sm_get (ly_children l) k = Some m \<longrightarrow>
           (\<exists>c. layer_of s' m = Some c \<and> ly_handle c = k \<and> ly_parent c = Some j))"
      if h: "layer_of s' j = Some l" for j l
    proof (cases "j = i")
      case True
      have "0 < fc_next s" using I(1) by (auto simp: tree_inv_def)
      then show ?thesis using h True F(10-12) tree_invD(1) [OF I(1) assms(2)] by auto
    next
      case False
      then have l: "layer_of s j = Some l" using h F(12) by simp
      have "\<exists>c. layer_of s' m = Some c \<and> ly_handle c = k \<and> ly_parent c = Some j"
        if "sm_get (ly_children l) k = Some m" for k m
        using tree_invD(4) [OF I(1) l that] fresh_id [OF I(1)] F(11,12) by auto
      then show ?thesis using tree_invD(1-3) [OF I(1) l] F(10) by auto
    qed
    ultimately show ?thesis unfolding tree_inv_def by blast
  qed
  have fin: "finished s' = finished s" by (simp add: fun_eq_iff finished_def F(1))
  have "cb_inv s'"
    unfolding cb_inv_def
  proof (intro allI impI)
    fix j l c
    assume h: "layer_of s' j = Some l" "c \<in> set (ly_cbs l)"
    then have "layer_of s j = Some l" by (auto simp: F(12) split: if_splits)
    from cb_invD [OF I(2) this h(2)] show "c < length (fc_cbs s') \<and>
        (finished s' c \<or> (\<exists>p. attached s' j l p \<and> knows s' p c))"
      using knows_new_layer [OF new I(1)] attached_new_layer [OF new I(1)] unfolding F(1) fin by blast
  qed
  moreover have "tgt_inv s'"
    using I(3) knows_new_layer [OF new I(1)] fin by (fastforce simp: tgt_inv_def F(1,3))
  moreover have "bld_inv s'"
    using I(4) knows_new_layer [OF new I(1)] fin
    by (fastforce simp: bld_inv_def F(1,2) split: builder_pc.splits)
  moreover have "pin_inv s'"
    using I(5) new_layer_pins [OF new] F(12) by (auto simp: pin_inv_def)
  moreover have "dog_inv s'"
  proof -
    note D = dog_invD [OF I(6)]
    have 1: "\<exists>w. dog_of s' j = Some w \<and> wd_target w = ly_handle l \<and> wd_start w = ly_parent l"
      if h: "layer_of s' j = Some l" "ly_watchdog l" for j l
      using D(1) [of j l] h F(12,13) by (cases "j = i") (auto simp: new_watchdog_def Let_def)
    have 2: "j < fc_next s' \<and> (layer_of s' j = None \<longrightarrow> wd_stopping w) \<and>
        (\<forall>l. layer_of s' j = Some l \<longrightarrow> ly_watchdog l) \<and> (\<forall>c. wd_up_callback w = Some c \<longrightarrow> c < length (fc_cbs s'))"
      if h: "dog_of s' j = Some w" for j w
    proof (cases "j = i")
      case True
      have "dog_of s i = None" using D(2) [of i] F(11) by fastforce
      then show ?thesis using True h F(10-13) by (auto simp: new_watchdog_def Let_def split: if_splits)
    next
      case False
      then show ?thesis using h D(2-5) [of j w] F(1,10,12,13) by (auto split: if_splits)
    qed
    have "sm_ok (fc_dogs s')"
      using new I(6) by (auto simp: new_layer_def Let_def dog_inv_def set_dog_def sm_ok_put split: if_splits)
    with 1 2 show ?thesis by (simp add: dog_inv_def)
  qed
  ultimately show ?thesis using T by (simp add: client_inv_def)
qed

text \<open>An orphan gets its owner.\<close>

definition own :: "layer \<Rightarrow> str \<Rightarrow> nat \<Rightarrow> layer" where
  "own pl k i =
     pl\<lparr>ly_children := sm_put k i (ly_children pl), ly_leaves := (ly_leaves pl)(k := ly_leaves pl k + 1)\<rparr>"

lemma own_knows: "layer_of s p = Some pl \<Longrightarrow> knows (set_layer p (own pl k i) s) j c = knows s j c"
  by (auto simp: knows_def own_def)

lemma own_attached:
  assumes "layer_of s p = Some pl" and "sm_get (ly_children pl) k = None" and "attached s j l q"
  shows "attached (set_layer p (own pl k i) s) j l q"
  using assms by (auto simp: attached_def owned_by_def own_def split: option.splits)

lemma own_inv:
  assumes "client_inv s" and p: "layer_of s p = Some pl" and "sm_get (ly_children pl) k = None"
    and i: "layer_of s i = Some l" "ly_handle l = k" "ly_parent l = Some p"
  shows "client_inv (set_layer p (own pl k i) s)"
proof -
  let ?s = "set_layer p (own pl k i) s"
  note I = client_invD [OF assms(1)] and T = tree_invD [OF client_invD(1) [OF assms(1)]]
  have same: "ly_handle (own pl k i) = ly_handle pl" "ly_parent (own pl k i) = ly_parent pl"
    "ly_base (own pl k i) = ly_base pl" "ly_watchdog (own pl k i) = ly_watchdog pl"
    "ly_cbs (own pl k i) = ly_cbs pl" by (simp_all add: own_def)
  have "tree_inv ?s"
  proof -
    have "\<exists>c. layer_of ?s m = Some c \<and> ly_handle c = k' \<and> ly_parent c = Some j"
      if h: "layer_of ?s j = Some x" "sm_get (ly_children x) k' = Some m" for j x k' m
    proof -
      have "\<exists>c. layer_of s m = Some c \<and> ly_handle c = k' \<and> ly_parent c = Some j"
        using h p i T(4) by (cases "j = p") (auto simp: own_def split: if_splits)
      then show ?thesis using same(1,2) p by (cases "m = p") auto
    qed
    moreover have "j < fc_next s \<and> (ly_base x \<longleftrightarrow> j = 0) \<and> (\<forall>q. ly_parent x = Some q \<longrightarrow> q < j)"
      if "layer_of ?s j = Some x" for j x
      using that T(1-3) [of p pl] T(1-3) [of j x] p same(2,3) by (cases "j = p") auto
    moreover have "sm_ok (fc_layers ?s)" using I(1) by (simp add: tree_inv_def set_layer_def sm_ok_put)
    moreover have "\<exists>l. layer_of ?s 0 = Some l" using I(1) by (simp add: tree_inv_def)
    ultimately show ?thesis by (simp add: tree_inv_def)
  qed
  moreover have "cb_inv ?s"
    unfolding cb_inv_def
  proof (intro allI impI)
    fix j x c
    assume h: "layer_of ?s j = Some x" "c \<in> set (ly_cbs x)"
    obtain y where y: "layer_of s j = Some y" "c \<in> set (ly_cbs y)" "ly_handle x = ly_handle y" "ly_parent x = ly_parent y"
      using h p same by (cases "j = p") auto
    have "attached ?s j x q" if "attached s j y q" for q
      using own_attached [OF p assms(3) that, of i] y(3,4) unfolding attached_def owned_by_def by metis
    then show "c < length (fc_cbs ?s) \<and> (finished ?s c \<or> (\<exists>p. attached ?s j x p \<and> knows ?s p c))"
      using cb_invD [OF I(2) y(1,2)] own_knows [OF p] by auto
  qed
  moreover have "tgt_inv ?s" using I(3) own_knows [OF p] by (auto simp: tgt_inv_def)
  moreover have "bld_inv ?s"
    using I(4) own_knows [OF p] by (auto simp: bld_inv_def split: builder_pc.splits)
  moreover have "pin_inv ?s" using I(5) by (simp add: pin_inv_def)
  moreover have "dog_inv ?s"
  proof -
    note D = dog_invD [OF I(6)]
    have "\<exists>w. dog_of ?s j = Some w \<and> wd_target w = ly_handle x \<and> wd_start w = ly_parent x"
      if h: "layer_of ?s j = Some x" "ly_watchdog x" for j x
    proof -
      obtain y where y: "layer_of s j = Some y" "ly_watchdog y" "ly_handle x = ly_handle y" "ly_parent x = ly_parent y"
        using h p same by (cases "j = p") auto
      from D(1) [OF y(1,2)] y(3,4) show ?thesis by simp
    qed
    moreover have "d < fc_next s \<and> (layer_of ?s d = None \<longrightarrow> wd_stopping w) \<and>
        (\<forall>x. layer_of ?s d = Some x \<longrightarrow> ly_watchdog x) \<and> (\<forall>c. wd_up_callback w = Some c \<longrightarrow> c < length (fc_cbs s))"
      if h: "dog_of s d = Some w" for d w
      using D(2-5) [OF h] p same(4) by (cases "d = p") auto
    moreover have "sm_ok (fc_dogs s)" using I(6) by (simp add: dog_inv_def)
    ultimately show ?thesis by (simp add: dog_inv_def)
  qed
  ultimately show ?thesis by (simp add: client_inv_def)
qed

lemma adopt_alt:
  "layer_of s p = Some pl \<Longrightarrow> adopt p k i cb s = AddCallback i cb (set_layer p (own pl k i) s)"
  by (simp add: adopt_def own_def)


lemma knows_le: "client_inv s \<Longrightarrow> layer_of s i = Some l \<Longrightarrow> c \<in> set (ly_cbs l) \<Longrightarrow> c < length (fc_cbs s)"
  using cb_invD(1) [OF client_invD(2)] by blast

text \<open>A new layer in its place, with its first callback.\<close>

lemma new_child_inv:
  assumes "client_inv s" and "layer_of s p = Some pl" and "child_of s p k = None"
    and "new_layer k g kill (Some p) a dog False sock s = Inr (s1, i)"
    and "cb < length (fc_cbs s)" and "finished s cb \<or> knows s p cb"
  shows "client_inv (adopt p k i cb s1)" and "knows (adopt p k i cb s1) i cb"
    and "fc_builder (adopt p k i cb s1) = fc_builder s" and "fc_cbs (adopt p k i cb s1) = fc_cbs s"
    and "layer_of s j = Some l \<Longrightarrow> layer_of (adopt p k i cb s1) j \<noteq> None"
    and "fc_layer_map (adopt p k i cb s1) = fc_layer_map s" and "fc_counter (adopt p k i cb s1) = fc_counter s"
proof -
  note F = new_layer_frame [OF assms(4)] and T = client_invD(1) [OF assms(1)]
  have pi: "p \<noteq> i" using fresh_id [OF T] F(11) assms(2) by auto
  have p: "layer_of s1 p = Some pl" using F(12) pi assms(2) by simp
  have no: "sm_get (ly_children pl) k = None"
  proof (cases "sm_get (ly_children pl) k")
    case (Some j)
    with tree_invD(4) [OF T assms(2) Some] assms(2,3) show ?thesis by (auto simp: child_of_def)
  qed simp
  let ?l = "\<lparr>ly_handle = k, ly_gen = g, ly_killable = kill, ly_cbs = [], ly_base = False,
             ly_watchdog = dog, ly_parent = Some p, ly_children = [], ly_leaves = (\<lambda>_. 0),
             ly_clnt = (\<not> dog), ly_addr = a\<rparr>"
  let ?s2 = "set_layer p (own pl k i) s1"
  have i: "layer_of s1 i = Some ?l" using F(12) by simp
  have s2: "client_inv ?s2"
    by (rule own_inv [OF new_layer_inv [OF assms(1,2,4)] p no i]) simp_all
  have i2: "layer_of ?s2 i = Some ?l" using i pi by simp
  have att: "attached ?s2 i ?l p" by (simp add: attached_def owned_by_def own_def)
  have "finished ?s2 cb \<or> knows ?s2 p cb"
    using assms(6) knows_new_layer [OF assms(4) T] F(1) own_knows [OF p, of k i p cb] by (auto simp: finished_def)
  with att have "client_inv (AddCallback i cb ?s2)"
    by (intro AddCallback_inv [OF s2 i2]) (use assms(5) F(1) in auto)
  then show "client_inv (adopt p k i cb s1)" by (simp add: adopt_alt [OF p])
  show "knows (adopt p k i cb s1) i cb"
    using AddCallback_knows [OF i2, of cb] by (simp add: adopt_alt [OF p])
  show "fc_builder (adopt p k i cb s1) = fc_builder s" "fc_cbs (adopt p k i cb s1) = fc_cbs s"
    "fc_layer_map (adopt p k i cb s1) = fc_layer_map s" "fc_counter (adopt p k i cb s1) = fc_counter s"
    by (simp_all add: adopt_alt [OF p] F)
  show "layer_of (adopt p k i cb s1) j \<noteq> None" if "layer_of s j = Some l"
    using that F(12) by (auto simp: adopt_alt [OF p] AddCallback_layer)
qed

lemma AddChild_inv:
  assumes "client_inv s" and "cb < length (fc_cbs s)" and "finished s cb \<or> knows s p cb"
    and "AddChild p k kill a t leaf (Some p) cb env s = Inr (s', cur)"
  shows "client_inv s'" "fc_builder s' = fc_builder s" "fc_cbs s' = fc_cbs s"
    "cur = Some i \<Longrightarrow> knows s' i cb" "fc_layer_map s' = fc_layer_map s" "fc_counter s' = fc_counter s"
proof -
  have "\<exists>pl. layer_of s p = Some pl"
    using assms(4) by (cases "layer_of s p") (auto simp: AddChild_def)
  then obtain pl where p: "layer_of s p = Some pl" ..
  have "client_inv s' \<and> fc_builder s' = fc_builder s \<and> fc_cbs s' = fc_cbs s \<and>
    (\<forall>i. cur = Some i \<longrightarrow> knows s' i cb) \<and> fc_layer_map s' = fc_layer_map s \<and> fc_counter s' = fc_counter s"
  proof (cases "child_of s p k")
    case (Some ic)
    obtain i c where ic: "ic = (i, c)" by (cases ic)
    then have o: "sm_get (ly_children pl) k = Some i" "layer_of s i = Some c" "ly_handle c = k" "ly_parent c = Some p"
      using Some p child_of_child [OF client_invD(1) [OF assms(1)]] by (auto elim!: child_of_Some)
    then have "attached s i c p" using p by (simp add: attached_def owned_by_def)
    with assms(1-3) o have "client_inv (AddCallback i cb s)"
      by (intro AddCallback_inv) auto
    moreover have "s' = AddCallback i cb s" "cur = Some i"
      using assms(4) p Some ic by (auto simp: AddChild_def)
    ultimately show ?thesis using AddCallback_knows [OF o(2)] by simp
  next
    case None
    show ?thesis
    proof (cases "ly_base pl")
      case True
      with assms(4) p None show ?thesis
        using new_child_inv [OF assms(1) p None _ assms(2,3)] assms(1)
        by (auto simp: AddChild_def split: if_splits)
    next
      case False
      let ?s1 = "send_call p (SPY_GET_GEN (InitRPCArgs s p k None)) s"
      have 1: "client_inv ?s1" by (rule send_call_inv [OF assms(1)])
      have *: "client_inv (send_call p c ?s1)" "child_of (send_call p c ?s1) p k = None"
        "layer_of (send_call p c ?s1) p = Some pl" "cb < length (fc_cbs (send_call p c ?s1))"
        "finished (send_call p c ?s1) cb \<or> knows (send_call p c ?s1) p cb" for c
        using send_call_inv [OF 1] None p assms(2,3) by simp_all
      from assms(4) p None False 1 show ?thesis
        using new_child_inv(1-4,6,7) [OF *(1,3,2) _ *(4,5)] send_call_inv [OF 1] assms(1)
        by (auto simp: AddChild_def Let_def clnt_call_Inr split: if_splits prod.splits)
    qed
  qed
  then show "client_inv s'" "fc_builder s' = fc_builder s" "fc_cbs s' = fc_cbs s"
    "cur = Some i \<Longrightarrow> knows s' i cb" "fc_layer_map s' = fc_layer_map s" "fc_counter s' = fc_counter s"
    by simp_all
qed

end
