(* ===== verification/ClientReach.thy ===== *)
theory ClientReach
  imports ClientInv
begin

text \<open>
  The invariant holds in every reachable state of the client library.
\<close>

lemma ReceivedUp_inv: "client_inv s \<Longrightarrow> client_inv (client_up_1_svc arg s)"
  by (auto simp: client_up_1_svc_def ReceivedUp_def intro: DoChildUp_inv split: option.splits)

lemma ReceivedDown_inv: "client_inv s \<Longrightarrow> client_inv (client_down_1_svc arg s)"
  by (auto simp: client_down_1_svc_def ReceivedDown_def Let_def client_status_defs
      intro: DoChildDown_inv split: option.splits)

section \<open>The builder\<close>

lemma set_builder_frame [simp]:
  "fc_layers (set_builder b s) = fc_layers s" "fc_next (set_builder b s) = fc_next s"
  "fc_cbs (set_builder b s) = fc_cbs s" "fc_dogs (set_builder b s) = fc_dogs s"
  "fc_builder (set_builder b s) = b" "fc_completed (set_builder b s) = fc_completed s"
  "fc_layer_map (set_builder b s) = fc_layer_map s" "fc_counter (set_builder b s) = fc_counter s"
  "fc_sent (set_builder b s) = fc_sent s" "fc_calls (set_builder b s) = fc_calls s"
  "fc_queue (set_builder b s) = fc_queue s"
  "finished (set_builder b s) c = finished s c" "knows (set_builder b s) i c = knows s i c"
  by (simp_all add: set_builder_def finished_def knows_def)

lemma set_builder_inv:
  assumes "client_inv s"
    and "case b of BIdle \<Rightarrow> True | BLoop n r cb i cur \<Rightarrow>
      cb < length (fc_cbs s) \<and> i < int (length (rq_idlist r)) \<and>
      (\<forall>p. cur = Some p \<longrightarrow> (finished s cb \<or> knows s p cb) \<and> layer_of s p \<noteq> None)"
  shows "client_inv (set_builder b s)"
proof -
  note I = client_invD [OF assms(1)]
  have "tree_inv (set_builder b s)" "dog_inv (set_builder b s)" "tgt_inv (set_builder b s)"
    using I by (simp_all add: tree_inv_def dog_inv_def tgt_inv_def)
  moreover have "cb_inv (set_builder b s)"
    using I(2) by (simp add: cb_inv_def attached_def)
  moreover have "bld_inv (set_builder b s)"
    using assms(2) by (cases b) (auto simp: bld_inv_def)
  moreover have "pin_inv (set_builder b s)"
    unfolding pin_inv_def
  proof
    fix x assume "x \<in> set (pins (set_builder b s))"
    then have "x \<in> set (pins s) \<or> (\<exists>n r cb i. b = BLoop n r cb i (Some x))" by (auto simp: in_pins)
    then show "layer_of (set_builder b s) x \<noteq> None"
      using I(5) assms(2) by (auto simp: pin_inv_def)
  qed
  ultimately show ?thesis by (simp add: client_inv_def)
qed

lemma queue_inv: "client_inv s \<Longrightarrow> client_inv (s\<lparr>fc_queue := q\<rparr>)"
  by (erule inv_cong) (simp_all add: cbs_progress_def finished_def)

lemma counter_inv: "client_inv s \<Longrightarrow> client_inv (s\<lparr>fc_counter := c\<rparr>)"
  by (erule inv_cong) (simp_all add: cbs_progress_def finished_def)

lemma layer_map_inv: "client_inv s \<Longrightarrow> client_inv (s\<lparr>fc_layer_map := m\<rparr>)"
  by (erule inv_cong) (simp_all add: cbs_progress_def finished_def)

text \<open>A new callback object.\<close>

lemma new_callback_inv:
  assumes "client_inv s"
  shows "client_inv (s\<lparr>fc_cbs := fc_cbs s @ [cb]\<rparr>)"
proof -
  let ?s = "s\<lparr>fc_cbs := fc_cbs s @ [cb]\<rparr>"
  note I = client_invD [OF assms]
  have f: "finished ?s c = finished s c" if "c < length (fc_cbs s)" for c
    using that by (simp add: finished_def nth_append)
  have k: "knows ?s i c = knows s i c" "attached ?s i l p = attached s i l p" for i c l p
    by (simp_all add: knows_def attached_def)
  have "cb_inv ?s"
    unfolding cb_inv_def
  proof (intro allI impI)
    fix i l c
    assume h: "layer_of ?s i = Some l" "c \<in> set (ly_cbs l)"
    then have "layer_of s i = Some l" by simp
    from cb_invD [OF I(2) this h(2)] f k
    show "c < length (fc_cbs ?s) \<and> (finished ?s c \<or> (\<exists>p. attached ?s i l p \<and> knows ?s p c))"
      by auto
  qed
  moreover have "tgt_inv ?s" using I(3) by (fastforce simp: tgt_inv_def f k)
  moreover have "bld_inv ?s"
    using I(4) by (cases "fc_builder s") (auto simp: bld_inv_def f k)
  moreover have "tree_inv ?s" using I(1) by (simp add: tree_inv_def)
  moreover have "pin_inv ?s" using I(5) by (simp add: pin_inv_def pins_def)
  moreover have "dog_inv ?s" using I(6) by (fastforce simp: dog_inv_def less_Suc_eq)
  ultimately show ?thesis by (simp add: client_inv_def)
qed

lemma builder_next_inv:
  assumes "client_inv s"
  shows "client_inv (builder_next s)"
proof (cases "fc_queue s")
  case Nil
  then show ?thesis using assms by (simp add: builder_next_def)
next
  case (Cons nr q)
  obtain n r where nr: "nr = (n, r)" by (cases nr)
  let ?s1 = "s\<lparr>fc_queue := q\<rparr>"
  let ?cb = "new_callback (rq_cb r) (rq_idlist r) (rq_data r) True"
  let ?s2 = "?s1\<lparr>fc_cbs := fc_cbs ?s1 @ [?cb]\<rparr>"
  have 2: "client_inv ?s2" by (rule new_callback_inv [OF queue_inv [OF assms]])
  obtain l where l: "layer_of s 0 = Some l" using client_invD(1) [OF assms] by (auto simp: tree_inv_def)
  have "client_inv (set_builder (BLoop n r (length (fc_cbs s)) (int (length (rq_idlist r)) - 1) (Some 0)) ?s2)"
    by (rule set_builder_inv [OF 2]) (use l in \<open>simp add: knows_def\<close>)
  then show ?thesis using queue_inv [OF assms] Cons nr by (simp add: builder_next_def Let_def)
qed

lemma knows_layer: "knows s i c \<Longrightarrow> layer_of s i \<noteq> None"
  by (auto simp: knows_def)

lemma builder_layer_inv:
  assumes "client_inv s" and b: "fc_builder s = BLoop n r cb i (Some p)"
    and "builder_layer env n r cb i p s = Inr s'"
  shows "client_inv s'"
proof -
  let ?s1 = "s\<lparr>fc_counter := fc_counter s + 1\<rparr>"
  have 1: "client_inv ?s1" by (rule counter_inv [OF assms(1)])
  have k: "cb < length (fc_cbs ?s1)" "finished ?s1 cb \<or> knows ?s1 p cb" "i < int (length (rq_idlist r))"
    using client_invD(4) [OF assms(1)] b by (auto simp: bld_inv_def finished_def knows_def)
  from assms(3) obtain s2 cur s3 where
    a: "AddChild p (rq_idlist r ! nat i) (rq_lethal r) (fc_addr s\<lparr>ca_tag := fc_counter s + 1\<rparr>)
          (rq_e2etimeout r) (i = 0) (Some p) cb env ?s1 = Inr (s2, cur)"
    and c: "(case cur of Some l \<Rightarrow> (if i \<noteq> 0 then AddLayer (fc_counter s + 1) l s2 else Inr s2)
             | None \<Rightarrow> Inr s2) = Inr s3"
    and s': "s' = collect (set_builder (BLoop n r cb (i - 1) cur) s3)"
    unfolding builder_layer_def GetNextLayerId_def Let_def prod.case by auto
  from c have m: "s3 = s2 \<or> (\<exists>m. s3 = s2\<lparr>fc_layer_map := m\<rparr>)"
    by (auto simp: AddLayer_def split: option.splits if_splits)
  note A = AddChild_inv [OF 1 k(1,2) a]
  have "client_inv s3" using m A(1) layer_map_inv by auto
  moreover have "cb < length (fc_cbs s3)" using m k(1) A(3) by auto
  moreover have "\<forall>x. cur = Some x \<longrightarrow> knows s3 x cb" using m A(4) by (auto simp: knows_def)
  ultimately show ?thesis unfolding s' using k(3)
    by (intro collect_inv set_builder_inv) (auto simp: knows_layer dest: knows_layer)
qed

lemma Complete_inv:
  assumes "client_inv s" and "c < length (fc_cbs s)" and "finished s c \<or> knows s l c"
  shows "client_inv (Complete n \<lparr>ft_cb = c, ft_top = l\<rparr> s)"
proof -
  let ?s = "Complete n \<lparr>ft_cb = c, ft_top = l\<rparr> s"
  note I = client_invD [OF assms(1)]
  have k: "knows ?s i d = knows s i d" "attached ?s i m p = attached s i m p" "finished ?s d = finished s d"
    for i d m p by (simp_all add: knows_def attached_def finished_def Complete_def)
  have e: "fc_layers ?s = fc_layers s" "fc_cbs ?s = fc_cbs s" "fc_dogs ?s = fc_dogs s"
    "fc_builder ?s = fc_builder s" "fc_next ?s = fc_next s"
    "fc_completed ?s = fc_completed s @ [(n, \<lparr>ft_cb = c, ft_top = l\<rparr>)]"
    by (simp_all add: Complete_def)
  have "tgt_inv ?s" using I(3) assms(2,3) by (auto simp: tgt_inv_def e k)
  moreover have "tree_inv ?s" "cb_inv ?s" "dog_inv ?s"
    using I by (simp_all add: tree_inv_def cb_inv_def dog_inv_def e k)
  moreover have "bld_inv ?s"
    using I(4) by (cases "fc_builder s") (simp_all add: bld_inv_def e k)
  moreover have "pin_inv ?s" using I(5) by (simp add: pin_inv_def pins_def e)
  ultimately show ?thesis by (simp add: client_inv_def)
qed

lemma start_builder_inv:
  assumes "client_inv s" and "start_builder env s = Inr s'"
  shows "client_inv s'"
proof (cases "fc_builder s")
  case BIdle
  then show ?thesis using assms builder_next_inv by (auto simp: start_builder_def)
next
  case (BLoop n r cb i cur)
  have b: "cb < length (fc_cbs s)" "\<forall>p. cur = Some p \<longrightarrow> finished s cb \<or> knows s p cb"
    using client_invD(4) [OF assms(1)] BLoop by (auto simp: bld_inv_def)
  show ?thesis
  proof (cases cur)
    case None
    then show ?thesis using assms BLoop b
      by (auto simp: start_builder_def builder_done_def intro!: set_builder_inv invoke_inv split: if_splits)
  next
    case (Some p)
    then show ?thesis using assms BLoop b builder_layer_inv [OF assms(1)]
      by (auto simp: start_builder_def builder_done_def intro!: collect_inv set_builder_inv Complete_inv split: if_splits)
  qed
qed

section \<open>The application\<close>

lemma enqueue_inv: "client_inv s \<Longrightarrow> client_inv (enqueue r s)"
  by (erule inv_cong) (simp_all add: enqueue_def cbs_progress_def finished_def)

lemma Reactivate_keeps: "Reactivate f d cb = Inr (cb', calls, late) \<Longrightarrow> fc_run_final cb' = fc_run_final cb"
  by (auto simp: Reactivate_def Let_def split: if_splits option.splits prod.splits)

lemma setCallback_inv:
  assumes "client_inv s" and "setCallback t f s = Inr s'"
  shows "client_inv s'"
proof -
  obtain cb calls late where r: "Reactivate f 0 (fc_cbs s ! ft_cb t) = Inr (cb, calls, late)"
    and s': "s' = s\<lparr>fc_cbs := (fc_cbs s)[ft_cb t := cb], fc_calls := fc_calls s @ calls\<rparr>"
    using assms(2) by (auto simp: setCallback_def)
  have "finished s' c \<longleftrightarrow> finished s c" for c
    using Reactivate_keeps [OF r] by (cases "ft_cb t < length (fc_cbs s)") (auto simp: finished_def s' nth_list_update list_update_beyond)
  then show ?thesis
    by (intro inv_cong [OF assms(1)]) (simp_all add: cbs_progress_def s')
qed

lemma completed_cb:
  assumes "client_inv s" and "GetCompleted n s = Some t"
  shows "ft_cb t < length (fc_cbs s)"
  using client_invD(3) [OF assms(1)] assms(2) by (auto simp: tgt_inv_def GetCompleted_def dest: map_of_SomeD)

lemma target_dog_Some: "target_dog t s = Some w \<Longrightarrow> dog_of s (ft_top t) = Some w"
  by (auto simp: target_dog_def split: option.splits if_splits)

lemma startTimer_inv:
  assumes "client_inv s" and "ft_cb t < length (fc_cbs s)"
  shows "client_inv (startTimer t e2e now s)"
proof (cases "target_dog t s")
  case None
  then show ?thesis using assms by (simp add: startTimer_def)
next
  case (Some w)
  note d = target_dog_Some [OF Some]
  have "dog_pins (Watchdog_StartTimer (ft_cb t) e2e now w) = dog_pins w"
    by (simp add: Watchdog_StartTimer_def dog_pins_def)
  then have "client_inv (set_dog (ft_top t) (Watchdog_StartTimer (ft_cb t) e2e now w) s)"
    using assms pinned_alive [OF assms(1) d]
    by (intro set_dog_inv [OF assms(1) d]) (simp_all add: Watchdog_StartTimer_def)
  then show ?thesis using assms Some by (simp add: startTimer_def)
qed

lemma stopTimer_inv:
  assumes "client_inv s"
  shows "client_inv (stopTimer t s)"
proof (cases "target_dog t s")
  case None
  then show ?thesis using assms by (simp add: stopTimer_def)
next
  case (Some w)
  note d = target_dog_Some [OF Some]
  have "dog_pins (Watchdog_StopTimer w) = dog_pins w"
    by (simp add: Watchdog_StopTimer_def dog_pins_def)
  then have "client_inv (set_dog (ft_top t) (Watchdog_StopTimer w) s)"
    using assms pinned_alive [OF assms d]
    by (intro set_dog_inv [OF assms d]) (simp_all add: Watchdog_StopTimer_def)
  then show ?thesis using assms Some by (simp add: stopTimer_def)
qed

lemma removeCallback_inv: "client_inv s \<Longrightarrow> client_inv (removeCallback t s)"
  by (cases "ft_cb t < length (fc_cbs s)"; erule inv_cong)
    (auto simp: removeCallback_def cbs_progress_def finished_def Deactivate_def nth_list_update
      list_update_beyond)

section \<open>Reachable states\<close>

lemma client_start_inv: "client_inv (client_start a)"
  by (auto simp: client_inv_def tree_inv_def cb_inv_def tgt_inv_def bld_inv_def pin_inv_def dog_inv_def
      client_start_def pins_def sm_get_def sm_ok_def sm_keys_def split: if_splits)

lemma setCallback_cbs: "setCallback t f s = Inr s' \<Longrightarrow> length (fc_cbs s') = length (fc_cbs s)"
  by (auto simp: setCallback_def)

lemma client_step_inv:
  assumes "client_inv s" and "client_step e s = Inr s'"
  shows "client_inv s'"
proof (cases e)
  case (CStartMonitoring n f e2e now)
  show ?thesis
  proof (cases "GetCompleted n s")
    case None
    then show ?thesis using assms CStartMonitoring by (simp add: with_target_def)
  next
    case (Some t)
    with assms CStartMonitoring obtain s1 where s1: "setCallback t f s = Inr s1" "s' = startTimer t e2e now s1"
      by (auto simp: with_target_def falcon_startMonitoring_def)
    then show ?thesis
      using startTimer_inv [OF setCallback_inv [OF assms(1) s1(1)], of t] completed_cb [OF assms(1) Some]
        setCallback_cbs [OF s1(1)] by simp
  qed
next
  case (CBuild env)
  then show ?thesis using assms start_builder_inv by simp
next
  case (CDog d ok now reply)
  then show ?thesis using assms dog_run_inv by simp
qed (use assms in \<open>auto simp: falcon_init_def StartMonitoring_def StopMonitoring_def with_target_def
       falcon_stopMonitoring_def uninit_def Watchdog_Cancel_def completed_cb
       intro!: enqueue_inv ReceivedUp_inv ReceivedDown_inv startTimer_inv removeCallback_inv stopTimer_inv
       split: option.splits\<close>)

lemma reachable_inv: "client_reachable s \<Longrightarrow> client_inv s"
  by (induction rule: client_reachable.induct) (auto intro: client_start_inv client_step_inv)

end
