(* ===== verification/ClientRoute.thy ===== *)
theory ClientRoute
  imports ClientReach
begin

text \<open>
  Reports find their layer: the tag with which a layer registers its children is the one under which
  \<open>layer_map_\<close> has it.
\<close>

section \<open>Steps that add no layer\<close>

definition addr_frame :: "fclient \<Rightarrow> fclient \<Rightarrow> bool" where
  "addr_frame s s' \<longleftrightarrow>
     fc_layer_map s' = fc_layer_map s \<and> fc_counter s' = fc_counter s \<and>
     (\<forall>i l'. layer_of s' i = Some l' \<longrightarrow>
        (\<exists>l. layer_of s i = Some l \<and> ly_addr l' = ly_addr l \<and> ly_watchdog l' = ly_watchdog l))"

lemma addr_frameI:
  assumes "fc_layer_map s' = fc_layer_map s" and "fc_counter s' = fc_counter s"
    and "\<And>i l'. layer_of s' i = Some l' \<Longrightarrow>
      \<exists>l. layer_of s i = Some l \<and> ly_addr l' = ly_addr l \<and> ly_watchdog l' = ly_watchdog l"
  shows "addr_frame s s'"
  using assms by (simp add: addr_frame_def)

lemma addr_frame_same:
  "fc_layers s' = fc_layers s \<Longrightarrow> fc_layer_map s' = fc_layer_map s \<Longrightarrow> fc_counter s' = fc_counter s \<Longrightarrow>
   addr_frame s s'"
  by (simp add: addr_frame_def)

lemma addr_frame_trans [trans]: "addr_frame s t \<Longrightarrow> addr_frame t u \<Longrightarrow> addr_frame s u"
  unfolding addr_frame_def by metis

lemma addr_frame_refl [simp]: "addr_frame s s"
  by (simp add: addr_frame_def)

lemma af_set_layer:
  assumes "layer_of s i = Some l" and "ly_addr l' = ly_addr l" and "ly_watchdog l' = ly_watchdog l"
  shows "addr_frame s (set_layer i l' s)"
  using assms by (intro addr_frameI) (auto split: if_splits)

lemma af_collect: "addr_frame s (collect s)"
  by (intro addr_frameI) (auto simp: collect_layer split: if_splits)

lemma af_invoke: "addr_frame s (invoke lid fs rs c s)"
  by (rule addr_frame_same) simp_all

lemma af_set_dog: "addr_frame s (set_dog d w s)"
  by (rule addr_frame_same) simp_all

lemma af_set_pc: "addr_frame s (set_pc d pc s)"
  by (auto simp: set_pc_def af_set_dog split: option.splits)

lemma af_set_builder: "addr_frame s (set_builder b s)"
  by (rule addr_frame_same) simp_all

lemma af_send: "addr_frame s (send_call i c s)"
  by (rule addr_frame_same) simp_all

lemma af_RunCallbacks: "addr_frame s (RunCallbacks i lid fs rs s)"
  by (intro addr_frameI) (auto simp: RunCallbacks_layer split: if_splits)

lemma af_AddCallback: "addr_frame s (AddCallback i c s)"
  by (intro addr_frameI) (auto simp: AddCallback_layer CallbackList_Add_def split: if_splits)

lemma af_erase: "addr_frame s (erase_child p k s)"
  by (auto simp: erase_child_def intro: af_set_layer split: option.splits)

lemma af_DoChildDown: "addr_frame s (DoChildDown p k g fs rs s)"
proof -
  have "addr_frame s (collect (erase_child p k (RunCallbacks i k fs rs s)))" for i
    by (rule addr_frame_trans [OF af_RunCallbacks addr_frame_trans [OF af_erase af_collect]])
  then show ?thesis by (simp add: DoChildDown_def split: option.splits)
qed

lemma af_DoChildUp: "addr_frame s (DoChildUp p k g s)"
  by (simp add: DoChildUp_def SetUpCallbackTime_def Pet_def af_invoke split: option.splits)

lemma af_KillChild: "KillChild p k r s = Inr (s', b) \<Longrightarrow> addr_frame s s'"
  by (auto simp: KillChild_def Let_def clnt_call_Inr af_RunCallbacks af_send
      addr_frame_trans [OF af_send af_RunCallbacks]
      split: option.splits if_splits prod.splits)

lemma af_leaves: "layer_of s p = Some pl \<Longrightarrow> addr_frame s (set_layer p (pl\<lparr>ly_leaves := f\<rparr>) s)"
  by (rule af_set_layer) simp_all

lemma af_leaves_send:
  "layer_of s p = Some pl \<Longrightarrow> addr_frame s (send_call p c (set_layer p (pl\<lparr>ly_leaves := f\<rparr>) s))"
  by (rule addr_frame_trans [OF af_leaves af_send])

lemma af_CancelChild:
  assumes "CancelChild p k s = Inr (s', b)"
  shows "addr_frame s s'"
  using assms
  by (auto simp: CancelChild_def Let_def clnt_call_Inr intro: af_leaves af_leaves_send
      split: option.splits if_splits)

lemma af_dog_up:
  assumes "dog_up d p s = Inr s'" shows "addr_frame s s'"
proof -
  have "addr_frame s (collect (set_pc d pc s))" for pc
    by (rule addr_frame_trans [OF af_set_pc af_collect])
  with assms show ?thesis by (auto simp: dog_up_def split: option.splits)
qed

lemma af_dog_kill:
  assumes "dog_kill d w cur t r now s = Inr s'" shows "addr_frame s s'"
proof (cases cur)
  case None
  with assms show ?thesis by (auto simp: dog_kill_def af_set_pc)
next
  case (Some p)
  show ?thesis
  proof (cases "wd_stopping w")
    case True
    with assms Some show ?thesis by (auto simp: dog_kill_def af_set_pc)
  next
    case False
    with assms Some obtain s1 ret where k: "KillChild p t r s = Inr (s1, ret)"
      by (auto simp: dog_kill_def)
    have "addr_frame s1 s'"
      using assms Some False k
      by (auto simp: dog_kill_def af_set_pc dest: af_dog_up split: option.splits if_splits)
    with af_KillChild [OF k] show ?thesis by (rule addr_frame_trans)
  qed
qed

lemma af_dog_cancel:
  assumes "dog_cancel d w k s = Inr s'" shows "addr_frame s s'"
proof -
  have f: "addr_frame s (collect (set_pc d pc s))" for s pc
    by (rule addr_frame_trans [OF af_set_pc af_collect])
  have "addr_frame s (collect (set_pc d pc s1))" if "CancelChild p k s = Inr (s1, b)" for p k s1 b pc
    by (rule addr_frame_trans [OF af_CancelChild [OF that] f])
  with f assms show ?thesis
    by (auto simp: dog_cancel_def Let_def split: if_splits option.splits)
qed

lemma af_dog_run: "dog_run d ok now r s = Inr s' \<Longrightarrow> addr_frame s s'"
  by (auto simp: dog_run_def dog_wait_def dog_retry_def af_set_pc
      dest: af_dog_kill af_dog_cancel af_dog_up split: option.splits dog_pc.splits if_splits)

lemma af_app:
  "addr_frame s (enqueue r s)" "addr_frame s (startTimer t e now s)" "addr_frame s (stopTimer t s)"
  "addr_frame s (removeCallback t s)" "addr_frame s (builder_next s)"
  "setCallback t f s = Inr s' \<Longrightarrow> addr_frame s s'" "builder_done n rq cb i cur s = Inr s' \<Longrightarrow> addr_frame s s'"
proof -
  show "addr_frame s (enqueue r s)" "addr_frame s (removeCallback t s)"
    by (auto simp: enqueue_def removeCallback_def intro: addr_frame_same)
  show "addr_frame s (startTimer t e now s)" "addr_frame s (stopTimer t s)"
    by (auto simp: startTimer_def stopTimer_def af_set_dog split: option.splits)
  show "addr_frame s (builder_next s)"
    by (auto simp: builder_next_def Let_def intro!: addr_frame_same split: list.splits)
  show "addr_frame s s'" if "setCallback t f s = Inr s'"
    using that by (auto simp: setCallback_def intro!: addr_frame_same)
  show "addr_frame s s'" if "builder_done n rq cb i cur s = Inr s'"
  proof -
    have "addr_frame s (collect (set_builder b (Complete n t s)))" for b t
      by (rule addr_frame_trans [OF _ af_collect]) (auto simp: Complete_def intro: addr_frame_same)
    moreover have "addr_frame s (set_builder b (invoke lid fs rs c s))" for b lid fs rs c
      by (rule addr_frame_trans [OF af_invoke af_set_builder])
    ultimately show ?thesis using that by (auto simp: builder_done_def split: option.splits if_splits)
  qed
qed

section \<open>The map of the layers\<close>

definition route_inv :: "fclient \<Rightarrow> bool" where
  "route_inv s \<longleftrightarrow>
     (\<forall>i l. layer_of s i = Some l \<longrightarrow> i \<noteq> 0 \<longrightarrow> \<not> ly_watchdog l \<longrightarrow>
        fc_layer_map s (ca_tag (ly_addr l)) = Some i) \<and>
     (\<forall>c. fc_layer_map s c \<noteq> None \<longrightarrow> c \<le> fc_counter s)"

lemma route_frame: "route_inv s \<Longrightarrow> addr_frame s s' \<Longrightarrow> route_inv s'"
  unfolding route_inv_def addr_frame_def by metis

text \<open>The two ends of \<open>AddChild\<close> at a layer with an enforcer, for a new child.\<close>

definition get_gen_call :: "str \<Rightarrow> spy_call" where
  "get_gen_call k = SPY_GET_GEN \<lparr>tg_handle = k, tg_generation = []\<rparr>"

definition register_call :: "str \<Rightarrow> gen_no list \<Rightarrow> bool \<Rightarrow> bool \<Rightarrow> 32 word \<Rightarrow> client_addr_t \<Rightarrow> spy_call" where
  "register_call k g kill leaf t a =
     SPY_REGISTER \<lparr>ra_target = \<lparr>tg_handle = k, tg_generation = g\<rparr>, ra_lethal = kill,
                   ra_up_interval_ms = up_interval leaf t, ra_client = a\<rparr>"

definition offered_gen :: "add_env \<Rightarrow> gen_no list" where
  "offered_gen env = tg_generation (sr_target (snd (rpc_result (ae_gen env))))"

lemma AddChild_remote_cases:
  assumes "AddChild p k kill a t leaf par cb env s = Inr (s', cur)" and "layer_of s p = Some pl"
    and "child_of s p k = None" and "\<not> ly_base pl"
  obtains (none) "cur = None" and "s' = s \<or> s' = send_call p (get_gen_call k) s \<or>
        s' = send_call p (register_call k (offered_gen env) kill leaf t (ly_addr pl)) (send_call p (get_gen_call k) s)"
    | (added) s1 i where "cur = Some i"
        and "new_layer k (offered_gen env) kill par a leaf False (ae_socket env)
          (send_call p (register_call k (offered_gen env) kill leaf t (ly_addr pl))
            (send_call p (get_gen_call k) s)) = Inr (s1, i)"
        and "s' = adopt p k i cb s1" and "rp_stat (ae_register env) = RPC_SUCCESS"
        and "sr_status (rp_res (ae_register env)) = FALCON_REGISTER_ACK"
        and "rp_stat (ae_gen env) = RPC_SUCCESS"
        and "sr_status (rp_res (ae_gen env)) = FALCON_GEN_RESP" and "IsChild (ly_gen pl) (offered_gen env)"
proof (cases "\<not> leaf \<and> \<not> ae_resolved env")
  case True
  with assms none show ?thesis by (simp add: AddChild_def)
next
  case False
  have g: "InitRPCArgs s p k None = \<lparr>tg_handle = k, tg_generation = []\<rparr>"
    and r: "InitRPCArgs t p k (Some x) = \<lparr>tg_handle = k, tg_generation = x\<rparr>" for t x
    using assms(3) by (simp_all add: InitRPCArgs_def)
  have clnt: "ly_clnt pl" using assms False by (simp add: AddChild_def clnt_call_def split: if_splits)
  note A = assms(1) [unfolded AddChild_def, simplified assms(2-4) False option.case if_False clnt_call_def clnt
      if_True res_bind_simps g r get_gen_call_def [symmetric] Let_def]
  let ?s1 = "send_call p (get_gen_call k) s"
  let ?r2 = "send_call p (register_call k (offered_gen env) kill leaf t (ly_addr pl)) ?s1"
  show ?thesis
  proof (cases "rp_stat (ae_gen env) = RPC_SUCCESS \<and> sr_status (rp_res (ae_gen env)) = FALCON_GEN_RESP
      \<and> IsChild (ly_gen pl) (offered_gen env)")
    case no: False
    with A none show ?thesis
      by (auto simp: rpc_result_def offered_gen_def split: if_splits)
  next
    case yes: True
    show ?thesis
    proof (cases "rp_stat (ae_register env) = RPC_SUCCESS \<and> sr_status (rp_res (ae_register env)) = FALCON_REGISTER_ACK")
      case True
      from A yes True obtain s1 i where "new_layer k (offered_gen env) kill par a leaf False (ae_socket env) ?r2 = Inr (s1, i)"
          "s' = adopt p k i cb s1" "cur = Some i"
        by (auto simp: rpc_result_def offered_gen_def register_call_def split: if_splits)
      with yes True added show ?thesis by blast
    next
      case False
      with A yes none show ?thesis
        by (auto simp: rpc_result_def offered_gen_def register_call_def split: if_splits)
    qed
  qed
qed

lemma AddChild_base_cases:
  assumes "AddChild p k kill a t leaf par cb env s = Inr (s', cur)" and "layer_of s p = Some pl"
    and "child_of s p k = None" and "ly_base pl"
  obtains (none) "cur = None" and "s' = s"
    | (added) s1 i where "cur = Some i"
        and "new_layer k (ly_gen pl) kill par a leaf False (ae_socket env) s = Inr (s1, i)"
        and "s' = adopt p k i cb s1"
proof (cases "\<not> leaf \<and> \<not> ae_resolved env")
  case True
  with assms none show ?thesis by (simp add: AddChild_def)
next
  case False
  from assms(1) [unfolded AddChild_def, simplified assms(2-4) False option.case if_False if_True] added
  show ?thesis by (auto simp del: split_paired_Ex)
qed

text \<open>What \<open>AddChild\<close> does to the layers.\<close>

definition one_new :: "fclient \<Rightarrow> nat \<Rightarrow> client_addr_t \<Rightarrow> bool \<Rightarrow> fclient \<Rightarrow> bool" where
  "one_new s i a leaf s' \<longleftrightarrow>
     (\<forall>j l'. layer_of s' j = Some l' \<longrightarrow>
          (if j = i then ly_addr l' = a \<and> ly_watchdog l' = leaf
           else \<exists>l. layer_of s j = Some l \<and> ly_addr l' = ly_addr l \<and> ly_watchdog l' = ly_watchdog l))"

lemma one_newD:
  "one_new s i a leaf s' \<Longrightarrow> layer_of s' i = Some l' \<Longrightarrow> ly_addr l' = a \<and> ly_watchdog l' = leaf"
  "one_new s i a leaf s' \<Longrightarrow> layer_of s' j = Some l' \<Longrightarrow> j \<noteq> i \<Longrightarrow>
     \<exists>l. layer_of s j = Some l \<and> ly_addr l' = ly_addr l \<and> ly_watchdog l' = ly_watchdog l"
  by (auto simp: one_new_def split: if_splits)

lemma AddChild_layers:
  assumes "client_inv s" and "cb < length (fc_cbs s)" and "finished s cb \<or> knows s p cb"
    and "AddChild p k kill a t leaf (Some p) cb env s = Inr (s', cur)"
  shows "addr_frame s s' \<or>
    (\<exists>i. cur = Some i \<and> layer_of s i = None \<and>
       one_new s i a leaf s')"
proof -
  have new: "\<exists>i. cur = Some i \<and> layer_of s i = None \<and>
       one_new s i a leaf s'"
    if h: "new_layer k g kill (Some p) a leaf False sock s0 = Inr (s1, i)" "s' = adopt p k i cb s1"
      "cur = Some i" "fc_layers s0 = fc_layers s" "fc_next s0 = fc_next s" "layer_of s p = Some pl" for g sock s0 s1 i pl
  proof -
    note F = new_layer_frame [OF h(1)]
    have n: "layer_of s i = None" using fresh_id [OF client_invD(1) [OF assms(1)]] F(11) h(5) by simp
    then have pi: "p \<noteq> i" using h(6) by auto
    have "layer_of s1 p = Some pl" using F(12) pi h(4,6) by simp
    then show ?thesis
      using n pi F(12) h(2,3,4)
      by (auto simp: one_new_def adopt_alt AddCallback_layer own_def CallbackList_Add_def split: if_splits)
  qed
  have "\<exists>pl. layer_of s p = Some pl"
    using assms(4) by (cases "layer_of s p") (auto simp: AddChild_def)
  then obtain pl where p: "layer_of s p = Some pl" ..
  have snd: "addr_frame s (send_call p c s)" "addr_frame s (send_call p c (send_call p c' s))" for c c'
    using af_send addr_frame_trans by blast+
  show ?thesis
  proof (cases "child_of s p k")
    case (Some ic)
    with assms(4) p have "s' = AddCallback (fst ic) cb s" by (auto simp: AddChild_def split: prod.splits)
    then show ?thesis using af_AddCallback by simp
  next
    case None
    show ?thesis
    proof (cases "ly_base pl")
      case True
      from assms(4) p None True show ?thesis
      proof (cases rule: AddChild_base_cases)
        case none
        then show ?thesis by simp
      next
        case (added s1 i)
        from new [OF added(2,3,1) _ _ p] show ?thesis by simp
      qed
    next
      case False
      let ?g = "SPY_GET_GEN (InitRPCArgs s p k None)"
      from assms(4) p None False show ?thesis
      proof (cases rule: AddChild_remote_cases)
        case none
        then show ?thesis using snd by auto
      next
        case (added s1 i)
        from new [OF added(2,3,1) _ _ p] show ?thesis by simp
      qed
    qed
  qed
qed

lemma builder_layer_route:
  assumes "client_inv s" and b: "fc_builder s = BLoop n r cb i (Some p)" and "route_inv s"
    and "fc_counter s + 1 \<noteq> 0" and "builder_layer env n r cb i p s = Inr s'"
  shows "route_inv s' \<and> fc_counter s' = fc_counter s + 1"
proof -
  let ?s1 = "s\<lparr>fc_counter := fc_counter s + 1\<rparr>" and ?tag = "fc_counter s + 1"
  have 1: "client_inv ?s1" by (rule counter_inv [OF assms(1)])
  have lt: "fc_counter s < ?tag" by (rule word_less_no_wrap [OF assms(4)])
  have k: "cb < length (fc_cbs ?s1)" "finished ?s1 cb \<or> knows ?s1 p cb"
    using client_invD(4) [OF assms(1)] b by (auto simp: bld_inv_def finished_def knows_def)
  from assms(5) obtain s2 cur s3 where
    a: "AddChild p (rq_idlist r ! nat i) (rq_lethal r) (fc_addr s\<lparr>ca_tag := ?tag\<rparr>)
          (rq_e2etimeout r) (i = 0) (Some p) cb env ?s1 = Inr (s2, cur)"
    and c: "(case cur of Some l \<Rightarrow> (if i \<noteq> 0 then AddLayer ?tag l s2 else Inr s2)
             | None \<Rightarrow> Inr s2) = Inr s3"
    and s': "s' = collect (set_builder (BLoop n r cb (i - 1) cur) s3)"
    unfolding builder_layer_def GetNextLayerId_def Let_def prod.case by auto
  note A = AddChild_inv(5,6) [OF 1 k a]
  have m2: "fc_layer_map s2 = fc_layer_map s" "fc_counter s2 = ?tag" using A by simp_all
  have le: "fc_layer_map s t \<noteq> None \<Longrightarrow> t \<le> fc_counter s" for t
    using assms(3) unfolding route_inv_def by blast
  have fresh: "fc_layer_map s ?tag = None"
    using le [of ?tag] lt by (metis leD)
  have m3: "fc_layers s3 = fc_layers s2" "fc_counter s3 = ?tag"
    "\<And>t. t \<noteq> ?tag \<Longrightarrow> fc_layer_map s3 t = fc_layer_map s t"
    "\<And>l. cur = Some l \<Longrightarrow> i \<noteq> 0 \<Longrightarrow> fc_layer_map s3 ?tag = Some l"
    using c m2 by (auto simp: AddLayer_def split: option.splits if_splits)
  have "route_inv s3"
    unfolding route_inv_def
  proof (intro conjI allI impI)
    fix t assume "fc_layer_map s3 t \<noteq> None"
    then show "t \<le> fc_counter s3" using m3(2,3) le [of t] lt by (cases "t = ?tag") auto
  next
    fix j l' assume h: "layer_of s3 j = Some l'" "j \<noteq> 0" "\<not> ly_watchdog l'"
    have old: "fc_layer_map s3 (ca_tag (ly_addr l)) = Some j" if "layer_of s j = Some l" "\<not> ly_watchdog l" for l
    proof -
      have "fc_layer_map s (ca_tag (ly_addr l)) = Some j"
        using assms(3) that h(2) by (simp add: route_inv_def)
      then show ?thesis using m3(3) fresh by (cases "ca_tag (ly_addr l) = ?tag") auto
    qed
    from AddChild_layers [OF 1 k a] show "fc_layer_map s3 (ca_tag (ly_addr l')) = Some j"
    proof
      assume "addr_frame ?s1 s2"
      then obtain l where "layer_of s j = Some l" "ly_addr l' = ly_addr l" "ly_watchdog l' = ly_watchdog l"
        using h m3(1) by (auto simp: addr_frame_def)
      then show ?thesis using old [of l] h(3) by simp
    next
      assume "\<exists>ii. cur = Some ii \<and> layer_of ?s1 ii = None \<and>
          one_new ?s1 ii (fc_addr s\<lparr>ca_tag := ?tag\<rparr>) (i = 0) s2"
      then obtain ii where ii: "cur = Some ii" "one_new ?s1 ii (fc_addr s\<lparr>ca_tag := ?tag\<rparr>) (i = 0) s2"
        by blast
      have j: "layer_of s2 j = Some l'" using h(1) m3(1) by simp
      show ?thesis
      proof (cases "j = ii")
        case True
        then show ?thesis using one_newD(1) [OF ii(2), of l'] j h(3) m3(4) [OF ii(1)] by simp
      next
        case False
        then obtain l where "layer_of s j = Some l" "ly_addr l' = ly_addr l" "ly_watchdog l' = ly_watchdog l"
          using one_newD(2) [OF ii(2) j] by auto
        then show ?thesis using old [of l] h(3) by simp
      qed
    qed
  qed
  then have "route_inv (collect (set_builder (BLoop n r cb (i - 1) cur) s3))"
    by (rule route_frame) (rule addr_frame_trans [OF af_set_builder af_collect])
  then show ?thesis using s' m3(2) by simp
qed

lemma client_step_route:
  assumes "client_inv s" and "route_inv s" and "fc_counter s + 1 \<noteq> 0" and "client_step e s = Inr s'"
  shows "route_inv s' \<and> (fc_counter s' = fc_counter s \<or> fc_counter s' = fc_counter s + 1)"
proof -
  have fr: "route_inv s' \<and> fc_counter s' = fc_counter s" if "addr_frame s s'"
    using route_frame [OF assms(2) that] that by (simp add: addr_frame_def)
  show ?thesis
  proof (cases e)
    case (CBuild env)
    then have s: "start_builder env s = Inr s'" using assms(4) by simp
    show ?thesis
    proof (cases "fc_builder s")
      case BIdle
      then show ?thesis using s fr af_app(5) by (auto simp: start_builder_def)
    next
      case (BLoop n r cb i cur)
      show ?thesis
      proof (cases "\<exists>p. cur = Some p \<and> 0 \<le> i")
        case True
        then obtain p where "cur = Some p" "0 \<le> i" by blast
        then show ?thesis using builder_layer_route [OF assms(1) _ assms(2,3)] s BLoop
          by (auto simp: start_builder_def)
      next
        case False
        then have "builder_done n r cb i cur s = Inr s'"
          using s BLoop by (auto simp: start_builder_def split: option.splits if_splits)
        then show ?thesis using fr af_app(7) by blast
      qed
    qed
  next
    case (CStartMonitoring n f e2e now)
    show ?thesis
    proof (cases "GetCompleted n s")
      case None
      then show ?thesis using assms CStartMonitoring by (simp add: with_target_def)
    next
      case (Some t)
      with assms CStartMonitoring obtain s1 where s1: "setCallback t f s = Inr s1" "s' = startTimer t e2e now s1"
        by (auto simp: with_target_def falcon_startMonitoring_def)
      then show ?thesis using fr addr_frame_trans [OF af_app(6) [OF s1(1)] af_app(2)] by simp
    qed
  next
    case (CDog d ok now reply)
    then show ?thesis using assms(4) fr af_dog_run by simp
  next
    case (CStopMonitoring n)
    show ?thesis
    proof (cases "GetCompleted n s")
      case None
      then show ?thesis using assms CStopMonitoring by (simp add: with_target_def)
    next
      case (Some t)
      then show ?thesis using assms(4) CStopMonitoring fr addr_frame_trans [OF af_app(3) af_app(4)]
        by (auto simp: with_target_def falcon_stopMonitoring_def)
    qed
  next
    case (CStartTimer n e2e now)
    then show ?thesis using assms(2,4) fr af_app(2) by (auto simp: with_target_def split: option.splits)
  next
    case (CUninit n)
    then show ?thesis using assms(2,4)
      by (auto simp: with_target_def uninit_def Watchdog_Cancel_def split: option.splits)
  next
    case (CUp arg)
    then show ?thesis using assms(2,4) fr af_DoChildUp
      by (auto simp: client_up_1_svc_def ReceivedUp_def split: option.splits)
  next
    case (CDown arg)
    have "addr_frame s (client_down_1_svc arg s)"
      by (auto simp: client_down_1_svc_def ReceivedDown_def Let_def af_DoChildDown split: option.splits)
    then show ?thesis using assms(4) CDown fr by simp
  qed (use assms(4) fr af_app(1) in \<open>auto simp: falcon_init_def StartMonitoring_def StopMonitoring_def\<close>)
qed

lemma client_start_route: "route_inv (client_start a)"
  by (auto simp: route_inv_def client_start_def sm_get_def split: if_splits)

lemma client_run_route:
  assumes "client_run es (client_start a) = Inr s" and "length es < 2 ^ 32"
  shows "route_inv s \<and> client_inv s \<and> unat (fc_counter s) \<le> length es"
  using assms
proof (induction es arbitrary: s rule: rev_induct)
  case Nil
  then have "s = client_start a" by (simp add: client_run_def)
  moreover have "fc_counter (client_start a) = 0" by (simp add: client_start_def)
  ultimately show ?case using client_start_route client_start_inv by simp
next
  case (snoc e es)
  then obtain s1 where s1: "client_run es (client_start a) = Inr s1" "client_step e s1 = Inr s"
    by (auto simp: client_run_def res_fold_append)
  have I: "route_inv s1" "client_inv s1" "unat (fc_counter s1) \<le> length es"
    using snoc.IH [OF s1(1)] snoc.prems(2) by auto
  have "unat (fc_counter s1 + 1) = Suc (unat (fc_counter s1))"
    using I(3) snoc.prems(2) by (simp add: unat_word_ariths(1))
  moreover from this have "fc_counter s1 + 1 \<noteq> 0" by auto
  ultimately show ?case
    using client_step_route [OF I(2,1) _ s1(2)] client_step_inv [OF I(2) s1(2)] I(3) by auto
qed

end
