(* ===== verification/ClientProps.thy ===== *)
theory ClientProps
  imports ClientRoute
begin

text \<open>
  What the client library guarantees to the application, with a run of it: a client that monitors one
  process on one host.
\<close>

section \<open>A run\<close>

definition cdemo_ok :: "spy_status \<Rightarrow> gen_no list \<Rightarrow> rpc_reply" where
  "cdemo_ok st g =
     \<lparr>rp_stat = RPC_SUCCESS, rp_res = \<lparr>sr_target = \<lparr>tg_handle = [], tg_generation = g\<rparr>, sr_status = st\<rparr>\<rparr>"

definition cdemo_env :: add_env where
  "cdemo_env =
     \<lparr>ae_resolved = True, ae_socket = True, ae_gen = cdemo_ok FALCON_GEN_RESP [5],
      ae_register = cdemo_ok FALCON_REGISTER_ACK []\<rparr>"

definition cdemo_addr :: client_addr_t where
  "cdemo_addr = \<lparr>ca_ipaddr = 0, ca_port = 0, ca_tag = 0\<rparr>"

definition cdemo_time :: "int \<Rightarrow> timespec" where
  "cdemo_time n = \<lparr>tv_sec = n, tv_nsec = 0\<rparr>"

text \<open>\<open>init\<close> of a handle, the four turns of the builder, and \<open>startMonitoring\<close>.\<close>

definition cdemo_events :: "bool \<Rightarrow> client_event list" where
  "cdemo_events lethal =
     [CInit [''app'', ''host''] lethal 0 30, CBuild cdemo_env, CBuild cdemo_env, CBuild cdemo_env,
      CBuild cdemo_env, CStartMonitoring 0 (Some 9) 10 (cdemo_time 100)]"

definition cdemo_run :: "bool \<Rightarrow> fclient res" where
  "cdemo_run lethal = client_run (cdemo_events lethal) (client_start cdemo_addr)"

lemmas client_simps =
  client_run_def falcon_init_def StartMonitoring_def enqueue_def start_builder_def builder_next_def
  builder_layer_def builder_done_def GetNextLayerId_def AddChild_def child_of_def new_layer_def Let_def
  adopt_def AddCallback_def CallbackList_Add_def set_layer_def set_dog_def send_call_def clnt_call_def
  InitRPCArgs_def rpc_result_def up_interval_def AddLayer_def GetLayer_def weak_lock_def set_builder_def
  Complete_def new_watchdog_def collect_def pins_def dog_pins_def owned_by_def Stop_def sm_get_def
  with_target_def GetCompleted_def falcon_startMonitoring_def setCallback_def startTimer_def
  target_dog_def Watchdog_StartTimer_def IsChild_def callback_simps client_start_def
  cdemo_ok_def cdemo_env_def cdemo_addr_def cdemo_time_def

lemma client_run_reachable:
  "client_run es s = Inr s' \<Longrightarrow> client_reachable s \<Longrightarrow> client_reachable s'"
  by (induction es arbitrary: s) (auto simp: client_run_def intro: client_reachable.step)

lemma cdemo_reachable: "cdemo_run lethal = Inr s \<Longrightarrow> client_reachable s"
  by (auto simp: cdemo_run_def intro: client_run_reachable client_reachable.start)

section \<open>No failure is lost\<close>

text \<open>
  The layers from \<open>i\<close> up to the base layer are alive, each owned by the next, and all but the base
  layer will call \<open>c\<close> when they are reported down.
\<close>

inductive hangs :: "fclient \<Rightarrow> nat \<Rightarrow> nat \<Rightarrow> bool" where
  base: "layer_of s 0 = Some l \<Longrightarrow> hangs s 0 c"
| layer: "layer_of s i = Some l \<Longrightarrow> c \<in> set (ly_cbs l) \<Longrightarrow> ly_parent l = Some p \<Longrightarrow>
    child_of s p (ly_handle l) = Some (i, l) \<Longrightarrow> hangs s p c \<Longrightarrow> hangs s i c"

lemma knows_hangs:
  assumes "client_inv s" and "knows s i c" and "\<not> finished s c"
  shows "hangs s i c"
  using assms(2)
proof (induction i rule: less_induct)
  case (less i)
  note T = client_invD(1) [OF assms(1)]
  obtain l where l: "layer_of s i = Some l" "i = 0 \<or> c \<in> set (ly_cbs l)"
    using less.prems by (auto simp: knows_def)
  show ?case
  proof (cases "i = 0")
    case True
    with l hangs.base show ?thesis by simp
  next
    case False
    then obtain p where p: "attached s i l p" "knows s p c"
      using l cb_invD(2) [OF client_invD(2) [OF assms(1)]] assms(3) by blast
    have "p < i" using p(1) tree_invD(3) [OF T l(1)] by (simp add: attached_def)
    with less.IH p(2) have "hangs s p c" by blast
    moreover have "child_of s p (ly_handle l) = Some (i, l)"
      using p(1) l(1) by (auto simp: attached_def owned_by_def child_of_def split: option.splits)
    ultimately show ?thesis using l p False by (auto intro: hangs.layer simp: attached_def)
  qed
qed


lemma cdemo_result: "\<exists>s. cdemo_run lethal = Inr s \<and> fc_completed s = [(0, \<lparr>ft_cb = 0, ft_top = 2\<rparr>)] \<and>
    \<not> finished s 0 \<and> fc_counter s = 2 \<and> fc_layer_map s 1 = Some 1"
  by (cases lethal) (simp_all add: cdemo_run_def cdemo_events_def client_simps finished_def)


section \<open>A report\<close>

text \<open>A second final event leaves a callback object as it is.\<close>

lemma cb_invoke_twice:
  "fs \<noteq> SIGN_OF_LIFE \<Longrightarrow>
   cb_invoke lid fs' rs' (fst (cb_invoke lid' fs rs cb)) = (fst (cb_invoke lid' fs rs cb), [])"
  by (auto simp: cb_invoke_def Let_def split: option.splits prod.splits)

lemma invoke_calls:
  "fc_calls (invoke lid fs rs c s) = fc_calls s @ snd (cb_invoke lid fs rs (fc_cbs s ! c))"
  by (simp add: invoke_def split: prod.splits)

lemma fold_invoke_calls_mono: "set (fc_calls s) \<subseteq> set (fc_calls (fold (invoke lid fs rs) cs s))"
  by (induction cs arbitrary: s) (fastforce simp: invoke_calls)+

lemma fold_invoke_other:
  assumes "c \<notin> set cs" and "\<forall>c\<in>set cs. c < length (fc_cbs s)"
  shows "fc_cbs (fold (invoke lid fs rs) cs s) ! c = fc_cbs s ! c"
  using assms by (induction cs arbitrary: s) (auto simp: invoke_nth)

lemma fold_invoke_done:
  assumes "fs \<noteq> SIGN_OF_LIFE" and "\<forall>c\<in>set cs. c < length (fc_cbs s)"
    and "fc_cbs s ! c = fst (cb_invoke lid fs rs cb)"
  shows "fc_cbs (fold (invoke lid fs rs) cs s) ! c = fst (cb_invoke lid fs rs cb)"
  using assms
proof (induction cs arbitrary: s)
  case Nil
  then show ?case by simp
next
  case (Cons a cs)
  then have "fc_cbs (invoke lid fs rs a s) ! c = fst (cb_invoke lid fs rs cb)"
    by (cases "c = a") (auto simp: invoke_nth cb_invoke_twice)
  with Cons show ?case by simp
qed

lemma fold_invoke_called:
  assumes "fs \<noteq> SIGN_OF_LIFE" and "\<forall>c\<in>set cs. c < length (fc_cbs s)" and "c \<in> set cs"
  shows "fc_cbs (fold (invoke lid fs rs) cs s) ! c = fst (cb_invoke lid fs rs (fc_cbs s ! c)) \<and>
    set (snd (cb_invoke lid fs rs (fc_cbs s ! c))) \<subseteq> set (fc_calls (fold (invoke lid fs rs) cs s))"
  using assms
proof (induction cs arbitrary: s)
  case Nil
  then show ?case by simp
next
  case (Cons a cs)
  let ?s = "invoke lid fs rs a s"
  show ?case
  proof (cases "c = a")
    case True
    then have "fc_cbs ?s ! c = fst (cb_invoke lid fs rs (fc_cbs s ! c))"
      using Cons.prems by (simp add: invoke_nth)
    with fold_invoke_done [OF Cons.prems(1), of cs ?s c lid rs "fc_cbs s ! c"] Cons.prems True
      fold_invoke_calls_mono [of ?s lid fs rs cs] show ?thesis
      by (auto simp: invoke_calls)
  next
    case False
    then have "fc_cbs ?s ! c = fc_cbs s ! c" using Cons.prems by (simp add: invoke_nth)
    with Cons.IH [of ?s] Cons.prems False show ?thesis by simp
  qed
qed

lemma RunCallbacks_effect:
  assumes "client_inv s" and "layer_of s i = Some l" and "fs \<noteq> SIGN_OF_LIFE"
  shows "c \<in> set (ly_cbs l) \<Longrightarrow>
      fc_cbs (RunCallbacks i lid fs rs s) ! c = fst (cb_invoke lid fs rs (fc_cbs s ! c)) \<and>
      set (snd (cb_invoke lid fs rs (fc_cbs s ! c))) \<subseteq> set (fc_calls (RunCallbacks i lid fs rs s))"
    and "c \<notin> set (ly_cbs l) \<Longrightarrow> fc_cbs (RunCallbacks i lid fs rs s) ! c = fc_cbs s ! c"
proof -
  have "\<forall>c\<in>set (ly_cbs l). c < length (fc_cbs s)" using knows_le [OF assms(1,2)] by blast
  note L = fold_invoke_called [OF assms(3) this] fold_invoke_other [OF _ this]
  show "c \<in> set (ly_cbs l) \<Longrightarrow>
      fc_cbs (RunCallbacks i lid fs rs s) ! c = fst (cb_invoke lid fs rs (fc_cbs s ! c)) \<and>
      set (snd (cb_invoke lid fs rs (fc_cbs s ! c))) \<subseteq> set (fc_calls (RunCallbacks i lid fs rs s))"
    using L(1) assms(2) by (simp add: RunCallbacks_alt)
  show "c \<notin> set (ly_cbs l) \<Longrightarrow> fc_cbs (RunCallbacks i lid fs rs s) ! c = fc_cbs s ! c"
    using L(2) assms(2) by (simp add: RunCallbacks_alt)
qed

definition down_status :: "client_down_arg \<Rightarrow> u32" where
  "down_status arg =
     (if dn_killed arg then KILLED_BY_REMOTE
      else if dn_would_kill arg then REMOTE_WOULD_KILL else DOWN_FROM_REMOTE)"

lemma down_svc_alt:
  "client_down_1_svc arg s =
     ReceivedDown (dn_tag arg) (dn_handle arg) (dn_generation arg) (down_status arg) (dn_layer_status arg) s"
  by (auto simp: client_down_1_svc_def down_status_def Let_def)

lemma down_status_final: "down_status arg \<noteq> SIGN_OF_LIFE"
  by (simp add: down_status_def client_status_defs)

lemma erase_child_frame [simp]:
  "fc_cbs (erase_child p k s) = fc_cbs s" "fc_calls (erase_child p k s) = fc_calls s"
  "fc_dogs (erase_child p k s) = fc_dogs s" "fc_builder (erase_child p k s) = fc_builder s"
  by (simp_all add: erase_child_def split: option.splits)

lemma down_report_state:
  assumes "client_reachable s" and "GetLayer (dn_tag arg) s = Some p"
    and "child_of s p (dn_handle arg) = Some (i, l)" and "length (ly_gen l) = length (dn_generation arg)"
  shows "client_down_1_svc arg s = collect (erase_child p (dn_handle arg)
      (RunCallbacks i (dn_handle arg) (down_status arg) (dn_layer_status arg) s))"
    and "child_of (client_down_1_svc arg s) p (dn_handle arg) = None"
    and "\<And>c. fc_cbs (client_down_1_svc arg s) ! c =
      (if c \<in> set (ly_cbs l)
       then fst (cb_invoke (dn_handle arg) (down_status arg) (dn_layer_status arg) (fc_cbs s ! c))
       else fc_cbs s ! c)"
    and "\<And>c. c \<in> set (ly_cbs l) \<Longrightarrow> finished (client_down_1_svc arg s) c"
proof -
  note I = reachable_inv [OF assms(1)] and F = down_status_final [of arg]
  have i: "layer_of s i = Some l" using assms(3) by (auto elim: child_of_Some)
  show s': "client_down_1_svc arg s = collect (erase_child p (dn_handle arg)
      (RunCallbacks i (dn_handle arg) (down_status arg) (dn_layer_status arg) s))"
    using assms(2-4) by (simp add: down_svc_alt ReceivedDown_def DoChildDown_def)
  note E = RunCallbacks_effect [OF I i F, of _ "dn_handle arg" "dn_layer_status arg"]
  show cbs: "fc_cbs (client_down_1_svc arg s) ! c =
      (if c \<in> set (ly_cbs l)
       then fst (cb_invoke (dn_handle arg) (down_status arg) (dn_layer_status arg) (fc_cbs s ! c))
       else fc_cbs s ! c)" for c
    using E by (simp add: s')
  show "finished (client_down_1_svc arg s) c" if "c \<in> set (ly_cbs l)" for c
    using cbs [of c] that cb_invoke_final [OF F] by (simp add: finished_def)
  show "child_of (client_down_1_svc arg s) p (dn_handle arg) = None"
    by (auto simp: s' child_of_def collect_layer erase_child_def split: option.splits)
qed

text \<open>
  C16. A down report that names a layer the client monitors (by the tag of its parent and its own name,
  with a generation vector of the right length): each callback of that layer gets the report once,
  with the status of the flags (killed before would-kill) and the remote status, and is then final;
  a callback with a function set is called with it; callbacks of other layers are untouched; and the layer is
  no longer a child.
\<close>

theorem down_report_delivered:
  assumes "client_reachable s" and "GetLayer (dn_tag arg) s = Some p"
    and "child_of s p (dn_handle arg) = Some (i, l)" and "length (ly_gen l) = length (dn_generation arg)"
    and "s' = client_down_1_svc arg s"
  shows "(\<forall>c. fc_cbs s' ! c =
      (if c \<in> set (ly_cbs l)
       then fst (cb_invoke (dn_handle arg) (down_status arg) (dn_layer_status arg) (fc_cbs s ! c))
       else fc_cbs s ! c)) \<and>
    (\<forall>c \<in> set (ly_cbs l). finished s' c \<and>
       set (snd (cb_invoke (dn_handle arg) (down_status arg) (dn_layer_status arg) (fc_cbs s ! c)))
         \<subseteq> set (fc_calls s')) \<and>
    child_of s' p (dn_handle arg) = None"
proof -
  note D = down_report_state [OF assms(1-4)]
  have i: "layer_of s i = Some l" using assms(3) by (auto elim: child_of_Some)
  note E = RunCallbacks_effect [OF reachable_inv [OF assms(1)] i down_status_final [of arg],
      of _ "dn_handle arg" "dn_layer_status arg"]
  from D(2-4) show ?thesis using E(1) by (simp add: assms(5) D(1))
qed

theorem down_report_delivered_witness:
  "\<exists>s s'. cdemo_run True = Inr s \<and>
     s' = client_down_1_svc \<lparr>dn_handle = ''app'', dn_generation = [5], dn_layer_status = 3,
            dn_killed = False, dn_would_kill = True, dn_tag = 1\<rparr> s \<and>
     finished s' 0 \<and>
     cb_run_thread 9 [''app'', ''host''] 0 REMOTE_WOULD_KILL 3 0 \<in> set (fc_calls s')"
proof -
  let ?arg = "\<lparr>dn_handle = ''app'', dn_generation = [5], dn_layer_status = 3,
            dn_killed = False, dn_would_kill = True, dn_tag = 1\<rparr>"
  obtain s l where s: "cdemo_run True = Inr s" "GetLayer 1 s = Some 1" "child_of s 1 ''app'' = Some (2, l)"
      "ly_gen l = [5]" "ly_cbs l = [0]" "fc_f (fc_cbs s ! 0) = Some 9" "fc_h (fc_cbs s ! 0) = [''app'', ''host'']"
      "fc_cd (fc_cbs s ! 0) = 0"
    by (simp add: cdemo_run_def cdemo_events_def client_simps)
  from down_report_delivered [OF cdemo_reachable [OF s(1)], of ?arg 1 2 l "client_down_1_svc ?arg s"] s
  show ?thesis
    by (auto simp: cb_invoke_def down_status_def call_index_def client_status_defs)
qed

section \<open>The end-to-end timeout\<close>

lemma set_pc_layer [simp]: "layer_of (set_pc d pc s) i = layer_of s i"
  "child_of (set_pc d pc s) p k = child_of s p k" "fc_cbs (set_pc d pc s) = fc_cbs s"
  "fc_calls (set_pc d pc s) = fc_calls s"
  by (simp_all add: set_pc_def child_of_def split: option.splits)

lemma set_pc_dog: "dog_of s d = Some w \<Longrightarrow> dog_of (set_pc d pc s) d = Some (w\<lparr>wd_pc := pc\<rparr>)"
  by (simp add: set_pc_def)



section \<open>The way of a watchdog\<close>

text \<open>A bound on the turns that a watchdog still takes.\<close>

definition dog_rank :: "watchdog \<Rightarrow> nat" where
  "dog_rank w =
     (let K = Suc (Suc (length (wd_pp_list w))) in
      case wd_pc w of
        DogWait \<Rightarrow> K + (case wd_start w of None \<Rightarrow> 1 | Some p \<Rightarrow> 2 * p + 4)
      | DogKill None t \<Rightarrow> K
      | DogKill (Some p) t \<Rightarrow> K + 2 * p + 3
      | DogRetry p t limit \<Rightarrow> K + 2 * p + 2
      | DogCancel k cur \<Rightarrow> Suc (length (wd_pp_list w) - k)
      | DogSpin p \<Rightarrow> 0
      | DogDone \<Rightarrow> 0)"

lemma collect_dog_pc:
  "dog_of s d = Some w \<Longrightarrow> \<exists>w'. dog_of (collect s) d = Some w' \<and> wd_pc w' = wd_pc w \<and>
     wd_pp_list w' = wd_pp_list w \<and> wd_start w' = wd_start w"
  by (cases "dead_dog s d") (simp_all add: collect_dog Stop_def)

lemma dog_rank_cong:
  "wd_pc w' = wd_pc w \<Longrightarrow> wd_pp_list w' = wd_pp_list w \<Longrightarrow> wd_start w' = wd_start w \<Longrightarrow>
   dog_rank w' = dog_rank w"
  by (simp add: dog_rank_def Let_def split: dog_pc.splits option.splits)

lemma collect_dog_rank:
  "dog_of s d = Some w \<Longrightarrow> \<exists>w'. dog_of (collect s) d = Some w' \<and> dog_rank w' = dog_rank w"
  using collect_dog_pc dog_rank_cong by metis

lemma dog_up_rank:
  assumes "tree_inv s" and "dog_of s d = Some w" and "dog_up d p s = Inr s'"
  shows "\<exists>w'. dog_of s' d = Some w' \<and> dog_rank w' < length (wd_pp_list w) + 2 * p + 4"
proof -
  obtain pl where pl: "layer_of s p = Some pl"
      "s' = collect (set_pc d (DogKill (weak_lock s (ly_parent pl)) (ly_handle pl)) s)"
    using assms(3) by (auto simp: dog_up_def split: option.splits)
  let ?w = "w\<lparr>wd_pc := DogKill (weak_lock s (ly_parent pl)) (ly_handle pl)\<rparr>"
  have "q < p" if "weak_lock s (ly_parent pl) = Some q" for q
    using that tree_invD(3) [OF assms(1) pl(1)] by (auto simp: weak_lock_Some)
  then have "dog_rank ?w < length (wd_pp_list w) + 2 * p + 4"
    by (cases "weak_lock s (ly_parent pl)") (force simp: dog_rank_def Let_def)+
  then show ?thesis
    using collect_dog_rank [OF set_pc_dog [OF assms(2)]] pl(2) by metis
qed

text \<open>
  C38. The thread of a watchdog ends: in a reachable state, each step of it leaves it waiting at its
  first wait or for the report after a kill, or it has come to its end or to the endless loop at the
  base layer, or its bound \<open>dog_rank\<close> goes down; the kills move up the tree, one layer at a time.
\<close>

theorem watchdog_ends:
  assumes "client_reachable s" and "dog_of s d = Some w" and "client_step (CDog d ok now r) s = Inr s'"
  shows "\<exists>w'. dog_of s' d = Some w' \<and>
    (dog_rank w' < dog_rank w \<or>
     w' = w \<and> (case wd_pc w of DogWait \<Rightarrow> True | DogRetry p t limit \<Rightarrow> True | DogSpin p \<Rightarrow> True
               | DogDone \<Rightarrow> True | _ \<Rightarrow> False))"
proof -
  note I = reachable_inv [OF assms(1)]
  note T = client_invD(1) [OF I]
  have run: "dog_run d ok now r s = Inr s'" using assms(3) by simp
  note pc = set_pc_dog [OF assms(2)]
  show ?thesis
  proof (cases "wd_pc w")
    case DogWait
    then have "s' = s \<or> s' = set_pc d (DogKill (weak_lock s (wd_start w)) (wd_target w)) s"
      using run assms(2) by (auto simp: dog_run_def dog_wait_def split: if_splits)
    moreover have "dog_rank (w\<lparr>wd_pc := DogKill (weak_lock s (wd_start w)) (wd_target w)\<rparr>) < dog_rank w"
      using DogWait by (auto simp: dog_rank_def Let_def weak_lock_def split: option.splits)
    ultimately show ?thesis using DogWait pc assms(2) by auto
  next
    case (DogKill cur t)
    show ?thesis
    proof (cases "cur = None \<or> wd_stopping w")
      case True
      then obtain c where "s' = set_pc d (DogCancel 0 c) s"
        using run assms(2) DogKill by (auto simp: dog_run_def dog_kill_def split: option.splits)
      moreover have "dog_rank (w\<lparr>wd_pc := DogCancel 0 c\<rparr>) < dog_rank w"
        using DogKill by (cases cur) (simp_all add: dog_rank_def Let_def)
      ultimately show ?thesis using pc by auto
    next
      case False
      then obtain p where p: "cur = Some p" by auto
      then obtain s1 ret where k: "KillChild p t r s = Inr (s1, ret)"
        using run assms(2) DogKill False by (auto simp: dog_run_def dog_kill_def)
      have d1: "dog_of s1 d = Some w" using KillChild_frame(2) [OF k] assms(2) by simp
      note pc1 = set_pc_dog [OF d1] and T1 = client_invD(1) [OF KillChild_inv [OF I k]]
      have r: "dog_rank w = length (wd_pp_list w) + 2 * p + 5"
        using DogKill p by (simp add: dog_rank_def Let_def)
      have less: "dog_rank (w\<lparr>wd_pc := DogSpin p\<rparr>) < dog_rank w"
        "dog_rank (w\<lparr>wd_pc := DogCancel 0 (Some p)\<rparr>) < dog_rank w" "dog_rank (w\<lparr>wd_pc := DogRetry p t l\<rparr>) < dog_rank w" for l
        by (simp_all add: r dog_rank_def [of "w\<lparr>wd_pc := pc\<rparr>" for pc] Let_def)
      have c: "(case ret of None \<Rightarrow> Inr (set_pc d (DogSpin p) s1)
          | Some r \<Rightarrow>
              if r = 0 then Inr (set_pc d (DogCancel 0 (Some p)) s1)
              else if r < 0
              then Inr (set_pc d (DogRetry p t (now\<lparr>tv_sec := tv_sec now + kFalconSpyRetry\<rparr>)) s1)
              else dog_up d p s1) = Inr s'"
        using run assms(2) DogKill False p k by (simp add: dog_run_def dog_kill_def)
      show ?thesis
      proof (cases ret)
        case None
        then show ?thesis using c pc1 less(1) by auto
      next
        case (Some v)
        then show ?thesis using c pc1 less(2,3) dog_up_rank [OF T1 d1] r
          by (cases "v = 0"; cases "v < 0") (auto dest!: dog_up_rank [OF T1 d1])
      qed
    qed
  next
    case (DogRetry p t limit)
    then have "s' = s \<or> dog_up d p s = Inr s'"
      using run assms(2) by (auto simp: dog_run_def dog_retry_def split: if_splits)
    moreover have "dog_rank w = length (wd_pp_list w) + 2 * p + 4"
      using DogRetry by (simp add: dog_rank_def Let_def)
    ultimately show ?thesis using dog_up_rank [OF T assms(2)] DogRetry assms(2) by auto
  next
    case (DogCancel k cur)
    show ?thesis
    proof (cases "k < length (wd_pp_list w)")
      case True
      have less: "dog_rank (w\<lparr>wd_pc := DogCancel (Suc k) c\<rparr>) < dog_rank w" for c
        using DogCancel True by (simp add: dog_rank_def Let_def)
      from run assms(2) DogCancel True
      obtain s1 c where s1: "s' = collect (set_pc d (DogCancel (Suc k) c) s1)" "fc_dogs s1 = fc_dogs s"
        using CancelChild_inv(3) [OF I]
        by (auto simp: dog_run_def dog_cancel_def Let_def split: option.splits)
      then have "dog_of s1 d = Some w" using assms(2) by simp
      from collect_dog_rank [OF set_pc_dog [OF this]] less s1(1) show ?thesis by metis
    next
      case False
      then have "s' = collect (set_pc d DogDone s)"
        using run assms(2) DogCancel by (simp add: dog_run_def dog_cancel_def)
      moreover have "dog_rank (w\<lparr>wd_pc := DogDone\<rparr>) < dog_rank w"
        using DogCancel by (simp add: dog_rank_def Let_def)
      ultimately show ?thesis using collect_dog_rank [OF pc] by metis
    qed
  qed (use run assms(2) in \<open>auto simp: dog_run_def\<close>)
qed

theorem watchdog_ends_witness:
  "\<exists>s s' w w'. cdemo_run False = Inr s \<and> dog_of s 2 = Some w \<and>
     client_step (CDog 2 True (cdemo_time 110) (cdemo_ok FALCON_SUCCESS [])) s = Inr s' \<and>
     dog_of s' 2 = Some w' \<and> dog_rank w' < dog_rank w"
proof -
  obtain s w s' where s: "cdemo_run False = Inr s" "dog_of s 2 = Some w" "wd_pc w = DogWait"
      "client_step (CDog 2 True (cdemo_time 110) (cdemo_ok FALCON_SUCCESS [])) s = Inr s'"
      "\<exists>w'. dog_of s' 2 = Some w' \<and> wd_pc w' \<noteq> DogWait"
    by (simp add: cdemo_run_def cdemo_events_def client_simps dog_run_def dog_wait_def set_pc_def
        del: set_filter)
  from watchdog_ends [OF cdemo_reachable [OF s(1)] s(2,4)] s show ?thesis by auto
qed

section \<open>Registration\<close>

text \<open>
  C33. A new layer under a layer with an enforcer is monitored: when \<open>AddChild\<close> returns it, exactly the
  two calls were made, the enforcer has told the generation and acknowledged the registration of it
  with the client's lethality, the interval of the signs of life and the tag of the parent layer, and
  the parent has the layer, with that generation, as a child that will call the callback.
\<close>

theorem registration_acknowledged:
  assumes "client_reachable s" and "AddChild p k kill a t leaf (Some p) cb env s = Inr (s', Some i)"
    and "layer_of s p = Some pl" and "child_of s p k = None" and "p \<noteq> 0"
  shows "fc_sent s' = fc_sent s @
      [(p, get_gen_call k), (p, register_call k (offered_gen env) kill leaf t (ly_addr pl))] \<and>
    sr_status (rp_res (ae_gen env)) = FALCON_GEN_RESP \<and>
    sr_status (rp_res (ae_register env)) = FALCON_REGISTER_ACK \<and>
    (\<exists>l. child_of s' p k = Some (i, l) \<and> ly_gen l = offered_gen env \<and> ly_killable l = kill \<and>
       ly_watchdog l = leaf \<and> ly_cbs l = [cb])"
proof -
  note T = client_invD(1) [OF reachable_inv [OF assms(1)]]
  have "\<not> ly_base pl" using tree_invD(2) [OF T assms(3)] assms(5) by simp
  from assms(2-4) this show ?thesis
  proof (cases rule: AddChild_remote_cases)
    case none
    then show ?thesis by simp
  next
    case (added s1 j)
    let ?s2 = "send_call p (register_call k (offered_gen env) kill leaf t (ly_addr pl)) (send_call p (get_gen_call k) s)"
    note F = new_layer_frame [OF added(2)]
    have "layer_of s j = None" using fresh_id [OF T] F(11) by simp
    then have pj: "p \<noteq> j" using assms(3) by auto
    have p1: "layer_of s1 p = Some pl" using F(12) pj assms(3) by simp
    have "fc_sent s' = fc_sent ?s2" using added(3) F(6) by (simp add: adopt_alt [OF p1])
    moreover have "\<exists>l. child_of s' p k = Some (j, l) \<and> ly_gen l = offered_gen env \<and> ly_killable l = kill \<and>
       ly_watchdog l = leaf \<and> ly_cbs l = [cb]"
      using added(3) F(12) pj
      by (simp add: adopt_alt [OF p1] child_of_def AddCallback_layer own_def CallbackList_Add_def)
    ultimately show ?thesis using added by (simp add: send_call_def)
  qed
qed

lemma cdemo_host:
  "\<exists>s. client_run [CInit [''app'', ''host''] True 0 30, CBuild cdemo_env, CBuild cdemo_env] (client_start cdemo_addr) = Inr s \<and>
     layer_of s 1 \<noteq> None \<and> child_of s 1 ''app'' = None \<and>
     (\<exists>s' . AddChild 1 ''app'' True cdemo_addr 30 True (Some 1) 0 cdemo_env s = Inr (s', Some 2))"
  by (simp add: client_simps)

theorem registration_acknowledged_witness:
  "\<exists>s s'. client_reachable s \<and> AddChild 1 ''app'' True cdemo_addr 30 True (Some 1) 0 cdemo_env s = Inr (s', Some 2) \<and>
     length (fc_sent s') = length (fc_sent s) + 2"
proof -
  obtain s s' pl where s: "client_run [CInit [''app'', ''host''] True 0 30, CBuild cdemo_env, CBuild cdemo_env]
      (client_start cdemo_addr) = Inr s" "layer_of s 1 = Some pl" "child_of s 1 ''app'' = None"
      "AddChild 1 ''app'' True cdemo_addr 30 True (Some 1) 0 cdemo_env s = Inr (s', Some 2)"
    using cdemo_host by blast
  have r: "client_reachable s" by (rule client_run_reachable [OF s(1) client_reachable.start])
  from registration_acknowledged [OF r s(4,2,3)] r s(4) show ?thesis by auto
qed

text \<open>
  Reports find their layer, and the builder does not abort: in a run of fewer than \<open>2 ^ 32\<close> steps,
  every layer that can have registered children is found under the tag it registers them with,
  and the next tag is not in use.
\<close>

theorem reports_find_their_layer:
  assumes "client_run es (client_start a) = Inr s" and "length es < 2 ^ 32 - 1"
  shows "(\<forall>i l. layer_of s i = Some l \<longrightarrow> i \<noteq> 0 \<longrightarrow> \<not> ly_watchdog l \<longrightarrow>
       GetLayer (ca_tag (ly_addr l)) s = Some i) \<and>
    GetLayer (fst (GetNextLayerId s)) s = None"
proof -
  have R: "route_inv s" "unat (fc_counter s) \<le> length es"
    using client_run_route [OF assms(1)] assms(2) by auto
  have "unat (fc_counter s + 1) = Suc (unat (fc_counter s))"
    using R(2) assms(2) by (simp add: unat_word_ariths(1))
  then have "fc_counter s < fc_counter s + 1" by (simp add: word_less_nat_alt)
  then have "fc_layer_map s (fc_counter s + 1) = None"
    using R(1) unfolding route_inv_def by (metis leD)
  with R(1) show ?thesis
    by (auto simp: route_inv_def GetLayer_def weak_lock_def GetNextLayerId_def Let_def)
qed

theorem reports_find_their_layer_witness:
  "\<exists>s l. cdemo_run True = Inr s \<and> layer_of s 1 = Some l \<and> GetLayer (ca_tag (ly_addr l)) s = Some 1"
proof -
  obtain s l where s: "cdemo_run True = Inr s" "layer_of s 1 = Some l" "\<not> ly_watchdog l"
    by (simp add: cdemo_run_def cdemo_events_def client_simps)
  from reports_find_their_layer [OF s(1) [unfolded cdemo_run_def]] s show ?thesis
    by (auto simp: cdemo_events_def)
qed

text \<open>
  A handle that cannot be registered: after \<open>AddChild\<close> has returned a null pointer for the element
  \<open>i\<close>, the builder never completes the request, so that the caller of \<open>init\<close> keeps waiting; for \<open>i > 0\<close>
  it reports \<open>REGISTRATION_ERROR\<close> for the element \<open>i - 1\<close>, which did not fail; for the
  application itself it reads in front of the handle.
\<close>

theorem failed_registration:
  assumes "fc_builder s = BLoop n r cb i (Some p)" and "0 \<le> i" and "i < int (length (rq_idlist r))"
    and "AddChild p (rq_idlist r ! nat i) (rq_lethal r)
        ((fc_addr s)\<lparr>ca_tag := fc_counter s + 1\<rparr>) (rq_e2etimeout r) (i = 0) (Some p) cb env
        (s\<lparr>fc_counter := fc_counter s + 1\<rparr>) = Inr (s1, None)"
  shows "\<exists>s'. client_step (CBuild env) s = Inr s' \<and> fc_completed s' = fc_completed s1 \<and>
    client_step (CBuild env') s' =
      (if i = 0 then Inl Bad_index
       else Inr (set_builder BIdle (invoke (rq_idlist r ! nat (i - 1)) REGISTRATION_ERROR 0 cb s')))"
proof -
  let ?s' = "collect (set_builder (BLoop n r cb (i - 1) None) s1)"
  have "client_step (CBuild env) s = Inr ?s'"
    using assms by (simp add: start_builder_def builder_layer_def GetNextLayerId_def Let_def)
  moreover have "fc_builder ?s' = BLoop n r cb (i - 1) None" by simp
  ultimately show ?thesis
    using assms(2) by (intro exI [of _ ?s']) (auto simp: start_builder_def builder_done_def)
qed

definition cdemo_refuse :: add_env where
  "cdemo_refuse = cdemo_env\<lparr>ae_register := cdemo_ok FALCON_UNKNOWN_TARGET []\<rparr>"

theorem failed_registration_witness:
  "\<exists>s. client_run [CInit [''app'', ''host''] True 0 30, CBuild cdemo_env, CBuild cdemo_env] (client_start cdemo_addr) = Inr s \<and>
     client_run [CBuild cdemo_refuse, CBuild cdemo_env] s = Inl Bad_index"
proof -
  obtain s r s1 where s: "client_run [CInit [''app'', ''host''] True 0 30, CBuild cdemo_env, CBuild cdemo_env]
      (client_start cdemo_addr) = Inr s" "fc_builder s = BLoop 0 r 0 0 (Some 1)" "rq_idlist r = [''app'', ''host'']"
      "AddChild 1 (rq_idlist r ! nat 0) (rq_lethal r)
        ((fc_addr s)\<lparr>ca_tag := fc_counter s + 1\<rparr>) (rq_e2etimeout r) (0 = (0 :: int)) (Some 1) 0 cdemo_refuse
        (s\<lparr>fc_counter := fc_counter s + 1\<rparr>) = Inr (s1, None)"
    by (simp add: client_simps cdemo_refuse_def)
  from failed_registration [OF s(2) _ _ s(4), of cdemo_env] s show ?thesis
    by (auto simp: client_run_def)
qed

section \<open>The status that the application sees\<close>

unbundle bit_operations_syntax

lemma small_take: "unat (w :: 32 word) < 2 ^ n \<Longrightarrow> take_bit n w = w"
  by (simp add: word_unat_eq_iff unsigned_take_bit_eq take_bit_nat_eq_self_iff)

lemma small_bit: "unat (w :: 32 word) < 2 ^ n \<Longrightarrow> bit w m \<Longrightarrow> m < n"
  using small_take [of w n] by (metis bit_take_bit_iff)

lemma pack_hi:
  assumes "unat (i :: 32 word) < 2 ^ 16" and "unat fs < 2 ^ 16"
  shows "drop_bit 16 (push_bit 16 i OR fs) = i"
proof (rule bit_word_eqI)
  fix m assume "m < LENGTH(32)"
  show "bit (drop_bit 16 (push_bit 16 i OR fs)) m = bit i m"
    using small_bit [OF assms(1), of m] small_bit [OF assms(2), of "16 + m"]
    by (auto simp: bit_drop_bit_eq bit_or_iff bit_push_bit_iff)
qed

lemma pack_lo:
  assumes "unat (i :: 32 word) < 2 ^ 16" and "unat fs < 2 ^ 16"
  shows "(push_bit 16 i OR fs) XOR push_bit 16 i = fs"
proof (rule bit_word_eqI)
  fix m assume "m < LENGTH(32)"
  show "bit ((push_bit 16 i OR fs) XOR push_bit 16 i) m = bit fs m"
    using small_bit [OF assms(2), of m]
    by (auto simp: bit_xor_iff bit_or_iff bit_push_bit_iff)
qed

lemma unat_of_small: "n < 65536 \<Longrightarrow> unat (word_of_nat n :: 32 word) = n"
  by (simp add: unsigned_of_nat take_bit_nat_eq_self_iff)

lemma layer_index_less: "lid \<in> set h \<Longrightarrow> layer_index lid h < length h \<and> h ! layer_index lid h = lid"
  by (induction h) auto

text \<open>
  The status that a callback gets packs the position of the layer above the status of the client:
  \<open>LogCallbackData\<close> gives back the layer that the event named and the message of the status, for
  every layer of a handle of fewer than 65536 elements and every status.
\<close>

theorem callback_status_roundtrip:
  assumes "lid \<in> set h" and "length h < 65536" and "unat fs < 9" and "fs \<noteq> SIGN_OF_LIFE"
    and "call = cb_run_thread f h cd fs rs (call_index lid fs h)"
  shows "LogCallbackData (cl_handle call) (cl_falcon call) (cl_remote call) =
    Inr (lid, status_msg ! unat fs, rs)"
proof -
  let ?i = "call_index lid fs h"
  have n: "layer_index lid h < length h" "h ! layer_index lid h = lid" using layer_index_less [OF assms(1)] by auto
  have i: "unat ?i = layer_index lid h"
    using n(1) assms(2,4) by (simp add: call_index_def unat_of_small)
  have "unat ?i < 2 ^ 16" "unat fs < 2 ^ 16" using i n(1) assms(2,3) by simp_all
  note P = pack_hi [OF this] pack_lo [OF this]
  have "length status_msg = 9" by (simp add: status_msg_def)
  then show ?thesis
    unfolding assms(5) cb_run_thread_def cb_call.simps LogCallbackData_def Let_def P
    using n i assms(3) by simp
qed

theorem callback_status_roundtrip_witness:
  "LogCallbackData [''app'', ''host'']
     (cl_falcon (cb_run_thread 9 [''app'', ''host''] 0 KILLED_BY_REMOTE 3 (call_index ''host'' KILLED_BY_REMOTE [''app'', ''host''])))
     3 = Inr (''host'', ''down, killed'', 3)"
  using callback_status_roundtrip [of "''host''" "[''app'', ''host'']" KILLED_BY_REMOTE
      "cb_run_thread 9 [''app'', ''host''] 0 KILLED_BY_REMOTE 3 (call_index ''host'' KILLED_BY_REMOTE [''app'', ''host''])"
      9 0 3]
  by (simp add: client_status_defs status_msg_def cb_run_thread_def)

section \<open>Deviations\<close>

text \<open>\<open>uninit\<close> on a live target: \<open>Watchdog::Cancel\<close> locks its mutex a second time.\<close>

lemma uninit_deadlocks:
  "\<exists>s. cdemo_run True = Inr s \<and> client_step (CUninit 0) s = Inl Self_deadlock"
  by (simp add: cdemo_run_def cdemo_events_def client_simps uninit_def Watchdog_Cancel_def del: set_filter)

text \<open>A handle that goes through the leaf of another one calls an enforcer without an RPC client.\<close>

lemma leaf_as_parent_crashes:
  "\<exists>s. cdemo_run True = Inr s \<and>
     client_run [CInit [''x'', ''app'', ''host''] True 0 30, CBuild cdemo_env, CBuild cdemo_env, CBuild cdemo_env,
       CBuild cdemo_env] s = Inl Null_deref"
  by (simp add: cdemo_run_def cdemo_events_def client_simps del: set_filter)

text \<open>
  A layer that two handles share is counted once when it is created, and each leaf's watchdog takes one
  off: the first leaf that goes down cancels the monitoring of the shared layer for the other.
\<close>

definition cdemo_env2 :: add_env where
  "cdemo_env2 = cdemo_env\<lparr>ae_gen := cdemo_ok FALCON_GEN_RESP [5, 6]\<rparr>"

definition cdemo_two :: "client_event list" where
  "cdemo_two =
     [CInit [''a'', ''vm'', ''host''] True 0 30, CBuild cdemo_env, CBuild cdemo_env, CBuild cdemo_env,
      CBuild cdemo_env2, CBuild cdemo_env,
      CInit [''b'', ''vm'', ''host''] True 0 30, CBuild cdemo_env, CBuild cdemo_env, CBuild cdemo_env,
      CBuild cdemo_env2, CBuild cdemo_env]"

definition cdemo_down_a :: "client_event list" where
  "cdemo_down_a =
     [CDown \<lparr>dn_handle = ''a'', dn_generation = [5, 6], dn_layer_status = 0, dn_killed = False,
            dn_would_kill = False, dn_tag = 2\<rparr>,
      CDog 3 True (cdemo_time 0) (cdemo_ok FALCON_CANCEL_ACK []), CDog 3 True (cdemo_time 0) (cdemo_ok FALCON_CANCEL_ACK []),
      CDog 3 True (cdemo_time 0) (cdemo_ok FALCON_CANCEL_ACK []), CDog 3 True (cdemo_time 0) (cdemo_ok FALCON_CANCEL_ACK [])]"

lemma shared_layer_cancelled:
  "\<exists>s s' m. client_run cdemo_two (client_start cdemo_addr) = Inr s \<and>
     client_run cdemo_down_a s = Inr s' \<and>
     child_of s' 2 ''b'' = Some m \<and> query_alive \<lparr>ft_cb = 1, ft_top = 4\<rparr> s' \<and>
     last (fc_sent s') =
       (1, SPY_CANCEL \<lparr>xa_target = \<lparr>tg_handle = ''vm'', tg_generation = [5]\<rparr>,
             xa_client = cdemo_addr\<lparr>ca_tag := 1\<rparr>\<rparr>)"
  by (simp add: cdemo_two_def cdemo_down_a_def cdemo_env2_def client_simps
      client_down_1_svc_def ReceivedDown_def DoChildDown_def RunCallbacks_def invoke_def erase_child_def
      dog_run_def dog_wait_def dog_kill_def dog_cancel_def set_pc_def CancelChild_def query_alive_def
      sm_del_def del: set_filter)

end
