(* ===== verification/Xdr.thy ===== *)
theory Xdr
  imports ClientInv
begin

text \<open>
  The messages on the wire: the routines that rpcgen has written for the client
  (\<open>client/spy_prot_xdr.cc\<close>, \<open>client/client_prot_xdr.cc\<close>) over the XDR primitives of the C library, and the
  dispatcher of the client's RPC server (\<open>client/client_prot_svc.cc\<close>).
\<close>

section \<open>The interface of a codec\<close>

text \<open>
  \<open>enc\<close> writes a value that satisfies \<open>ok\<close>, \<open>dec\<close> reads a value off the front of a text.
\<close>

type_synonym byte = "8 word"

locale xdr_codec =
  fixes enc :: "'a \<Rightarrow> byte list"
    and dec :: "byte list \<Rightarrow> ('a \<times> byte list) option"
    and ok :: "'a \<Rightarrow> bool"
  assumes dec_enc: "ok x \<Longrightarrow> dec (enc x @ r) = Some (x, r)"
begin

lemma enc_inj: "ok x \<Longrightarrow> ok y \<Longrightarrow> enc x @ r = enc y @ r' \<Longrightarrow> x = y \<and> r = r'"
proof -
  assume "ok x" "ok y" "enc x @ r = enc y @ r'"
  then have "Some (x, r) = Some (y, r')" using dec_enc [of x r] dec_enc [of y r'] by metis
  then show ?thesis by simp
qed

lemma dec_enc_Nil: "ok x \<Longrightarrow> dec (enc x) = Some (x, [])"
  using dec_enc [of x "[]"] by simp

end

section \<open>Primitives of the library\<close>

definition enc_u32 :: "u32 \<Rightarrow> byte list" where
  "enc_u32 w = [ucast (drop_bit 24 w), ucast (drop_bit 16 w), ucast (drop_bit 8 w), ucast w]"

fun dec_u32 :: "byte list \<Rightarrow> (u32 \<times> byte list) option" where
  "dec_u32 (a # b # c # d # r) =
     Some (word_of_nat (((unat a * 256 + unat b) * 256 + unat c) * 256 + unat d), r)"
| "dec_u32 _ = None"

definition enc_bool :: "bool \<Rightarrow> byte list" where
  "enc_bool b = enc_u32 (if b then 1 else 0)"

definition dec_bool :: "byte list \<Rightarrow> (bool \<times> byte list) option" where
  "dec_bool t = (case dec_u32 t of None \<Rightarrow> None | Some (w, r) \<Rightarrow> Some (w \<noteq> 0, r))"

text \<open>Padding to a multiple of four.\<close>

definition pad4 :: "nat \<Rightarrow> nat" where
  "pad4 n = (4 - n mod 4) mod 4"

text \<open>\<open>xdr_string\<close> with the bound \<open>~0\<close>; a C string has no NUL.  A length without room for the NUL is refused.\<close>

definition enc_string :: "str \<Rightarrow> byte list" where
  "enc_string s =
     enc_u32 (word_of_nat (length s)) @ map (\<lambda>c. word_of_nat (of_char c)) s @ replicate (pad4 (length s)) 0"

definition dec_string :: "byte list \<Rightarrow> (str \<times> byte list) option" where
  "dec_string t =
     (case dec_u32 t of
        None \<Rightarrow> None
      | Some (w, r) \<Rightarrow>
          let n = unat w in
          if n = 4294967295 \<or> length r < n + pad4 n then None
          else Some (takeWhile (\<lambda>c. c \<noteq> char_of (0 :: nat)) (map (\<lambda>b. char_of (unat b)) (take n r)),
                     drop (n + pad4 n) r))"

fun dec_seq :: "nat \<Rightarrow> byte list \<Rightarrow> (u32 list \<times> byte list) option" where
  "dec_seq 0 t = Some ([], t)"
| "dec_seq (Suc n) t =
     (case dec_u32 t of
        None \<Rightarrow> None
      | Some (w, r) \<Rightarrow> (case dec_seq n r of None \<Rightarrow> None | Some (ws, r') \<Rightarrow> Some (w # ws, r')))"

text \<open>\<open>xdr_array\<close> of 32-bit elements with the bound \<open>~0\<close>: it refuses more than \<open>UINT_MAX / 4\<close>.\<close>

definition enc_array :: "u32 list \<Rightarrow> byte list" where
  "enc_array ws = enc_u32 (word_of_nat (length ws)) @ concat (map enc_u32 ws)"

definition dec_array :: "byte list \<Rightarrow> (u32 list \<times> byte list) option" where
  "dec_array t =
     (case dec_u32 t of
        None \<Rightarrow> None
      | Some (w, r) \<Rightarrow> (if 4294967295 div 4 < unat w then None else dec_seq (unat w) r))"

definition str_ok :: "str \<Rightarrow> bool" where
  "str_ok s \<longleftrightarrow> length s < 4294967295 \<and> char_of (0 :: nat) \<notin> set s"

definition vec_ok :: "u32 list \<Rightarrow> bool" where
  "vec_ok ws \<longleftrightarrow> length ws \<le> 1073741823"

section \<open>They are codecs\<close>

lemma dec_enc_u32: "dec_u32 (enc_u32 w @ r) = Some (w, r)"
  using word_of_bytes [of w] by (simp add: enc_u32_def)

lemma length_enc_u32: "length (enc_u32 w) = 4"
  by (simp add: enc_u32_def)

lemma dec_enc_bool: "dec_bool (enc_bool b @ r) = Some (b, r)"
  by (simp add: dec_bool_def enc_bool_def dec_enc_u32)

lemma dec_enc_seq: "dec_seq (length ws) (concat (map enc_u32 ws) @ r) = Some (ws, r)"
  by (induction ws) (simp_all add: dec_enc_u32)

lemma unat_small: "n < 4294967296 \<Longrightarrow> unat (word_of_nat n :: u32) = n"
  by (simp add: unsigned_of_nat take_bit_nat_eq_self_iff)

lemma dec_enc_array: "vec_ok ws \<Longrightarrow> dec_array (enc_array ws @ r) = Some (ws, r)"
  by (simp add: dec_array_def enc_array_def vec_ok_def dec_enc_u32 unat_small dec_enc_seq)

lemma char_byte: "char_of (unat (word_of_nat (of_char c :: nat) :: byte)) = (c :: char)"
proof -
  have "(of_char c :: nat) < 256" by simp
  then have "unat (word_of_nat (of_char c :: nat) :: byte) = of_char c"
    by (simp add: unsigned_of_nat take_bit_nat_eq_self_iff)
  then show ?thesis by simp
qed

lemma dec_enc_string:
  assumes "str_ok s" shows "dec_string (enc_string s @ r) = Some (s, r)"
proof -
  have u: "unat (word_of_nat (length s) :: u32) = length s" using assms by (simp add: str_ok_def unat_small)
  have "length s \<noteq> 4294967295" using assms by (auto simp: str_ok_def)
  moreover have "takeWhile (\<lambda>c. c \<noteq> char_of (0 :: nat)) s = s"
    using assms by (auto simp: str_ok_def takeWhile_eq_all_conv)
  ultimately show ?thesis
    by (simp add: dec_string_def enc_string_def dec_enc_u32 u Let_def char_byte comp_def)
qed

interpretation xu32: xdr_codec enc_u32 dec_u32 "\<lambda>_. True" by unfold_locales (rule dec_enc_u32)
interpretation xbool: xdr_codec enc_bool dec_bool "\<lambda>_. True" by unfold_locales (rule dec_enc_bool)
interpretation xstr: xdr_codec enc_string dec_string str_ok by unfold_locales (rule dec_enc_string)
interpretation xvec: xdr_codec enc_array dec_array vec_ok by unfold_locales (rule dec_enc_array)

section \<open>Messages\<close>

text \<open>Each routine runs in both directions; the two definitions are its two runs.\<close>

definition obind :: "('a \<times> byte list) option \<Rightarrow> ('a \<Rightarrow> byte list \<Rightarrow> 'b option) \<Rightarrow> 'b option" where
  "obind m f = (case m of None \<Rightarrow> None | Some (x, r) \<Rightarrow> f x r)"

lemma obind_simps [simp]: "obind None f = None" "obind (Some (x, r)) f = f x r"
  by (simp_all add: obind_def)

definition xdr_target_t_enc :: "target_t \<Rightarrow> byte list" where
  "xdr_target_t_enc t = enc_string (tg_handle t) @ enc_array (tg_generation t)"

definition xdr_target_t :: "byte list \<Rightarrow> (target_t \<times> byte list) option" where
  "xdr_target_t t =
     obind (dec_string t) (\<lambda>h t. obind (dec_array t) (\<lambda>g t.
       Some (\<lparr>tg_handle = h, tg_generation = g\<rparr>, t)))"

definition xdr_client_addr_t_enc :: "client_addr_t \<Rightarrow> byte list" where
  "xdr_client_addr_t_enc a = enc_u32 (ca_ipaddr a) @ enc_u32 (ca_port a) @ enc_u32 (ca_tag a)"

definition xdr_client_addr_t :: "byte list \<Rightarrow> (client_addr_t \<times> byte list) option" where
  "xdr_client_addr_t t =
     obind (dec_u32 t) (\<lambda>i t. obind (dec_u32 t) (\<lambda>p t. obind (dec_u32 t) (\<lambda>c t.
       Some (\<lparr>ca_ipaddr = i, ca_port = p, ca_tag = c\<rparr>, t))))"

definition xdr_spy_register_arg_enc :: "spy_register_arg \<Rightarrow> byte list" where
  "xdr_spy_register_arg_enc a =
     xdr_target_t_enc (ra_target a) @ enc_bool (ra_lethal a) @ enc_u32 (ra_up_interval_ms a) @
     xdr_client_addr_t_enc (ra_client a)"

definition xdr_spy_register_arg :: "byte list \<Rightarrow> (spy_register_arg \<times> byte list) option" where
  "xdr_spy_register_arg t =
     obind (xdr_target_t t) (\<lambda>g t. obind (dec_bool t) (\<lambda>l t. obind (dec_u32 t) (\<lambda>u t.
       obind (xdr_client_addr_t t) (\<lambda>c t.
         Some (\<lparr>ra_target = g, ra_lethal = l, ra_up_interval_ms = u, ra_client = c\<rparr>, t)))))"

definition xdr_spy_cancel_arg_enc :: "spy_cancel_arg \<Rightarrow> byte list" where
  "xdr_spy_cancel_arg_enc a = xdr_target_t_enc (xa_target a) @ xdr_client_addr_t_enc (xa_client a)"

definition xdr_spy_cancel_arg :: "byte list \<Rightarrow> (spy_cancel_arg \<times> byte list) option" where
  "xdr_spy_cancel_arg t =
     obind (xdr_target_t t) (\<lambda>g t. obind (xdr_client_addr_t t) (\<lambda>c t.
       Some (\<lparr>xa_target = g, xa_client = c\<rparr>, t)))"

text \<open>The arguments of a kill and of a request for the generation are a target alone.\<close>

type_synonym spy_kill_arg = target_t
type_synonym spy_get_gen_arg = target_t

definition xdr_spy_kill_arg_enc :: "spy_kill_arg \<Rightarrow> byte list" where
  "xdr_spy_kill_arg_enc a = xdr_target_t_enc a"

definition xdr_spy_kill_arg :: "byte list \<Rightarrow> (spy_kill_arg \<times> byte list) option" where
  "xdr_spy_kill_arg t = obind (xdr_target_t t) (\<lambda>g t. Some (g, t))"

definition xdr_spy_get_gen_arg_enc :: "spy_get_gen_arg \<Rightarrow> byte list" where
  "xdr_spy_get_gen_arg_enc a = xdr_target_t_enc a"

definition xdr_spy_get_gen_arg :: "byte list \<Rightarrow> (spy_get_gen_arg \<times> byte list) option" where
  "xdr_spy_get_gen_arg t = obind (xdr_target_t t) (\<lambda>g t. Some (g, t))"

text \<open>The result; its status is an unsigned number on the wire, which the receiver does not check.\<close>

type_synonym spy_res_wire = "target_t \<times> u32"

definition res_wire :: "spy_res \<Rightarrow> spy_res_wire" where
  "res_wire r = (sr_target r, spy_status_code (sr_status r))"

definition xdr_spy_res_enc :: "spy_res_wire \<Rightarrow> byte list" where
  "xdr_spy_res_enc r = xdr_target_t_enc (fst r) @ enc_u32 (snd r)"

definition xdr_spy_res :: "byte list \<Rightarrow> (spy_res_wire \<times> byte list) option" where
  "xdr_spy_res t = obind (xdr_target_t t) (\<lambda>g t. obind (dec_u32 t) (\<lambda>w t. Some ((g, w), t)))"

definition xdr_client_up_arg_enc :: "client_up_arg \<Rightarrow> byte list" where
  "xdr_client_up_arg_enc a =
     enc_string (up_handle a) @ enc_array (up_generation a) @ enc_u32 (up_tag a)"

definition xdr_client_up_arg :: "byte list \<Rightarrow> (client_up_arg \<times> byte list) option" where
  "xdr_client_up_arg t =
     obind (dec_string t) (\<lambda>h t. obind (dec_array t) (\<lambda>g t. obind (dec_u32 t) (\<lambda>c t.
       Some (\<lparr>up_handle = h, up_generation = g, up_tag = c\<rparr>, t))))"

definition xdr_client_down_arg_enc :: "client_down_arg \<Rightarrow> byte list" where
  "xdr_client_down_arg_enc a =
     enc_string (dn_handle a) @ enc_array (dn_generation a) @ enc_u32 (dn_layer_status a) @
     enc_bool (dn_killed a) @ enc_bool (dn_would_kill a) @ enc_u32 (dn_tag a)"

definition xdr_client_down_arg :: "byte list \<Rightarrow> (client_down_arg \<times> byte list) option" where
  "xdr_client_down_arg t =
     obind (dec_string t) (\<lambda>h t. obind (dec_array t) (\<lambda>g t. obind (dec_u32 t) (\<lambda>s t.
       obind (dec_bool t) (\<lambda>k t. obind (dec_bool t) (\<lambda>w t. obind (dec_u32 t) (\<lambda>c t.
         Some (\<lparr>dn_handle = h, dn_generation = g, dn_layer_status = s, dn_killed = k,
                dn_would_kill = w, dn_tag = c\<rparr>, t)))))))"

section \<open>The client's server\<close>

datatype svc_result =
    SvcReply
  | SvcNoProc
  | SvcDecodeError

definition CLIENT_NULL :: u32 where "CLIENT_NULL = 0"
definition CLIENT_UP :: u32 where "CLIENT_UP = 1"
definition CLIENT_DOWN :: u32 where "CLIENT_DOWN = 2"

text \<open>
  \<open>client_prog_1\<close>: what it answers and the state after it.  Bytes after the arguments are ignored.
\<close>

definition client_prog_1 :: "u32 \<Rightarrow> byte list \<Rightarrow> fclient \<Rightarrow> fclient \<times> svc_result" where
  "client_prog_1 proc args s =
     (if proc = CLIENT_NULL then (s, SvcReply)
      else if proc = CLIENT_UP then
        (case xdr_client_up_arg args of
           None \<Rightarrow> (s, SvcDecodeError)
         | Some (a, r) \<Rightarrow> (client_up_1_svc a s, SvcReply))
      else if proc = CLIENT_DOWN then
        (case xdr_client_down_arg args of
           None \<Rightarrow> (s, SvcDecodeError)
         | Some (a, r) \<Rightarrow> (client_down_1_svc a s, SvcReply))
      else (s, SvcNoProc))"

section \<open>Round trips\<close>

definition target_ok :: "target_t \<Rightarrow> bool" where
  "target_ok t \<longleftrightarrow> str_ok (tg_handle t) \<and> vec_ok (tg_generation t)"

definition up_ok :: "client_up_arg \<Rightarrow> bool" where
  "up_ok a \<longleftrightarrow> str_ok (up_handle a) \<and> vec_ok (up_generation a)"

definition down_ok :: "client_down_arg \<Rightarrow> bool" where
  "down_ok a \<longleftrightarrow> str_ok (dn_handle a) \<and> vec_ok (dn_generation a)"

lemma dec_enc_target: "target_ok t \<Longrightarrow> xdr_target_t (xdr_target_t_enc t @ r) = Some (t, r)"
  by (simp add: xdr_target_t_def xdr_target_t_enc_def target_ok_def xstr.dec_enc xvec.dec_enc)

interpretation xtarget: xdr_codec xdr_target_t_enc xdr_target_t target_ok
  by unfold_locales (rule dec_enc_target)

interpretation xaddr: xdr_codec xdr_client_addr_t_enc xdr_client_addr_t "\<lambda>_. True"
  by unfold_locales (simp add: xdr_client_addr_t_def xdr_client_addr_t_enc_def xu32.dec_enc)

interpretation xregister: xdr_codec xdr_spy_register_arg_enc xdr_spy_register_arg "\<lambda>a. target_ok (ra_target a)"
  by unfold_locales
    (simp add: xdr_spy_register_arg_def xdr_spy_register_arg_enc_def xtarget.dec_enc xbool.dec_enc
      xu32.dec_enc xaddr.dec_enc)

interpretation xcancel: xdr_codec xdr_spy_cancel_arg_enc xdr_spy_cancel_arg "\<lambda>a. target_ok (xa_target a)"
  by unfold_locales
    (simp add: xdr_spy_cancel_arg_def xdr_spy_cancel_arg_enc_def xtarget.dec_enc xaddr.dec_enc)

interpretation xres: xdr_codec xdr_spy_res_enc xdr_spy_res "\<lambda>a. target_ok (fst a)"
  by unfold_locales (auto simp: xdr_spy_res_def xdr_spy_res_enc_def xtarget.dec_enc xu32.dec_enc)

lemma res_wire_inj: "res_wire a = res_wire b \<Longrightarrow> a = b"
  by (cases "sr_status a"; cases "sr_status b") (simp_all add: res_wire_def)

interpretation xup: xdr_codec xdr_client_up_arg_enc xdr_client_up_arg up_ok
  by unfold_locales
    (simp add: xdr_client_up_arg_def xdr_client_up_arg_enc_def up_ok_def xstr.dec_enc xvec.dec_enc xu32.dec_enc)

interpretation xdown: xdr_codec xdr_client_down_arg_enc xdr_client_down_arg down_ok
  by unfold_locales
    (simp add: xdr_client_down_arg_def xdr_client_down_arg_enc_def down_ok_def xstr.dec_enc xvec.dec_enc
      xu32.dec_enc xbool.dec_enc)



text \<open>
  The client's server on the messages of an enforcer: an up or a down report that is encoded by
  the routines of the protocol reaches its handler with the values it was sent with, and is answered;
  other procedures are refused and leave the client as it is.
\<close>

theorem reports_on_the_wire:
  assumes "up_ok u" and "down_ok d"
  shows "client_prog_1 CLIENT_UP (xdr_client_up_arg_enc u @ r) s = (client_up_1_svc u s, SvcReply) \<and>
    client_prog_1 CLIENT_DOWN (xdr_client_down_arg_enc d @ r) s = (client_down_1_svc d s, SvcReply) \<and>
    (\<forall>proc args. 2 < proc \<longrightarrow> client_prog_1 proc args s = (s, SvcNoProc))"
  using xup.dec_enc [OF assms(1)] xdown.dec_enc [OF assms(2)]
  by (auto simp: client_prog_1_def CLIENT_NULL_def CLIENT_UP_def CLIENT_DOWN_def)

theorem reports_on_the_wire_witness:
  "client_prog_1 CLIENT_DOWN
     (xdr_client_down_arg_enc \<lparr>dn_handle = ''app'', dn_generation = [5], dn_layer_status = 3, dn_killed = True,
        dn_would_kill = False, dn_tag = 1\<rparr> @ [])
     (client_start \<lparr>ca_ipaddr = 0, ca_port = 0, ca_tag = 0\<rparr>) =
   (client_down_1_svc \<lparr>dn_handle = ''app'', dn_generation = [5], dn_layer_status = 3, dn_killed = True,
        dn_would_kill = False, dn_tag = 1\<rparr>
      (client_start \<lparr>ca_ipaddr = 0, ca_port = 0, ca_tag = 0\<rparr>), SvcReply)"
proof -
  have "down_ok \<lparr>dn_handle = ''app'', dn_generation = [5], dn_layer_status = 3, dn_killed = True,
        dn_would_kill = False, dn_tag = 1\<rparr>" "up_ok \<lparr>up_handle = ''app'', up_generation = [5], up_tag = 1\<rparr>"
    by (simp_all add: down_ok_def up_ok_def str_ok_def vec_ok_def char_of_eq_iff)
  from reports_on_the_wire [OF this(2,1)] show ?thesis by blast
qed

end
