(* ===== verification/EndToEnd.thy ===== *)
theory EndToEnd
  imports EnforcerProps ClientProps Xdr
begin

text \<open>
  The composition of an enforcer, the wire and the client: what an enforcer sends when its target
  fails is run through the encoding of its message and through the client's server.
\<close>

section \<open>A down report on its way\<close>

text \<open>The call that the message on an enforcer's outbox is for the client.\<close>

definition down_call :: "client_down_arg \<Rightarrow> u32 \<times> byte list" where
  "down_call arg = (CLIENT_DOWN, xdr_client_down_arg_enc arg)"

definition deliver :: "u32 \<times> byte list \<Rightarrow> fclient \<Rightarrow> fclient \<times> svc_result" where
  "deliver c s = client_prog_1 (fst c) (snd c) s"

lemma deliver_down: "down_ok arg \<Longrightarrow> deliver (down_call arg) s = (client_down_1_svc arg s, SvcReply)"
  using xdown.dec_enc_Nil [of arg]
  by (simp add: deliver_def down_call_def client_prog_1_def CLIENT_NULL_def CLIENT_UP_def CLIENT_DOWN_def)

text \<open>
  C3. From a failure to the application: when an enforcer (of any layer) declares its target down,
  the one message to a registered client, encoded by the protocol and handed to the client's server, is answered,
  and makes every callback of the layer that the client monitors under this tag and name final; each
  one that was not final before gets the status of the report and the layer's own status.  The layer is
  no longer a child of its parent.
\<close>

theorem failure_reaches_application:
  assumes "stopper stop" and "ObserveDown stop t st k w e = Inr e'"
    and "(n, r) \<in> set (target_clients e t)"
    and "client_reachable s" and "GetLayer (fc_tag (heap e r)) s = Some p"
    and "child_of s p t = Some (i, l)" and "length (ly_gen l) = Suc (length (gen_vec e))"
    and "str_ok t" and "Suc (length (gen_vec e)) \<le> 1073741823"
  shows "\<exists>arg s'. OutDown r arg \<in> set (drop (length (outbox e)) (outbox e')) \<and>
    deliver (down_call arg) s = (s', SvcReply) \<and>
    dn_killed arg = k \<and> dn_would_kill arg = w \<and>
    (\<forall>c \<in> set (ly_cbs l). finished s' c \<and>
       fc_cbs s' ! c = fst (cb_invoke t (down_status arg) st (fc_cbs s ! c))) \<and>
    child_of s' p t = None"
proof -
  let ?arg = "\<lparr>dn_handle = t, dn_generation = gen_vec e @ [generations e t], dn_layer_status = st,
       dn_killed = k, dn_would_kill = w, dn_tag = fc_tag (heap e r)\<rparr>"
  let ?s' = "client_down_1_svc ?arg s"
  have "OutDown r ?arg \<in> set (drop (length (outbox e)) (outbox e'))"
    using assms(3) by (force simp: ObserveDown_sent [OF assms(1,2)] down_arg_def target_gen_def)
  moreover have "deliver (down_call ?arg) s = (?s', SvcReply)"
    using assms(8,9) by (intro deliver_down) (simp add: down_ok_def vec_ok_def)
  moreover have "(\<forall>c. fc_cbs ?s' ! c =
      (if c \<in> set (ly_cbs l) then fst (cb_invoke t (down_status ?arg) st (fc_cbs s ! c)) else fc_cbs s ! c)) \<and>
    (\<forall>c \<in> set (ly_cbs l). finished ?s' c) \<and> child_of ?s' p t = None"
    using down_report_state [OF assms(4), of ?arg p i l] assms(5-7) by simp
  ultimately show ?thesis by (intro exI [of _ ?arg] exI [of _ ?s']) simp
qed

definition demo_report :: "penf" where
  "demo_report = demo\<lparr>gen_vec := [], generations := (\<lambda>_. 5), heap := (\<lambda>_. demo_client\<lparr>fc_tag := 1\<rparr>)\<rparr>"

theorem failure_reaches_application_witness:
  "\<exists>e' s s' arg. ObserveDown ProcStopMonitoring ''app'' 3 True True demo_report = Inr e' \<and>
     cdemo_run True = Inr s \<and> OutDown 0 arg \<in> set (outbox e') \<and>
     deliver (down_call arg) s = (s', SvcReply) \<and> finished s' 0"
proof -
  obtain e' where e': "ObserveDown ProcStopMonitoring ''app'' 3 True True demo_report = Inr e'"
    by (simp add: ObserveDown_def pe_stop.observe_down_client_eq IncrementGeneration_def
        ProcStopMonitoring_def monitored_at_def proc_at_def schedule_def emit_def demo_report_def demo_def
        demo_layer_def Let_def)
  obtain s l where s: "cdemo_run True = Inr s" "GetLayer 1 s = Some 1" "child_of s 1 ''app'' = Some (2, l)"
      "ly_gen l = [5]" "ly_cbs l = [0]"
    by (simp add: cdemo_run_def cdemo_events_def client_simps)
  have "str_ok ''app''" by (simp add: str_ok_def char_of_eq_iff)
  from failure_reaches_application [OF pe_stop.stopper_axioms e' _ cdemo_reachable [OF s(1)], of "''c''" 0 1 2 l]
    this s e' show ?thesis
    by (simp add: demo_report_def demo_def demo_client_def) blast
qed

end
