(* ===== verification/DiomedesData.thy ===== *)
theory DiomedesData
  imports StdMap
begin

text \<open>
  Diomedes, a primary-backup replication service on top of the failure detector
  (\<open>apps/diomedes/diomedes.cc\<close>, \<open>diomedes_message.h\<close>, \<open>diomedes.h\<close>): its messages, the state of a replica, and the
  election of a primary.
\<close>

section \<open>Messages\<close>

type_synonym bytes = "u8 list"
type_synonym addr = u32

definition kNameLength :: nat where "kNameLength = 32"
definition kMaxDiomedesMessage :: nat where "kMaxDiomedesMessage = 1472"
definition kDiomedesHeaderSize :: nat where "kDiomedesHeaderSize = 4"
definition kSwitchName :: str where "kSwitchName = ''router''"
definition kDefaultSpyWarmup :: u32 where "kDefaultSpyWarmup = 100"

text \<open>A name is a C string in a field of \<open>kNameLength\<close> bytes.\<close>

record diomedes_id =
  id_handle :: str
  id_domain :: str
  id_hypervisor :: str

definition sizeof_id :: nat where "sizeof_id = 96"
definition sizeof_join :: nat where "sizeof_join = 193"
definition sizeof_ack :: nat where "sizeof_ack = 100"

text \<open>
  A request or a response with its header.  The id is in host order; the client id is never converted;
  the body is the \<open>tcp_rpc_msg\<close> and what follows it in the buffer, up to the last byte that is not zero
  or later.
\<close>

record diomedes_primary_request =
  pq_id :: u32
  pq_client :: u32
  pq_request :: bytes

text \<open>
  The payload as its reader takes it.  \<open>DReq\<close> is everything that is read as a request, with its type.
\<close>

datatype payload =
    DJoin diomedes_id diomedes_id bool
  | DVote diomedes_id diomedes_primary_request
  | DNack diomedes_id u32
  | DReq char diomedes_primary_request

record diomedes_message =
  dm_length :: nat
  dm_payload :: payload

definition PRIMARY_REQUEST :: char where "PRIMARY_REQUEST = CHR ''R''"
definition PRIMARY_JOIN :: char where "PRIMARY_JOIN = CHR ''j''"
definition CLIENT_REQUEST :: char where "CLIENT_REQUEST = CHR ''Q''"

text \<open>A datagram: who sent it, and what the read of it returned.\<close>

record datagram =
  dg_from :: addr
  dg_bytes :: int
  dg_msg :: diomedes_message

section \<open>RPC messages in a buffer\<close>

definition byte_at :: "nat \<Rightarrow> bytes \<Rightarrow> u8" where
  "byte_at i b = (if i < length b then b ! i else 0)"

definition pad :: "nat \<Rightarrow> bytes \<Rightarrow> bytes" where
  "pad n b = take n b @ replicate (n - length b) 0"

text \<open>A 32-bit field as the machine loads it, and after \<open>ntohl\<close>.\<close>

definition le32_at :: "nat \<Rightarrow> bytes \<Rightarrow> u32" where
  "le32_at k b = word_of_nat (((unat (byte_at (k + 3) b) * 256 + unat (byte_at (k + 2) b)) * 256 +
     unat (byte_at (k + 1) b)) * 256 + unat (byte_at k b))"

definition be32_at :: "nat \<Rightarrow> bytes \<Rightarrow> u32" where
  "be32_at k b = word_of_nat (((unat (byte_at k b) * 256 + unat (byte_at (k + 1) b)) * 256 +
     unat (byte_at (k + 2) b)) * 256 + unat (byte_at (k + 3) b))"

definition rm_xid :: "bytes \<Rightarrow> u32" where
  "rm_xid b = le32_at 4 b"

section \<open>Applications\<close>

record application =
  ap_name :: str
  ap_host :: str
  ap_vmm :: str
  ap_switch :: str

definition GetAppString :: "application \<Rightarrow> str" where
  "GetAppString a = ap_name a @ '':'' @ ap_host a @ '':'' @ ap_vmm a @ '':'' @ ap_switch a"

type_synonym iref = nat

definition CompareDiomedesIdToInstance :: "diomedes_id \<Rightarrow> application \<Rightarrow> bool" where
  "CompareDiomedesIdToInstance i app \<longleftrightarrow>
     take kNameLength (ap_name app) = take kNameLength (id_handle i) \<and>
     take kNameLength (ap_host app) = take kNameLength (id_domain i) \<and>
     take kNameLength (ap_vmm app) = take kNameLength (id_hypervisor i)"

definition CompareDiomedesIds :: "diomedes_id \<Rightarrow> diomedes_id \<Rightarrow> bool" where
  "CompareDiomedesIds a b \<longleftrightarrow>
     take kNameLength (id_handle a) = take kNameLength (id_handle b) \<and>
     take kNameLength (id_domain a) = take kNameLength (id_domain b) \<and>
     take kNameLength (id_hypervisor a) = take kNameLength (id_hypervisor b)"

definition join_str :: "diomedes_id \<Rightarrow> str" where
  "join_str i = id_handle i @ id_domain i @ id_hypervisor i @ kSwitchName"

definition app_join_str :: "application \<Rightarrow> str" where
  "app_join_str a = ap_name a @ ap_host a @ ap_vmm a @ ap_switch a"

definition voter_str :: "diomedes_id \<Rightarrow> str" where
  "voter_str i = id_handle i @ id_domain i @ id_hypervisor i"

section \<open>The state of a replica\<close>

datatype replica_mode =
    BOOTSTRAP | BACKUP | ADDING_REPLICA | PROCESSING_REQUEST | WAITING_FOR_REQUESTS | NEW_PRIMARY | NEW_BACKUP

text \<open>Where the main thread is: in \<open>JoinDiomedesGroup\<close>, in one of the two loops of \<open>Run\<close>, or in \<open>RunFromRequestCache\<close>.\<close>

datatype phase = PhJoin | PhBackup | PhPrimary | PhCache

text \<open>What goes through the failure pipe: a null pointer, the address of \<open>self_\<close>, or a failed instance.\<close>

datatype pipe_item = PipeSpy | PipeSelf | PipeApp iref

text \<open>\<open>last_primary_request_\<close>; \<open>lp_set\<close> is false as long as its type is zero.\<close>

record last_request =
  lp_set :: bool
  lp_length :: nat
  lp_preq :: diomedes_primary_request

text \<open>The static variables of \<open>CountVote\<close>.\<close>

record vote_count =
  vc_needed :: nat
  vc_votes :: "str list"
  vc_min :: u32
  vc_max :: u32

text \<open>A cached request of a client: type, length field and request.\<close>

record cached =
  cq_type :: char
  cq_length :: nat
  cq_preq :: diomedes_primary_request

record responder =
  re_from :: addr
  re_req :: u32
  re_client :: u32

datatype dout =
    OutBroadcast diomedes_message
  | OutSend addr diomedes_message
  | OutRespond addr u32 bytes
  | OutMonitor iref

text \<open>
  \<open>'m\<close> is the state of the state machine's process.  The environment: \<open>resolve\<close> is the look-up of host names,
  \<open>send_ok\<close> whether the network takes a datagram.
\<close>

record 'm replica =
  mode :: replica_mode
  phase :: phase
  self :: diomedes_id
  primary :: diomedes_id
  primary_addr :: addr
  my_addr :: addr
  apps :: "iref \<Rightarrow> application"
  next_inst :: iref
  active_servers :: "iref list"
  pending_joins :: "str list"
  joiners :: "application list"
  failures_observed :: u32
  failures :: u64
  start_size :: nat
  primary_instance :: "iref option"
  curr_req_id :: u32
  last_valid_req_id :: u32
  ackers :: "str list"
  acks_needed :: u32
  primary_active :: bool
  bootstrap_primary_active :: bool
  nacked :: "iref list"
  client_map :: "u32 \<Rightarrow> addr option"
  request_map :: "(u32, cached) smap"
  response_map :: "u32 \<Rightarrow> bytes option"
  last_primary_request :: last_request
  votes :: "vote_count option"
  responders :: "responder list"
  failure_pipe :: "pipe_item list"
  pipe_locked :: bool
  pipe_failed :: bool
  spy_signaled :: bool
  spy_locked :: bool
  spy_unlimited :: bool
  probes_seen :: nat
  spy_warmup :: u32
  machine :: 'm
  resolve :: "str \<Rightarrow> addr option"
  send_ok :: bool
  dout :: "dout list"

text \<open>One \<open>sendto\<close> with its \<open>CHECK\<close>; more than the buffer reads past it.\<close>

definition dsend :: "nat \<Rightarrow> dout \<Rightarrow> 'm replica \<Rightarrow> 'm replica res" where
  "dsend len out s =
     (if kMaxDiomedesMessage < len + kDiomedesHeaderSize then Inl Bad_index
      else check (send_ok s) (s\<lparr>dout := dout s @ [out]\<rparr>))"

section \<open>Servers\<close>

definition GetActiveServersCount :: "'m replica \<Rightarrow> nat" where
  "GetActiveServersCount s = length (active_servers s)"

definition RemoveFromActiveServers :: "iref \<Rightarrow> 'm replica \<Rightarrow> 'm replica" where
  "RemoveFromActiveServers i s = s\<lparr>active_servers := removeAll i (active_servers s)\<rparr>"

definition AddToActiveServers :: "iref \<Rightarrow> 'm replica \<Rightarrow> 'm replica" where
  "AddToActiveServers i s =
     s\<lparr>active_servers := active_servers s @ [i],
       pending_joins := removeAll (app_join_str (apps s i)) (pending_joins s)\<rparr>"

text \<open>The thread that \<open>ProcessJoin\<close> starts; the target it gets from \<open>Falcon::init\<close> goes with the instance.\<close>

definition AddAppInstance :: "nat \<Rightarrow> 'm replica \<Rightarrow> 'm replica" where
  "AddAppInstance k s =
     (if k < length (joiners s) then
        let i = next_inst s
        in AddToActiveServers i
             (s\<lparr>apps := (apps s)(i := joiners s ! k), next_inst := Suc i,
                joiners := take k (joiners s) @ drop (Suc k) (joiners s)\<rparr>)
      else s)"

section \<open>Election\<close>

text \<open>\<open>strcmp\<close> is the lexicographic order of the bytes.\<close>

definition MaxApplicationInstance :: "iref option \<Rightarrow> iref option \<Rightarrow> 'm replica \<Rightarrow> iref option res" where
  "MaxApplicationInstance app1 app2 s =
     (case (app1, app2) of
        (None, _) \<Rightarrow> Inr app2
      | (_, None) \<Rightarrow> Inr app1
      | (Some i, Some j) \<Rightarrow>
          if i \<in> set (nacked s) \<and> j \<in> set (nacked s) then Inl Check_failed
          else if i \<in> set (nacked s) then Inr app2
          else if j \<in> set (nacked s) then Inr app1
          else
            let a = apps s i; b = apps s j in
            if ap_vmm a \<noteq> ap_vmm b then Inr (if ap_vmm a < ap_vmm b then app1 else app2)
            else if ap_host a \<noteq> ap_host b then Inr (if ap_host a < ap_host b then app1 else app2)
            else if ap_name a \<noteq> ap_name b then Inr (if ap_name a < ap_name b then app1 else app2)
            else Inl Check_failed)"

fun select_from :: "'m replica \<Rightarrow> iref list \<Rightarrow> iref option \<Rightarrow> iref option res" where
  "select_from s [] best = Inr best"
| "select_from s (i # is) best =
     (if i \<in> set (nacked s) then select_from s is best
      else res_bind (MaxApplicationInstance best (Some i) s) (select_from s is))"

definition SelectNewPrimary :: "'m replica \<Rightarrow> iref option res" where
  "SelectNewPrimary s = select_from s (active_servers s) None"

definition name_fits :: "str \<Rightarrow> bool" where
  "name_fits n \<longleftrightarrow> length n < kNameLength"

definition ElectPrimary :: "'m replica \<Rightarrow> 'm replica res" where
  "ElectPrimary s =
     res_bind (SelectNewPrimary s) (\<lambda>m.
     case m of
       None \<Rightarrow> Inl Check_failed
     | Some i \<Rightarrow>
         let app = apps s i in
         if \<not> (name_fits (ap_name app) \<and> name_fits (ap_host app) \<and> name_fits (ap_vmm app)) then Inl Bad_index
         else
           case resolve s (ap_host app) of
             None \<Rightarrow> Inl Check_failed
           | Some a \<Rightarrow>
               Inr (s\<lparr>primary_instance := Some i,
                      primary := \<lparr>id_handle = ap_name app, id_domain = ap_host app, id_hypervisor = ap_vmm app\<rparr>,
                      primary_addr := a, primary_active := True\<rparr>))"

end
