(* ===== verification/Diomedes.thy ===== *)
theory Diomedes
  imports DiomedesData
begin

text \<open>
  The operations of a Diomedes replica (\<open>apps/diomedes/diomedes.cc\<close>), in the order of the file: joins, failures and the
  spy, the primary's handling of requests and votes, the backup, and the main loops.  The state machine is the parameter
  \<open>exec\<close>: what its process answers to the bytes of a request.
\<close>

unbundle bit_operations_syntax

section \<open>Joins\<close>

definition SendJoin :: "addr option \<Rightarrow> 'm replica \<Rightarrow> 'm replica res" where
  "SendJoin to s =
     (let msg = \<lparr>dm_length = sizeof_join, dm_payload = DJoin (self s) (primary s) (to = None)\<rparr> in
      case to of
        Some a \<Rightarrow> dsend sizeof_join (OutSend a msg) s
      | None \<Rightarrow> dsend sizeof_join (OutBroadcast msg) s)"

definition SendNack :: "addr \<Rightarrow> 'm replica \<Rightarrow> 'm replica res" where
  "SendNack to s =
     dsend sizeof_ack (OutSend to \<lparr>dm_length = sizeof_ack, dm_payload = DNack (self s) (curr_req_id s)\<rparr>) s"

text \<open>\<open>ForwardJoin\<close> only checks that this replica is the primary.\<close>

definition ForwardJoin :: "'m replica \<Rightarrow> 'm replica res" where
  "ForwardJoin s = check (CompareDiomedesIds (primary s) (self s)) s"

definition ProcessJoin :: "diomedes_id \<Rightarrow> bool \<Rightarrow> addr \<Rightarrow> 'm replica \<Rightarrow> (bool \<times> 'm replica) res" where
  "ProcessJoin joiner broadcast from s =
     (if join_str joiner \<in> set (pending_joins s) then Inr (False, s)
      else if \<exists>i \<in> set (active_servers s). CompareDiomedesIdToInstance joiner (apps s i) then
        (if broadcast then res_bind (SendJoin (Some from) s) (\<lambda>s1. Inr (False, s1)) else Inr (False, s))
      else
        let app = \<lparr>ap_name = id_handle joiner, ap_host = id_domain joiner, ap_vmm = id_hypervisor joiner,
                   ap_switch = kSwitchName\<rparr>
        in Inr (True, s\<lparr>pending_joins := List.insert (join_str joiner) (pending_joins s),
                       joiners := joiners s @ [app]\<rparr>))"

text \<open>One turn of the loop of \<open>ProcessJoins\<close>.\<close>

definition join_datagram :: "datagram \<Rightarrow> 'm replica \<Rightarrow> 'm replica res" where
  "join_datagram d s =
     (if dg_from d = my_addr s then Inr s
      else if int (dm_length (dg_msg d) + kDiomedesHeaderSize) \<noteq> dg_bytes d then Inr s
      else
        case dm_payload (dg_msg d) of
          DVote v p \<Rightarrow> SendNack (dg_from d) s
        | DJoin j p b \<Rightarrow> res_bind (ProcessJoin j b (dg_from d) s) (\<lambda>(added, s1). Inr s1)
        | _ \<Rightarrow> Inr s)"

definition ProcessJoins :: "datagram list \<Rightarrow> 'm replica \<Rightarrow> 'm replica res" where
  "ProcessJoins ds s = (if mode s \<noteq> BOOTSTRAP then Inl Check_failed else res_fold join_datagram ds s)"

section \<open>Failures and the spy\<close>

text \<open>With \<open>pipe_failed_\<close> set, \<open>SendFailed\<close> and \<open>ReadFailed\<close> return and keep the lock.\<close>

definition SendFailed :: "pipe_item \<Rightarrow> 'm replica \<Rightarrow> 'm replica res" where
  "SendFailed failed s =
     (if pipe_locked s then Inl Self_deadlock
      else if pipe_failed s then Inr (s\<lparr>pipe_locked := True\<rparr>)
      else Inr (s\<lparr>failure_pipe := failure_pipe s @ [failed]\<rparr>))"

text \<open>\<open>None\<close> while the pipe is empty and the read waits.\<close>

definition ReadFailed :: "'m replica \<Rightarrow> (pipe_item \<times> 'm replica) option res" where
  "ReadFailed s =
     (if pipe_locked s then Inl Self_deadlock
      else if pipe_failed s then Inl Uninit_read
      else
        case failure_pipe s of
          [] \<Rightarrow> Inr None
        | f # fs \<Rightarrow> Inr (Some (f, s\<lparr>failure_pipe := fs\<rparr>)))"

text \<open>A probe of the process enforcer: \<open>Spy\<close> up to its wait, and its end; the time-out is an input.\<close>

definition Spy_start :: "'m replica \<Rightarrow> 'm replica res" where
  "Spy_start s =
     (if spy_locked s then Inl Self_deadlock
      else
        res_bind (SendFailed PipeSpy (s\<lparr>spy_signaled := False\<rparr>)) (\<lambda>s1.
        Inr (if probes_seen s1 < unat (spy_warmup s1)
             then s1\<lparr>probes_seen := Suc (probes_seen s1), spy_unlimited := True\<rparr>
             else s1\<lparr>spy_unlimited := False\<rparr>)))"

definition Spy_end :: "bool \<Rightarrow> 'm replica \<Rightarrow> u32 option" where
  "Spy_end timed_out s =
     (if timed_out \<and> \<not> spy_unlimited s then Some 1 else if spy_signaled s then Some 0 else None)"

definition SignalSpy :: "'m replica \<Rightarrow> 'm replica res" where
  "SignalSpy s = (if spy_locked s then Inl Self_deadlock else Inr (s\<lparr>spy_signaled := True\<rparr>))"

definition acks_left :: "'m replica \<Rightarrow> u32" where
  "acks_left s = ucast (failures s - ucast (failures_observed s))"

definition ProcessFailure :: "'m replica \<Rightarrow> 'm replica res" where
  "ProcessFailure s =
     res_bind (ReadFailed s) (\<lambda>r.
     case r of
       None \<Rightarrow> Inr s
     | Some (PipeSpy, s1) \<Rightarrow> SignalSpy s1
     | Some (PipeSelf, s1) \<Rightarrow> Inr s1
     | Some (PipeApp i, s1) \<Rightarrow>
         let s2 = (if primary_instance s1 = Some i
                   then s1\<lparr>primary_active := False, bootstrap_primary_active := False\<rparr> else s1);
             s3 = (RemoveFromActiveServers i s2)\<lparr>failures_observed := failures_observed s2 + 1\<rparr>
         in Inr (s3\<lparr>acks_needed := acks_left s3\<rparr>))"

section \<open>Requests\<close>

definition kRequestRoom :: nat where "kRequestRoom = 1460"

text \<open>The size of an RPC message without its marks, and what \<open>SendClientResponse\<close> takes for it.\<close>

definition rpc_size :: "bytes \<Rightarrow> nat" where
  "rpc_size b = unat (0xFFFFFF AND be32_at 0 b)"

definition raw_size :: "bytes \<Rightarrow> nat" where
  "raw_size b = unat (0xFFFFFF AND le32_at 0 b)"

text \<open>\<open>RunRequest\<close>: whether the request was run; a repeated one is answered from \<open>response_map_\<close>.\<close>

definition RunRequest ::
    "(bytes \<Rightarrow> 'm \<Rightarrow> bytes \<times> 'm) \<Rightarrow> bytes \<Rightarrow> u32 \<Rightarrow> 'm replica \<Rightarrow> (bool \<times> 'm replica) res" where
  "RunRequest exec request client s =
     (if \<exists>r. response_map s client = Some r \<and> rm_xid request = rm_xid r then Inr (False, s)
      else
        let send_bytes = 4 + rpc_size request in
        if kRequestRoom < send_bytes then Inl Bad_index
        else
          let (response, m) = exec (pad send_bytes request) (machine s);
              r = take kMaxDiomedesMessage response
          in if r = [] then Inl Check_failed
             else Inr (True, s\<lparr>response_map := (response_map s)(client \<mapsto> r), machine := m\<rparr>))"

definition BuildPrimaryRequest :: "cached \<Rightarrow> 'm replica \<Rightarrow> (bool \<times> 'm replica) res" where
  "BuildPrimaryRequest c s =
     (if mode s \<noteq> WAITING_FOR_REQUESTS then Inl Check_failed
      else if cq_type c \<noteq> CLIENT_REQUEST then Inr (False, s)
      else
        Inr (True, s\<lparr>last_primary_request :=
          \<lparr>lp_set = True, lp_length = cq_length c, lp_preq = (cq_preq c)\<lparr>pq_id := curr_req_id s + 1\<rparr>\<rparr>\<rparr>))"

definition BroadcastPrimaryRequest :: "'m replica \<Rightarrow> 'm replica res" where
  "BroadcastPrimaryRequest s =
     (let l = last_primary_request s in
      if \<not> lp_set l then Inl Check_failed
      else dsend (lp_length l)
             (OutBroadcast \<lparr>dm_length = lp_length l, dm_payload = DReq PRIMARY_REQUEST (lp_preq l)\<rparr>) s)"

text \<open>
  The size is used as it was received, not in host order; the copy goes from one buffer to the other, and past its
  end when there are too many bytes.
\<close>

definition SendClientResponse :: "addr \<Rightarrow> u32 \<Rightarrow> 'm replica \<Rightarrow> 'm replica res" where
  "SendClientResponse to client s =
     (case response_map s client of
        None \<Rightarrow> Inl Null_deref
      | Some r \<Rightarrow>
          let msg_size = raw_size r in
          if kRequestRoom < msg_size then Inl Bad_index
          else dsend (msg_size + 8) (OutRespond to client (pad msg_size r)) s)"

text \<open>The thread of \<open>Responder\<close>: it stays as long as its condition holds.\<close>

definition responder_waits :: "responder \<Rightarrow> 'm replica \<Rightarrow> bool" where
  "responder_waits r s \<longleftrightarrow> last_valid_req_id s < re_req r \<and> acks_needed s \<noteq> 0"

definition Responder :: "nat \<Rightarrow> 'm replica \<Rightarrow> 'm replica res" where
  "Responder k s =
     (if k < length (responders s) then
        let r = responders s ! k in
        if responder_waits r s then Inr s
        else
          let s1 = (if acks_needed s = 0 then s\<lparr>last_valid_req_id := re_req r\<rparr> else s)
          in SendClientResponse (re_from r) (re_client r)
               (s1\<lparr>responders := take k (responders s1) @ drop (Suc k) (responders s1)\<rparr>)
      else Inr s)"

text \<open>What the primary does after a request has run: forget the acks and start a responder.\<close>

definition start_responder :: "addr \<Rightarrow> 'm replica \<Rightarrow> 'm replica" where
  "start_responder from s =
     s\<lparr>ackers := [], acks_needed := acks_left s,
       responders := responders s @
         [\<lparr>re_from = from, re_req = curr_req_id s, re_client = pq_client (lp_preq (last_primary_request s))\<rparr>]\<rparr>"

definition run_last :: "(bytes \<Rightarrow> 'm \<Rightarrow> bytes \<times> 'm) \<Rightarrow> 'm replica \<Rightarrow> (bool \<times> 'm replica) res" where
  "run_last exec s =
     RunRequest exec (pq_request (lp_preq (last_primary_request s))) (pq_client (lp_preq (last_primary_request s))) s"

definition HandleRequestAsPrimary ::
    "(bytes \<Rightarrow> 'm \<Rightarrow> bytes \<times> 'm) \<Rightarrow> addr \<Rightarrow> int \<Rightarrow> cached \<Rightarrow> 'm replica \<Rightarrow> 'm replica res" where
  "HandleRequestAsPrimary exec from recv_bytes c s =
     (if mode s \<noteq> WAITING_FOR_REQUESTS \<or> \<not> 0 < recv_bytes then Inl Check_failed
      else
        res_bind (BuildPrimaryRequest c s) (\<lambda>(built, s1).
        if \<not> built then Inr s1
        else
          res_bind (BroadcastPrimaryRequest (s1\<lparr>curr_req_id := curr_req_id s1 + 1\<rparr>)) (\<lambda>s2.
          res_bind (run_last exec s2) (\<lambda>(new, s3).
          if \<not> new then SendClientResponse from (pq_client (lp_preq (last_primary_request s3))) s3
          else Inr (start_responder from (s3\<lparr>mode := PROCESSING_REQUEST\<rparr>))))))"

section \<open>The primary's view of its backups\<close>

text \<open>A vote for the request that is being processed, or a later one; its xid has to be that request's.\<close>

definition AddToAckers :: "diomedes_id \<Rightarrow> diomedes_primary_request \<Rightarrow> 'm replica \<Rightarrow> 'm replica res" where
  "AddToAckers voter req s =
     (if pq_id req < curr_req_id s then Inr s
      else if rm_xid (pq_request (lp_preq (last_primary_request s))) \<noteq> rm_xid (pq_request req) then Inl Check_failed
      else
        let s1 = s\<lparr>ackers := List.insert (voter_str voter) (ackers s)\<rparr> in
        if length (ackers s1) = unat (acks_needed s1) then
          Inr (s1\<lparr>last_valid_req_id := last_valid_req_id s1 + 1, ackers := [], mode := WAITING_FOR_REQUESTS\<rparr>)
        else Inr s1)"

text \<open>
  One turn of the loop of \<open>ClearRequestCache\<close>: \<open>response_map_[id]\<close> is a null pointer for a client that
  never got a response.
\<close>

definition clear_cached :: "u32 \<times> cached \<Rightarrow> 'm replica \<Rightarrow> 'm replica res" where
  "clear_cached p s =
     (case response_map s (fst p) of
        None \<Rightarrow> Inl Null_deref
      | Some r \<Rightarrow>
          if rm_xid (pq_request (cq_preq (snd p))) = rm_xid r then
            (case client_map s (fst p) of
               None \<Rightarrow> Inl Check_failed
             | Some a \<Rightarrow>
                 res_bind (SendClientResponse a (fst p) s) (\<lambda>s1.
                 Inr (s1\<lparr>request_map := sm_del (fst p) (request_map s1)\<rparr>)))
          else Inr s)"

definition ClearRequestCache :: "'m replica \<Rightarrow> 'm replica res" where
  "ClearRequestCache s = res_fold clear_cached (request_map s) s"

text \<open>The static variables, which are initialised by the first call.\<close>

definition vote_statics :: "'m replica \<Rightarrow> vote_count" where
  "vote_statics s =
     (case votes s of
        Some v \<Rightarrow> v
      | None \<Rightarrow> \<lparr>vc_needed = unat (word_of_nat (GetActiveServersCount s) - 1 :: u32), vc_votes = [],
                 vc_min = curr_req_id s, vc_max = curr_req_id s\<rparr>)"

text \<open>The catching up in both directions.\<close>

definition vote_catchup ::
    "(bytes \<Rightarrow> 'm \<Rightarrow> bytes \<times> 'm) \<Rightarrow> nat \<Rightarrow> diomedes_primary_request \<Rightarrow> vote_count \<Rightarrow> 'm replica
      \<Rightarrow> (vote_count \<times> 'm replica) res" where
  "vote_catchup exec len req v s =
     (if pq_id req < vc_min v then
        res_bind (BroadcastPrimaryRequest s) (\<lambda>s1. Inr (v\<lparr>vc_min := pq_id req\<rparr>, s1))
      else if vc_max v < pq_id req then
        if len < sizeof_id then Inl Bad_index
        else
          res_bind (BroadcastPrimaryRequest
              (s\<lparr>last_primary_request := (last_primary_request s)\<lparr>lp_preq := req, lp_length := len - sizeof_id\<rparr>\<rparr>))
            (\<lambda>s1.
          res_bind (run_last exec s1) (\<lambda>(new, s2). Inr (v\<lparr>vc_max := pq_id req\<rparr>, s2)))
      else Inr (v, s))"

text \<open>\<open>RunFromRequestCache\<close> starts with the test of its loop.\<close>

definition enter_cache :: "'m replica \<Rightarrow> 'm replica" where
  "enter_cache s = (if request_map s = [] then s else s\<lparr>phase := PhCache\<rparr>)"

definition CountVote ::
    "(bytes \<Rightarrow> 'm \<Rightarrow> bytes \<times> 'm) \<Rightarrow> nat \<Rightarrow> diomedes_id \<Rightarrow> diomedes_primary_request \<Rightarrow> 'm replica
      \<Rightarrow> 'm replica res" where
  "CountVote exec len voter req s =
     (let v0 = vote_statics s; s0 = s\<lparr>votes := Some v0\<rparr> in
      if vc_needed v0 = 0 then Inr s0
      else
        let v1 = v0\<lparr>vc_votes := List.insert (voter_str voter) (vc_votes v0)\<rparr> in
        res_bind (vote_catchup exec len req v1 s0) (\<lambda>(v2, s1).
        let s2 = s1\<lparr>votes := Some v2\<rparr> in
        if vc_needed v2 = length (vc_votes v2) then
          res_bind (ClearRequestCache
              (if vc_min v2 = vc_max v2 then s2\<lparr>last_valid_req_id := curr_req_id s2\<rparr> else s2)) (\<lambda>s3.
          Inr (enter_cache (s3\<lparr>mode := WAITING_FOR_REQUESTS\<rparr>)))
        else Inr s2))"

definition ProcessBackupMessage ::
    "(bytes \<Rightarrow> 'm \<Rightarrow> bytes \<times> 'm) \<Rightarrow> addr \<Rightarrow> diomedes_message \<Rightarrow> 'm replica \<Rightarrow> 'm replica res" where
  "ProcessBackupMessage exec from msg s =
     (case dm_payload msg of
        DJoin j p b \<Rightarrow>
          res_bind (ProcessJoin j b from s) (\<lambda>(added, s1).
          if added then ForwardJoin (s1\<lparr>mode := ADDING_REPLICA\<rparr>) else Inr s1)
      | DVote voter req \<Rightarrow>
          if mode s = NEW_PRIMARY then CountVote exec (dm_length msg) voter req s
          else if mode s = PROCESSING_REQUEST then AddToAckers voter req s
          else Inr s
      | DReq ty req \<Rightarrow> (if ty = PRIMARY_REQUEST then Inl Check_failed else Inr s)
      | DNack a i \<Rightarrow> Inr s)"

text \<open>
  One datagram of \<open>ProcessBackupMessages\<close>.  Once a vote has led into \<open>RunFromRequestCache\<close>, the datagrams behind it
  are read by that loop; they are left to later inputs.
\<close>

definition backup_datagram ::
    "(bytes \<Rightarrow> 'm \<Rightarrow> bytes \<times> 'm) \<Rightarrow> datagram \<Rightarrow> 'm replica \<Rightarrow> 'm replica res" where
  "backup_datagram exec d s =
     (if int (dm_length (dg_msg d) + kDiomedesHeaderSize) = dg_bytes d \<and> dg_from d \<noteq> my_addr s
      then ProcessBackupMessage exec (dg_from d) (dg_msg d) s else Inr s)"

fun ProcessBackupMessages ::
    "(bytes \<Rightarrow> 'm \<Rightarrow> bytes \<times> 'm) \<Rightarrow> datagram list \<Rightarrow> 'm replica \<Rightarrow> 'm replica res" where
  "ProcessBackupMessages exec [] s = Inr s"
| "ProcessBackupMessages exec (d # ds) s =
     res_bind (backup_datagram exec d s) (\<lambda>s1.
     if phase s1 = phase s then ProcessBackupMessages exec ds s1 else Inr s1)"

section \<open>The backup\<close>

definition SendVote :: "'m replica \<Rightarrow> 'm replica res" where
  "SendVote s =
     (let l = last_primary_request s in
      if kMaxDiomedesMessage < kDiomedesHeaderSize + sizeof_id + lp_length l then Inl Bad_index
      else if pq_id (lp_preq l) \<noteq> curr_req_id s then Inl Check_failed
      else dsend (sizeof_id + lp_length l)
             (OutSend (primary_addr s)
               \<lparr>dm_length = sizeof_id + lp_length l, dm_payload = DVote (self s) (lp_preq l)\<rparr>) s)"

definition ProcessPrimaryMessage ::
    "(bytes \<Rightarrow> 'm \<Rightarrow> bytes \<times> 'm) \<Rightarrow> diomedes_message \<Rightarrow> 'm replica \<Rightarrow> 'm replica res" where
  "ProcessPrimaryMessage exec msg s =
     (if mode s \<noteq> BACKUP then Inl Check_failed
      else
        case dm_payload msg of
          DReq ty req \<Rightarrow>
            (if ty = PRIMARY_REQUEST then
               let s1 = s\<lparr>nacked := []\<rparr> in
               if pq_id req \<le> curr_req_id s1 then SendVote s1
               else if pq_id req - 1 = curr_req_id s1 then
                 res_bind (RunRequest exec (pq_request req) (pq_client req)
                     (s1\<lparr>last_primary_request := \<lparr>lp_set = True, lp_length = dm_length msg, lp_preq = req\<rparr>\<rparr>))
                   (\<lambda>(new, s2).
                 SendVote (s2\<lparr>last_valid_req_id := curr_req_id s2, curr_req_id := curr_req_id s2 + 1\<rparr>))
               else Inr s1
             else if ty = PRIMARY_JOIN then Inl Check_failed
             else Inr s)
        | DJoin j p broadcast \<Rightarrow>
            (if bootstrap_primary_active s \<and> broadcast then SendJoin (Some (primary_addr s)) s else Inr s)
        | DNack a i \<Rightarrow>
            (if bootstrap_primary_active s then Inr s
             else
               case primary_instance s of
                 None \<Rightarrow> Inl Null_deref
               | Some p \<Rightarrow> Inr (s\<lparr>primary_active := False, nacked := List.insert p (nacked s)\<rparr>))
        | DVote v r \<Rightarrow> Inr s)"

definition primary_datagram ::
    "(bytes \<Rightarrow> 'm \<Rightarrow> bytes \<times> 'm) \<Rightarrow> datagram \<Rightarrow> 'm replica \<Rightarrow> 'm replica res" where
  "primary_datagram exec d s =
     (if dg_from d = primary_addr s \<and> int (dm_length (dg_msg d) + kDiomedesHeaderSize) = dg_bytes d
      then ProcessPrimaryMessage exec (dg_msg d) s else Inr s)"

definition ProcessPrimaryMessages ::
    "(bytes \<Rightarrow> 'm \<Rightarrow> bytes \<times> 'm) \<Rightarrow> datagram list \<Rightarrow> 'm replica \<Rightarrow> 'm replica res" where
  "ProcessPrimaryMessages exec ds s = res_fold (primary_datagram exec) ds s"

text \<open>A client that has moved is remembered at its new address.\<close>

definition UpdateClientMap :: "u32 \<Rightarrow> addr \<Rightarrow> 'm replica \<Rightarrow> 'm replica" where
  "UpdateClientMap i from s =
     (case client_map s i of
        None \<Rightarrow> s\<lparr>client_map := (client_map s)(i \<mapsto> from)\<rparr>
      | Some a \<Rightarrow> (if a \<noteq> from then s\<lparr>client_map := (client_map s)(i \<mapsto> from)\<rparr> else s))"

definition HandleRequestAsBackup :: "addr \<Rightarrow> int \<Rightarrow> cached \<Rightarrow> 'm replica \<Rightarrow> 'm replica res" where
  "HandleRequestAsBackup from recv_bytes c s =
     (if recv_bytes < 0 then Inl Check_failed
      else
        let i = pq_client (cq_preq c)
        in Inr (UpdateClientMap i from (s\<lparr>request_map := sm_put i c (request_map s)\<rparr>)))"

section \<open>The main loops\<close>

text \<open>What \<open>epoll_wait\<close> reports, with what is read then.\<close>

datatype dm_event =
    EvFailure
  | EvServer "datagram list"
  | EvRequest addr int cached
  | EvOther

text \<open>\<open>if (GetActiveServersCount() == 1) mode_ = WAITING_FOR_REQUESTS;\<close>\<close>

definition only_server_left :: "'m replica \<Rightarrow> 'm replica" where
  "only_server_left s = (if GetActiveServersCount s = 1 then s\<lparr>mode := WAITING_FOR_REQUESTS\<rparr> else s)"

fun primary_event ::
    "(bytes \<Rightarrow> 'm \<Rightarrow> bytes \<times> 'm) \<Rightarrow> dm_event \<Rightarrow> 'm replica \<Rightarrow> 'm replica res" where
  "primary_event exec EvFailure s = ProcessFailure (only_server_left s)"
| "primary_event exec (EvServer ds) s = ProcessBackupMessages exec ds (only_server_left s)"
| "primary_event exec (EvRequest from n c) s =
     (let s1 = only_server_left s in
      if mode s1 = WAITING_FOR_REQUESTS then HandleRequestAsPrimary exec from n c s1 else Inr s1)"
| "primary_event exec EvOther s = Inr (only_server_left s)"

text \<open>The events of one turn; a turn ends early when \<open>RunFromRequestCache\<close> takes over.\<close>

fun primary_events ::
    "(bytes \<Rightarrow> 'm \<Rightarrow> bytes \<times> 'm) \<Rightarrow> dm_event list \<Rightarrow> 'm replica \<Rightarrow> 'm replica res" where
  "primary_events exec [] s = Inr s"
| "primary_events exec (e # es) s =
     res_bind (primary_event exec e s) (\<lambda>s1.
     if phase s1 = phase s then primary_events exec es s1 else Inr s1)"

fun cache_event ::
    "(bytes \<Rightarrow> 'm \<Rightarrow> bytes \<times> 'm) \<Rightarrow> dm_event \<Rightarrow> 'm replica \<Rightarrow> 'm replica res" where
  "cache_event exec EvFailure s = ProcessFailure (only_server_left s)"
| "cache_event exec (EvServer ds) s = ProcessBackupMessages exec ds (only_server_left s)"
| "cache_event exec _ s = Inr (only_server_left s)"

text \<open>The end of a turn of \<open>RunFromRequestCache\<close>: the first cached request, if the primary is free.\<close>

definition next_cached :: "(bytes \<Rightarrow> 'm \<Rightarrow> bytes \<times> 'm) \<Rightarrow> 'm replica \<Rightarrow> 'm replica res" where
  "next_cached exec s =
     (if mode s \<noteq> WAITING_FOR_REQUESTS then Inr s
      else
        case request_map s of
          [] \<Rightarrow> Inr s
        | (i, c) # rest \<Rightarrow>
            res_bind (BuildPrimaryRequest c s) (\<lambda>(built, s1).
            if \<not> built then Inl Check_failed
            else
              res_bind (BroadcastPrimaryRequest
                  (s1\<lparr>mode := PROCESSING_REQUEST, curr_req_id := curr_req_id s1 + 1\<rparr>)) (\<lambda>s2.
              res_bind (run_last exec s2) (\<lambda>(new, s3).
              if \<not> new then Inl Check_failed
              else
                case client_map s3 (pq_client (cq_preq c)) of
                  None \<Rightarrow> Inl Null_deref
                | Some from \<Rightarrow> Inr ((start_responder from s3)\<lparr>request_map := rest\<rparr>)))))"

definition RunFromRequestCache ::
    "(bytes \<Rightarrow> 'm \<Rightarrow> bytes \<times> 'm) \<Rightarrow> dm_event list \<Rightarrow> 'm replica \<Rightarrow> 'm replica res" where
  "RunFromRequestCache exec es s =
     res_bind (res_fold (cache_event exec) es s) (\<lambda>s1.
     res_bind (next_cached exec s1) (\<lambda>s2.
     Inr (if request_map s2 = [] then s2\<lparr>phase := PhPrimary\<rparr> else s2)))"

definition StartMonitoringBackups :: "'m replica \<Rightarrow> 'm replica" where
  "StartMonitoringBackups s =
     s\<lparr>dout := dout s @ map OutMonitor (filter (\<lambda>i. primary_instance s \<noteq> Some i) (active_servers s))\<rparr>"

text \<open>One turn of the loop of \<open>Run\<close> up to the first wait of the loop that it enters.\<close>

definition Run_round :: "'m replica \<Rightarrow> 'm replica res" where
  "Run_round s =
     res_bind (ElectPrimary s) (\<lambda>s1.
     if CompareDiomedesIds (self s1) (primary s1)
     then Inr ((StartMonitoringBackups (s1\<lparr>mode := NEW_PRIMARY\<rparr>))\<lparr>phase := PhPrimary\<rparr>)
     else
       let s2 = s1\<lparr>dout := dout s1 @ map OutMonitor (case primary_instance s1 of None \<Rightarrow> [] | Some i \<Rightarrow> [i]),
                   phase := PhBackup\<rparr>
       in if mode s2 \<noteq> BACKUP then Inl Check_failed else SendVote s2)"

fun backup_event ::
    "(bytes \<Rightarrow> 'm \<Rightarrow> bytes \<times> 'm) \<Rightarrow> dm_event \<Rightarrow> 'm replica \<Rightarrow> 'm replica res" where
  "backup_event exec EvFailure s = ProcessFailure s"
| "backup_event exec (EvServer ds) s = ProcessPrimaryMessages exec ds s"
| "backup_event exec (EvRequest from n c) s = HandleRequestAsBackup from n c s"
| "backup_event exec EvOther s = Inr s"

text \<open>One turn of \<open>RunAsBackup\<close>; \<open>due\<close> tells whether the poll interval is over.\<close>

definition RunAsBackup ::
    "(bytes \<Rightarrow> 'm \<Rightarrow> bytes \<times> 'm) \<Rightarrow> dm_event list \<Rightarrow> bool \<Rightarrow> 'm replica \<Rightarrow> 'm replica res" where
  "RunAsBackup exec es due s =
     res_bind (res_fold (backup_event exec) es s) (\<lambda>s1.
     res_bind (if due then SendVote s1 else Inr s1) (\<lambda>s2.
     if primary_active s2 then Inr s2 else Run_round s2))"

fun join_event :: "dm_event \<Rightarrow> 'm replica \<Rightarrow> 'm replica res" where
  "join_event EvFailure s = ProcessFailure s"
| "join_event (EvServer ds) s = ProcessJoins ds s"
| "join_event _ s = Inr s"

text \<open>The test of the loop of \<open>JoinDiomedesGroup\<close>, and what follows when it ends.\<close>

definition join_done :: "'m replica \<Rightarrow> 'm replica res" where
  "join_done s =
     (if GetActiveServersCount s < start_size s then Inr s
      else Run_round (s\<lparr>bootstrap_primary_active := True, mode := BACKUP\<rparr>))"

definition JoinDiomedesGroup :: "dm_event list \<Rightarrow> bool \<Rightarrow> 'm replica \<Rightarrow> 'm replica res" where
  "JoinDiomedesGroup es due s =
     res_bind (res_fold join_event es s) (\<lambda>s1.
     res_bind (if due then SendJoin None s1 else Inr s1) join_done)"

text \<open>\<open>Init\<close> up to the first wait: the replica is the first of its own active servers.\<close>

definition dm_init ::
    "diomedes_id \<Rightarrow> addr \<Rightarrow> u64 \<Rightarrow> nat \<Rightarrow> u32 \<Rightarrow> (str \<Rightarrow> addr option) \<Rightarrow> 'm \<Rightarrow> 'm replica res" where
  "dm_init i a f sz warmup res m =
     res_bind (SendJoin None
       \<lparr>mode = BOOTSTRAP, phase = PhJoin, self = i, primary = \<lparr>id_handle = [], id_domain = [], id_hypervisor = []\<rparr>,
        primary_addr = 0, my_addr = a,
        apps = (\<lambda>_. \<lparr>ap_name = id_handle i, ap_host = id_domain i, ap_vmm = id_hypervisor i, ap_switch = kSwitchName\<rparr>),
        next_inst = 1, active_servers = [0], pending_joins = [], joiners = [], failures_observed = 0, failures = f,
        start_size = sz, primary_instance = None, curr_req_id = 0, last_valid_req_id = 0, ackers = [],
        acks_needed = 0, primary_active = False, bootstrap_primary_active = False, nacked = [],
        client_map = (\<lambda>_. None), request_map = [], response_map = (\<lambda>_. None),
        last_primary_request = \<lparr>lp_set = False, lp_length = 0,
          lp_preq = \<lparr>pq_id = 0, pq_client = 0, pq_request = []\<rparr>\<rparr>,
        votes = None, responders = [], failure_pipe = [], pipe_locked = False, pipe_failed = False,
        spy_signaled = False, spy_locked = False, spy_unlimited = False, probes_seen = 0, spy_warmup = warmup,
        machine = m, resolve = res, send_ok = True, dout = []\<rparr>) join_done"

text \<open>The faults that \<open>libfail\<close> injects; of the endless loop that floods the pipe it is one turn.\<close>

definition Sabotuer :: "str \<Rightarrow> 'm replica \<Rightarrow> 'm replica res" where
  "Sabotuer failure s =
     (if failure = ''lockspy'' then Inr (s\<lparr>spy_locked := True\<rparr>)
      else if failure = ''segfault'' then Inl Null_deref
      else if failure = ''badloop'' then
        (if pipe_locked s then Inl Self_deadlock else Inr (s\<lparr>pipe_failed := True\<rparr>))
      else if failure = ''livelock'' then SendFailed PipeSelf s
      else Inr s)"

section \<open>The whole replica\<close>

text \<open>
  A turn of the main thread, and the other threads: a server that \<open>Falcon::init\<close> has let in, a callback of the failure
  detector (\<open>diomedes_wrapper\<close>), the spy, a responder, an injected fault, and the network.
\<close>

datatype dm_step =
    StTurn "dm_event list" bool
  | StAdd nat
  | StFailed iref
  | StSpy
  | StRespond nat
  | StSabotage str
  | StNetwork bool

fun dm_run_step ::
    "(bytes \<Rightarrow> 'm \<Rightarrow> bytes \<times> 'm) \<Rightarrow> dm_step \<Rightarrow> 'm replica \<Rightarrow> 'm replica res" where
  "dm_run_step exec (StTurn es due) s =
     (case phase s of
        PhJoin \<Rightarrow> JoinDiomedesGroup es due s
      | PhBackup \<Rightarrow> RunAsBackup exec es due s
      | PhPrimary \<Rightarrow> primary_events exec es s
      | PhCache \<Rightarrow> RunFromRequestCache exec es s)"
| "dm_run_step exec (StAdd k) s = Inr (AddAppInstance k s)"
| "dm_run_step exec (StFailed i) s = SendFailed (PipeApp i) s"
| "dm_run_step exec StSpy s = Spy_start s"
| "dm_run_step exec (StRespond k) s = Responder k s"
| "dm_run_step exec (StSabotage f) s = Sabotuer f s"
| "dm_run_step exec (StNetwork ok) s = Inr (s\<lparr>send_ok := ok\<rparr>)"

end
