(* ===== verification/DiomedesLog.thy ===== *)
theory DiomedesLog
  imports Diomedes
begin

text \<open>
  What a replica has executed: the log of a primary is what it has broadcast, and the state of its state machine and the
  responses it keeps are what the log gives.  The lemmas say which operations touch the log.
\<close>

section \<open>The log\<close>

text \<open>The effect of a request, as a function.\<close>

definition run_pure ::
    "(bytes \<Rightarrow> 'm \<Rightarrow> bytes \<times> 'm) \<Rightarrow> diomedes_primary_request \<Rightarrow> 'm \<times> (u32 \<Rightarrow> bytes option)
      \<Rightarrow> 'm \<times> (u32 \<Rightarrow> bytes option)" where
  "run_pure exec q c =
     (if \<exists>r. snd c (pq_client q) = Some r \<and> rm_xid (pq_request q) = rm_xid r then c
      else
        let (response, m) = exec (pad (4 + rpc_size (pq_request q)) (pq_request q)) (fst c)
        in (m, (snd c)(pq_client q \<mapsto> take kMaxDiomedesMessage response)))"

definition run_log ::
    "(bytes \<Rightarrow> 'm \<Rightarrow> bytes \<times> 'm) \<Rightarrow> 'm \<Rightarrow> diomedes_primary_request list \<Rightarrow> 'm \<times> (u32 \<Rightarrow> bytes option)" where
  "run_log exec m0 log = fold (run_pure exec) log (m0, \<lambda>_. None)"

fun request_of :: "dout \<Rightarrow> diomedes_primary_request list" where
  "request_of (OutBroadcast m) =
     (case dm_payload m of DReq t q \<Rightarrow> (if t = PRIMARY_REQUEST then [q] else []) | _ \<Rightarrow> [])"
| "request_of _ = []"

definition request_log :: "'m replica \<Rightarrow> diomedes_primary_request list" where
  "request_log s = concat (map request_of (dout s))"

definition executed :: "'m replica \<Rightarrow> 'm \<times> (u32 \<Rightarrow> bytes option)" where
  "executed s = (machine s, response_map s)"

text \<open>The operations that leave all that alone, and do not make a replica a new primary.\<close>

definition dm_same :: "'m replica \<Rightarrow> 'm replica \<Rightarrow> bool" where
  "dm_same s s' \<longleftrightarrow> executed s' = executed s \<and> curr_req_id s' = curr_req_id s \<and>
     request_log s' = request_log s \<and> votes s' = votes s \<and>
     (mode s' = NEW_PRIMARY \<longrightarrow> mode s = NEW_PRIMARY) \<and> (phase s' = PhJoin \<longrightarrow> phase s = PhJoin)"

lemma dm_same_refl [simp]: "dm_same s s"
  by (simp add: dm_same_def)

lemma dm_same_trans: "dm_same s t \<Longrightarrow> dm_same t u \<Longrightarrow> dm_same s u"
  by (simp add: dm_same_def)

lemma res_fold_same:
  assumes "res_fold f xs s = Inr s'" and "\<And>x s s'. x \<in> set xs \<Longrightarrow> f x s = Inr s' \<Longrightarrow> dm_same s s'"
  shows "dm_same s s'"
  by (rule res_fold_invariant [OF assms(1), where P = "dm_same s"]) (auto intro: dm_same_trans assms(2))

lemmas dm_same_defs = dm_same_def executed_def request_log_def

section \<open>What does not run requests\<close>

lemma dsend_effect:
  assumes "dsend len out s = Inr s'"
  shows "s' = s\<lparr>dout := dout s @ [out]\<rparr>"
  using assms by (simp add: dsend_def split: if_splits)

lemma dsend_same: "dsend len out s = Inr s' \<Longrightarrow> request_of out = [] \<Longrightarrow> dm_same s s'"
  by (auto dest!: dsend_effect simp: dm_same_def executed_def request_log_def)

lemma dsend_frame:
  assumes "dsend len out s = Inr s'"
  shows "mode s' = mode s" "phase s' = phase s" "last_primary_request s' = last_primary_request s"
    "request_map s' = request_map s"
  by (simp_all add: dsend_effect [OF assms])

lemma SendJoin_same: "SendJoin to s = Inr s' \<Longrightarrow> dm_same s s'"
  by (auto simp: SendJoin_def Let_def split: option.splits elim!: dsend_same)

lemma SendNack_same: "SendNack a s = Inr s' \<Longrightarrow> dm_same s s'"
  by (auto simp: SendNack_def elim!: dsend_same)

lemma SendVote_same: "SendVote s = Inr s' \<Longrightarrow> dm_same s s'"
  by (auto simp: SendVote_def Let_def split: if_splits elim!: dsend_same)

lemma SendClientResponse_same: "SendClientResponse a c s = Inr s' \<Longrightarrow> dm_same s s'"
  by (auto simp: SendClientResponse_def Let_def split: if_splits option.splits elim!: dsend_same)

lemma ProcessJoin_same: "ProcessJoin j b a s = Inr (x, s') \<Longrightarrow> dm_same s s'"
  by (auto simp: ProcessJoin_def Let_def dm_same_def executed_def request_log_def
      split: if_splits dest!: SendJoin_same)

lemma join_datagram_same: "join_datagram d s = Inr s' \<Longrightarrow> dm_same s s'"
  by (auto simp: join_datagram_def split: if_splits payload.splits dest!: SendNack_same ProcessJoin_same)

lemma ProcessJoins_same: "ProcessJoins ds s = Inr s' \<Longrightarrow> dm_same s s'"
  by (auto simp: ProcessJoins_def split: if_splits elim!: res_fold_same intro: join_datagram_same)

lemma ProcessFailure_same: "ProcessFailure s = Inr s' \<Longrightarrow> dm_same s s'"
  by (auto simp: ProcessFailure_def ReadFailed_def SignalSpy_def RemoveFromActiveServers_def Let_def
      dm_same_def executed_def request_log_def split: if_splits list.splits pipe_item.splits option.splits)

lemma only_server_left_same: "dm_same s (only_server_left s)"
  by (simp add: only_server_left_def dm_same_def executed_def request_log_def)

lemma AddToAckers_same: "AddToAckers v q s = Inr s' \<Longrightarrow> dm_same s s'"
  by (auto simp: AddToAckers_def Let_def dm_same_def executed_def request_log_def split: if_splits)

lemma Responder_same: "Responder k s = Inr s' \<Longrightarrow> dm_same s s'"
proof -
  assume a: "Responder k s = Inr s'"
  have u: "dm_same s (s\<lparr>last_valid_req_id := v, responders := rs\<rparr>)" "dm_same s (s\<lparr>responders := rs\<rparr>)" for v rs
    by (simp_all add: dm_same_def executed_def request_log_def)
  from a show ?thesis
    by (auto simp: Responder_def Let_def split: if_splits dest!: SendClientResponse_same intro: dm_same_trans u)
qed

lemma clear_cached_same: "clear_cached p s = Inr s' \<Longrightarrow> dm_same s s'"
  by (auto simp: clear_cached_def split: option.splits if_splits dest!: SendClientResponse_same)
    (simp add: dm_same_def executed_def request_log_def)

lemma ClearRequestCache_same: "ClearRequestCache s = Inr s' \<Longrightarrow> dm_same s s'"
  unfolding ClearRequestCache_def by (erule res_fold_same) (rule clear_cached_same)

lemma ElectPrimary_same: "ElectPrimary s = Inr s' \<Longrightarrow> dm_same s s' \<and> mode s' = mode s"
  by (auto simp: ElectPrimary_def Let_def dm_same_def executed_def request_log_def split: option.splits if_splits)

lemma request_of_monitor: "concat (map (request_of \<circ> OutMonitor) is) = []"
  by (induction "is") simp_all

lemma Run_round_same:
  assumes "Run_round s = Inr s'"
  shows "executed s' = executed s \<and> curr_req_id s' = curr_req_id s \<and> request_log s' = request_log s \<and>
      votes s' = votes s"
    and "phase s' = PhPrimary \<or> phase s' = PhBackup"
proof -
  obtain s1 where s1: "ElectPrimary s = Inr s1" and r: "dm_same s s1"
    using assms ElectPrimary_same by (auto simp: Run_round_def)
  show "executed s' = executed s \<and> curr_req_id s' = curr_req_id s \<and> request_log s' = request_log s \<and>
      votes s' = votes s"
    using assms s1 r
    by (auto simp: Run_round_def StartMonitoringBackups_def Let_def split: if_splits dest!: SendVote_same)
      (simp_all add: dm_same_def executed_def request_log_def request_of_monitor)
  show "phase s' = PhPrimary \<or> phase s' = PhBackup"
    using assms s1
    by (auto simp: Run_round_def StartMonitoringBackups_def Let_def SendVote_def split: if_splits dest!: dsend_frame(2))
qed

section \<open>What runs requests\<close>

lemma RunRequest_effect:
  assumes "RunRequest exec (pq_request q) (pq_client q) s = Inr (new, s')"
  shows "executed s' = run_pure exec q (executed s)"
    and "curr_req_id s' = curr_req_id s" and "dout s' = dout s" and "mode s' = mode s" and "phase s' = phase s"
    and "votes s' = votes s" and "last_primary_request s' = last_primary_request s"
    and "request_map s' = request_map s"
  using assms
  by (auto simp: RunRequest_def run_pure_def executed_def Let_def split: if_splits prod.splits)

text \<open>The log of a primary: ids from one on, and a state of the state machine that the log gives.\<close>

definition log_inv :: "(bytes \<Rightarrow> 'm \<Rightarrow> bytes \<times> 'm) \<Rightarrow> 'm \<Rightarrow> 'm replica \<Rightarrow> bool" where
  "log_inv exec m0 s \<longleftrightarrow>
     executed s = run_log exec m0 (request_log s) \<and> length (request_log s) = unat (curr_req_id s) \<and>
     (\<forall>i < length (request_log s). pq_id (request_log s ! i) = word_of_nat (Suc i))"

lemma log_inv_same: "log_inv exec m0 s \<Longrightarrow> dm_same s s' \<Longrightarrow> log_inv exec m0 s'"
  by (simp add: log_inv_def dm_same_def)

lemma run_log_snoc: "run_log exec m0 (log @ [q]) = run_pure exec q (run_log exec m0 log)"
  by (simp add: run_log_def)

lemma new_request_inv:
  assumes "log_inv exec m0 s" and "unat (curr_req_id s) < 2 ^ 32 - 1"
    and "executed s1 = executed s" and "request_log s1 = request_log s"
    and "curr_req_id s1 = curr_req_id s + 1" and "pq_id (lp_preq (last_primary_request s1)) = curr_req_id s + 1"
    and "BroadcastPrimaryRequest s1 = Inr s2" and "run_last exec s2 = Inr (new, s3)"
  shows "log_inv exec m0 s3" and "curr_req_id s3 = curr_req_id s + 1" and "mode s3 = mode s1"
    and "phase s3 = phase s1" and "votes s3 = votes s1" and "request_map s3 = request_map s1"
    and "request_log s3 = request_log s @ [lp_preq (last_primary_request s1)]"
proof -
  let ?q = "lp_preq (last_primary_request s1)"
  have s2: "s2 = s1\<lparr>dout := dout s1 @ [OutBroadcast \<lparr>dm_length = lp_length (last_primary_request s1),
      dm_payload = DReq PRIMARY_REQUEST ?q\<rparr>]\<rparr>"
    using assms(7) by (auto simp: BroadcastPrimaryRequest_def Let_def split: if_splits dest!: dsend_effect)
  note R = RunRequest_effect [OF assms(8) [unfolded run_last_def]]
  have u: "unat (curr_req_id s + 1) = Suc (unat (curr_req_id s))"
    using assms(2) by (simp add: unat_word_ariths(1))
  show L: "request_log s3 = request_log s @ [?q]"
    using assms(4) by (simp add: request_log_def R(3) s2)
  show c: "curr_req_id s3 = curr_req_id s + 1" by (simp add: R(2) s2 assms(5))
  show "mode s3 = mode s1" "phase s3 = phase s1" "votes s3 = votes s1" "request_map s3 = request_map s1"
    by (simp_all add: R s2)
  have "executed s3 = run_pure exec ?q (executed s)"
    using R(1) assms(3) by (simp add: s2 executed_def)
  moreover have "word_of_nat (Suc (unat (curr_req_id s))) = curr_req_id s + 1" by simp
  ultimately show "log_inv exec m0 s3"
    using assms(1,6) by (simp add: log_inv_def L c u run_log_snoc nth_append less_Suc_eq)
qed

end
