(* ===== verification/DiomedesReplication.thy ===== *)
theory DiomedesReplication
  imports DiomedesLog
begin

text \<open>
  A primary and a backup of it: whatever the network loses, repeats or reorders, the backup has executed a prefix of
  what the primary has.
\<close>

section \<open>The primary\<close>

definition primary_inv :: "(bytes \<Rightarrow> 'm \<Rightarrow> bytes \<times> 'm) \<Rightarrow> 'm \<Rightarrow> 'm replica \<Rightarrow> bool" where
  "primary_inv exec m0 s \<longleftrightarrow> log_inv exec m0 s \<and>
     (mode s = NEW_PRIMARY \<longrightarrow> curr_req_id s = 0) \<and> (phase s = PhJoin \<longrightarrow> curr_req_id s = 0) \<and>
     (\<forall>v. votes s = Some v \<longrightarrow> vc_min v = 0 \<and> vc_max v = 0)"

text \<open>The log has grown by at most \<open>n\<close> requests.\<close>

definition primary_step :: "(bytes \<Rightarrow> 'm \<Rightarrow> bytes \<times> 'm) \<Rightarrow> 'm \<Rightarrow> nat \<Rightarrow> 'm replica \<Rightarrow> 'm replica \<Rightarrow> bool" where
  "primary_step exec m0 n s s' \<longleftrightarrow> primary_inv exec m0 s' \<and> (phase s' = PhJoin \<longrightarrow> phase s = PhJoin) \<and>
     (\<exists>l. request_log s' = request_log s @ l \<and> length l \<le> n)"

lemma primary_inv_same: "primary_inv exec m0 s \<Longrightarrow> dm_same s s' \<Longrightarrow> primary_inv exec m0 s'"
  by (auto simp: primary_inv_def dm_same_def log_inv_def)

lemma primary_step_same: "primary_inv exec m0 s \<Longrightarrow> dm_same s s' \<Longrightarrow> primary_step exec m0 n s s'"
  using primary_inv_same [of exec m0 s s'] by (simp add: primary_step_def dm_same_def)

lemma primary_step_trans:
  assumes "primary_step exec m0 k s t" and "primary_step exec m0 n t u" and "k + n \<le> j"
  shows "primary_step exec m0 j s u"
proof -
  obtain l l' where "request_log t = request_log s @ l" "length l \<le> k"
    "request_log u = request_log t @ l'" "length l' \<le> n" "primary_inv exec m0 u"
    "phase u = PhJoin \<longrightarrow> phase s = PhJoin"
    using assms(1,2) by (auto simp: primary_step_def)
  then show ?thesis using assms(3) by (auto simp: primary_step_def intro!: exI [of _ "l @ l'"])
qed

lemma primary_step_curr:
  assumes "primary_step exec m0 n s s'" and "primary_inv exec m0 s"
  shows "unat (curr_req_id s) \<le> unat (curr_req_id s')" and "unat (curr_req_id s') \<le> unat (curr_req_id s) + n"
proof -
  obtain l where "request_log s' = request_log s @ l" "length l \<le> n" "log_inv exec m0 s'"
    using assms(1) by (auto simp: primary_step_def primary_inv_def)
  moreover have "log_inv exec m0 s" using assms(2) by (simp add: primary_inv_def)
  ultimately show "unat (curr_req_id s) \<le> unat (curr_req_id s')" "unat (curr_req_id s') \<le> unat (curr_req_id s) + n"
    by (simp_all add: log_inv_def)
qed

definition vote_bounded :: "u32 \<Rightarrow> datagram \<Rightarrow> bool" where
  "vote_bounded n d \<longleftrightarrow> (case dm_payload (dg_msg d) of DVote v q \<Rightarrow> pq_id q \<le> n | _ \<Rightarrow> True)"

lemma CountVote_step:
  assumes "primary_inv exec m0 s" and "mode s = NEW_PRIMARY" and "pq_id q \<le> curr_req_id s"
    and "CountVote exec len v q s = Inr s'"
  shows "primary_step exec m0 0 s s'"
proof -
  have c: "curr_req_id s = 0" using assms(1,2) by (simp add: primary_inv_def)
  have q: "pq_id q = 0" using assms(3) by (simp add: c)
  have z: "vc_min (vote_statics s) = 0" "vc_max (vote_statics s) = 0"
    using assms(1) by (auto simp: vote_statics_def primary_inv_def c split: option.split)
  have I: "primary_step exec m0 0 s (s\<lparr>votes := Some w\<rparr>)" if "vc_min w = 0" "vc_max w = 0" for w
    using assms(1) that by (simp add: primary_step_def primary_inv_def log_inv_def executed_def request_log_def)
  have E: "dm_same t (enter_cache (t\<lparr>mode := WAITING_FOR_REQUESTS\<rparr>))" for t :: "'a replica"
    by (simp add: enter_cache_def dm_same_defs)
  have V: "dm_same t (t\<lparr>last_valid_req_id := x\<rparr>)" for t :: "'a replica" and x by (simp add: dm_same_defs)
  let ?v0 = "vote_statics s"
  let ?v1 = "?v0\<lparr>vc_votes := List.insert (voter_str v) (vc_votes ?v0)\<rparr>"
  let ?s1 = "s\<lparr>votes := Some ?v1\<rparr>"
  have cu: "vote_catchup exec len q ?v1 t = Inr (?v1, t)" for t
    using z q by (simp add: vote_catchup_def)
  have C: "CountVote exec len v q s =
      (if vc_needed ?v0 = 0 then Inr (s\<lparr>votes := Some ?v0\<rparr>)
       else if vc_needed ?v0 = length (vc_votes ?v1) then
         res_bind (ClearRequestCache (?s1\<lparr>last_valid_req_id := 0\<rparr>)) (\<lambda>t.
           Inr (enter_cache (t\<lparr>mode := WAITING_FOR_REQUESTS\<rparr>)))
       else Inr ?s1)"
    by (simp add: CountVote_def Let_def cu z c)
  have S: "primary_step exec m0 0 s ?s1" "primary_inv exec m0 ?s1" using I z by (simp_all add: primary_step_def)
  show ?thesis
  proof (cases "vc_needed ?v0 = 0 \<or> vc_needed ?v0 \<noteq> length (vc_votes ?v1)")
    case True
    then have "s' = s\<lparr>votes := Some ?v0\<rparr> \<or> s' = ?s1" using assms(4) unfolding C by (auto split: if_splits)
    then show ?thesis using I [OF z] S(1) by blast
  next
    case False
    then obtain t where t: "ClearRequestCache (?s1\<lparr>last_valid_req_id := 0\<rparr>) = Inr t"
        "s' = enter_cache (t\<lparr>mode := WAITING_FOR_REQUESTS\<rparr>)"
      using assms(4) unfolding C by auto
    have "dm_same ?s1 s'" unfolding t(2)
      by (rule dm_same_trans [OF dm_same_trans [OF V ClearRequestCache_same [OF t(1)]] E])
    from primary_step_trans [OF S(1) primary_step_same [OF S(2) this, of 0]] show ?thesis by simp
  qed
qed

lemma ProcessBackupMessage_step:
  assumes "primary_inv exec m0 s" and "\<forall>v q. dm_payload msg = DVote v q \<longrightarrow> pq_id q \<le> curr_req_id s"
    and "ProcessBackupMessage exec from msg s = Inr s'"
  shows "primary_step exec m0 0 s s'"
proof (cases "dm_payload msg")
  case (DJoin j p b)
  have "dm_same t (t\<lparr>mode := ADDING_REPLICA\<rparr>)" for t :: "'a replica" by (simp add: dm_same_defs)
  with DJoin assms(3) show ?thesis
    by (auto simp: ProcessBackupMessage_def ForwardJoin_def split: if_splits dest!: ProcessJoin_same
        intro!: primary_step_same [OF assms(1)] intro: dm_same_trans)
next
  case (DVote v q)
  note same = primary_step_same [OF assms(1)]
  show ?thesis
  proof (cases "mode s = NEW_PRIMARY")
    case True
    with assms DVote show ?thesis by (auto simp: ProcessBackupMessage_def intro: CountVote_step)
  next
    case False
    with assms(3) DVote have "AddToAckers v q s = Inr s' \<or> s' = s"
      by (auto simp: ProcessBackupMessage_def split: if_splits)
    then show ?thesis using same [OF AddToAckers_same] same [OF dm_same_refl] by blast
  qed
qed (use assms(3) primary_step_same [OF assms(1)] in
      \<open>auto simp: ProcessBackupMessage_def split: if_splits\<close>)

lemma backup_datagram_step:
  assumes "primary_inv exec m0 s" and "vote_bounded (curr_req_id s) d" and "backup_datagram exec d s = Inr s'"
  shows "primary_step exec m0 0 s s'"
proof (cases "int (dm_length (dg_msg d) + kDiomedesHeaderSize) = dg_bytes d \<and> dg_from d \<noteq> my_addr s")
  case True
  have "\<forall>v q. dm_payload (dg_msg d) = DVote v q \<longrightarrow> pq_id q \<le> curr_req_id s"
    using assms(2) by (auto simp: vote_bounded_def)
  from ProcessBackupMessage_step [OF assms(1) this] True assms(3) show ?thesis by (simp add: backup_datagram_def)
next
  case False
  then have "s' = s" using assms(3) by (simp only: backup_datagram_def if_False sum.inject)
  then show ?thesis using primary_step_same [OF assms(1) dm_same_refl] by simp
qed

lemma step_0_curr: "primary_step exec m0 0 s s' \<Longrightarrow> primary_inv exec m0 s \<Longrightarrow> curr_req_id s' = curr_req_id s"
  using primary_step_curr [of exec m0 0 s s'] by (simp add: word_unat_eq_iff)

lemma ProcessBackupMessages_step:
  assumes "primary_inv exec m0 s" and "\<forall>d \<in> set ds. vote_bounded (curr_req_id s) d"
    and "ProcessBackupMessages exec ds s = Inr s'"
  shows "primary_step exec m0 0 s s'"
  using assms
proof (induction ds arbitrary: s)
  case Nil
  then show ?case using primary_step_same [OF Nil.prems(1) dm_same_refl] by simp
next
  case (Cons d ds)
  then obtain t where t: "backup_datagram exec d s = Inr t"
      "(if phase t = phase s then ProcessBackupMessages exec ds t else Inr t) = Inr s'" by auto
  have S: "primary_step exec m0 0 s t" using backup_datagram_step [OF Cons.prems(1) _ t(1)] Cons.prems(2) by simp
  then have I: "primary_inv exec m0 t" by (simp add: primary_step_def)
  show ?case
  proof (cases "phase t = phase s")
    case True
    have "primary_step exec m0 0 t s'"
      using Cons.IH [OF I] Cons.prems(2) t(2) True step_0_curr [OF S Cons.prems(1)] by simp
    from primary_step_trans [OF S this, of 0] show ?thesis by simp
  next
    case False
    with t(2) S show ?thesis by simp
  qed
qed

text \<open>A request that the primary takes on.\<close>

lemma new_request_step:
  assumes "primary_inv exec m0 s" and "unat (curr_req_id s) < 2 ^ 32 - 1"
    and "executed s1 = executed s" and "request_log s1 = request_log s" and "votes s1 = votes s"
    and "mode s1 \<noteq> NEW_PRIMARY" and "phase s1 \<noteq> PhJoin"
    and "curr_req_id s1 = curr_req_id s + 1" and "pq_id (lp_preq (last_primary_request s1)) = curr_req_id s + 1"
    and "BroadcastPrimaryRequest s1 = Inr s2" and "run_last exec s2 = Inr (new, s3)"
  shows "primary_step exec m0 1 s s3"
proof -
  have "log_inv exec m0 s" using assms(1) by (simp add: primary_inv_def)
  note R = new_request_inv [OF this assms(2-4,8-11)]
  show ?thesis
    using assms(1,5-7) R by (auto simp: primary_step_def primary_inv_def)
qed

lemma BuildPrimaryRequest_effect:
  assumes "BuildPrimaryRequest c s = Inr (built, s')"
  shows "mode s = WAITING_FOR_REQUESTS"
    and "built \<Longrightarrow> s' = s\<lparr>last_primary_request := \<lparr>lp_set = True, lp_length = cq_length c,
        lp_preq = (cq_preq c)\<lparr>pq_id := curr_req_id s + 1\<rparr>\<rparr>\<rparr>"
    and "\<not> built \<Longrightarrow> s' = s"
  using assms by (auto simp: BuildPrimaryRequest_def split: if_splits)

lemma start_responder_same: "dm_same s (start_responder a s)"
  by (simp add: start_responder_def dm_same_defs)

lemma HandleRequestAsPrimary_step:
  assumes "primary_inv exec m0 s" and "unat (curr_req_id s) < 2 ^ 32 - 1" and "phase s \<noteq> PhJoin"
    and "HandleRequestAsPrimary exec from n c s = Inr s'"
  shows "primary_step exec m0 1 s s'"
proof -
  from assms(4) obtain built s1 where b: "mode s = WAITING_FOR_REQUESTS" "BuildPrimaryRequest c s = Inr (built, s1)"
    by (auto simp: HandleRequestAsPrimary_def split: if_splits)
  note B = BuildPrimaryRequest_effect [OF b(2)]
  show ?thesis
  proof (cases built)
    case False
    then have "s' = s" using assms(4) b B(3) by (auto simp: HandleRequestAsPrimary_def split: if_splits)
    then show ?thesis using primary_step_same [OF assms(1) dm_same_refl] by simp
  next
    case True
    note s1 = B(2) [OF True]
    from assms(4) b True obtain s2 new s3 where
      s2: "BroadcastPrimaryRequest (s1\<lparr>curr_req_id := curr_req_id s1 + 1\<rparr>) = Inr s2"
      and s3: "run_last exec s2 = Inr (new, s3)"
      and s': "(if \<not> new then SendClientResponse from (pq_client (lp_preq (last_primary_request s3))) s3
          else Inr (start_responder from (s3\<lparr>mode := PROCESSING_REQUEST\<rparr>))) = Inr s'"
      by (auto simp: HandleRequestAsPrimary_def split: if_splits)
    have S: "primary_step exec m0 1 s s3"
      by (rule new_request_step [OF assms(1,2) _ _ _ _ _ _ _ s2 s3])
        (simp_all add: s1 executed_def request_log_def b(1) assms(3))
    then have I: "primary_inv exec m0 s3" by (simp add: primary_step_def)
    have "dm_same s3 (s3\<lparr>mode := PROCESSING_REQUEST\<rparr>)" by (simp add: dm_same_defs)
    then have "dm_same s3 s'"
      using s' by (auto split: if_splits dest!: SendClientResponse_same
          intro: dm_same_trans [OF _ start_responder_same])
    from primary_step_trans [OF S primary_step_same [OF I this, of 0]] show ?thesis by simp
  qed
qed

lemma primary_event_step:
  assumes "primary_inv exec m0 s" and "unat (curr_req_id s) < 2 ^ 32 - 1" and "phase s \<noteq> PhJoin"
    and "\<forall>ds. e = EvServer ds \<longrightarrow> (\<forall>d \<in> set ds. vote_bounded (curr_req_id s) d)"
    and "primary_event exec e s = Inr s'"
  shows "primary_step exec m0 1 s s'"
proof -
  let ?s = "only_server_left s"
  have I: "primary_inv exec m0 ?s" by (rule primary_inv_same [OF assms(1) only_server_left_same])
  have S: "primary_step exec m0 0 s ?s" by (rule primary_step_same [OF assms(1) only_server_left_same])
  have c: "curr_req_id ?s = curr_req_id s" "phase ?s = phase s" by (simp_all add: only_server_left_def)
  have "primary_step exec m0 1 ?s s'"
  proof (cases e)
    case EvFailure
    with assms(5) show ?thesis by (auto intro: primary_step_same [OF I] ProcessFailure_same)
  next
    case (EvServer ds)
    then have "primary_step exec m0 0 ?s s'"
      using assms(4,5) c by (intro ProcessBackupMessages_step [OF I]) auto
    then show ?thesis by (auto simp: primary_step_def)
  next
    case (EvRequest a n cq)
    then have "HandleRequestAsPrimary exec a n cq ?s = Inr s' \<or> s' = ?s"
      using assms(5) by (auto simp: Let_def split: if_splits)
    then show ?thesis
      using HandleRequestAsPrimary_step [OF I] assms(2,3) c primary_step_same [OF I dm_same_refl] by auto
  next
    case EvOther
    with assms(5) show ?thesis by (auto intro: primary_step_same [OF I])
  qed
  from primary_step_trans [OF S this, of 1] show ?thesis by simp
qed

definition event_bounded :: "u32 \<Rightarrow> dm_event \<Rightarrow> bool" where
  "event_bounded n e \<longleftrightarrow> (case e of EvServer ds \<Rightarrow> (\<forall>d \<in> set ds. vote_bounded n d) | _ \<Rightarrow> True)"

lemma vote_bounded_mono: "vote_bounded n d \<Longrightarrow> n \<le> m \<Longrightarrow> vote_bounded m d"
  by (auto simp: vote_bounded_def split: payload.splits)

lemma event_bounded_mono: "event_bounded n e \<Longrightarrow> n \<le> m \<Longrightarrow> event_bounded m e"
  by (auto simp: event_bounded_def split: dm_event.splits intro: vote_bounded_mono)

lemma primary_event_phase:
  "primary_event exec e s = Inr s' \<Longrightarrow> phase s \<noteq> PhJoin \<Longrightarrow> primary_inv exec m0 s \<Longrightarrow>
   unat (curr_req_id s) < 2 ^ 32 - 1 \<Longrightarrow> event_bounded (curr_req_id s) e \<Longrightarrow> primary_step exec m0 1 s s'"
  by (rule primary_event_step) (auto simp: event_bounded_def)

lemma primary_events_step:
  assumes "primary_inv exec m0 s" and "unat (curr_req_id s) + length es < 2 ^ 32" and "phase s \<noteq> PhJoin"
    and "\<forall>e \<in> set es. event_bounded (curr_req_id s) e" and "primary_events exec es s = Inr s'"
  shows "primary_step exec m0 (length es) s s'"
  using assms
proof (induction es arbitrary: s)
  case Nil
  then show ?case using primary_step_same [OF Nil.prems(1) dm_same_refl] by simp
next
  case (Cons e es)
  then obtain t where t: "primary_event exec e s = Inr t"
      "(if phase t = phase s then primary_events exec es t else Inr t) = Inr s'" by auto
  have S: "primary_step exec m0 1 s t"
    using Cons.prems by (intro primary_event_phase [OF t(1)]) auto
  then have I: "primary_inv exec m0 t" by (simp add: primary_step_def)
  note c = primary_step_curr [OF S Cons.prems(1)]
  show ?case
  proof (cases "phase t = phase s")
    case True
    have "\<forall>e \<in> set es. event_bounded (curr_req_id t) e"
      using Cons.prems(4) c(1) event_bounded_mono by (auto simp: word_le_nat_alt)
    then have "primary_step exec m0 (length es) t s'"
      using Cons.prems c(2) t(2) True by (intro Cons.IH [OF I]) auto
    from primary_step_trans [OF S this] show ?thesis by simp
  next
    case False
    with t(2) S show ?thesis by (auto simp: primary_step_def)
  qed
qed

lemma cache_event_step:
  assumes "primary_inv exec m0 s" and "event_bounded (curr_req_id s) e" and "cache_event exec e s = Inr s'"
  shows "primary_step exec m0 0 s s'"
proof -
  let ?s = "only_server_left s"
  have I: "primary_inv exec m0 ?s" by (rule primary_inv_same [OF assms(1) only_server_left_same])
  have S: "primary_step exec m0 0 s ?s" by (rule primary_step_same [OF assms(1) only_server_left_same])
  have c: "curr_req_id ?s = curr_req_id s" by (simp add: only_server_left_def)
  have "primary_step exec m0 0 ?s s'"
  proof (cases e)
    case EvFailure
    with assms(3) show ?thesis by (auto intro: primary_step_same [OF I] ProcessFailure_same)
  next
    case (EvServer ds)
    then show ?thesis using assms(2,3) c by (intro ProcessBackupMessages_step [OF I]) (auto simp: event_bounded_def)
  qed (use assms(3) primary_step_same [OF I dm_same_refl] in auto)
  from primary_step_trans [OF S this, of 0] show ?thesis by simp
qed

lemma cache_events_step:
  assumes "primary_inv exec m0 s" and "\<forall>e \<in> set es. event_bounded (curr_req_id s) e"
    and "res_fold (cache_event exec) es s = Inr s'"
  shows "primary_step exec m0 0 s s'"
  using assms
proof (induction es arbitrary: s)
  case Nil
  then show ?case using primary_step_same [OF Nil.prems(1) dm_same_refl] by simp
next
  case (Cons e es)
  then obtain t where t: "cache_event exec e s = Inr t" "res_fold (cache_event exec) es t = Inr s'" by auto
  have S: "primary_step exec m0 0 s t" using Cons.prems(2) by (intro cache_event_step [OF Cons.prems(1) _ t(1)]) simp
  then have I: "primary_inv exec m0 t" by (simp add: primary_step_def)
  have "primary_step exec m0 0 t s'"
    using Cons.prems(2) step_0_curr [OF S Cons.prems(1)] t(2) by (intro Cons.IH [OF I]) auto
  from primary_step_trans [OF S this, of 0] show ?case by simp
qed

lemma next_cached_step:
  assumes "primary_inv exec m0 s" and "unat (curr_req_id s) < 2 ^ 32 - 1" and "phase s \<noteq> PhJoin"
    and "next_cached exec s = Inr s'"
  shows "primary_step exec m0 1 s s'"
proof (cases "mode s \<noteq> WAITING_FOR_REQUESTS \<or> request_map s = []")
  case True
  then have "s' = s" using assms(4) by (auto simp: next_cached_def split: if_splits)
  then show ?thesis using primary_step_same [OF assms(1) dm_same_refl] by simp
next
  case False
  then obtain i c rest where r: "request_map s = (i, c) # rest" by (cases "request_map s") auto
  obtain built s1 where b: "BuildPrimaryRequest c s = Inr (built, s1)" "built"
    using assms(4) False r by (auto simp: next_cached_def split: if_splits)
  note s1 = BuildPrimaryRequest_effect(2) [OF b(1) b(2)]
  from assms(4) False r b obtain s2 s3 a where
    s2: "BroadcastPrimaryRequest (s1\<lparr>mode := PROCESSING_REQUEST, curr_req_id := curr_req_id s1 + 1\<rparr>) = Inr s2"
    and s3: "run_last exec s2 = Inr (True, s3)" and s': "s' = (start_responder a s3)\<lparr>request_map := rest\<rparr>"
    by (auto simp: next_cached_def split: if_splits option.splits)
  have S: "primary_step exec m0 1 s s3"
    by (rule new_request_step [OF assms(1,2) _ _ _ _ _ _ _ s2 s3])
      (simp_all add: s1 executed_def request_log_def assms(3))
  then have I: "primary_inv exec m0 s3" by (simp add: primary_step_def)
  have "dm_same s3 s'" by (simp add: s' start_responder_def dm_same_defs)
  from primary_step_trans [OF S primary_step_same [OF I this, of 0]] show ?thesis by simp
qed

lemma RunFromRequestCache_step:
  assumes "primary_inv exec m0 s" and "unat (curr_req_id s) < 2 ^ 32 - 1" and "phase s = PhCache"
    and "\<forall>e \<in> set es. event_bounded (curr_req_id s) e" and "RunFromRequestCache exec es s = Inr s'"
  shows "primary_step exec m0 1 s s'"
proof -
  from assms(5) obtain s1 s2 where
    s1: "res_fold (cache_event exec) es s = Inr s1" and s2: "next_cached exec s1 = Inr s2"
    and s': "s' = (if request_map s2 = [] then s2\<lparr>phase := PhPrimary\<rparr> else s2)"
    by (auto simp: RunFromRequestCache_def)
  have S1: "primary_step exec m0 0 s s1" by (rule cache_events_step [OF assms(1,4) s1])
  then have I1: "primary_inv exec m0 s1" by (simp add: primary_step_def)
  have "phase s1 \<noteq> PhJoin"
    using S1 assms(3) by (auto simp: primary_step_def)
  then have S2: "primary_step exec m0 1 s1 s2"
    using next_cached_step [OF I1 _ _ s2] assms(2) step_0_curr [OF S1 assms(1)] by simp
  then have I2: "primary_inv exec m0 s2" by (simp add: primary_step_def)
  have "dm_same s2 s'" by (simp add: s' dm_same_defs)
  from primary_step_trans [OF primary_step_trans [OF S1 S2, of 1] primary_step_same [OF I2 this, of 0]]
  show ?thesis by simp
qed

lemma join_event_same: "join_event e s = Inr s' \<Longrightarrow> dm_same s s'"
  by (cases e) (auto dest: ProcessFailure_same ProcessJoins_same)

lemma elect_mode_same [simp]:
  "executed (s\<lparr>bootstrap_primary_active := x, mode := m\<rparr>) = executed s"
  "request_log (s\<lparr>bootstrap_primary_active := x, mode := m\<rparr>) = request_log s"
  by (simp_all add: executed_def request_log_def)

lemma JoinDiomedesGroup_effect:
  assumes "JoinDiomedesGroup es due s = Inr s'"
  shows "executed s' = executed s \<and> curr_req_id s' = curr_req_id s \<and> request_log s' = request_log s \<and>
      votes s' = votes s"
    and "phase s = PhJoin \<or> phase s' \<noteq> PhJoin"
proof -
  from assms obtain s1 s2 where s1: "res_fold join_event es s = Inr s1"
    and s2: "(if due then SendJoin None s1 else Inr s1) = Inr s2" and d: "join_done s2 = Inr s'"
    by (auto simp: JoinDiomedesGroup_def)
  have "dm_same s s1" by (rule res_fold_same [OF s1]) (rule join_event_same)
  moreover have "dm_same s1 s2" using s2 by (auto split: if_splits dest: SendJoin_same)
  ultimately have S: "dm_same s s2" by (rule dm_same_trans)
  have R: "s' = s2 \<or> Run_round (s2\<lparr>bootstrap_primary_active := True, mode := BACKUP\<rparr>) = Inr s'"
    using d by (auto simp: join_done_def split: if_splits)
  show "executed s' = executed s \<and> curr_req_id s' = curr_req_id s \<and> request_log s' = request_log s \<and>
      votes s' = votes s"
    using R S Run_round_same(1) [of "s2\<lparr>bootstrap_primary_active := True, mode := BACKUP\<rparr>" s']
    by (auto simp: dm_same_def)
  show "phase s = PhJoin \<or> phase s' \<noteq> PhJoin"
    using R S Run_round_same(2) by (fastforce simp: dm_same_def)
qed

lemma dm_init_inv:
  assumes "dm_init i a f n w res m0 = Inr s"
  shows "executed s = (m0, \<lambda>_. None)" and "curr_req_id s = 0" and "request_log s = []" and "votes s = None"
proof -
  from assms obtain s0 where s0: "executed s0 = (m0, \<lambda>_. None) \<and> curr_req_id s0 = 0 \<and> request_log s0 = [] \<and>
      votes s0 = None" and d: "join_done s0 = Inr s"
    unfolding dm_init_def
    by (auto dest!: SendJoin_same simp: dm_same_def executed_def request_log_def)
  have "s = s0 \<or> Run_round (s0\<lparr>bootstrap_primary_active := True, mode := BACKUP\<rparr>) = Inr s"
    using d by (auto simp: join_done_def split: if_splits)
  then have "executed s = (m0, \<lambda>_. None) \<and> curr_req_id s = 0 \<and> request_log s = [] \<and> votes s = None"
    using s0 Run_round_same(1) [of "s0\<lparr>bootstrap_primary_active := True, mode := BACKUP\<rparr>" s]
    by auto
  then show "executed s = (m0, \<lambda>_. None)" "curr_req_id s = 0" "request_log s = []" "votes s = None" by auto
qed

text \<open>How many requests a step can start, and what the network may carry.\<close>

fun step_size :: "dm_step \<Rightarrow> nat" where
  "step_size (StTurn es due) = Suc (length es)"
| "step_size _ = 0"

fun turn_events :: "dm_step \<Rightarrow> dm_event list" where
  "turn_events (StTurn es due) = es"
| "turn_events _ = []"

lemma other_step_same:
  assumes "dm_run_step exec st s = Inr s'" and "\<forall>es due. st \<noteq> StTurn es due"
  shows "dm_same s s'"
proof -
  have "dm_same t (t\<lparr>send_ok := b\<rparr>)" for t :: "'a replica" and b by (simp add: dm_same_defs)
  moreover have "dm_same t (AddAppInstance k t)" for t :: "'a replica" and k
    by (simp add: AddAppInstance_def AddToActiveServers_def Let_def dm_same_defs)
  moreover have "SendFailed f t = Inr t' \<Longrightarrow> dm_same t t'" for f and t t' :: "'a replica"
    by (auto simp: SendFailed_def dm_same_defs split: if_splits)
  moreover have "Spy_start t = Inr t' \<Longrightarrow> dm_same t t'" for t t' :: "'a replica"
    by (auto simp: Spy_start_def SendFailed_def dm_same_defs split: if_splits)
  moreover have "Sabotuer f t = Inr t' \<Longrightarrow> dm_same t t'" for f and t t' :: "'a replica"
    by (auto simp: Sabotuer_def SendFailed_def dm_same_defs split: if_splits)
  ultimately show ?thesis using assms by (cases st) (auto dest: Responder_same)
qed

lemma primary_run_step:
  assumes "primary_inv exec m0 s" and "unat (curr_req_id s) + step_size st < 2 ^ 32"
    and "\<forall>e \<in> set (turn_events st). event_bounded (curr_req_id s) e" and "phase s \<noteq> PhBackup"
    and "dm_run_step exec st s = Inr s'"
  shows "\<exists>n. primary_step exec m0 n s s'"
proof (cases st)
  case (StTurn es due)
  show ?thesis
  proof (cases "phase s")
    case PhJoin
    note J = JoinDiomedesGroup_effect [of es due s s']
    have "primary_step exec m0 0 s s'"
      using assms(1,5) StTurn PhJoin J
      by (auto simp: primary_step_def primary_inv_def log_inv_def)
    then show ?thesis ..
  next
    case PhPrimary
    then show ?thesis using assms StTurn primary_events_step [OF assms(1), of es s'] by auto
  next
    case PhCache
    then show ?thesis using assms StTurn RunFromRequestCache_step [OF assms(1) _ PhCache, of es s'] by auto
  qed (use assms(4) in simp)
qed (use primary_step_same [OF assms(1) other_step_same [OF assms(5)]] in blast)+

section \<open>The backup\<close>

definition backup_inv ::
    "(bytes \<Rightarrow> 'm \<Rightarrow> bytes \<times> 'm) \<Rightarrow> 'm \<Rightarrow> diomedes_primary_request list \<Rightarrow> 'm replica \<Rightarrow> bool" where
  "backup_inv exec m0 log s \<longleftrightarrow> unat (curr_req_id s) \<le> length log \<and>
     executed s = run_log exec m0 (take (unat (curr_req_id s)) log)"

definition log_ids :: "diomedes_primary_request list \<Rightarrow> bool" where
  "log_ids log \<longleftrightarrow> length log < 2 ^ 32 \<and> (\<forall>i < length log. pq_id (log ! i) = word_of_nat (Suc i))"

lemma log_inv_ids: "log_inv exec m0 s \<Longrightarrow> log_ids (request_log s)"
  using unsigned_less [of "curr_req_id s"] by (simp add: log_inv_def log_ids_def)

definition bk_same :: "'m replica \<Rightarrow> 'm replica \<Rightarrow> bool" where
  "bk_same s s' \<longleftrightarrow> executed s' = executed s \<and> curr_req_id s' = curr_req_id s"

lemma bk_inv_same: "backup_inv exec m0 log s \<Longrightarrow> bk_same s s' \<Longrightarrow> backup_inv exec m0 log s'"
  by (simp add: backup_inv_def bk_same_def)

lemma dm_bk_same: "dm_same s s' \<Longrightarrow> bk_same s s'"
  by (simp add: bk_same_def dm_same_def)

definition request_from :: "diomedes_primary_request list \<Rightarrow> datagram \<Rightarrow> bool" where
  "request_from log d \<longleftrightarrow>
     (case dm_payload (dg_msg d) of DReq t q \<Rightarrow> t = PRIMARY_REQUEST \<longrightarrow> q \<in> set log | _ \<Rightarrow> True)"

lemma ProcessPrimaryMessage_inv:
  assumes "backup_inv exec m0 log s" and "log_ids log"
    and "\<forall>q. dm_payload msg = DReq PRIMARY_REQUEST q \<longrightarrow> q \<in> set log"
    and "ProcessPrimaryMessage exec msg s = Inr s'"
  shows "backup_inv exec m0 log s'"
proof (cases "\<exists>q. dm_payload msg = DReq PRIMARY_REQUEST q")
  case False
  then have "bk_same s s'"
    using assms(4)
    by (auto simp: ProcessPrimaryMessage_def bk_same_def executed_def split: payload.splits if_splits option.splits
        dest!: SendJoin_same simp: dm_same_def)
  then show ?thesis by (rule bk_inv_same [OF assms(1)])
next
  case True
  then obtain q where q: "dm_payload msg = DReq PRIMARY_REQUEST q" "q \<in> set log" using assms(3) by auto
  let ?c = "curr_req_id s" and ?s1 = "s\<lparr>nacked := []\<rparr>"
  have b1: "bk_same s ?s1" by (simp add: bk_same_def executed_def)
  consider (old) "pq_id q \<le> ?c" "SendVote ?s1 = Inr s'" | (gap) "s' = ?s1"
    | (new) new s2 where "\<not> pq_id q \<le> ?c" "pq_id q - 1 = ?c" "RunRequest exec (pq_request q) (pq_client q)
          (?s1\<lparr>last_primary_request := \<lparr>lp_set = True, lp_length = dm_length msg, lp_preq = q\<rparr>\<rparr>) = Inr (new, s2)"
        "SendVote (s2\<lparr>last_valid_req_id := curr_req_id s2, curr_req_id := curr_req_id s2 + 1\<rparr>) = Inr s'"
    using assms(4) q(1) by (auto simp: ProcessPrimaryMessage_def Let_def split: if_splits)
  then show ?thesis
  proof cases
    case old
    from bk_inv_same [OF bk_inv_same [OF assms(1) b1] dm_bk_same [OF SendVote_same [OF old(2)]]] show ?thesis .
  next
    case gap
    with bk_inv_same [OF assms(1) b1] show ?thesis by simp
  next
    case new
    obtain i where i: "i < length log" "log ! i = q" using q(2) by (auto simp: in_set_conv_nth)
    have id: "pq_id q = word_of_nat (Suc i)" "Suc i < 2 ^ 32 \<or> Suc i = 2 ^ 32" "i < 2 ^ 32"
      using assms(2) i by (auto simp: log_ids_def)
    have c: "?c = word_of_nat i" using new(2) id(1) by simp
    then have u: "unat ?c = i" using id(3) by (simp add: unsigned_of_nat take_bit_nat_eq_self_iff)
    have q1: "pq_id q = ?c + 1" using new(2) by (metis diff_add_cancel)
    then have "?c + 1 \<noteq> 0" using new(1) by auto
    then have u': "unat (?c + 1) = Suc i" using unatSuc [of ?c] u by (simp add: add.commute)
    note R = RunRequest_effect [OF new(3)]
    have "executed s' = run_pure exec q (executed s)" "curr_req_id s' = ?c + 1"
      using SendVote_same [OF new(4)] R(1,2) by (simp_all add: dm_same_def executed_def)
    moreover have "take (Suc i) log = take i log @ [q]" using i by (simp add: take_Suc_conv_app_nth)
    ultimately show ?thesis
      using assms(1) i(1) u u' by (simp add: backup_inv_def run_log_snoc)
  qed
qed

definition event_from :: "diomedes_primary_request list \<Rightarrow> dm_event \<Rightarrow> bool" where
  "event_from log e \<longleftrightarrow> (case e of EvServer ds \<Rightarrow> (\<forall>d \<in> set ds. request_from log d) | _ \<Rightarrow> True)"

lemma primary_datagram_inv:
  assumes "backup_inv exec m0 log s" and "log_ids log" and "request_from log d"
    and "primary_datagram exec d s = Inr s'"
  shows "backup_inv exec m0 log s'"
proof (cases "dg_from d = primary_addr s \<and> int (dm_length (dg_msg d) + kDiomedesHeaderSize) = dg_bytes d")
  case True
  have "\<forall>q. dm_payload (dg_msg d) = DReq PRIMARY_REQUEST q \<longrightarrow> q \<in> set log"
    using assms(3) by (auto simp: request_from_def)
  from ProcessPrimaryMessage_inv [OF assms(1,2) this] True assms(4) show ?thesis by (simp add: primary_datagram_def)
next
  case False
  then have "s' = s" using assms(4) by (simp only: primary_datagram_def if_False sum.inject)
  with assms(1) show ?thesis by simp
qed

lemma backup_event_inv:
  assumes "backup_inv exec m0 log s" and "log_ids log" and "event_from log e" and "backup_event exec e s = Inr s'"
  shows "backup_inv exec m0 log s'"
proof (cases e)
  case EvFailure
  with assms(4) show ?thesis by (auto intro: bk_inv_same [OF assms(1) dm_bk_same [OF ProcessFailure_same]])
next
  case (EvServer ds)
  then have f: "res_fold (primary_datagram exec) ds s = Inr s'" and d: "\<forall>d \<in> set ds. request_from log d"
    using assms(3,4) by (auto simp: ProcessPrimaryMessages_def event_from_def)
  show ?thesis
    by (rule res_fold_invariant [OF f, where P = "backup_inv exec m0 log"])
      (use assms(1,2) d in \<open>auto intro: primary_datagram_inv\<close>)
next
  case (EvRequest a n c)
  then have "bk_same s s'"
    using assms(4)
    by (auto simp: HandleRequestAsBackup_def UpdateClientMap_def Let_def bk_same_def executed_def
        split: if_splits option.splits)
  then show ?thesis by (rule bk_inv_same [OF assms(1)])
qed (use assms in simp)

lemma backup_run_step:
  assumes "backup_inv exec m0 log s" and "log_ids log" and "phase s = PhJoin \<or> phase s = PhBackup"
    and "\<forall>e \<in> set (turn_events st). event_from log e" and "dm_run_step exec st s = Inr s'"
  shows "backup_inv exec m0 log s'"
proof (cases st)
  case (StTurn es due)
  show ?thesis
  proof (cases "phase s = PhJoin")
    case True
    then have "JoinDiomedesGroup es due s = Inr s'" using assms(5) StTurn by simp
    from JoinDiomedesGroup_effect(1) [OF this] have "bk_same s s'" by (simp add: bk_same_def)
    then show ?thesis by (rule bk_inv_same [OF assms(1)])
  next
    case False
    then obtain s1 s2 where s1: "res_fold (backup_event exec) es s = Inr s1"
      and s2: "(if due then SendVote s1 else Inr s1) = Inr s2"
      and s': "(if primary_active s2 then Inr s2 else Run_round s2) = Inr s'"
      using assms(3,5) StTurn by (auto simp: RunAsBackup_def)
    have I: "backup_inv exec m0 log s1"
      by (rule res_fold_invariant [OF s1, where P = "backup_inv exec m0 log"])
        (use assms(1,2,4) StTurn in \<open>auto intro: backup_event_inv\<close>)
    have "bk_same s1 s2" using s2 by (auto split: if_splits simp: bk_same_def dest!: SendVote_same simp: dm_same_def)
    moreover have "bk_same s2 s'" using s' Run_round_same(1) [of s2 s'] by (auto simp: bk_same_def split: if_splits)
    ultimately show ?thesis using bk_inv_same [OF bk_inv_same [OF I]] by blast
  qed
qed (use bk_inv_same [OF assms(1) dm_bk_same [OF other_step_same [OF assms(5)]]] in blast)+

section \<open>Together\<close>

text \<open>
  Two replicas from their start, as long as the one does not become a backup and the other not a primary.  The votes that
  reach the primary are for requests it has made; the requests that reach the backup are some of those that the
  primary has broadcast.
\<close>

inductive replicated ::
    "(bytes \<Rightarrow> 'm \<Rightarrow> bytes \<times> 'm) \<Rightarrow> 'm \<Rightarrow> 'm replica \<Rightarrow> 'm replica \<Rightarrow> bool" for exec m0 where
  start: "dm_init i a f n w res m0 = Inr p \<Longrightarrow> dm_init i' a' f' n' w' res' m0 = Inr b \<Longrightarrow>
    phase p \<noteq> PhBackup \<Longrightarrow> phase b = PhJoin \<or> phase b = PhBackup \<Longrightarrow> replicated exec m0 p b"
| primary_runs: "replicated exec m0 p b \<Longrightarrow> dm_run_step exec st p = Inr p' \<Longrightarrow> phase p' \<noteq> PhBackup \<Longrightarrow>
    \<forall>e \<in> set (turn_events st). event_bounded (curr_req_id p) e \<Longrightarrow>
    unat (curr_req_id p) + step_size st < 2 ^ 32 \<Longrightarrow> replicated exec m0 p' b"
| backup_runs: "replicated exec m0 p b \<Longrightarrow> dm_run_step exec st b = Inr b' \<Longrightarrow>
    phase b' = PhJoin \<or> phase b' = PhBackup \<Longrightarrow>
    \<forall>e \<in> set (turn_events st). event_from (request_log p) e \<Longrightarrow> replicated exec m0 p b'"

lemma backup_inv_grows: "backup_inv exec m0 log b \<Longrightarrow> backup_inv exec m0 (log @ l) b"
  by (simp add: backup_inv_def)

lemma replicated_inv:
  "replicated exec m0 p b \<Longrightarrow> primary_inv exec m0 p \<and> phase p \<noteq> PhBackup \<and>
   backup_inv exec m0 (request_log p) b \<and> (phase b = PhJoin \<or> phase b = PhBackup)"
proof (induction rule: replicated.induct)
  case (start i a f n w res p i' a' f' n' w' res' b)
  show ?case
    using start dm_init_inv [OF start(1)] dm_init_inv [OF start(2)]
    by (simp add: primary_inv_def log_inv_def backup_inv_def run_log_def)
next
  case (primary_runs p b st p')
  then obtain n where S: "primary_step exec m0 n p p'"
    using primary_run_step [of exec m0 p st p'] by blast
  then obtain l where "request_log p' = request_log p @ l" by (auto simp: primary_step_def)
  with primary_runs S show ?case by (simp add: primary_step_def backup_inv_grows)
next
  case (backup_runs p b st b')
  then have "log_ids (request_log p)" by (auto simp: primary_inv_def intro: log_inv_ids)
  with backup_runs show ?case using backup_run_step [of exec m0 "request_log p" b st b'] by blast
qed


definition demo_id :: "str \<Rightarrow> str \<Rightarrow> diomedes_id" where
  "demo_id h v = \<lparr>id_handle = ''app'', id_domain = h, id_hypervisor = v\<rparr>"

definition demo_exec :: "bytes \<Rightarrow> nat \<Rightarrow> bytes \<times> nat" where
  "demo_exec req n = ([1], n + 1)"

definition demo_preq :: diomedes_primary_request where
  "demo_preq = \<lparr>pq_id = 1, pq_client = 3, pq_request = []\<rparr>"

definition demo_join :: datagram where
  "demo_join = \<lparr>dg_from = 1, dg_bytes = 197, dg_msg = \<lparr>dm_length = 193,
     dm_payload = DJoin (demo_id ''h1'' ''v1'') (demo_id [] []) True\<rparr>\<rparr>"

definition demo_request :: datagram where
  "demo_request = \<lparr>dg_from = 1, dg_bytes = 12, dg_msg = \<lparr>dm_length = 8, dm_payload = DReq PRIMARY_REQUEST demo_preq\<rparr>\<rparr>"

lemmas dm_simps =
  dm_init_def SendJoin_def dsend_def join_done_def GetActiveServersCount_def Run_round_def ElectPrimary_def
  SelectNewPrimary_def MaxApplicationInstance_def name_fits_def CompareDiomedesIds_def StartMonitoringBackups_def
  kMaxDiomedesMessage_def kDiomedesHeaderSize_def sizeof_join_def sizeof_id_def kNameLength_def kSwitchName_def
  JoinDiomedesGroup_def ProcessJoins_def join_datagram_def ProcessJoin_def join_str_def CompareDiomedesIdToInstance_def
  AddAppInstance_def AddToActiveServers_def app_join_str_def SendVote_def only_server_left_def
  HandleRequestAsPrimary_def BuildPrimaryRequest_def BroadcastPrimaryRequest_def run_last_def RunRequest_def
  start_responder_def acks_left_def RunAsBackup_def ProcessPrimaryMessages_def primary_datagram_def
  ProcessPrimaryMessage_def kRequestRoom_def rpc_size_def be32_at_def byte_at_def Let_def
  PRIMARY_REQUEST_def CLIENT_REQUEST_def

lemmas demo_simps = demo_id_def demo_exec_def demo_preq_def demo_join_def demo_request_def

lemma demo_replicas:
  "\<exists>p0 p1 b0 b1 b2 b3 b4.
     dm_init (demo_id ''h1'' ''v1'') 1 1 1 0 (\<lambda>h. Some (if h = ''h1'' then 1 else 2)) 0 = Inr p0 \<and>
     dm_init (demo_id ''h2'' ''v2'') 2 1 2 0 (\<lambda>h. Some (if h = ''h1'' then 1 else 2)) 0 = Inr b0 \<and>
     phase p0 = PhPrimary \<and> phase b0 = PhJoin \<and> curr_req_id p0 = 0 \<and>
     dm_run_step demo_exec (StTurn [EvServer [demo_join]] False) b0 = Inr b1 \<and> phase b1 = PhJoin \<and>
     dm_run_step demo_exec (StAdd 0) b1 = Inr b2 \<and> phase b2 = PhJoin \<and>
     dm_run_step demo_exec (StTurn [] False) b2 = Inr b3 \<and> phase b3 = PhBackup \<and>
     dm_run_step demo_exec (StTurn [EvRequest 9 12 \<lparr>cq_type = CLIENT_REQUEST, cq_length = 8, cq_preq = demo_preq\<rparr>] False) p0 =
       Inr p1 \<and> phase p1 = PhPrimary \<and> request_log p1 = [demo_preq] \<and>
     dm_run_step demo_exec (StTurn [EvServer [demo_request]] False) b3 = Inr b4 \<and> phase b4 = PhBackup \<and>
     curr_req_id b4 = 1 \<and> machine b4 = 1"
  by (simp add: dm_simps demo_simps request_log_def)


end
