(* ===== verification/DiomedesProps.thy ===== *)
theory DiomedesProps
  imports DiomedesReplication "HOL-Library.Product_Lexorder"
begin

text \<open>
  The election of a primary, the quorum of a request, and behaviour of Diomedes that deviates from its intention.
\<close>

unbundle bit_operations_syntax

section \<open>Election\<close>

definition eligible :: "'m replica \<Rightarrow> iref set" where
  "eligible s = set (active_servers s) - set (nacked s)"

text \<open>The order of \<open>MaxApplicationInstance\<close>.\<close>

definition rank :: "application \<Rightarrow> str \<times> str \<times> str" where
  "rank a = (ap_vmm a, ap_host a, ap_name a)"

lemma MaxApplicationInstance_rank:
  assumes "i \<notin> set (nacked s)" and "j \<notin> set (nacked s)" and "rank (apps s i) \<noteq> rank (apps s j)"
  shows "MaxApplicationInstance (Some i) (Some j) s =
    Inr (Some (if rank (apps s i) < rank (apps s j) then i else j))"
  using assms by (auto simp: MaxApplicationInstance_def rank_def Let_def)

lemma select_from_least:
  assumes "b \<notin> set (nacked s)" and "distinct (map (\<lambda>i. rank (apps s i)) (b # filter (\<lambda>i. i \<notin> set (nacked s)) is))"
  shows "\<exists>m. select_from s is (Some b) = Inr (Some m) \<and> m \<in> insert b (set is - set (nacked s)) \<and>
    (\<forall>j \<in> insert b (set is - set (nacked s)). rank (apps s m) \<le> rank (apps s j))"
  using assms
proof (induction "is" arbitrary: b)
  case Nil
  then show ?case by simp
next
  case (Cons i "is")
  show ?case
  proof (cases "i \<in> set (nacked s)")
    case True
    with Cons show ?thesis by simp
  next
    case False
    let ?b = "if rank (apps s b) < rank (apps s i) then b else i"
    have n: "rank (apps s b) \<noteq> rank (apps s i)" using Cons.prems(2) False by auto
    have "\<exists>m. select_from s is (Some ?b) = Inr (Some m) \<and> m \<in> insert ?b (set is - set (nacked s)) \<and>
        (\<forall>j \<in> insert ?b (set is - set (nacked s)). rank (apps s m) \<le> rank (apps s j))"
      using Cons.prems False by (intro Cons.IH) auto
    then obtain m where m: "select_from s is (Some ?b) = Inr (Some m)" "m \<in> insert ?b (set is - set (nacked s))"
        "\<forall>j \<in> insert ?b (set is - set (nacked s)). rank (apps s m) \<le> rank (apps s j)" by blast
    have "rank (apps s ?b) \<le> rank (apps s b)" "rank (apps s ?b) \<le> rank (apps s i)" by auto
    then have "rank (apps s m) \<le> rank (apps s b)" "rank (apps s m) \<le> rank (apps s i)"
      using m(3) by (meson insertI1 order_trans)+
    moreover have "select_from s (i # is) (Some b) = select_from s is (Some ?b)"
      using MaxApplicationInstance_rank [OF Cons.prems(1) False n] False by simp
    ultimately show ?thesis using m False by (intro exI [of _ m]) (auto split: if_splits)
  qed
qed

lemma SelectNewPrimary_least:
  assumes "inj_on (\<lambda>i. rank (apps s i)) (eligible s)" and "distinct (active_servers s)" and "eligible s \<noteq> {}"
  obtains m where "SelectNewPrimary s = Inr (Some m)" and "m \<in> eligible s"
    and "\<And>j. j \<in> eligible s \<Longrightarrow> rank (apps s m) \<le> rank (apps s j)"
proof -
  have "\<exists>m. select_from s is None = Inr (Some m) \<and> m \<in> set is - set (nacked s) \<and>
      (\<forall>j \<in> set is - set (nacked s). rank (apps s m) \<le> rank (apps s j))"
    if "inj_on (\<lambda>i. rank (apps s i)) (set is - set (nacked s))" "distinct is" "set is - set (nacked s) \<noteq> {}" for "is"
    using that
  proof (induction "is")
    case Nil
    then show ?case by simp
  next
    case (Cons i "is")
    show ?case
    proof (cases "i \<in> set (nacked s)")
      case True
      with Cons show ?thesis by simp
    next
      case False
      have "distinct (map (\<lambda>i. rank (apps s i)) (i # filter (\<lambda>i. i \<notin> set (nacked s)) is))"
        using Cons.prems(1,2) False by (auto simp: distinct_map inj_on_def)
      from select_from_least [OF False this] False show ?thesis by (auto simp: MaxApplicationInstance_def)
    qed
  qed
  from this [of "active_servers s"] assms that show ?thesis
    by (auto simp: SelectNewPrimary_def eligible_def)
qed

text \<open>
  C37. Replicas that know the same servers elect the same primary, in whatever order the servers have joined: the
  eligible server that is least by its hypervisor's, host's and own name.
\<close>

theorem replicas_elect_the_same:
  assumes "inj_on (\<lambda>i. rank (apps s i)) (eligible s)" and "inj_on (\<lambda>i. rank (apps s' i)) (eligible s')"
    and "distinct (active_servers s)" and "distinct (active_servers s')" and "eligible s \<noteq> {}"
    and "(\<lambda>i. rank (apps s i)) ` eligible s = (\<lambda>i. rank (apps s' i)) ` eligible s'"
  shows "\<exists>m m'. SelectNewPrimary s = Inr (Some m) \<and> SelectNewPrimary s' = Inr (Some m') \<and>
    rank (apps s m) = rank (apps s' m') \<and> rank (apps s m) = Min ((\<lambda>i. rank (apps s i)) ` eligible s)"
proof -
  have ne: "eligible s' \<noteq> {}" using assms(5,6) by auto
  from SelectNewPrimary_least [OF assms(1,3,5)] obtain m where
    m: "SelectNewPrimary s = Inr (Some m)" "m \<in> eligible s"
      "\<And>j. j \<in> eligible s \<Longrightarrow> rank (apps s m) \<le> rank (apps s j)" by blast
  from SelectNewPrimary_least [OF assms(2,4) ne] obtain m' where
    m': "SelectNewPrimary s' = Inr (Some m')" "m' \<in> eligible s'"
      "\<And>j. j \<in> eligible s' \<Longrightarrow> rank (apps s' m') \<le> rank (apps s' j)" by blast
  have f: "finite (eligible s)" "finite (eligible s')" by (simp_all add: eligible_def)
  have "rank (apps s m) = Min ((\<lambda>i. rank (apps s i)) ` eligible s)"
    using m f by (intro Min_eqI [symmetric]) auto
  moreover have "rank (apps s' m') = Min ((\<lambda>i. rank (apps s' i)) ` eligible s')"
    using m' f by (intro Min_eqI [symmetric]) auto
  ultimately show ?thesis using m(1) m'(1) assms(6) by simp
qed

lemma demo_joined:
  "\<exists>b0 b1 b2 :: nat replica.
     dm_init (demo_id ''h2'' ''v2'') 2 1 2 0 (\<lambda>h. Some (if h = ''h1'' then 1 else 2)) 0 = Inr b0 \<and>
     dm_run_step demo_exec (StTurn [EvServer [demo_join]] False) b0 = Inr b1 \<and>
     dm_run_step demo_exec (StAdd 0) b1 = Inr b2 \<and> active_servers b2 = [0, 1] \<and> nacked b2 = [] \<and>
     rank (apps b2 0) = (''v2'', ''h2'', ''app'') \<and> rank (apps b2 1) = (''v1'', ''h1'', ''app'')"
  by (simp add: dm_simps demo_simps rank_def)

theorem replicas_elect_the_same_witness:
  "\<exists>s :: nat replica. active_servers s = [0, 1] \<and> (\<exists>m m'. SelectNewPrimary s = Inr (Some m) \<and>
     SelectNewPrimary (s\<lparr>active_servers := [1, 0]\<rparr>) = Inr (Some m') \<and> rank (apps s m) = rank (apps s m'))"
proof -
  obtain s :: "nat replica" where s: "active_servers s = [0, 1]" "nacked s = []"
    "rank (apps s 0) = (''v2'', ''h2'', ''app'')" "rank (apps s 1) = (''v1'', ''h1'', ''app'')"
    using demo_joined by blast
  have "inj_on (\<lambda>i. rank (apps s i)) (eligible s)" using s(4) by (simp add: eligible_def s(1-3))
  moreover have "eligible (s\<lparr>active_servers := [1, 0]\<rparr>) = eligible s" by (auto simp: eligible_def s)
  moreover have "eligible s \<noteq> {}" by (simp add: eligible_def s)
  ultimately show ?thesis
    using replicas_elect_the_same [of s "s\<lparr>active_servers := [1, 0]\<rparr>"] s(1) by auto
qed

section \<open>The quorum of a request\<close>

type_synonym vote = "addr \<times> nat \<times> diomedes_id \<times> diomedes_primary_request"

definition vote_message :: "vote \<Rightarrow> diomedes_message" where
  "vote_message v = (case v of (a, len, i, q) \<Rightarrow> \<lparr>dm_length = len, dm_payload = DVote i q\<rparr>)"

text \<open>The backups that have voted for the request \<open>c\<close> or a later one.\<close>

definition voters :: "u32 \<Rightarrow> vote list \<Rightarrow> str set" where
  "voters c vs = {voter_str i |a len i q. (a, len, i, q) \<in> set vs \<and> c \<le> pq_id q}"

definition take_vote :: "(bytes \<Rightarrow> 'm \<Rightarrow> bytes \<times> 'm) \<Rightarrow> vote \<Rightarrow> 'm replica \<Rightarrow> 'm replica res" where
  "take_vote exec v s = ProcessBackupMessage exec (fst v) (vote_message v) s"

lemma voters_simps [simp]:
  "voters c [] = {}"
  "voters c ((a, len, i, q) # vs) = (if c \<le> pq_id q then insert (voter_str i) (voters c vs) else voters c vs)"
  by (auto simp: voters_def)

lemma voters_finite [simp]: "finite (voters c vs)"
  by (induction vs) auto

lemma votes_ignored: "mode s = WAITING_FOR_REQUESTS \<Longrightarrow> res_fold (take_vote exec) vs s = Inr s"
  by (induction vs) (simp_all add: take_vote_def vote_message_def ProcessBackupMessage_def split: prod.split)

lemma votes_counted:
  assumes "mode s = PROCESSING_REQUEST" and "distinct (ackers s)" and "length (ackers s) < unat (acks_needed s)"
    and "res_fold (take_vote exec) vs s = Inr s'"
  shows "curr_req_id s' = curr_req_id s \<and> acks_needed s' = acks_needed s \<and> responders s' = responders s \<and>
    dout s' = dout s \<and>
    (if unat (acks_needed s) \<le> card (set (ackers s) \<union> voters (curr_req_id s) vs)
     then mode s' = WAITING_FOR_REQUESTS \<and> last_valid_req_id s' = last_valid_req_id s + 1
     else mode s' = PROCESSING_REQUEST \<and> last_valid_req_id s' = last_valid_req_id s)"
  using assms
proof (induction vs arbitrary: s)
  case Nil
  then show ?case by (simp add: distinct_card)
next
  case (Cons v vs)
  obtain a len i q where v: "v = (a, len, i, q)" by (cases v)
  have "take_vote exec v s = AddToAckers i q s"
    using Cons.prems(1) by (simp add: v take_vote_def vote_message_def ProcessBackupMessage_def)
  then obtain t where t: "AddToAckers i q s = Inr t" "res_fold (take_vote exec) vs t = Inr s'"
    using Cons.prems(4) by auto
  let ?A = "List.insert (voter_str i) (ackers s)"
  show ?case
  proof (cases "pq_id q < curr_req_id s")
    case True
    then have "t = s" using t(1) by (simp add: AddToAckers_def)
    with Cons.IH [OF Cons.prems(1-3)] t(2) True show ?thesis by (simp add: v leD)
  next
    case False
    have A: "distinct ?A" "set ?A = insert (voter_str i) (set (ackers s))" using Cons.prems(2) by simp_all
    have L: "length ?A \<le> Suc (length (ackers s))" by (simp add: List.insert_def)
    show ?thesis
    proof (cases "length ?A = unat (acks_needed s)")
      case True
      have "unat (acks_needed s) \<le> card (set (ackers s) \<union> voters (curr_req_id s) ((a, len, i, q) # vs))"
        unfolding True [symmetric] distinct_card [OF A(1), symmetric] A(2)
        using False by (intro card_mono) (auto simp: not_less)
      moreover have "t = s\<lparr>last_valid_req_id := last_valid_req_id s + 1, ackers := [], mode := WAITING_FOR_REQUESTS\<rparr>"
        using t(1) False True by (auto simp: AddToAckers_def Let_def split: if_splits)
      ultimately show ?thesis using t(2) votes_ignored [of t exec vs] by (simp add: v)
    next
      case N: False
      have t': "t = s\<lparr>ackers := ?A\<rparr>"
        using t(1) False N by (auto simp: AddToAckers_def Let_def split: if_splits)
      have "length ?A < unat (acks_needed s)" using N L Cons.prems(3) by linarith
      from Cons.IH [of t] this A Cons.prems(1) t(2)
      have X: "curr_req_id s' = curr_req_id s \<and> acks_needed s' = acks_needed s \<and> responders s' = responders s \<and>
        dout s' = dout s \<and>
        (if unat (acks_needed s) \<le> card (set ?A \<union> voters (curr_req_id s) vs)
         then mode s' = WAITING_FOR_REQUESTS \<and> last_valid_req_id s' = last_valid_req_id s + 1
         else mode s' = PROCESSING_REQUEST \<and> last_valid_req_id s' = last_valid_req_id s)"
        by (simp add: t')
      have U: "set ?A \<union> voters (curr_req_id s) vs =
          set (ackers s) \<union> voters (curr_req_id s) ((a, len, i, q) # vs)"
        using False A(2) by (auto simp: not_less)
      show ?thesis using X unfolding v U .
    qed
  qed
qed


definition demo_votes :: "vote list" where
  "demo_votes = [(2, 104, demo_id ''h2'' ''v2'', demo_preq), (2, 104, demo_id ''h2'' ''v2'', demo_preq)]"

lemma demo_processing:
  "\<exists>p0 p1 p2 :: nat replica.
     dm_init (demo_id ''h1'' ''v1'') 1 1 1 0 (\<lambda>h. Some (if h = ''h1'' then 1 else 2)) 0 = Inr p0 \<and>
     dm_run_step demo_exec (StTurn [EvRequest 9 12 \<lparr>cq_type = CLIENT_REQUEST, cq_length = 8, cq_preq = demo_preq\<rparr>] False) p0 =
       Inr p1 \<and> mode p1 = PROCESSING_REQUEST \<and> ackers p1 = [] \<and> acks_needed p1 = 1 \<and> last_valid_req_id p1 = 0 \<and>
     curr_req_id p1 = 1 \<and> responders p1 = [\<lparr>re_from = 9, re_req = 1, re_client = 3\<rparr>] \<and>
     res_fold (take_vote demo_exec) demo_votes p1 = Inr p2"
  by (simp add: dm_simps demo_simps demo_votes_def take_vote_def vote_message_def ProcessBackupMessage_def AddToAckers_def)


section \<open>Behaviour that deviates from its intention\<close>

text \<open>A new primary that has a request of a client that never got a response dereferences a null pointer.\<close>

lemma cached_request_crashes:
  assumes "(i, c) \<in> set (request_map s)" and "response_map s i = None"
  shows "\<exists>f. ClearRequestCache s = Inl f"
proof (rule ccontr)
  assume "\<not> ?thesis"
  then obtain s' where s': "res_fold clear_cached (request_map s) s = Inr s'"
    by (cases "ClearRequestCache s") (auto simp: ClearRequestCache_def)
  obtain ps qs where e: "request_map s = ps @ (i, c) # qs" using split_list [OF assms(1)] by auto
  then obtain t where t: "res_fold clear_cached ps s = Inr t" "clear_cached (i, c) t \<noteq> Inl Null_deref"
    using s' by (auto simp: res_fold_append)
  have "dm_same s t" by (rule res_fold_same [OF t(1)]) (rule clear_cached_same)
  then show False using t(2) assms(2) by (simp add: clear_cached_def dm_same_def executed_def)
qed

text \<open>
  A new primary that catches up with a backup runs the backup's request but does not count it: its next request gets
  the same id, which the backup takes for the old one.
\<close>

lemma catchup_reuses_id:
  assumes "vc_max v = curr_req_id s" and "pq_id q = curr_req_id s + 1" and "vc_max v < pq_id q" and "vc_min v \<le> pq_id q"
    and "vote_catchup exec len q v s = Inr (v', s1)" and "mode s2 = WAITING_FOR_REQUESTS" and "dm_same s1 s2"
    and "BuildPrimaryRequest c s2 = Inr (True, s3)"
  shows "pq_id (lp_preq (last_primary_request s3)) = pq_id q"
proof -
  from assms(3-5) obtain t new where
    t: "BroadcastPrimaryRequest
        (s\<lparr>last_primary_request := (last_primary_request s)\<lparr>lp_preq := q, lp_length := len - sizeof_id\<rparr>\<rparr>) = Inr t"
      "run_last exec t = Inr (new, s1)"
    by (auto simp: vote_catchup_def split: if_splits)
  have "curr_req_id t = curr_req_id s"
    using t(1) by (auto simp: BroadcastPrimaryRequest_def Let_def split: if_splits dest!: dsend_effect)
  then have "curr_req_id s2 = curr_req_id s"
    using RunRequest_effect(2) [OF t(2) [unfolded run_last_def]] assms(7) by (simp add: dm_same_def)
  then show ?thesis using BuildPrimaryRequest_effect(2) [OF assms(8)] assms(2) by simp
qed

text \<open>One that has never got a request itself aborts instead, since the type of its buffer is not set.\<close>

lemma catchup_without_request_aborts:
  "\<not> lp_set (last_primary_request s) \<Longrightarrow> vc_max v < pq_id q \<Longrightarrow> vc_min v \<le> pq_id q \<Longrightarrow> sizeof_id \<le> len \<Longrightarrow>
   vote_catchup exec len q v s = Inl Check_failed"
  by (simp add: vote_catchup_def BroadcastPrimaryRequest_def)

text \<open>
  A repeated request is counted but never becomes valid, so that the counter of valid requests lags behind, and the responder
  of the next request waits after its quorum.
\<close>

lemma repeated_request_lags:
  assumes "last_valid_req_id s = curr_req_id s" and "response_map s (pq_client (cq_preq c)) = Some r"
    and "rm_xid (pq_request (cq_preq c)) = rm_xid r" and "cq_type c = CLIENT_REQUEST"
    and "HandleRequestAsPrimary exec from n c s = Inr s'"
  shows "curr_req_id s' = curr_req_id s + 1 \<and> last_valid_req_id s' = curr_req_id s \<and> mode s' = WAITING_FOR_REQUESTS"
  using assms
  by (auto simp: HandleRequestAsPrimary_def BuildPrimaryRequest_def BroadcastPrimaryRequest_def run_last_def RunRequest_def
      SendClientResponse_def Let_def split: if_splits option.splits dest!: dsend_effect)

text \<open>
  The size of a response is not converted to host order.  A single-fragment response of fewer than 256 bytes is always sent with
  128 bytes, so that one of more than 124 is cut; a longer one is copied past the end of the buffer.
\<close>

lemma byte_at_four:
  "byte_at 0 (x # y # z # w # b) = x" "byte_at 1 (x # y # z # w # b) = y"
  "byte_at 2 (x # y # z # w # b) = z" "byte_at 3 (x # y # z # w # b) = w"
  by (simp_all add: byte_at_def)

lemma unat_low_24: "unat (0xFFFFFF AND w) = unat (w :: u32) mod 2 ^ 24"
proof -
  have "(0xFFFFFF :: u32) = mask 24" by (simp add: mask_eq_exp_minus_1)
  then have "0xFFFFFF AND w = take_bit 24 w" by (simp only: take_bit_eq_mask and.commute)
  then have "unat (0xFFFFFF AND w) = take_bit 24 (unat w)" by (simp only: unsigned_take_bit_eq)
  then show ?thesis by (simp only: take_bit_eq_mod)
qed

lemma response_size_wrong:
  assumes "response_map s i = Some (0x80 # 0 # hi # lo # b)"
  shows "raw_size (0x80 # 0 # hi # lo # b) = 128 + 65536 * unat hi"
    and "hi \<noteq> 0 \<Longrightarrow> SendClientResponse a i s = Inl Bad_index"
proof -
  let ?n = "16777216 * unat lo + (128 + 65536 * unat hi)"
  have l: "unat hi < 256" "unat lo < 256" using unsigned_less [of hi] unsigned_less [of lo] by simp_all
  have "le32_at 0 (0x80 # 0 # hi # lo # b) = word_of_nat ?n"
  proof -
    have "le32_at 0 (0x80 # 0 # hi # lo # b) =
        word_of_nat (((unat lo * 256 + unat hi) * 256 + unat (0 :: u8)) * 256 + unat (0x80 :: u8))"
      by (simp only: le32_at_def add_0_left byte_at_four)
    moreover have "((unat lo * 256 + unat hi) * 256 + unat (0 :: u8)) * 256 + unat (0x80 :: u8) = ?n" by simp
    ultimately show ?thesis by (simp only:)
  qed
  moreover have "unat (word_of_nat ?n :: u32) = ?n"
  proof -
    have "?n < 2 ^ LENGTH(32)" using l by simp
    then show ?thesis by (simp only: unsigned_of_nat take_bit_nat_eq_self_iff of_nat_id take_bit_nat_eq_self)
  qed
  ultimately have "raw_size (0x80 # 0 # hi # lo # b) = ?n mod 2 ^ 24"
    by (simp only: raw_size_def unat_low_24)
  also have "\<dots> = 128 + 65536 * unat hi" using l by (simp add: mod_mult_self4)
  finally show R: "raw_size (0x80 # 0 # hi # lo # b) = 128 + 65536 * unat hi" .
  show "hi \<noteq> 0 \<Longrightarrow> SendClientResponse a i s = Inl Bad_index"
    using assms R by (simp add: SendClientResponse_def kRequestRoom_def unat_gt_0 [symmetric])
qed

text \<open>A vote for a request of more than 1372 bytes does not fit the buffer of the vote.\<close>

lemma long_request_overflows: "1372 < lp_length (last_primary_request s) \<Longrightarrow> SendVote s = Inl Bad_index"
  by (simp add: SendVote_def kMaxDiomedesMessage_def kDiomedesHeaderSize_def sizeof_id_def)

text \<open>After the injected fault \<open>badloop\<close> the first caller of \<open>SendFailed\<close> keeps the lock and the next one hangs.\<close>

lemma failed_pipe_hangs:
  "Sabotuer ''badloop'' s = Inr s1 \<Longrightarrow> SendFailed f s1 = Inr s2 \<Longrightarrow> SendFailed g s2 = Inl Self_deadlock"
  by (auto simp: Sabotuer_def SendFailed_def split: if_splits)

end
