(* ===== verification/DiomedesProxy.thy ===== *)
theory DiomedesProxy
  imports DiomedesData
begin

text \<open>
  The proxy between TCP clients and the replicas (\<open>apps/diomedes/diomedes_proxy.cc\<close>): it gives every connection a
  client id, puts its requests into datagrams, and brings the responses back.
\<close>

unbundle bit_operations_syntax

section \<open>State\<close>

text \<open>Address and port of a peer.\<close>

type_synonym client_info = "u32 \<times> u16"

definition no_info :: client_info where "no_info = (0, 0)"

text \<open>
  The comparison of the keys.  It is not an order on the pairs: keys of which neither is less than the other are one key to the
  map.  The map is the list of its entries, oldest first; an operation takes the first entry with an equivalent key.
  (Where that relation is not transitive the standard leaves the behaviour of the map open.)
\<close>

definition client_info_less :: "client_info \<Rightarrow> client_info \<Rightarrow> bool" where
  "client_info_less a b \<longleftrightarrow> fst a < fst b \<and> snd a < snd b"

definition same_key :: "client_info \<Rightarrow> client_info \<Rightarrow> bool" where
  "same_key a b \<longleftrightarrow> \<not> client_info_less a b \<and> \<not> client_info_less b a"

type_synonym 'v client_map = "(client_info \<times> 'v) list"

fun ci_get :: "client_info \<Rightarrow> 'v client_map \<Rightarrow> 'v option" where
  "ci_get k [] = None"
| "ci_get k ((a, v) # m) = (if same_key a k then Some v else ci_get k m)"

fun ci_put :: "client_info \<Rightarrow> 'v \<Rightarrow> 'v client_map \<Rightarrow> 'v client_map" where
  "ci_put k v [] = [(k, v)]"
| "ci_put k v ((a, w) # m) = (if same_key a k then (a, v) # m else (a, w) # ci_put k v m)"

text \<open>\<open>my_id\<close> is never assigned and stays zero.\<close>

record proxy =
  my_id :: u32
  next_client_id :: u16
  info_to_client :: "int client_map"
  info_to_id :: "u32 client_map"
  id_to_info :: "u32 \<Rightarrow> client_info option"
  px_closed :: "int list"
  px_out :: "(nat \<times> nat \<times> u32 \<times> bytes) list"
  px_sent :: "(int \<times> bytes) list"

definition proxy_start :: proxy where
  "proxy_start = \<lparr>my_id = 0, next_client_id = 0, info_to_client = [], info_to_id = [],
     id_to_info = (\<lambda>_. None), px_closed = [], px_out = [], px_sent = []\<rparr>"

text \<open>\<open>m[k]\<close>, which inserts the default for a missing key.\<close>

definition ci_at :: "'v \<Rightarrow> 'v client_map \<Rightarrow> client_info \<Rightarrow> 'v \<times> 'v client_map" where
  "ci_at d m k = (case ci_get k m of Some v \<Rightarrow> (v, m) | None \<Rightarrow> (d, ci_put k d m))"

section \<open>Operations\<close>

text \<open>\<open>fd\<close> and \<open>peer\<close> are the result of \<open>accept\<close>; \<open>added\<close> that of \<open>epoll_ctl\<close>.\<close>

definition AcceptNewClient :: "int \<Rightarrow> client_info \<Rightarrow> bool \<Rightarrow> proxy \<Rightarrow> proxy res" where
  "AcceptNewClient fd peer added s =
     (if fd < 0 then Inl Check_failed
      else
        let i = my_id s OR ucast (next_client_id s)
        in check added
             (s\<lparr>info_to_client := ci_put peer fd (info_to_client s), next_client_id := next_client_id s + 1,
                info_to_id := ci_put peer i (info_to_id s), id_to_info := (id_to_info s)(i \<mapsto> peer)\<rparr>))"


text \<open>
  \<open>peer\<close> is the result of \<open>getpeername\<close> and \<open>n\<close> that of \<open>recv\<close>, with the bytes that it read.  The result is kept in 16 unsigned
  bits, and so is the length field.  A datagram is sent with its length field, its size, the id and the buffer.
\<close>

definition ProcessClientRequest :: "int \<Rightarrow> client_info option \<Rightarrow> int \<Rightarrow> bytes \<Rightarrow> bool \<Rightarrow> proxy \<Rightarrow> proxy res" where
  "ProcessClientRequest client peer n buf ok s =
     (case peer of
        None \<Rightarrow> Inr (s\<lparr>px_closed := px_closed s @ [client]\<rparr>)
      | Some info \<Rightarrow>
          let recv_size = unat (word_of_int n :: u16) in
          if recv_size = 0 then
            Inr (s\<lparr>px_closed := px_closed s @ [client], info_to_client := ci_put info (- 1) (info_to_client s)\<rparr>)
          else
            let (i, m) = ci_at 0 (info_to_id s) info;
                len = unat (word_of_nat (8 + recv_size) :: u16)
            in check ok
                 (s\<lparr>info_to_id := m, px_out := px_out s @ [(len, len + kDiomedesHeaderSize, i, buf)]\<rparr>))"

text \<open>A response with its client id and its \<open>tcp_rpc_msg\<close>; \<open>sent\<close> is the result of \<open>send\<close>.\<close>

definition ProcessDiomedesResponse :: "int \<Rightarrow> u32 \<Rightarrow> bytes \<Rightarrow> int \<Rightarrow> proxy \<Rightarrow> proxy res" where
  "ProcessDiomedesResponse recv_len i resp sent s =
     (if \<not> 0 < recv_len then Inl Check_failed
      else
        let length = unat (0xFFFFFF AND be32_at 0 resp);
            send_size = length + 4;
            (info, m) = (case id_to_info s i of Some x \<Rightarrow> (x, id_to_info s)
                         | None \<Rightarrow> (no_info, (id_to_info s)(i \<mapsto> no_info)));
            (client, m') = ci_at 0 (info_to_client s) info;
            s1 = s\<lparr>id_to_info := m, info_to_client := m'\<rparr>
        in if client \<le> 0 then Inr s1
           else if 1460 < send_size then Inl Bad_index
           else
             let s2 = s1\<lparr>px_sent := px_sent s1 @ [(client, pad send_size resp)]\<rparr>
             in Inr (if int send_size \<noteq> sent then s2\<lparr>px_closed := px_closed s2 @ [client]\<rparr> else s2))"

datatype proxy_event =
    PxAccept int client_info bool
  | PxRequest int "client_info option" int bytes bool
  | PxResponse int u32 bytes int

fun ProxyRun :: "proxy_event \<Rightarrow> proxy \<Rightarrow> proxy res" where
  "ProxyRun (PxAccept fd peer added) s = AcceptNewClient fd peer added s"
| "ProxyRun (PxRequest client peer n buf ok) s = ProcessClientRequest client peer n buf ok s"
| "ProxyRun (PxResponse n i resp sent) s = ProcessDiomedesResponse n i resp sent s"

section \<open>Whose response\<close>

lemma same_key_refl [simp]: "same_key k k"
  by (simp add: same_key_def client_info_less_def)

lemma ci_get_put [simp]: "ci_get k (ci_put k v m) = Some v"
  by (induction m) auto

text \<open>
  A connection's request goes out with its id, and the response to that id, as long as no other connection has come in, goes
  to its socket with its own size.
\<close>

lemma proxy_serves:
  assumes "AcceptNewClient fd peer True s = Inr s1" and "0 < fd" and "0 < n" and "n \<le> 1460"
    and "ProcessClientRequest fd (Some peer) n buf True s1 = Inr s2"
    and "unat (0xFFFFFF AND be32_at 0 resp) = k" and "k + 4 \<le> 1460" and "0 < len"
  shows "\<exists>i. px_out s2 = px_out s @ [(nat n + 8, nat n + 12, i, buf)] \<and>
    (\<exists>s3. ProcessDiomedesResponse len i resp (int k + 4) s2 = Inr s3 \<and> px_sent s3 = px_sent s @ [(fd, pad (k + 4) resp)])"
proof -
  let ?i = "my_id s OR ucast (next_client_id s)"
  obtain m where m: "n = int m" using assms(3) by (metis zero_less_imp_eq_int)
  have w: "unat (word_of_nat j :: u16) = j" if "j < 65536" for j
    using that by (simp add: unsigned_of_nat take_bit_nat_eq_self_iff)
  have u: "unat (word_of_int n :: u16) = m" "unat (word_of_nat (8 + m) :: u16) = 8 + m"
    using w [of m] w [of "8 + m"] assms(4) m by (simp, simp only:)
  have s1: "s1 = s\<lparr>info_to_client := ci_put peer fd (info_to_client s), next_client_id := next_client_id s + 1,
      info_to_id := ci_put peer ?i (info_to_id s), id_to_info := (id_to_info s)(?i \<mapsto> peer)\<rparr>"
    using assms(1,2) by (simp add: AcceptNewClient_def Let_def)
  have "ci_at 0 (info_to_id s1) peer = (?i, info_to_id s1)" by (simp add: s1 ci_at_def)
  then have s2: "s2 = s1\<lparr>info_to_id := info_to_id s1, px_out := px_out s1 @ [(8 + m, 12 + m, ?i, buf)]\<rparr>"
    using assms(3,5) m u by (simp add: ProcessClientRequest_def Let_def kDiomedesHeaderSize_def)
  have "\<exists>s3. ProcessDiomedesResponse len ?i resp (int k + 4) s2 = Inr s3 \<and> px_sent s3 = px_sent s @ [(fd, pad (k + 4) resp)]"
    using assms(2,6-8) by (simp add: ProcessDiomedesResponse_def Let_def s2 s1 ci_at_def)
  then show ?thesis using m by (intro exI [of _ ?i]) (simp add: s2 s1)
qed

text \<open>
  Two connections from one host, whose peers differ in the port only, are one entry: the answer to the first goes to the
  second.
\<close>

lemma proxy_mixes_clients:
  assumes "AcceptNewClient 5 (a, p) True proxy_start = Inr s1" and "AcceptNewClient 6 (a, q) True s1 = Inr s2"
    and "rpc = [0, 0, 0, 0]" and "ProcessDiomedesResponse 16 0 rpc 4 s2 = Inr s3"
  shows "px_sent s3 = [(6, rpc)]"
  using assms
  by (auto simp: AcceptNewClient_def proxy_start_def ProcessDiomedesResponse_def Let_def check_def same_key_def
      client_info_less_def ci_at_def be32_at_def byte_at_def pad_def split: if_splits)

text \<open>A failed read counts as 65535 bytes, and the datagram of 11 bytes that goes out claims to have 7.\<close>

lemma failed_read_sends:
  assumes "ProcessClientRequest c (Some info) (- 1) buf True s = Inr s'"
  shows "\<exists>i. px_out s' = px_out s @ [(7, 11, i, buf)]"
proof -
  have "unat (- 1 :: u16) = 65535" by (simp add: unsigned_minus_1_eq_mask mask_eq_exp_minus_1)
  moreover have "unat (word_of_nat 65543 :: u16) = 7" by (simp add: unsigned_of_nat take_bit_eq_mod)
  ultimately show ?thesis
    using assms by (auto simp: ProcessClientRequest_def Let_def ci_at_def kDiomedesHeaderSize_def split: option.splits)
qed

end
