(* ===== verification/PmpData.thy ===== *)
theory PmpData
  imports Xdr
begin

text \<open>
  The data of the replicated service of Poor Man's Paxos (\<open>apps/pmp_falcon\<close>): the types of \<open>rep.x\<close>, the orders and the
  checked addition of \<open>util.h\<close>, the sets of \<open>set.h\<close> with their majority test, and the marshalling of a view formation
  that \<open>cohort.C\<close> stores in the log.  An \<open>itree\<close> of the async library is an ordered tree of entries; a lookup finds the
  entry with the key, if there is one.
\<close>

section \<open>View ids and viewstamps\<close>

datatype viewid_t = ViewId (counter: u64) (manager: u64)

datatype viewstamp_t = VS (vs_vid: viewid_t) (vs_ts: u32)

definition viewid_lt :: "viewid_t \<Rightarrow> viewid_t \<Rightarrow> bool" where
  "viewid_lt a b \<longleftrightarrow> counter a < counter b \<or> (counter a = counter b \<and> manager a < manager b)"

instantiation viewid_t :: linorder
begin

definition less_viewid_t :: "viewid_t \<Rightarrow> viewid_t \<Rightarrow> bool" where
  "less_viewid_t a b \<longleftrightarrow> viewid_lt a b"

definition less_eq_viewid_t :: "viewid_t \<Rightarrow> viewid_t \<Rightarrow> bool" where
  "less_eq_viewid_t a b \<longleftrightarrow> a < b \<or> a = b"

instance
proof
  fix a b c :: viewid_t
  show "(a < b) = (a \<le> b \<and> \<not> b \<le> a)" by (auto simp: less_eq_viewid_t_def less_viewid_t_def viewid_lt_def)
  show "a \<le> a" by (simp add: less_eq_viewid_t_def less_viewid_t_def viewid_lt_def)
  show "a \<le> b \<Longrightarrow> b \<le> c \<Longrightarrow> a \<le> c" by (auto simp: less_eq_viewid_t_def less_viewid_t_def viewid_lt_def)
  show "a \<le> b \<Longrightarrow> b \<le> a \<Longrightarrow> a = b" by (auto simp: less_eq_viewid_t_def less_viewid_t_def viewid_lt_def)
  show "a \<le> b \<or> b \<le> a"
    by (cases a; cases b) (auto simp: less_eq_viewid_t_def less_viewid_t_def viewid_lt_def not_less order.order_iff_strict)
qed

end

lemmas viewid_order_defs = less_eq_viewid_t_def less_viewid_t_def viewid_lt_def

definition viewstamp_lt :: "viewstamp_t \<Rightarrow> viewstamp_t \<Rightarrow> bool" where
  "viewstamp_lt a b \<longleftrightarrow> vs_vid a < vs_vid b \<or> (vs_vid a = vs_vid b \<and> vs_ts a < vs_ts b)"

definition viewstamp_le :: "viewstamp_t \<Rightarrow> viewstamp_t \<Rightarrow> bool" where
  "viewstamp_le a b \<longleftrightarrow> viewstamp_lt a b \<or> a = b"

instantiation viewstamp_t :: linorder
begin

definition less_viewstamp_t :: "viewstamp_t \<Rightarrow> viewstamp_t \<Rightarrow> bool" where
  "less_viewstamp_t a b \<longleftrightarrow> viewstamp_lt a b"

definition less_eq_viewstamp_t :: "viewstamp_t \<Rightarrow> viewstamp_t \<Rightarrow> bool" where
  "less_eq_viewstamp_t a b \<longleftrightarrow> viewstamp_le a b"

instance
proof
  fix a b c :: viewstamp_t
  show "(a < b) = (a \<le> b \<and> \<not> b \<le> a)" by (auto simp: less_eq_viewstamp_t_def less_viewstamp_t_def viewstamp_le_def viewstamp_lt_def)
  show "a \<le> a" by (simp add: less_eq_viewstamp_t_def less_viewstamp_t_def viewstamp_le_def viewstamp_lt_def)
  show "a \<le> b \<Longrightarrow> b \<le> c \<Longrightarrow> a \<le> c" by (auto simp: less_eq_viewstamp_t_def less_viewstamp_t_def viewstamp_le_def viewstamp_lt_def)
  show "a \<le> b \<Longrightarrow> b \<le> a \<Longrightarrow> a = b" by (auto simp: less_eq_viewstamp_t_def less_viewstamp_t_def viewstamp_le_def viewstamp_lt_def)
  show "a \<le> b \<or> b \<le> a"
    by (cases a; cases b) (auto simp: less_eq_viewstamp_t_def less_viewstamp_t_def viewstamp_le_def viewstamp_lt_def not_less order.order_iff_strict)
qed

end

lemmas viewstamp_order_defs = less_eq_viewstamp_t_def less_viewstamp_t_def viewstamp_le_def viewstamp_lt_def

lemma less_ViewId [simp]: "ViewId a b < ViewId c d \<longleftrightarrow> a < c \<or> (a = c \<and> b < d)"
  by (simp add: viewid_order_defs)

lemma le_ViewId [simp]: "ViewId a b \<le> ViewId c d \<longleftrightarrow> a < c \<or> (a = c \<and> b \<le> d)"
  by (auto simp: viewid_order_defs)

lemma less_VS [simp]: "VS v m < VS w n \<longleftrightarrow> v < w \<or> (v = w \<and> m < n)"
  by (simp add: viewstamp_order_defs)

lemma le_VS [simp]: "VS v m \<le> VS w n \<longleftrightarrow> v < w \<or> (v = w \<and> m \<le> n)"
  by (auto simp: viewstamp_order_defs)

lemma le_vs_vid: "a \<le> b \<Longrightarrow> vs_vid a \<le> vs_vid b"
  by (cases a; cases b) auto

text \<open>The addition of \<open>util.h\<close>, which ends the process when the timestamp wraps, and the step it is used for.\<close>

definition vs_add :: "viewstamp_t \<Rightarrow> u32 \<Rightarrow> viewstamp_t res" where
  "vs_add a i = (let n = VS (vs_vid a) (vs_ts a + i) in if vs_ts n < vs_ts a then Inl Exit_called else Inr n)"

definition vs_null :: viewstamp_t where
  "vs_null = VS (ViewId 0 0) 0"

lemma vs_add_1: "vs_add a 1 = Inr b \<Longrightarrow> a < b \<and> vs_vid b = vs_vid a \<and> unat (vs_ts b) = Suc (unat (vs_ts a))"
proof -
  assume "vs_add a 1 = Inr b"
  then have b: "b = VS (vs_vid a) (vs_ts a + 1)" and n: "\<not> vs_ts a + 1 < vs_ts a"
    by (auto simp: vs_add_def Let_def split: if_splits)
  have "vs_ts a + 1 \<noteq> 0"
  proof
    assume "vs_ts a + 1 = 0"
    with n have "vs_ts a = 0" by (simp add: word_gt_0)
    with \<open>vs_ts a + 1 = 0\<close> show False by simp
  qed
  then have "vs_ts a < vs_ts a + 1" and "unat (vs_ts a + 1) = Suc (unat (vs_ts a))"
    using word_less_no_wrap [of "vs_ts a"] unatSuc [of "vs_ts a"] by (simp_all add: add.commute)
  then show ?thesis unfolding b by (cases a) simp
qed

section \<open>The messages of rep.x\<close>

record net_address_t =
  na_ipaddr :: u32
  na_port :: u32

record cohort_t =
  co_mid :: u64
  co_addr :: net_address_t
  co_name :: str
  co_hypervisor :: str

record execute_viewinfo =
  vi_vid :: viewid_t
  vi_primary :: net_address_t

record execute_arg =
  ea_client :: u64
  ea_rid :: u64
  ea_vid :: viewid_t
  ea_request :: "byte list"

datatype execute_res =
    ExecuteOk "byte list"
  | ExecuteView execute_viewinfo

record view_t =
  vw_vid :: viewid_t
  vw_primary :: cohort_t
  vw_backups :: "cohort_t list"

record replicate_arg =
  rp_vs :: viewstamp_t
  rp_arg :: execute_arg
  rp_committed :: viewstamp_t

record view_change_arg =
  vca_oldview :: view_t
  vca_newvid :: viewid_t

record view_change_reject =
  vcr_oldview :: "view_t option"
  vcr_newvid :: viewid_t

record view_change_accept =
  vcc_myid :: cohort_t
  vcc_include_me :: bool
  vcc_latest :: viewstamp_t
  vcc_newview :: "view_t option"

datatype view_change_res =
    VcReject view_change_reject
  | VcAccept view_change_accept

record new_view_arg =
  nva_latest :: viewstamp_t
  nva_view :: view_t

record view_form_t =
  vf_prev :: viewstamp_t
  vf_view :: view_t

record ping_arg =
  pg_myid :: u64
  pg_vid :: viewid_t

section \<open>Sets\<close>

text \<open>
  \<open>set.h\<close>: the members in the order of their key.  Machine ids and viewstamps are their own key, a cohort's is its
  machine id.  \<open>union_with\<close> is not instantiated anywhere and would not compile.
\<close>

definition set_contains :: "('a \<Rightarrow> 'k::linorder) \<Rightarrow> 'a \<Rightarrow> 'a list \<Rightarrow> bool" where
  "set_contains key v s \<longleftrightarrow> key v \<in> key ` set s"

definition set_insert :: "('a \<Rightarrow> 'k::linorder) \<Rightarrow> 'a \<Rightarrow> 'a list \<Rightarrow> bool \<times> 'a list" where
  "set_insert key v s = (if set_contains key v s then (False, s) else (True, insort_key key v s))"

definition set_remove :: "('a \<Rightarrow> 'k::linorder) \<Rightarrow> 'a \<Rightarrow> 'a list \<Rightarrow> 'a list" where
  "set_remove key v s = filter (\<lambda>e. key e \<noteq> key v) s"

fun set_intersect :: "('a \<Rightarrow> 'k::linorder) \<Rightarrow> 'a list \<Rightarrow> 'a list \<Rightarrow> 'a list \<Rightarrow> 'a list" where
  "set_intersect key (x # xs) (y # ys) r =
     (if key x < key y then set_intersect key xs (y # ys) r
      else if key y < key x then set_intersect key (x # xs) ys r
      else set_intersect key xs ys (snd (set_insert key x r)))"
| "set_intersect key [] ys r = r"
| "set_intersect key xs [] r = r"

definition contains_majority_of :: "('a \<Rightarrow> 'k::linorder) \<Rightarrow> 'a list \<Rightarrow> 'a list \<Rightarrow> bool" where
  "contains_majority_of key a s \<longleftrightarrow> length s div 2 + 1 \<le> length (set_intersect key a s [])"

text \<open>Assignment clears the set and inserts the other's members one by one.\<close>

definition set_assign :: "('a \<Rightarrow> 'k::linorder) \<Rightarrow> 'a list \<Rightarrow> 'a list" where
  "set_assign key s = fold (\<lambda>e r. snd (set_insert key e r)) s []"

definition set_ok :: "('a \<Rightarrow> 'k::linorder) \<Rightarrow> 'a list \<Rightarrow> bool" where
  "set_ok key s \<longleftrightarrow> sorted_wrt (<) (map key s)"

abbreviation mids_insert :: "'k::linorder \<Rightarrow> 'k list \<Rightarrow> 'k list" where
  "mids_insert m s \<equiv> snd (set_insert (\<lambda>k. k) m s)"

abbreviation majority :: "'k::linorder list \<Rightarrow> 'k list \<Rightarrow> bool" where
  "majority a s \<equiv> contains_majority_of (\<lambda>k. k) a s"

lemma set_ok_Nil [simp]: "set_ok key []"
  by (simp add: set_ok_def)

lemma set_ok_Cons [simp]: "set_ok key (x # xs) \<longleftrightarrow> (\<forall>y \<in> set xs. key x < key y) \<and> set_ok key xs"
  by (simp add: set_ok_def)

lemma set_insert_set: "key ` set (snd (set_insert key v s)) = insert (key v) (key ` set s)"
  by (auto simp: set_insert_def set_contains_def set_insort_key)

lemma mids_insert_set [simp]: "set (mids_insert m s) = insert m (set s)"
  using set_insert_set [of "\<lambda>k. k" m s] by simp

lemma set_ok_insort: "set_ok key s \<Longrightarrow> key v \<notin> key ` set s \<Longrightarrow> set_ok key (insort_key key v s)"
  by (induction s) (auto simp: set_insort_key)

lemma set_ok_insert [simp]: "set_ok key s \<Longrightarrow> set_ok key (snd (set_insert key v s))"
  by (simp add: set_insert_def set_contains_def set_ok_insort)

lemma set_ok_distinct: "set_ok key s \<Longrightarrow> distinct (map key s)"
  by (induction s) auto

lemma set_ok_length: "set_ok key s \<Longrightarrow> length s = card (key ` set s)"
  using distinct_card [OF set_ok_distinct] by fastforce

text \<open>The merge loop computes the intersection.\<close>

lemma set_intersect_ok:
  "set_ok key r \<Longrightarrow> set_ok key (set_intersect key a s r)"
  by (induction key a s r rule: set_intersect.induct) simp_all

lemma set_intersect_set:
  "set_ok key a \<Longrightarrow> set_ok key s \<Longrightarrow>
   key ` set (set_intersect key a s r) = key ` set r \<union> (key ` set a \<inter> key ` set s)"
proof (induction key a s r rule: set_intersect.induct)
  case (1 key x xs y ys r)
  consider "key x < key y" | "key y < key x" | "key x = key y" by fastforce
  then show ?case
  proof cases
    case 1
    then have "key x \<notin> key ` set (y # ys)" using "1.prems" by fastforce
    with 1 "1.IH"(1) "1.prems" show ?thesis by auto
  next
    case 2
    then have "key y \<notin> key ` set (x # xs)" using "1.prems" by fastforce
    with 2 "1.IH"(2) "1.prems" show ?thesis by auto
  next
    case 3
    have "key x \<notin> key ` set xs" "key x \<notin> key ` set ys" using "1.prems" 3 by fastforce+
    with 3 "1.IH"(3) "1.prems" show ?thesis by (auto simp: set_insert_set)
  qed
qed simp_all

lemma contains_majority_iff:
  assumes "set_ok key a" and "set_ok key s"
  shows "contains_majority_of key a s \<longleftrightarrow> card (key ` set s) div 2 < card (key ` set a \<inter> key ` set s)"
  using set_ok_length [OF set_intersect_ok [of key "[]" a s]] set_intersect_set [OF assms, of "[]"]
    set_ok_length [OF assms(2)]
  by (auto simp: contains_majority_of_def)

lemma set_assign_ok: "set_ok key (set_assign key s)"
proof -
  have "set_ok key r \<Longrightarrow> set_ok key (fold (\<lambda>e r. snd (set_insert key e r)) s r)" for r
    by (induction s arbitrary: r) simp_all
  then show ?thesis by (simp add: set_assign_def)
qed

text \<open>What the protocol asks of its majorities: two of them for one group meet, and a larger set keeps one.\<close>

locale quorums =
  fixes quorum :: "'k set \<Rightarrow> 'k set \<Rightarrow> bool"
  assumes meet: "finite g \<Longrightarrow> quorum a g \<Longrightarrow> quorum b g \<Longrightarrow> \<exists>m. m \<in> a \<and> m \<in> b \<and> m \<in> g"
    and mono: "finite g \<Longrightarrow> quorum a g \<Longrightarrow> a \<subseteq> b \<Longrightarrow> quorum b g"
begin

lemma inhabited: "finite g \<Longrightarrow> quorum a g \<Longrightarrow> \<exists>m. m \<in> a \<and> m \<in> g"
  using meet by blast

text \<open>What every member of one majority has, some member of every other majority reports.\<close>

lemma learns: "finite g \<Longrightarrow> quorum a g \<Longrightarrow> quorum b g \<Longrightarrow> (\<And>m. m \<in> a \<Longrightarrow> m \<in> g \<Longrightarrow> P m) \<Longrightarrow> \<exists>m \<in> b. m \<in> g \<and> P m"
  using meet [of g a b] by blast

end

definition majority_of :: "'k set \<Rightarrow> 'k set \<Rightarrow> bool" where
  "majority_of a g \<longleftrightarrow> card g div 2 < card (a \<inter> g)"

interpretation mq: quorums majority_of
proof
  fix g a b :: "'k set"
  assume g: "finite g" and a: "majority_of a g" and b: "majority_of b g"
  show "\<exists>m. m \<in> a \<and> m \<in> b \<and> m \<in> g"
  proof (rule ccontr)
    assume "\<nexists>m. m \<in> a \<and> m \<in> b \<and> m \<in> g"
    then have "(a \<inter> g) \<inter> (b \<inter> g) = {}" by blast
    then have "card (a \<inter> g) + card (b \<inter> g) = card ((a \<inter> g) \<union> (b \<inter> g))"
      using g by (simp add: card_Un_disjoint)
    also have "\<dots> \<le> card g" using g by (intro card_mono) auto
    finally show False using a b by (simp add: majority_of_def)
  qed
next
  fix g a b :: "'k set"
  assume "finite g" and "majority_of a g" and "a \<subseteq> b"
  moreover from this have "card (a \<inter> g) \<le> card (b \<inter> g)" by (intro card_mono) auto
  ultimately show "majority_of b g" by (simp add: majority_of_def)
qed

lemma majority_iff:
  "set_ok (\<lambda>k. k) a \<Longrightarrow> set_ok (\<lambda>k. k) s \<Longrightarrow> majority a s \<longleftrightarrow> majority_of (set a) (set s)"
  using contains_majority_iff [of "\<lambda>k. k" a s] by (simp add: majority_of_def)

section \<open>The members of a view\<close>

definition view2mids :: "view_t \<Rightarrow> u64 list" where
  "view2mids v = fold (\<lambda>b s. mids_insert (co_mid b) s) (vw_backups v) (mids_insert (co_mid (vw_primary v)) [])"

definition view2cohorts :: "view_t \<Rightarrow> cohort_t list" where
  "view2cohorts v =
     fold (\<lambda>b s. snd (set_insert co_mid b s)) (vw_backups v) (snd (set_insert co_mid (vw_primary v) []))"

definition view_members :: "view_t \<Rightarrow> u64 set" where
  "view_members v = insert (co_mid (vw_primary v)) (co_mid ` set (vw_backups v))"

lemma fold_insert_ok:
  "set_ok key r \<Longrightarrow> set_ok key (fold (\<lambda>b s. snd (set_insert key (f b) s)) bs r)"
  by (induction bs arbitrary: r) simp_all

lemma fold_insert_set:
  "key ` set (fold (\<lambda>b s. snd (set_insert key (f b) s)) bs r) = (key \<circ> f) ` set bs \<union> key ` set r"
  by (induction bs arbitrary: r) (auto simp: set_insert_set)

lemma view2mids_ok [simp]: "set_ok (\<lambda>k. k) (view2mids v)"
  unfolding view2mids_def by (rule fold_insert_ok) simp

lemma view2mids_set [simp]: "set (view2mids v) = view_members v"
  using fold_insert_set [of "\<lambda>k. k" co_mid "vw_backups v" "mids_insert (co_mid (vw_primary v)) []"]
  by (simp add: view2mids_def view_members_def)

lemma view2cohorts_ok [simp]: "set_ok co_mid (view2cohorts v)"
  unfolding view2cohorts_def by (rule fold_insert_ok) simp

lemma view2cohorts_mids [simp]: "co_mid ` set (view2cohorts v) = view_members v"
  using fold_insert_set [of co_mid "\<lambda>b. b" "vw_backups v" "snd (set_insert co_mid (vw_primary v) [])"]
  by (auto simp: view2cohorts_def view_members_def set_insert_set)

lemma finite_view_members [simp]: "finite (view_members v)"
  by (simp add: view_members_def)

section \<open>Marshalling a view formation\<close>

text \<open>
  \<open>xdr2str\<close> and \<open>str2xdr\<close> at \<open>view_form_t\<close>: the fields in the order of the generated \<open>rpc_traverse\<close>.
\<close>

definition enc_u64 :: "u64 \<Rightarrow> byte list" where
  "enc_u64 w = enc_u32 (ucast (drop_bit 32 w)) @ enc_u32 (ucast w)"

definition dec_u64 :: "byte list \<Rightarrow> (u64 \<times> byte list) option" where
  "dec_u64 t =
     obind (dec_u32 t) (\<lambda>a t. obind (dec_u32 t) (\<lambda>b t. Some (word_of_nat (unat a * 4294967296 + unat b), t)))"

definition viewid_t_enc :: "viewid_t \<Rightarrow> byte list" where
  "viewid_t_enc v = enc_u64 (counter v) @ enc_u64 (manager v)"

definition viewid_t_dec :: "byte list \<Rightarrow> (viewid_t \<times> byte list) option" where
  "viewid_t_dec t = obind (dec_u64 t) (\<lambda>c t. obind (dec_u64 t) (\<lambda>m t. Some (ViewId c m, t)))"

definition viewstamp_t_enc :: "viewstamp_t \<Rightarrow> byte list" where
  "viewstamp_t_enc v = viewid_t_enc (vs_vid v) @ enc_u32 (vs_ts v)"

definition viewstamp_t_dec :: "byte list \<Rightarrow> (viewstamp_t \<times> byte list) option" where
  "viewstamp_t_dec t = obind (viewid_t_dec t) (\<lambda>v t. obind (dec_u32 t) (\<lambda>n t. Some (VS v n, t)))"

definition net_address_t_enc :: "net_address_t \<Rightarrow> byte list" where
  "net_address_t_enc a = enc_u32 (na_ipaddr a) @ enc_u32 (na_port a)"

definition net_address_t_dec :: "byte list \<Rightarrow> (net_address_t \<times> byte list) option" where
  "net_address_t_dec t =
     obind (dec_u32 t) (\<lambda>i t. obind (dec_u32 t) (\<lambda>p t. Some (\<lparr>na_ipaddr = i, na_port = p\<rparr>, t)))"

definition cohort_t_enc :: "cohort_t \<Rightarrow> byte list" where
  "cohort_t_enc c =
     enc_u64 (co_mid c) @ net_address_t_enc (co_addr c) @ enc_string (co_name c) @ enc_string (co_hypervisor c)"

definition cohort_t_dec :: "byte list \<Rightarrow> (cohort_t \<times> byte list) option" where
  "cohort_t_dec t =
     obind (dec_u64 t) (\<lambda>m t. obind (net_address_t_dec t) (\<lambda>a t.
       obind (dec_string t) (\<lambda>n t. obind (dec_string t) (\<lambda>h t.
         Some (\<lparr>co_mid = m, co_addr = a, co_name = n, co_hypervisor = h\<rparr>, t)))))"

fun cohorts_dec :: "nat \<Rightarrow> byte list \<Rightarrow> (cohort_t list \<times> byte list) option" where
  "cohorts_dec 0 t = Some ([], t)"
| "cohorts_dec (Suc n) t = obind (cohort_t_dec t) (\<lambda>c t. obind (cohorts_dec n t) (\<lambda>cs t. Some (c # cs, t)))"

definition view_t_enc :: "view_t \<Rightarrow> byte list" where
  "view_t_enc v =
     viewid_t_enc (vw_vid v) @ cohort_t_enc (vw_primary v) @
     enc_u32 (word_of_nat (length (vw_backups v))) @ concat (map cohort_t_enc (vw_backups v))"

definition view_t_dec :: "byte list \<Rightarrow> (view_t \<times> byte list) option" where
  "view_t_dec t =
     obind (viewid_t_dec t) (\<lambda>i t. obind (cohort_t_dec t) (\<lambda>p t. obind (dec_u32 t) (\<lambda>n t.
       obind (cohorts_dec (unat n) t) (\<lambda>bs t.
         Some (\<lparr>vw_vid = i, vw_primary = p, vw_backups = bs\<rparr>, t)))))"

definition view_form_t_enc :: "view_form_t \<Rightarrow> byte list" where
  "view_form_t_enc f = viewstamp_t_enc (vf_prev f) @ view_t_enc (vf_view f)"

definition view_form_t_dec :: "byte list \<Rightarrow> (view_form_t \<times> byte list) option" where
  "view_form_t_dec t =
     obind (viewstamp_t_dec t) (\<lambda>p t. obind (view_t_dec t) (\<lambda>v t. Some (\<lparr>vf_prev = p, vf_view = v\<rparr>, t)))"

text \<open>\<open>str2xdr\<close> ignores what follows the value.\<close>

definition str2form :: "byte list \<Rightarrow> view_form_t option" where
  "str2form t = map_option fst (view_form_t_dec t)"

lemma dec_enc_u64: "dec_u64 (enc_u64 w @ r) = Some (w, r)"
proof -
  have "unat w < 4294967296 * 4294967296" using unsigned_less [of w] by simp
  then have d: "unat w div 4294967296 < 4294967296" by (simp add: div_less_iff_less_mult)
  have a: "unat (ucast (drop_bit 32 w) :: u32) = unat w div 4294967296"
    using d by (simp add: unsigned_ucast_eq take_bit_eq_mod unat_drop_bit_eq) (simp add: drop_bit_eq_div)
  have b: "unat (ucast w :: u32) = unat w mod 4294967296"
    by (simp add: unsigned_ucast_eq take_bit_eq_mod)
  have "word_of_nat (unat (ucast (drop_bit 32 w) :: u32) * 4294967296 + unat (ucast w :: u32)) = w"
    unfolding a b by (simp only: div_mult_mod_eq) simp
  then show ?thesis by (simp add: dec_u64_def enc_u64_def xu32.dec_enc del: of_nat_add of_nat_mult)
qed

interpretation xu64: xdr_codec enc_u64 dec_u64 "\<lambda>_. True"
  by unfold_locales (rule dec_enc_u64)

interpretation xviewid: xdr_codec viewid_t_enc viewid_t_dec "\<lambda>_. True"
  by unfold_locales (simp add: viewid_t_enc_def viewid_t_dec_def xu64.dec_enc)

interpretation xviewstamp: xdr_codec viewstamp_t_enc viewstamp_t_dec "\<lambda>_. True"
  by unfold_locales (simp add: viewstamp_t_enc_def viewstamp_t_dec_def xviewid.dec_enc xu32.dec_enc)

interpretation xnetaddr: xdr_codec net_address_t_enc net_address_t_dec "\<lambda>_. True"
  by unfold_locales (simp add: net_address_t_enc_def net_address_t_dec_def xu32.dec_enc)

definition cohort_ok :: "cohort_t \<Rightarrow> bool" where
  "cohort_ok c \<longleftrightarrow> str_ok (co_name c) \<and> str_ok (co_hypervisor c)"

interpretation xcohort: xdr_codec cohort_t_enc cohort_t_dec cohort_ok
  by unfold_locales
    (simp add: cohort_t_enc_def cohort_t_dec_def cohort_ok_def xu64.dec_enc xnetaddr.dec_enc xstr.dec_enc)

definition view_ok :: "view_t \<Rightarrow> bool" where
  "view_ok v \<longleftrightarrow> cohort_ok (vw_primary v) \<and> list_all cohort_ok (vw_backups v) \<and> length (vw_backups v) < 4294967296"

lemma dec_enc_cohorts:
  "list_all cohort_ok cs \<Longrightarrow> cohorts_dec (length cs) (concat (map cohort_t_enc cs) @ r) = Some (cs, r)"
  by (induction cs) (simp_all add: xcohort.dec_enc)

interpretation xview: xdr_codec view_t_enc view_t_dec view_ok
  by unfold_locales
    (simp add: view_t_enc_def view_t_dec_def view_ok_def xviewid.dec_enc xcohort.dec_enc xu32.dec_enc unat_small
      dec_enc_cohorts)

definition form_ok :: "view_form_t \<Rightarrow> bool" where
  "form_ok f \<longleftrightarrow> view_ok (vf_view f)"

interpretation xform: xdr_codec view_form_t_enc view_form_t_dec form_ok
  by unfold_locales
    (simp add: view_form_t_enc_def view_form_t_dec_def form_ok_def xviewstamp.dec_enc xview.dec_enc)

lemma str2form_enc: "form_ok f \<Longrightarrow> str2form (view_form_t_enc f @ r) = Some f"
  by (simp add: str2form_def xform.dec_enc)

lemma str2form_enc_Nil: "form_ok f \<Longrightarrow> str2form (view_form_t_enc f) = Some f"
  using str2form_enc [of f "[]"] by simp

end
