(* ===== verification/PmpLog.thy ===== *)
theory PmpLog
  imports PmpData
begin

text \<open>
  A cohort of the replicated service (\<open>apps/pmp_falcon/cohort.C\<close>), first part: its state, the log with its jumps
  from view to view, execution and commitment, and the fetching of missing entries.  The three versions of the program
  (\<open>pmp_falcon\<close>, \<open>pmp_falcon_leader\<close>, \<open>pmp_vanilla\<close>) differ in how they detect failures; what they do differently is
  the parameter \<open>env\<close>.
\<close>

section \<open>State\<close>

datatype request_state = RQ_LOGGED | RQ_COMMITTED | RQ_EXECUTING | RQ_EXECUTED

record 'k ackset =
  received :: "'k list"
  expected :: "'k list"

record request_log_entry =
  rl_ack :: "u64 ackset option"
  rl_sbp :: "nat option"
  rl_state :: request_state
  rl_vs :: viewstamp_t
  rl_arg :: execute_arg

text \<open>The pointer of a cache entry to a log entry is the entry's viewstamp.\<close>

record reply_cache_entry =
  rc_rid :: u64
  rc_rle :: viewstamp_t
  rc_reply :: "byte list option"

record view_change_attempt =
  va_prepare_accepted :: "u64 list"
  va_prepare_done :: "u64 list"
  va_nv_accepted :: "u64 list"
  va_nv_done :: "u64 list"
  va_vcaccepts :: "view_change_accept list"
  va_newview :: "view_t option"
  va_merged_vid :: viewid_t
  va_nvarg :: new_view_arg
  va_proposed_vid :: viewid_t
  va_underlings :: "cohort_t list"
  va_aborted :: bool

text \<open>The three callbacks that are given to \<open>pull_log\<close>; a request is known by its number.\<close>

datatype pull_donecb =
    ReplicatePulldone nat viewstamp_t
  | NewViewPulldone nat
  | CbbNull

record pull_log_state =
  pl_ack :: "viewstamp_t ackset"
  pl_bottomview :: viewid_t
  pl_src :: cohort_t
  pl_donecb :: pull_donecb
  pl_ok :: bool
  pl_bottomdone :: bool

datatype vc_mode = VC_ACTIVE | VC_BOOTSTRAP | VC_VIEWCHANGE

record sockaddr_in =
  sin_addr :: u32
  sin_port :: u16

datatype cohort_reply =
    ReplyVoid
  | ReplyViewinfo execute_viewinfo
  | ReplyExecute execute_res
  | ReplyReplicate viewstamp_t
  | ReplyLog execute_arg
  | ReplyViewChange view_change_res
  | ReplyNewView bool
  | ReplyPing bool
  | ReplyView view_t

datatype accept_stat = SYSTEM_ERR | PROC_UNAVAIL

datatype timer_cb = TimerViewIsDown | TimerPingStart | TimerPingCheck

text \<open>
  What a cohort sends and starts, in order: calls with the arguments of their callbacks, answers, requests for the state
  machine, connections to the failure detector.  An attempt at a view change and a pulled log are known by their position.
\<close>

datatype effect =
    CallReplicate sockaddr_in replicate_arg u64
  | CallInitView sockaddr_in view_form_t
  | CallNewView sockaddr_in new_view_arg nat cohort_t
  | CallViewChange sockaddr_in view_change_arg "nat option" cohort_t
  | CallFetchlog sockaddr_in viewstamp_t nat
  | CallLetmein sockaddr_in cohort_t
  | BcastLetmein sockaddr_in cohort_t
  | JoinLater sockaddr_in
  | CallPing sockaddr_in ping_arg viewid_t
  | Exec "byte list" viewstamp_t
  | Reply nat cohort_reply
  | Ignore nat
  | Reject nat accept_stat
  | FalconConnect str str u64
  | FalconClose int

record cohort =
  log :: "request_log_entry list"
  jumps :: "viewstamp_t \<rightharpoonup> viewstamp_t"
  replycache :: "u64 \<rightharpoonup> reply_cache_entry"
  self :: cohort_t
  mode :: vc_mode
  valid_view :: bool
  view :: view_t
  proposed_vid :: viewid_t
  accepted_view :: "view_t option"
  vcattempt :: "nat option"
  latest :: viewstamp_t
  committed :: viewstamp_t
  executed :: viewstamp_t
  attempts :: "view_change_attempt list"
  pulls :: "pull_log_state list"
  outs :: "effect list"
  ping_incoming :: "u64 list"
  ping_timeout_cb :: "nat option"
  timers :: "(nat \<times> timer_cb) list"
  next_timer :: nat
  mid2fdfd :: "u64 \<Rightarrow> int"
  active_servers :: "u64 list"

text \<open>
  \<open>on_new_view\<close> runs when a view becomes the current one, \<open>on_attempt\<close> when this cohort enters a view change, \<open>contact\<close>
  tells which cohorts a view change asks, \<open>on_ping\<close> answers a ping; \<open>stack_junk\<close> is what an uninitialised cohort holds.
\<close>

record env =
  on_new_view :: "cohort \<Rightarrow> cohort res"
  on_attempt :: "cohort \<Rightarrow> cohort res"
  contact :: "cohort \<Rightarrow> cohort_t list \<Rightarrow> cohort_t \<Rightarrow> bool"
  on_ping :: "nat \<Rightarrow> ping_arg \<Rightarrow> cohort \<Rightarrow> cohort res"
  stack_junk :: cohort_t

definition netaddr2sockaddr :: "net_address_t \<Rightarrow> sockaddr_in" where
  "netaddr2sockaddr na = \<lparr>sin_addr = na_ipaddr na, sin_port = ucast (na_port na)\<rparr>"

definition emit :: "effect \<Rightarrow> cohort \<Rightarrow> cohort" where
  "emit x s = s\<lparr>outs := outs s @ [x]\<rparr>"

definition is_view_member :: "u64 \<Rightarrow> cohort \<Rightarrow> bool" where
  "is_view_member m s \<longleftrightarrow> valid_view s \<and> set_contains (\<lambda>k. k) m (view2mids (view s))"

section \<open>The log\<close>

definition log_get :: "viewstamp_t \<Rightarrow> cohort \<Rightarrow> request_log_entry option" where
  "log_get vs s = find (\<lambda>e. rl_vs e = vs) (log s)"

definition log_insert :: "request_log_entry \<Rightarrow> cohort \<Rightarrow> cohort" where
  "log_insert e s = s\<lparr>log := log s @ [e]\<rparr>"

fun update_first :: "('a \<Rightarrow> bool) \<Rightarrow> ('a \<Rightarrow> 'a) \<Rightarrow> 'a list \<Rightarrow> 'a list" where
  "update_first P f [] = []"
| "update_first P f (x # xs) = (if P x then f x # xs else x # update_first P f xs)"

definition entry_update ::
    "viewstamp_t \<Rightarrow> (request_log_entry \<Rightarrow> request_log_entry) \<Rightarrow> cohort \<Rightarrow> cohort" where
  "entry_update vs f s = s\<lparr>log := update_first (\<lambda>e. rl_vs e = vs) f (log s)\<rparr>"

definition new_entry :: "viewstamp_t \<Rightarrow> execute_arg \<Rightarrow> request_log_entry" where
  "new_entry vs arg = \<lparr>rl_ack = None, rl_sbp = None, rl_state = RQ_LOGGED, rl_vs = vs, rl_arg = arg\<rparr>"

definition vs_next :: "viewstamp_t \<Rightarrow> cohort \<Rightarrow> viewstamp_t res" where
  "vs_next vs s = (case jumps s vs of Some n \<Rightarrow> Inr n | None \<Rightarrow> vs_add vs 1)"

definition vs_jumps_update :: "request_log_entry \<Rightarrow> cohort \<Rightarrow> cohort res" where
  "vs_jumps_update rle s =
     (if vs_ts (rl_vs rle) \<noteq> 0 then Inr s
      else
        case str2form (ea_request (rl_arg rle)) of
          None \<Rightarrow> Inl Exit_called
        | Some f \<Rightarrow>
            (case jumps s (vf_prev f) of
               None \<Rightarrow> Inr (s\<lparr>jumps := (jumps s)(vf_prev f \<mapsto> rl_vs rle)\<rparr>)
             | Some n \<Rightarrow> Inr (if n < rl_vs rle then s\<lparr>jumps := (jumps s)(vf_prev f \<mapsto> rl_vs rle)\<rparr> else s)))"

text \<open>\<open>vs_jumps_update (rle); log_.insert (rle)\<close>, as the code has it in five places.\<close>

definition log_append :: "request_log_entry \<Rightarrow> cohort \<Rightarrow> cohort res" where
  "log_append rle s = res_bind (vs_jumps_update rle s) (\<lambda>s1. Inr (log_insert rle s1))"

section \<open>Execution\<close>

definition abort_attempt :: "nat \<Rightarrow> cohort \<Rightarrow> cohort" where
  "abort_attempt i s = s\<lparr>attempts := (attempts s)[i := (attempts s ! i)\<lparr>va_aborted := True\<rparr>]\<rparr>"

definition abort_current :: "cohort \<Rightarrow> cohort" where
  "abort_current s = (case vcattempt s of None \<Rightarrow> s | Some i \<Rightarrow> abort_attempt i s)"

definition execute_done :: "viewstamp_t \<Rightarrow> byte list \<Rightarrow> cohort \<Rightarrow> cohort res" where
  "execute_done vs reply s =
     (case log_get vs s of
        None \<Rightarrow> Inl Null_deref
      | Some rle \<Rightarrow>
          let s1 = entry_update vs (\<lambda>e. e\<lparr>rl_state := RQ_EXECUTED\<rparr>) s;
              s2 = s1\<lparr>replycache := (replycache s1)(ea_client (rl_arg rle) \<mapsto>
                     \<lparr>rc_rid = ea_rid (rl_arg rle), rc_rle = vs, rc_reply = Some reply\<rparr>)\<rparr>
          in Inr (case rl_sbp rle of
               None \<Rightarrow> s2
             | Some sbp \<Rightarrow>
                 entry_update vs (\<lambda>e. e\<lparr>rl_sbp := None\<rparr>) (emit (Reply sbp (ReplyExecute (ExecuteOk reply))) s2)))"

text \<open>The body of the loop of \<open>advance_executed\<close> for a request and for the formation of a view.\<close>

definition install_view :: "env \<Rightarrow> view_form_t \<Rightarrow> cohort \<Rightarrow> cohort res" where
  "install_view E f s =
     (let s1 = s\<lparr>view := vf_view f, proposed_vid := vw_vid (vf_view f), valid_view := True, accepted_view := None\<rparr>
      in on_new_view E ((abort_current s1)\<lparr>mode := VC_ACTIVE\<rparr>))"

definition execute_entry :: "env \<Rightarrow> request_log_entry \<Rightarrow> cohort \<Rightarrow> cohort res" where
  "execute_entry E rle s =
     (if vs_ts (rl_vs rle) \<noteq> 0 then Inr (emit (Exec (ea_request (rl_arg rle)) (rl_vs rle)) s)
      else
        case str2form (ea_request (rl_arg rle)) of
          None \<Rightarrow> Inl Exit_called
        | Some f \<Rightarrow> install_view E f s)"

text \<open>
  The loops that follow \<open>vs_next\<close> take as fuel the number of entries of the log: one that goes on longer has come back to an
  entry it has seen, and goes on for ever.
\<close>

fun executed_loop :: "env \<Rightarrow> nat \<Rightarrow> viewstamp_t \<Rightarrow> cohort \<Rightarrow> cohort res" where
  "executed_loop E n vs s =
     (if \<not> vs \<le> committed s then Inr s
      else
        case log_get vs s of
          None \<Rightarrow> Inr s
        | Some rle \<Rightarrow>
            (case n of
               0 \<Rightarrow> Inl Spin
             | Suc m \<Rightarrow>
                 res_bind (execute_entry E rle s) (\<lambda>s1.
                 let s2 = entry_update vs (\<lambda>e. e\<lparr>rl_state := RQ_EXECUTING\<rparr>) (s1\<lparr>executed := vs\<rparr>) in
                 res_bind (vs_next vs s2) (\<lambda>vs'. executed_loop E m vs' s2))))"

declare executed_loop.simps [simp del]

definition advance_executed :: "env \<Rightarrow> cohort \<Rightarrow> cohort res" where
  "advance_executed E s = res_bind (vs_next (executed s) s) (\<lambda>vs. executed_loop E (length (log s)) vs s)"

section \<open>Commitment\<close>

fun committed_loop :: "nat \<Rightarrow> viewstamp_t \<Rightarrow> cohort \<Rightarrow> cohort res" where
  "committed_loop n vs s =
     (if \<not> vs \<le> latest s then Inr s
      else
        case log_get vs s of
          None \<Rightarrow> Inl Check_failed
        | Some rle \<Rightarrow>
            (case rl_ack rle of
               None \<Rightarrow> Inl Null_deref
             | Some a \<Rightarrow>
                 if \<not> majority (received a) (expected a) then Inr s
                 else
                   case n of
                     0 \<Rightarrow> Inl Spin
                   | Suc m \<Rightarrow>
                       let s1 = entry_update vs (\<lambda>e. e\<lparr>rl_ack := None, rl_state := RQ_COMMITTED\<rparr>) (s\<lparr>committed := vs\<rparr>) in
                       res_bind (vs_next vs s1) (\<lambda>vs'. committed_loop m vs' s1)))"

declare committed_loop.simps [simp del]

definition advance_committed :: "env \<Rightarrow> cohort \<Rightarrow> cohort res" where
  "advance_committed E s =
     res_bind (vs_next (committed s) s) (\<lambda>vs.
     res_bind (committed_loop (length (log s)) vs s) (advance_executed E))"

fun ack_loop :: "u64 \<Rightarrow> viewstamp_t \<Rightarrow> nat \<Rightarrow> viewstamp_t \<Rightarrow> cohort \<Rightarrow> cohort res" where
  "ack_loop b bound n vs s =
     (if \<not> vs \<le> bound then Inr s
      else
        case log_get vs s of
          None \<Rightarrow> Inl Check_failed
        | Some rle \<Rightarrow>
            (case n of
               0 \<Rightarrow> Inl Spin
             | Suc m \<Rightarrow>
                 let s1 = entry_update vs
                            (\<lambda>e. e\<lparr>rl_ack := map_option (\<lambda>a. a\<lparr>received := mids_insert b (received a)\<rparr>) (rl_ack e)\<rparr>) s
                 in res_bind (vs_next vs s1) (\<lambda>vs'. ack_loop b bound m vs' s1)))"

declare ack_loop.simps [simp del]

text \<open>The answer to \<open>REP_REPLICATE\<close>; \<open>None\<close> when the call failed.\<close>

definition replicate_cb :: "env \<Rightarrow> u64 \<Rightarrow> viewstamp_t option \<Rightarrow> cohort \<Rightarrow> cohort res" where
  "replicate_cb E b resp s =
     (case resp of
        None \<Rightarrow> Inr s
      | Some vs \<Rightarrow>
          if co_mid (vw_primary (view s)) \<noteq> co_mid (self s) then Inr s
          else if vs_vid (latest s) \<noteq> vs_vid (committed s) then Inl Check_failed
          else if vs \<le> committed s then Inr s
          else if latest s < vs then Inl Exit_called
          else if \<not> is_view_member b s then Inr s
          else
            res_bind (vs_next (committed s) s) (\<lambda>v0.
            res_bind (ack_loop b vs (length (log s)) v0 s) (advance_committed E)))"

section \<open>Fetching missing entries\<close>

definition pull_update :: "nat \<Rightarrow> (pull_log_state \<Rightarrow> pull_log_state) \<Rightarrow> cohort \<Rightarrow> cohort" where
  "pull_update i f s = s\<lparr>pulls := (pulls s)[i := f (pulls s ! i)]\<rparr>"

definition pull_one :: "nat \<Rightarrow> viewstamp_t \<Rightarrow> cohort \<Rightarrow> cohort" where
  "pull_one i vs s =
     (if log_get vs s = None
      then emit (CallFetchlog (netaddr2sockaddr (co_addr (pl_src (pulls s ! i)))) vs i)
             (pull_update i (\<lambda>p. p\<lparr>pl_ack := (pl_ack p)\<lparr>expected := mids_insert vs (expected (pl_ack p))\<rparr>\<rparr>) s)
      else s)"

text \<open>The loop counts the timestamp up to that of \<open>upper\<close>; the increment after the upper round may wrap.\<close>

definition pull_range :: "nat \<Rightarrow> viewstamp_t \<Rightarrow> viewstamp_t \<Rightarrow> cohort \<Rightarrow> cohort res" where
  "pull_range i base upper s =
     (if \<not> base \<le> upper then Inr s
      else
        let s1 = fold (\<lambda>t. pull_one i (VS (vs_vid base) (word_of_nat t)))
                   [unat (vs_ts base)..<Suc (unat (vs_ts upper))] s
        in res_bind (vs_add upper 1) (\<lambda>v. Inr s1))"

definition pull_upto :: "nat \<Rightarrow> viewstamp_t \<Rightarrow> cohort \<Rightarrow> cohort res" where
  "pull_upto i upper s =
     (if vs_vid upper < vs_vid (executed s) then Inr s
      else if vs_vid upper = vs_vid (executed s) then
        res_bind (vs_add (executed s) 1) (\<lambda>base. pull_range i base upper s)
      else pull_range i (VS (vs_vid upper) 0) upper s)"

definition replicate_pulldone :: "nat \<Rightarrow> viewstamp_t \<Rightarrow> bool \<Rightarrow> cohort \<Rightarrow> cohort" where
  "replicate_pulldone sbp vs ok s =
     emit (if ok then Reply sbp (ReplyReplicate vs) else Reject sbp SYSTEM_ERR) s"

definition new_view_pulldone :: "nat \<Rightarrow> bool \<Rightarrow> cohort \<Rightarrow> cohort" where
  "new_view_pulldone sbp ok s = emit (Reply sbp (ReplyNewView ok)) s"

definition call_donecb :: "pull_donecb \<Rightarrow> bool \<Rightarrow> cohort \<Rightarrow> cohort" where
  "call_donecb cb ok s =
     (case cb of
        ReplicatePulldone sbp vs \<Rightarrow> replicate_pulldone sbp vs ok s
      | NewViewPulldone sbp \<Rightarrow> new_view_pulldone sbp ok s
      | CbbNull \<Rightarrow> s)"

definition fetch_bottom :: "nat \<Rightarrow> cohort \<Rightarrow> cohort res" where
  "fetch_bottom i s =
     res_bind (vs_next (executed s) s) (\<lambda>n.
       if vs_vid n < pl_bottomview (pulls s ! i) then
         (case log_get (VS (pl_bottomview (pulls s ! i)) 0) s of
            None \<Rightarrow> Inr s
          | Some rle \<Rightarrow>
              (case str2form (ea_request (rl_arg rle)) of
                 None \<Rightarrow> Inl Exit_called
               | Some f \<Rightarrow> pull_upto i (vf_prev f) (pull_update i (\<lambda>p. p\<lparr>pl_bottomview := vs_vid (vf_prev f)\<rparr>) s)))
       else Inr (pull_update i (\<lambda>p. p\<lparr>pl_bottomdone := True\<rparr>) s))"

definition fetch_finish :: "nat \<Rightarrow> cohort \<Rightarrow> cohort" where
  "fetch_finish i s =
     (let p = pulls s ! i in
      if \<not> pl_ok p \<or> length (expected (pl_ack p)) = length (received (pl_ack p))
      then pull_update i (\<lambda>p. p\<lparr>pl_donecb := CbbNull\<rparr>) (call_donecb (pl_donecb p) (pl_ok p \<and> pl_bottomdone p) s)
      else s)"

definition fetchlog_check :: "env \<Rightarrow> nat \<Rightarrow> cohort \<Rightarrow> cohort res" where
  "fetchlog_check E i s =
     res_bind (advance_committed E s) (\<lambda>s1. res_bind (fetch_bottom i s1) (\<lambda>s2. Inr (fetch_finish i s2)))"

text \<open>The answer to \<open>REP_FETCHLOG\<close>; \<open>None\<close> when the call failed.\<close>

definition fetchlog_cb :: "env \<Rightarrow> nat \<Rightarrow> viewstamp_t \<Rightarrow> execute_arg option \<Rightarrow> cohort \<Rightarrow> cohort res" where
  "fetchlog_cb E i vs resp s =
     (let finish = (\<lambda>s. fetchlog_check E i
                      (pull_update i (\<lambda>p. p\<lparr>pl_ack := (pl_ack p)\<lparr>received := mids_insert vs (received (pl_ack p))\<rparr>\<rparr>) s))
      in
        case log_get vs s of
          Some rle \<Rightarrow> finish s
        | None \<Rightarrow>
            (case resp of
               None \<Rightarrow> fetchlog_check E i (pull_update i (\<lambda>p. p\<lparr>pl_ok := False\<rparr>) s)
             | Some arg \<Rightarrow> res_bind (log_append (new_entry vs arg) s) finish))"

definition pull_log :: "env \<Rightarrow> cohort_t \<Rightarrow> viewstamp_t \<Rightarrow> pull_donecb \<Rightarrow> cohort \<Rightarrow> cohort res" where
  "pull_log E src upper donecb s =
     (let i = length (pulls s);
          pls = \<lparr>pl_ack = \<lparr>received = [], expected = []\<rparr>, pl_bottomview = vs_vid upper, pl_src = src,
                 pl_donecb = donecb, pl_ok = True, pl_bottomdone = False\<rparr>
      in res_bind (pull_upto i upper (s\<lparr>pulls := pulls s @ [pls]\<rparr>)) (fetchlog_check E i))"

end
