(* ===== verification/Pmp.thy ===== *)
theory Pmp
  imports PmpLog
begin

text \<open>
  A cohort of the replicated service (\<open>apps/pmp_falcon/cohort.C\<close>), second part: joining and forming a view, the view
  change, and the dispatchers of the two RPC programs.
\<close>

section \<open>Joining and forming a view\<close>

definition INADDR_BROADCAST :: u32 where
  "INADDR_BROADCAST = 0xFFFFFFFF"

definition join_view :: "sockaddr_in \<Rightarrow> cohort \<Rightarrow> cohort" where
  "join_view join_addr s =
     (if is_view_member (co_mid (self s)) s then s
      else
        let a = (if valid_view s then netaddr2sockaddr (co_addr (vw_primary (view s))) else join_addr) in
        emit (if sin_addr a \<noteq> INADDR_BROADCAST then CallLetmein a (self s) else BcastLetmein a (self s))
          (emit (JoinLater a) s))"

definition form_arg :: "view_form_t \<Rightarrow> execute_arg" where
  "form_arg f = \<lparr>ea_client = 0, ea_rid = 0, ea_vid = ViewId 0 0, ea_request = view_form_t_enc f\<rparr>"

definition send_replicate :: "replicate_arg \<Rightarrow> cohort_t \<Rightarrow> cohort \<Rightarrow> cohort" where
  "send_replicate ra b = emit (CallReplicate (netaddr2sockaddr (co_addr b)) ra (co_mid b))"

definition form_view :: "env \<Rightarrow> view_form_t \<Rightarrow> cohort \<Rightarrow> cohort res" where
  "form_view E f s =
     (if co_mid (vw_primary (vf_view f)) \<noteq> co_mid (self s) then Inl Check_failed
      else
        let vs = VS (vw_vid (vf_view f)) 0;
            s1 = s\<lparr>latest := vs, committed := vs\<rparr>;
            ra = \<lparr>rp_vs = vs, rp_arg = form_arg f, rp_committed = vs\<rparr>
        in res_bind (log_append (new_entry vs (form_arg f)) s1) (\<lambda>s2.
           res_bind (advance_committed E s2) (\<lambda>s3.
           Inr (fold (send_replicate ra) (vw_backups (vf_view f)) s3))))"

text \<open>
  The constructor: with port 0 the cohort starts a group of its own, otherwise it asks to join one.  The view of a cohort
  that has none is uninitialised.
\<close>

definition blank_cohort :: "cohort_t \<Rightarrow> view_t \<Rightarrow> cohort" where
  "blank_cohort me v0 =
     \<lparr>log = [], jumps = (\<lambda>_. None), replycache = (\<lambda>_. None), self = me, mode = VC_BOOTSTRAP, valid_view = False,
      view = v0, proposed_vid = ViewId 0 0, accepted_view = None, vcattempt = None, latest = vs_null,
      committed = vs_null, executed = vs_null, attempts = [], pulls = [], outs = [], ping_incoming = [],
      ping_timeout_cb = None, timers = [], next_timer = 0, mid2fdfd = (\<lambda>_. 0), active_servers = []\<rparr>"

definition new_cohort :: "cohort_t \<Rightarrow> view_t \<Rightarrow> sockaddr_in \<Rightarrow> cohort res" where
  "new_cohort me v0 join_addr =
     (let s = blank_cohort me v0 in
      if sin_port join_addr = 0 then
        let v = \<lparr>vw_vid = ViewId 1 (co_mid me), vw_primary = me, vw_backups = []\<rparr>;
            vs = VS (vw_vid v) 0
        in log_append (new_entry vs (form_arg \<lparr>vf_prev = vs_null, vf_view = v\<rparr>))
             (s\<lparr>view := v, latest := vs, committed := vs, executed := vs, valid_view := True, mode := VC_ACTIVE\<rparr>)
      else Inr (join_view join_addr s))"

section \<open>The view change manager\<close>

definition attempt_update ::
    "nat \<Rightarrow> (view_change_attempt \<Rightarrow> view_change_attempt) \<Rightarrow> cohort \<Rightarrow> cohort" where
  "attempt_update i f s = s\<lparr>attempts := (attempts s)[i := f (attempts s ! i)]\<rparr>"

definition view_change_check_newview :: "nat \<Rightarrow> cohort \<Rightarrow> cohort" where
  "view_change_check_newview i s =
     (let a = attempts s ! i in
      if va_aborted a then s
      else if \<not> majority (va_nv_accepted a) (view2mids (nva_view (va_nvarg a))) \<or>
              \<not> majority (va_nv_accepted a) (view2mids (view s)) then
        (if length (va_nv_done a) = length (va_underlings a) then abort_attempt i s else s)
      else
        emit (CallInitView (netaddr2sockaddr (co_addr (vw_primary (nva_view (va_nvarg a)))))
                \<lparr>vf_prev = nva_latest (va_nvarg a), vf_view = nva_view (va_nvarg a)\<rparr>) s)"

text \<open>The answer to \<open>REP_NEW_VIEW\<close>; \<open>None\<close> when the call failed.\<close>

definition view_change_newview_cb :: "nat \<Rightarrow> cohort_t \<Rightarrow> bool option \<Rightarrow> cohort \<Rightarrow> cohort" where
  "view_change_newview_cb i c resp s =
     view_change_check_newview i
       (attempt_update i
          (\<lambda>a. a\<lparr>va_nv_done := mids_insert (co_mid c) (va_nv_done a),
                 va_nv_accepted := (if resp = Some True then mids_insert (co_mid c) (va_nv_accepted a)
                                    else va_nv_accepted a)\<rparr>) s)"

text \<open>
  The choice of the view.  The first loop runs when a cohort has reported a view it had accepted; its assertion reads the
  cohort that is chosen so far, which is uninitialised at first.
\<close>

definition choose_step ::
    "view_t \<Rightarrow> view_change_accept \<Rightarrow> viewstamp_t \<times> cohort_t \<Rightarrow> (viewstamp_t \<times> cohort_t) res" where
  "choose_step nv r m =
     (if \<not> set_contains (\<lambda>k. k) (co_mid (vcc_myid r)) (view2mids nv) then Inr m
      else if fst m < vcc_latest r then
        check (co_mid (snd m) \<noteq> co_mid (vw_primary nv)) (vcc_latest r, vcc_myid r)
      else Inr m)"

definition choose_reported :: "cohort_t \<Rightarrow> view_t \<Rightarrow> view_change_attempt \<Rightarrow> view_change_attempt res" where
  "choose_reported junk nv a =
     res_bind (res_fold (choose_step nv) (va_vcaccepts a) (vs_null, junk)) (\<lambda>(max_latest, max_latest_c).
       let v = \<lparr>vw_vid = va_proposed_vid a, vw_primary = vw_primary nv, vw_backups = vw_backups nv\<rparr>;
           v' = (if co_mid max_latest_c \<noteq> co_mid (vw_primary nv)
                 then v\<lparr>vw_backups := map (\<lambda>b. if co_mid b = co_mid max_latest_c then vw_primary v else b)
                                       (vw_backups v),
                        vw_primary := max_latest_c\<rparr>
                 else v)
       in Inr (a\<lparr>va_nvarg := \<lparr>nva_latest = max_latest, nva_view = v'\<rparr>\<rparr>))"

definition max_step :: "view_change_accept \<Rightarrow> viewstamp_t \<times> cohort_t \<Rightarrow> viewstamp_t \<times> cohort_t" where
  "max_step r m = (if fst m < vcc_latest r then (vcc_latest r, vcc_myid r) else m)"

text \<open>The loop that fills the members in: the view so far and \<open>j\<close>.\<close>

definition place_step :: "cohort_t \<Rightarrow> view_change_accept \<Rightarrow> view_t \<times> nat \<Rightarrow> (view_t \<times> nat) res" where
  "place_step m r vj =
     (if co_mid (vcc_myid r) = co_mid m then Inr ((fst vj)\<lparr>vw_primary := vcc_myid r\<rparr>, snd vj)
      else if length (vw_backups (fst vj)) \<le> snd vj then Inl Bad_index
      else Inr ((fst vj)\<lparr>vw_backups := (vw_backups (fst vj))[snd vj := vcc_myid r]\<rparr>, Suc (snd vj)))"

definition choose_accepting :: "cohort_t \<Rightarrow> view_change_attempt \<Rightarrow> view_change_attempt res" where
  "choose_accepting junk a =
     (let (max_latest, max_latest_c) = fold max_step (va_vcaccepts a) (vs_null, junk);
          v = (nva_view (va_nvarg a))\<lparr>vw_vid := va_proposed_vid a,
                                      vw_backups := replicate (length (va_vcaccepts a) - 1) junk\<rparr>
      in if va_vcaccepts a = [] then Inl Bad_index
         else res_bind (res_fold (place_step max_latest_c) (va_vcaccepts a) (v, 0)) (\<lambda>(v', j).
                Inr (a\<lparr>va_nvarg := \<lparr>nva_latest = max_latest, nva_view = v'\<rparr>\<rparr>)))"

definition view_change_choose_view :: "cohort_t \<Rightarrow> view_change_attempt \<Rightarrow> view_change_attempt res" where
  "view_change_choose_view junk a =
     (case va_newview a of Some nv \<Rightarrow> choose_reported junk nv a | None \<Rightarrow> choose_accepting junk a)"

definition view_change_issue_newview :: "nat \<Rightarrow> cohort \<Rightarrow> cohort" where
  "view_change_issue_newview i s =
     (let a = attempts s ! i in
      fold (\<lambda>u. emit (CallNewView (netaddr2sockaddr (co_addr u)) (va_nvarg a) i u)) (va_underlings a) s)"

definition send_view_change :: "nat option \<Rightarrow> view_change_arg \<Rightarrow> cohort_t \<Rightarrow> cohort \<Rightarrow> cohort" where
  "send_view_change i arg u = emit (CallViewChange (netaddr2sockaddr (co_addr u)) arg i u)"

text \<open>The calls to members of a reported view that were not asked before.\<close>

definition merge_underling :: "nat \<Rightarrow> view_change_arg \<Rightarrow> cohort_t \<Rightarrow> cohort \<Rightarrow> cohort" where
  "merge_underling i arg u s =
     (let (new, ul) = set_insert co_mid u (va_underlings (attempts s ! i)) in
      if new then send_view_change (vcattempt s) arg u (attempt_update i (\<lambda>a. a\<lparr>va_underlings := ul\<rparr>) s)
      else s)"

definition merge_newview :: "nat \<Rightarrow> view_t \<Rightarrow> cohort \<Rightarrow> cohort" where
  "merge_newview i nv s =
     (let arg = \<lparr>vca_oldview = view s, vca_newvid = va_proposed_vid (attempts s ! i)\<rparr> in
      attempt_update i (\<lambda>a. a\<lparr>va_merged_vid := vw_vid nv\<rparr>)
        (fold (merge_underling i arg) (view2cohorts nv) s))"

definition choose_and_issue :: "cohort_t \<Rightarrow> nat \<Rightarrow> cohort \<Rightarrow> cohort res" where
  "choose_and_issue junk i s =
     res_bind (view_change_choose_view junk (attempts s ! i)) (\<lambda>a.
     Inr (view_change_issue_newview i (attempt_update i (\<lambda>_. a) s)))"

text \<open>
  \<open>view_change_check_prepare\<close> calls itself after a merge, once: the second call finds the view merged.  The fuel is the number
  of calls.
\<close>

fun check_prepare_loop :: "cohort_t \<Rightarrow> nat \<Rightarrow> nat \<Rightarrow> cohort \<Rightarrow> cohort res" where
  "check_prepare_loop junk n i s =
     (let a = attempts s ! i in
      if va_aborted a \<or> length (va_prepare_done a) \<noteq> length (va_underlings a) then Inr s
      else if \<not> majority (va_prepare_accepted a) (view2mids (view s)) then Inr (abort_attempt i s)
      else
        case va_newview a of
          None \<Rightarrow> choose_and_issue junk i s
        | Some nv \<Rightarrow>
            if va_merged_vid a < vw_vid nv then
              (case n of 0 \<Rightarrow> Inl Spin | Suc m \<Rightarrow> check_prepare_loop junk m i (merge_newview i nv s))
            else if \<not> majority (va_prepare_accepted a) (view2mids nv) then Inr (abort_attempt i s)
            else choose_and_issue junk i s)"

declare check_prepare_loop.simps [simp del]

definition view_change_check_prepare :: "cohort_t \<Rightarrow> nat \<Rightarrow> cohort \<Rightarrow> cohort res" where
  "view_change_check_prepare junk i s = check_prepare_loop junk 2 i s"

text \<open>A reported view replaces the one known so far when it is later.\<close>

definition merge_reported :: "view_t option \<Rightarrow> view_t option \<Rightarrow> view_t option" where
  "merge_reported old reported =
     (case reported of
        None \<Rightarrow> old
      | Some v \<Rightarrow> (case old of None \<Rightarrow> Some v | Some w \<Rightarrow> if vw_vid w < vw_vid v then Some v else Some w))"

definition note_accept :: "nat \<Rightarrow> cohort_t \<Rightarrow> view_change_accept \<Rightarrow> cohort \<Rightarrow> cohort" where
  "note_accept i c r s =
     attempt_update i
       (\<lambda>a. let (new, acc) = set_insert (\<lambda>k. k) (co_mid c) (va_prepare_accepted a) in
            if new then a\<lparr>va_prepare_accepted := acc, va_vcaccepts := va_vcaccepts a @ [r],
                           va_newview := merge_reported (va_newview a) (vcc_newview r)\<rparr>
            else a) s"

text \<open>The answer to \<open>REP_VIEW_CHANGE\<close>; \<open>None\<close> when the call failed or timed out.\<close>

definition view_change_prepare_cb ::
    "env \<Rightarrow> nat option \<Rightarrow> cohort_t \<Rightarrow> view_change_res option \<Rightarrow> cohort \<Rightarrow> cohort res" where
  "view_change_prepare_cb E attempt c resp s =
     (case attempt of
        None \<Rightarrow> Inl Null_deref
      | Some i \<Rightarrow>
          if va_aborted (attempts s ! i) then Inr s
          else
            let s1 = attempt_update i (\<lambda>a. a\<lparr>va_prepare_done := mids_insert (co_mid c) (va_prepare_done a)\<rparr>) s;
                s2 = (case resp of
                        None \<Rightarrow> s1
                      | Some (VcReject r) \<Rightarrow>
                          (let s' = abort_attempt i s1 in
                           if proposed_vid s' < vcr_newvid r then s'\<lparr>proposed_vid := vcr_newvid r\<rparr> else s')
                      | Some (VcAccept r) \<Rightarrow> note_accept i c r s1)
            in view_change_check_prepare (stack_junk E) i s2)"

definition new_attempt :: "cohort_t \<Rightarrow> viewid_t \<Rightarrow> cohort_t list \<Rightarrow> view_change_attempt" where
  "new_attempt junk vid ul =
     \<lparr>va_prepare_accepted = [], va_prepare_done = [], va_nv_accepted = [], va_nv_done = [], va_vcaccepts = [],
      va_newview = None, va_merged_vid = ViewId 0 0,
      va_nvarg = \<lparr>nva_latest = vs_null, nva_view = \<lparr>vw_vid = ViewId 0 0, vw_primary = junk, vw_backups = []\<rparr>\<rparr>,
      va_proposed_vid = vid, va_underlings = ul, va_aborted = False\<rparr>"

definition next_vid :: "cohort \<Rightarrow> viewid_t" where
  "next_vid s = (let maxview = max (vw_vid (view s)) (proposed_vid s) in ViewId (counter maxview + 1) (co_mid (self s)))"

text \<open>Whoever is not worth asking has timed out at once; \<open>pmp_falcon\<close> and \<open>pmp_vanilla\<close> ask everybody.\<close>

definition contact_underling ::
    "env \<Rightarrow> cohort_t list \<Rightarrow> view_change_arg \<Rightarrow> nat \<Rightarrow> cohort_t \<Rightarrow> cohort \<Rightarrow> cohort res" where
  "contact_underling E joiners arg i u s =
     (if contact E s joiners u then Inr (send_view_change (Some i) arg u s)
      else view_change_prepare_cb E (Some i) u None s)"

definition view_change_initiate :: "env \<Rightarrow> cohort_t list \<Rightarrow> cohort \<Rightarrow> cohort res" where
  "view_change_initiate E joiners s =
     (if (\<exists>i. vcattempt s = Some i \<and> \<not> va_aborted (attempts s ! i)) then Inr s
      else if \<not> is_view_member (co_mid (self s)) s then Inr s
      else
        let i = length (attempts s);
            ul = fold (\<lambda>j u. snd (set_insert co_mid j u)) joiners (set_assign co_mid (view2cohorts (view s)));
            a = new_attempt (stack_junk E) (next_vid s) ul;
            s1 = s\<lparr>attempts := attempts s @ [a], vcattempt := Some i, mode := VC_VIEWCHANGE\<rparr>;
            arg = \<lparr>vca_oldview = view s, vca_newvid = next_vid s\<rparr>
        in res_bind (on_attempt E s1) (res_fold (contact_underling E joiners arg i) ul))"

section \<open>The handlers\<close>

definition my_viewinfo :: "cohort \<Rightarrow> execute_viewinfo" where
  "my_viewinfo s = \<lparr>vi_vid = vw_vid (view s), vi_primary = co_addr (vw_primary (view s))\<rparr>"

definition rep_viewinfo :: "nat \<Rightarrow> cohort \<Rightarrow> cohort" where
  "rep_viewinfo sbp s =
     emit (if mode s \<noteq> VC_ACTIVE then Ignore sbp else Reply sbp (ReplyViewinfo (my_viewinfo s))) s"

text \<open>The last part of \<open>REP_EXECUTE\<close>: the primary accepts the request.\<close>

definition accept_request :: "env \<Rightarrow> nat \<Rightarrow> execute_arg \<Rightarrow> cohort \<Rightarrow> cohort res" where
  "accept_request E sbp arg s =
     res_bind (vs_add (latest s) 1) (\<lambda>vs.
       let s1 = s\<lparr>latest := vs\<rparr>;
           ra = \<lparr>rp_vs = vs, rp_arg = arg, rp_committed = committed s\<rparr>;
           me = co_mid (self s);
           ack = \<lparr>received = [me],
                  expected = fold (\<lambda>b. mids_insert (co_mid b)) (vw_backups (view s)) [me]\<rparr>;
           rle = (new_entry vs arg)\<lparr>rl_ack := Some ack, rl_sbp := Some sbp\<rparr>
       in res_bind (log_append rle s1) (\<lambda>s2.
          let reply = (case replycache s2 (ea_client arg) of Some rce \<Rightarrow> rc_reply rce | None \<Rightarrow> None);
              s3 = s2\<lparr>replycache := (replycache s2)(ea_client arg \<mapsto>
                     \<lparr>rc_rid = ea_rid arg, rc_rle = vs, rc_reply = reply\<rparr>)\<rparr>
          in advance_committed E (fold (send_replicate ra) (vw_backups (view s)) s3)))"

definition execute_request :: "env \<Rightarrow> nat \<Rightarrow> execute_arg \<Rightarrow> cohort \<Rightarrow> cohort res" where
  "execute_request E sbp arg s =
     (if ea_vid arg \<noteq> vw_vid (view s) \<or> co_mid (self s) \<noteq> co_mid (vw_primary (view s))
      then Inr (emit (Reply sbp (ReplyExecute (ExecuteView (my_viewinfo s)))) s)
      else accept_request E sbp arg s)"

definition drop_waiting :: "request_log_entry \<Rightarrow> cohort \<Rightarrow> cohort" where
  "drop_waiting rle s =
     (case rl_sbp rle of
        None \<Rightarrow> s
      | Some old \<Rightarrow> entry_update (rl_vs rle) (\<lambda>e. e\<lparr>rl_sbp := None\<rparr>) (emit (Ignore old) s))"

definition rep_execute :: "env \<Rightarrow> nat \<Rightarrow> execute_arg \<Rightarrow> cohort \<Rightarrow> cohort res" where
  "rep_execute E sbp arg s =
     (if mode s \<noteq> VC_ACTIVE then Inr (emit (Ignore sbp) s)
      else
        case replycache s (ea_client arg) of
          None \<Rightarrow> execute_request E sbp arg s
        | Some rce \<Rightarrow>
            if rc_rid rce \<noteq> ea_rid arg then execute_request E sbp arg s
            else
              case log_get (rc_rle rce) s of
                None \<Rightarrow> Inl Null_deref
              | Some rle \<Rightarrow>
                  if rl_state rle = RQ_EXECUTED then
                    (case rc_reply rce of
                       None \<Rightarrow> Inl Null_deref
                     | Some r \<Rightarrow> Inr (emit (Reply sbp (ReplyExecute (ExecuteOk r))) s))
                  else if \<not> (rl_state rle = RQ_LOGGED \<and> vs_vid (rl_vs rle) < vw_vid (view s)) then
                    Inr (entry_update (rl_vs rle) (\<lambda>e. e\<lparr>rl_sbp := Some sbp\<rparr>) (drop_waiting rle s))
                  else execute_request E sbp arg (drop_waiting rle s))"

definition replicate_log :: "env \<Rightarrow> nat \<Rightarrow> cohort_t \<Rightarrow> replicate_arg \<Rightarrow> cohort \<Rightarrow> cohort res" where
  "replicate_log E sbp primary ra s =
     res_bind (if committed s < rp_vs ra \<and> log_get (rp_vs ra) s = None
               then log_append (new_entry (rp_vs ra) (rp_arg ra)) s else Inr s) (\<lambda>s1.
     res_bind (advance_executed E
                 (if committed s1 < rp_committed ra then s1\<lparr>committed := rp_committed ra\<rparr> else s1)) (\<lambda>s2.
     pull_log E primary (rp_vs ra) (ReplicatePulldone sbp (rp_vs ra)) s2))"

definition rep_replicate :: "env \<Rightarrow> nat \<Rightarrow> replicate_arg \<Rightarrow> cohort \<Rightarrow> cohort res" where
  "rep_replicate E sbp ra s =
     (if vs_ts (rp_vs ra) \<noteq> 0 then
        if mode s \<noteq> VC_ACTIVE then Inr (emit (Ignore sbp) s)
        else if co_mid (vw_primary (view s)) = co_mid (self s) then Inr (emit (Reject sbp SYSTEM_ERR) s)
        else if \<not> is_view_member (co_mid (self s)) s then Inr (emit (Reject sbp SYSTEM_ERR) s)
        else replicate_log E sbp (vw_primary (view s)) ra s
      else
        case str2form (ea_request (rp_arg ra)) of
          None \<Rightarrow> Inl Exit_called
        | Some f \<Rightarrow> replicate_log E sbp (vw_primary (vf_view f)) ra s)"

definition rep_fetchlog :: "nat \<Rightarrow> viewstamp_t \<Rightarrow> cohort \<Rightarrow> cohort" where
  "rep_fetchlog sbp vs s =
     emit (case log_get vs s of None \<Rightarrow> Reject sbp SYSTEM_ERR | Some rle \<Rightarrow> Reply sbp (ReplyLog (rl_arg rle))) s"

definition rep_letmein :: "env \<Rightarrow> nat \<Rightarrow> cohort_t \<Rightarrow> cohort \<Rightarrow> cohort res" where
  "rep_letmein E sbp c s = res_bind (view_change_initiate E [c] s) (\<lambda>s1. Inr (emit (Reply sbp ReplyVoid) s1))"

text \<open>The last of the consecutive entries from \<open>vs\<close> on.\<close>

fun latest_loop :: "cohort \<Rightarrow> nat \<Rightarrow> viewstamp_t \<Rightarrow> viewstamp_t \<Rightarrow> viewstamp_t res" where
  "latest_loop s n vs acc =
     (case log_get vs s of
        None \<Rightarrow> Inr acc
      | Some rle \<Rightarrow>
          (case n of 0 \<Rightarrow> Inl Spin | Suc m \<Rightarrow> res_bind (vs_next vs s) (\<lambda>vs'. latest_loop s m vs' vs)))"

declare latest_loop.simps [simp del]

definition latest_consecutive :: "cohort \<Rightarrow> viewstamp_t res" where
  "latest_consecutive s =
     res_bind (vs_next (executed s) s) (\<lambda>vs. latest_loop s (length (log s)) vs (executed s))"

definition abort_other :: "viewid_t \<Rightarrow> cohort \<Rightarrow> cohort" where
  "abort_other vid s =
     (case vcattempt s of
        None \<Rightarrow> s
      | Some i \<Rightarrow> if va_proposed_vid (attempts s ! i) \<noteq> vid then abort_attempt i s else s)"

definition rep_view_change :: "env \<Rightarrow> nat \<Rightarrow> view_change_arg \<Rightarrow> cohort \<Rightarrow> cohort res" where
  "rep_view_change E sbp arg s =
     (if (valid_view s \<and> vw_vid (vca_oldview arg) < vw_vid (view s)) \<or> vca_newvid arg < proposed_vid s then
        Inr (emit (Reply sbp (ReplyViewChange (VcReject
              \<lparr>vcr_oldview = (if valid_view s then Some (view s) else None), vcr_newvid = proposed_vid s\<rparr>))) s)
      else
        res_bind (on_attempt E (s\<lparr>mode := VC_VIEWCHANGE\<rparr>)) (\<lambda>s1.
        let s2 = s1\<lparr>proposed_vid := vca_newvid arg\<rparr> in
        res_bind (latest_consecutive s2) (\<lambda>last_vs.
        let r = \<lparr>vcc_myid = self s2, vcc_include_me = True, vcc_latest = last_vs, vcc_newview = accepted_view s2\<rparr>
        in Inr (emit (Reply sbp (ReplyViewChange (VcAccept r))) (abort_other (vca_newvid arg) s2)))))"

definition rep_new_view :: "env \<Rightarrow> nat \<Rightarrow> new_view_arg \<Rightarrow> cohort \<Rightarrow> cohort res" where
  "rep_new_view E sbp arg s =
     (let vid = vw_vid (nva_view arg) in
      if (valid_view s \<and> vid < vw_vid (view s)) \<or> vid < proposed_vid s then
        Inr (emit (Reply sbp (ReplyNewView False)) s)
      else
        res_bind (on_attempt E (s\<lparr>mode := VC_VIEWCHANGE\<rparr>)) (\<lambda>s1.
        pull_log E (vw_primary (nva_view arg)) (nva_latest arg) (NewViewPulldone sbp)
          ((abort_other vid s1)\<lparr>accepted_view := Some (nva_view arg)\<rparr>)))"

definition rep_init_view :: "env \<Rightarrow> nat \<Rightarrow> view_form_t \<Rightarrow> cohort \<Rightarrow> cohort res" where
  "rep_init_view E sbp f s =
     res_bind (if \<not> valid_view s \<or> vw_vid (view s) < vw_vid (vf_view f) then form_view E f s else Inr s) (\<lambda>s1.
     Inr (emit (Reply sbp ReplyVoid) s1))"

definition rep_get_view :: "nat \<Rightarrow> cohort \<Rightarrow> cohort" where
  "rep_get_view sbp s = emit (if valid_view s then Reply sbp (ReplyView (view s)) else Ignore sbp) s"

datatype rep_call =
    RepNull
  | RepViewinfo
  | RepExecute execute_arg
  | RepReplicate replicate_arg
  | RepFetchlog viewstamp_t
  | RepLetmein cohort_t
  | RepViewChange view_change_arg
  | RepNewView new_view_arg
  | RepInitView view_form_t
  | RepPing ping_arg
  | RepGetView
  | RepOther

definition dispatch :: "env \<Rightarrow> nat \<Rightarrow> rep_call \<Rightarrow> cohort \<Rightarrow> cohort res" where
  "dispatch E sbp proc s =
     (case proc of
        RepNull \<Rightarrow> Inr (emit (Reply sbp ReplyVoid) s)
      | RepViewinfo \<Rightarrow> Inr (rep_viewinfo sbp s)
      | RepExecute arg \<Rightarrow> rep_execute E sbp arg s
      | RepReplicate arg \<Rightarrow> rep_replicate E sbp arg s
      | RepFetchlog vs \<Rightarrow> Inr (rep_fetchlog sbp vs s)
      | RepLetmein c \<Rightarrow> rep_letmein E sbp c s
      | RepViewChange arg \<Rightarrow> rep_view_change E sbp arg s
      | RepNewView arg \<Rightarrow> rep_new_view E sbp arg s
      | RepInitView f \<Rightarrow> rep_init_view E sbp f s
      | RepPing arg \<Rightarrow> on_ping E sbp arg s
      | RepGetView \<Rightarrow> Inr (rep_get_view sbp s)
      | RepOther \<Rightarrow> Inr (emit (Reject sbp PROC_UNAVAIL) s))"

datatype bcast_call = BcastNull | BcastViewinfo | BcastLetmeinCall cohort_t | BcastOther

definition dispatch_bcast :: "env \<Rightarrow> nat \<Rightarrow> bcast_call \<Rightarrow> cohort \<Rightarrow> cohort res" where
  "dispatch_bcast E sbp proc s =
     (case proc of
        BcastNull \<Rightarrow> Inr (emit (Reply sbp ReplyVoid) s)
      | BcastViewinfo \<Rightarrow>
          Inr (emit (if \<not> valid_view s then Ignore sbp else Reply sbp (ReplyViewinfo (my_viewinfo s))) s)
      | BcastLetmeinCall c \<Rightarrow> rep_letmein E sbp c s
      | BcastOther \<Rightarrow> Inr (emit (Reject sbp PROC_UNAVAIL) s))"

end
