(* ===== verification/PmpDetect.thy ===== *)
theory PmpDetect
  imports Pmp
begin

text \<open>
  The three versions of a cohort: \<open>pmp_falcon\<close> learns of failures from Falcon, \<open>pmp_falcon_leader\<close> as well, but only the
  least surviving cohort acts, and \<open>pmp_vanilla\<close> pings.  Each gives an \<open>env\<close>.  The interface that the common part relies on
  is a locale with the three as instances.
\<close>

section \<open>Failures reported by Falcon\<close>

definition HOSTNAME_SIZE :: nat where
  "HOSTNAME_SIZE = 128"

definition falcon_watch :: "cohort_t \<Rightarrow> cohort \<Rightarrow> cohort" where
  "falcon_watch c s =
     (if co_mid c \<noteq> co_mid (self s) \<and> mid2fdfd s (co_mid c) = 0
      then emit (FalconConnect (co_name c) (co_hypervisor c) (co_mid c))
             (s\<lparr>mid2fdfd := (mid2fdfd s)(co_mid c := - 1)\<rparr>)
      else s)"

definition falcon_on_new_view :: "cohort \<Rightarrow> cohort res" where
  "falcon_on_new_view s = Inr (falcon_watch (vw_primary (view s)) (fold falcon_watch (vw_backups (view s)) s))"

definition falcon_env :: "cohort_t \<Rightarrow> env" where
  "falcon_env junk =
     \<lparr>on_new_view = falcon_on_new_view, on_attempt = Inr, contact = (\<lambda>_ _ _. True),
      on_ping = (\<lambda>_ _ _. Inl Check_failed), stack_junk = junk\<rparr>"

text \<open>The connection to the failure detector is up; \<open>sent\<close> is what \<open>send\<close> returned for the handshake.\<close>

definition on_falcon_connect :: "str \<Rightarrow> str \<Rightarrow> u64 \<Rightarrow> int \<Rightarrow> int \<Rightarrow> cohort \<Rightarrow> cohort res" where
  "on_falcon_connect domain host m fd sent s =
     (if HOSTNAME_SIZE \<le> length domain \<or> HOSTNAME_SIZE \<le> length host then Inl Bad_index
      else if sent \<noteq> int (4 * HOSTNAME_SIZE) then Inl Exit_called
      else Inr (s\<lparr>mid2fdfd := (mid2fdfd s)(m := fd)\<rparr>))"

definition view_is_down :: "env \<Rightarrow> cohort \<Rightarrow> cohort res" where
  "view_is_down E s = view_change_initiate E [] s"

definition handle_failed :: "env \<Rightarrow> u64 \<Rightarrow> cohort \<Rightarrow> cohort res" where
  "handle_failed E m s =
     (if \<not> 0 < mid2fdfd s m then Inl Check_failed
      else view_is_down E (emit (FalconClose (mid2fdfd s m)) s))"

section \<open>Timers\<close>

text \<open>\<open>delaycb\<close> with its result kept in \<open>ping_timeout_cb_\<close>; removing a timer that has fired uses freed memory.\<close>

definition delay_ping_timeout :: "timer_cb \<Rightarrow> cohort \<Rightarrow> cohort" where
  "delay_ping_timeout cb s =
     s\<lparr>timers := timers s @ [(next_timer s, cb)], ping_timeout_cb := Some (next_timer s), next_timer := Suc (next_timer s)\<rparr>"

definition timecb_remove :: "nat \<Rightarrow> cohort \<Rightarrow> cohort res" where
  "timecb_remove i s =
     (if i \<notin> fst ` set (timers s) then Inl Use_after_free
      else Inr (s\<lparr>timers := filter (\<lambda>t. fst t \<noteq> i) (timers s)\<rparr>))"

definition ping_stop :: "cohort \<Rightarrow> cohort res" where
  "ping_stop s =
     (case ping_timeout_cb s of
        None \<Rightarrow> Inr s
      | Some i \<Rightarrow> res_bind (timecb_remove i s) (\<lambda>s1. Inr (s1\<lparr>ping_timeout_cb := None\<rparr>)))"

section \<open>The least survivor acts\<close>

definition leader_track :: "cohort_t \<Rightarrow> cohort \<Rightarrow> cohort" where
  "leader_track c s = falcon_watch c (s\<lparr>active_servers := active_servers s @ [co_mid c]\<rparr>)"

definition leader_on_new_view :: "cohort \<Rightarrow> cohort res" where
  "leader_on_new_view s =
     res_bind (ping_stop s) (\<lambda>s1.
       let s2 = leader_track (vw_primary (view s1))
                  (fold leader_track (vw_backups (view s1)) (s1\<lparr>active_servers := []\<rparr>))
       in Inr (s2\<lparr>active_servers := sort (active_servers s2)\<rparr>))"

definition leader_contact :: "cohort \<Rightarrow> cohort_t list \<Rightarrow> cohort_t \<Rightarrow> bool" where
  "leader_contact s joiners u \<longleftrightarrow> co_mid u \<in> co_mid ` set joiners \<or> co_mid u \<in> set (active_servers s)"

definition leader_env :: "cohort_t \<Rightarrow> env" where
  "leader_env junk =
     \<lparr>on_new_view = leader_on_new_view, on_attempt = Inr, contact = leader_contact,
      on_ping = (\<lambda>_ _ _. Inl Check_failed), stack_junk = junk\<rparr>"

text \<open>The constructor of this version also counts itself as active when it starts a group.\<close>

definition leader_new_cohort :: "cohort_t \<Rightarrow> view_t \<Rightarrow> sockaddr_in \<Rightarrow> cohort res" where
  "leader_new_cohort me v0 join_addr =
     res_bind (new_cohort me v0 join_addr) (\<lambda>s.
     Inr (if sin_port join_addr = 0 then s\<lparr>active_servers := active_servers s @ [co_mid me]\<rparr> else s))"

definition leader_handle_failed :: "env \<Rightarrow> u64 \<Rightarrow> cohort \<Rightarrow> cohort res" where
  "leader_handle_failed E m s =
     (if \<not> 0 < mid2fdfd s m then Inl Check_failed
      else
        let s1 = emit (FalconClose (mid2fdfd s m)) s;
            s2 = s1\<lparr>active_servers := filter (\<lambda>a. a \<noteq> m) (active_servers s1)\<rparr>
        in case active_servers s2 of
             [] \<Rightarrow> Inl Bad_index
           | a # as \<Rightarrow>
               if a = co_mid (self s2)
               then res_bind (view_is_down E s2) (\<lambda>s3. Inr (delay_ping_timeout TimerViewIsDown s3))
               else Inr s2)"

definition leader_timer :: "env \<Rightarrow> nat \<Rightarrow> cohort \<Rightarrow> cohort res" where
  "leader_timer E i s =
     (case map_of (timers s) i of
        Some TimerViewIsDown \<Rightarrow> view_is_down E (s\<lparr>timers := filter (\<lambda>t. fst t \<noteq> i) (timers s)\<rparr>)
      | _ \<Rightarrow> Inr s)"

section \<open>Pings\<close>

definition view_change_timeout_start :: "cohort \<Rightarrow> cohort" where
  "view_change_timeout_start s = delay_ping_timeout TimerViewIsDown s"

definition view_change_timeout_restart :: "cohort \<Rightarrow> cohort res" where
  "view_change_timeout_restart s = res_bind (ping_stop s) (\<lambda>s1. Inr (view_change_timeout_start s1))"

definition ping_start :: "cohort \<Rightarrow> cohort" where
  "ping_start s =
     (let s1 = (if co_mid (self s) = co_mid (vw_primary (view s))
                then delay_ping_timeout TimerPingCheck (s\<lparr>ping_incoming := []\<rparr>)
                else delay_ping_timeout TimerPingStart s)
      in emit (CallPing (netaddr2sockaddr (co_addr (vw_primary (view s1))))
                 \<lparr>pg_myid = co_mid (self s1), pg_vid = vw_vid (view s1)\<rparr> (vw_vid (view s1))) s1)"

definition ping_restart :: "cohort \<Rightarrow> cohort res" where
  "ping_restart s = res_bind (ping_stop s) (\<lambda>s1. Inr (ping_start s1))"

definition rep_ping :: "nat \<Rightarrow> ping_arg \<Rightarrow> cohort \<Rightarrow> cohort res" where
  "rep_ping sbp arg s =
     (let ok = (valid_view s \<and> pg_vid arg = vw_vid (view s));
          s1 = (if ok then s\<lparr>ping_incoming := mids_insert (pg_myid arg) (ping_incoming s)\<rparr> else s)
      in Inr (emit (Reply sbp (ReplyPing ok)) s1))"

definition vanilla_env :: "cohort_t \<Rightarrow> env" where
  "vanilla_env junk =
     \<lparr>on_new_view = ping_restart, on_attempt = view_change_timeout_restart, contact = (\<lambda>_ _ _. True),
      on_ping = rep_ping, stack_junk = junk\<rparr>"

definition vanilla_view_is_down :: "env \<Rightarrow> cohort \<Rightarrow> cohort res" where
  "vanilla_view_is_down E s = view_change_initiate E [] (view_change_timeout_start s)"

text \<open>The answer to a ping that was sent in view \<open>vid\<close>; \<open>None\<close> when the call failed.\<close>

definition ping_cb :: "env \<Rightarrow> viewid_t \<Rightarrow> bool option \<Rightarrow> cohort \<Rightarrow> cohort res" where
  "ping_cb E vid resp s =
     (if vw_vid (view s) \<noteq> vid then Inr s
      else
        case resp of
          None \<Rightarrow> res_bind (ping_stop s) (vanilla_view_is_down E)
        | Some ok \<Rightarrow>
            if ok then Inr s
            else res_bind (ping_stop s) (\<lambda>s1. Inr (delay_ping_timeout TimerViewIsDown s1)))"

definition ping_check_incoming :: "env \<Rightarrow> cohort \<Rightarrow> cohort res" where
  "ping_check_incoming E s =
     (if length (ping_incoming s) \<noteq> length (vw_backups (view s)) + 1 then vanilla_view_is_down E s
      else Inr (ping_start s))"

definition vanilla_timer :: "env \<Rightarrow> nat \<Rightarrow> cohort \<Rightarrow> cohort res" where
  "vanilla_timer E i s =
     (let s1 = s\<lparr>timers := filter (\<lambda>t. fst t \<noteq> i) (timers s)\<rparr> in
      case map_of (timers s) i of
        None \<Rightarrow> Inr s
      | Some TimerViewIsDown \<Rightarrow> vanilla_view_is_down E s1
      | Some TimerPingStart \<Rightarrow> Inr (ping_start s1)
      | Some TimerPingCheck \<Rightarrow> ping_check_incoming E s1)"

section \<open>What the common part relies on\<close>

text \<open>
  A detector may send, start timers and keep its own tables; the log, the views and the attempts are not its business.
\<close>

definition core_of :: "cohort \<Rightarrow> cohort" where
  "core_of s =
     s\<lparr>outs := [], ping_incoming := [], ping_timeout_cb := None, timers := [], next_timer := 0,
       mid2fdfd := (\<lambda>_. 0), active_servers := []\<rparr>"

text \<open>Outputs by which a detector watches its peers.\<close>

fun watching :: "effect \<Rightarrow> bool" where
  "watching (CallPing a p v) = True"
| "watching (FalconConnect d h m) = True"
| "watching (FalconClose fd) = True"
| "watching _ = False"

definition detects :: "(cohort \<Rightarrow> cohort res) \<Rightarrow> bool" where
  "detects f \<longleftrightarrow>
     (\<forall>s s'. f s = Inr s' \<longrightarrow> core_of s' = core_of s \<and> (\<exists>xs. outs s' = outs s @ xs \<and> list_all watching xs))"

lemma detectsI:
  "(\<And>s s'. f s = Inr s' \<Longrightarrow> core_of s' = core_of s \<and> (\<exists>xs. outs s' = outs s @ xs \<and> list_all watching xs)) \<Longrightarrow> detects f"
  by (simp add: detects_def)

lemma detectsD:
  assumes "detects f" and "f s = Inr s'"
  shows "core_of s' = core_of s" and "\<exists>xs. outs s' = outs s @ xs \<and> list_all watching xs"
  using assms by (auto simp: detects_def)

locale detector =
  fixes E :: env
  assumes new_view: "detects (on_new_view E)"
    and attempt: "detects (on_attempt E)"
    and ping: "on_ping E sbp arg s = Inr s' \<Longrightarrow>
      core_of s' = core_of s \<and> (\<exists>ok. outs s' = outs s @ [Reply sbp (ReplyPing ok)])"
begin

lemma new_view_core: "on_new_view E s = Inr s' \<Longrightarrow> core_of s' = core_of s"
  using detectsD(1) [OF new_view] .

lemma attempt_core: "on_attempt E s = Inr s' \<Longrightarrow> core_of s' = core_of s"
  using detectsD(1) [OF attempt] .

end

lemma core_of_fields:
  assumes "core_of s' = core_of s"
  shows "log s' = log s" "jumps s' = jumps s" "replycache s' = replycache s" "self s' = self s" "mode s' = mode s"
    "valid_view s' = valid_view s" "view s' = view s" "proposed_vid s' = proposed_vid s"
    "accepted_view s' = accepted_view s" "vcattempt s' = vcattempt s" "latest s' = latest s"
    "committed s' = committed s" "executed s' = executed s" "attempts s' = attempts s" "pulls s' = pulls s"
  using arg_cong [OF assms, of log] arg_cong [OF assms, of jumps] arg_cong [OF assms, of replycache]
    arg_cong [OF assms, of self] arg_cong [OF assms, of mode] arg_cong [OF assms, of valid_view]
    arg_cong [OF assms, of view] arg_cong [OF assms, of proposed_vid] arg_cong [OF assms, of accepted_view]
    arg_cong [OF assms, of vcattempt] arg_cong [OF assms, of latest] arg_cong [OF assms, of committed]
    arg_cong [OF assms, of executed] arg_cong [OF assms, of attempts] arg_cong [OF assms, of pulls]
  by (simp_all add: core_of_def)

definition quiet :: "cohort \<Rightarrow> cohort \<Rightarrow> bool" where
  "quiet s s' \<longleftrightarrow> core_of s' = core_of s \<and> (\<exists>xs. outs s' = outs s @ xs \<and> list_all watching xs)"

lemma quiet_refl [simp]: "quiet s s"
  by (simp add: quiet_def)

lemma quiet_trans [trans]: "quiet s t \<Longrightarrow> quiet t u \<Longrightarrow> quiet s u"
  by (auto simp: quiet_def)

lemma quiet_falcon_watch: "quiet s (falcon_watch c s)"
  by (simp add: quiet_def falcon_watch_def emit_def core_of_def)

lemma quiet_leader_track: "quiet s (leader_track c s)"
proof -
  have "quiet s (s\<lparr>active_servers := active_servers s @ [co_mid c]\<rparr>)" by (simp add: quiet_def core_of_def)
  then show ?thesis unfolding leader_track_def using quiet_falcon_watch quiet_trans by blast
qed

lemma quiet_fold: "(\<And>x s. quiet s (f x s)) \<Longrightarrow> quiet s (fold f xs s)"
  by (induction xs arbitrary: s) (simp_all, meson quiet_trans)

lemma quiet_ping_stop: "ping_stop s = Inr s' \<Longrightarrow> quiet s s'"
  by (auto simp: ping_stop_def timecb_remove_def quiet_def core_of_def split: option.splits if_splits)

lemma quiet_delay: "quiet s (delay_ping_timeout cb s)"
  by (simp add: quiet_def delay_ping_timeout_def core_of_def)

lemma quiet_ping_start: "quiet s (ping_start s)"
  by (simp add: quiet_def ping_start_def delay_ping_timeout_def emit_def core_of_def Let_def)

lemma detects_quiet: "detects f \<longleftrightarrow> (\<forall>s s'. f s = Inr s' \<longrightarrow> quiet s s')"
  by (simp add: detects_def quiet_def)

lemma detects_Inr: "detects Inr"
  by (simp add: detects_def)

lemma detects_falcon: "detects falcon_on_new_view"
  unfolding detects_quiet falcon_on_new_view_def
  using quiet_fold [of falcon_watch] quiet_falcon_watch quiet_trans by (metis Inr_inject)

lemma detects_leader: "detects leader_on_new_view"
  unfolding detects_quiet
proof (intro allI impI)
  fix s s' assume "leader_on_new_view s = Inr s'"
  then obtain t where t: "ping_stop s = Inr t"
    and s': "s' = (let s2 = leader_track (vw_primary (view t)) (fold leader_track (vw_backups (view t)) (t\<lparr>active_servers := []\<rparr>))
                   in s2\<lparr>active_servers := sort (active_servers s2)\<rparr>)"
    by (auto simp: leader_on_new_view_def Let_def)
  have "quiet s t" using quiet_ping_stop [OF t] .
  also have "quiet t (t\<lparr>active_servers := []\<rparr>)" by (simp add: quiet_def core_of_def)
  also have "quiet (t\<lparr>active_servers := []\<rparr>) (fold leader_track (vw_backups (view t)) (t\<lparr>active_servers := []\<rparr>))"
    by (rule quiet_fold) (rule quiet_leader_track)
  also note quiet_leader_track [of _ "vw_primary (view t)"]
  also have "quiet u (u\<lparr>active_servers := xs\<rparr>)" for u xs by (simp add: quiet_def core_of_def)
  finally show "quiet s s'" unfolding s' Let_def .
qed

lemma detects_ping_restart: "detects ping_restart"
  unfolding detects_quiet ping_restart_def
proof (intro allI impI)
  fix s s' assume "res_bind (ping_stop s) (\<lambda>s1. Inr (ping_start s1)) = Inr s'"
  then obtain t where t: "ping_stop s = Inr t" and "s' = ping_start t" by auto
  then show "quiet s s'" using quiet_trans [OF quiet_ping_stop [OF t] quiet_ping_start] by simp
qed

lemma detects_timeout_restart: "detects view_change_timeout_restart"
  unfolding detects_quiet view_change_timeout_restart_def view_change_timeout_start_def
proof (intro allI impI)
  fix s s' assume "res_bind (ping_stop s) (\<lambda>s1. Inr (delay_ping_timeout TimerViewIsDown s1)) = Inr s'"
  then obtain t where t: "ping_stop s = Inr t" and "s' = delay_ping_timeout TimerViewIsDown t" by auto
  then show "quiet s s'" using quiet_trans [OF quiet_ping_stop [OF t] quiet_delay] by simp
qed

interpretation fal: detector "falcon_env j" for j
  by unfold_locales (simp_all add: falcon_env_def detects_falcon detects_Inr)

interpretation lea: detector "leader_env j" for j
  by unfold_locales (simp_all add: leader_env_def detects_leader detects_Inr)

interpretation van: detector "vanilla_env j" for j
  by unfold_locales
    (auto simp: vanilla_env_def detects_ping_restart detects_timeout_restart rep_ping_def emit_def core_of_def Let_def)

end
