(* ===== verification/PmpInv.thy ===== *)
theory PmpInv
  imports PmpDetect
begin

text \<open>
  Invariants of one cohort under everything it can receive.  A log entry that forms a view must name a view with the id of
  its viewstamp and a predecessor below it (\<open>wf_msg\<close>); that is what a cohort asks of its peers.  Everything else, lost,
  repeated, reordered and contradictory messages included, is arbitrary.
\<close>

section \<open>Well-formed entries and the invariant\<close>

definition wf_msg :: "viewstamp_t \<Rightarrow> execute_arg \<Rightarrow> bool" where
  "wf_msg vs arg \<longleftrightarrow>
     (vs_ts vs = 0 \<longrightarrow>
       (case str2form (ea_request arg) of
          None \<Rightarrow> False
        | Some f \<Rightarrow> vw_vid (vf_view f) = vs_vid vs \<and> vf_prev f < vs))"

definition wf_form :: "view_form_t \<Rightarrow> bool" where
  "wf_form f \<longleftrightarrow> form_ok f \<and> vf_prev f < VS (vw_vid (vf_view f)) 0"

definition logged :: "viewstamp_t \<Rightarrow> cohort \<Rightarrow> bool" where
  "logged vs s \<longleftrightarrow> vs \<in> rl_vs ` set (log s)"

fun exec_of :: "effect \<Rightarrow> viewstamp_t list" where
  "exec_of (Exec r vs) = [vs]"
| "exec_of _ = []"

text \<open>The requests handed to the state machine, in order.\<close>

definition execs :: "effect list \<Rightarrow> viewstamp_t list" where
  "execs xs = concat (map exec_of xs)"

definition inv_log :: "cohort \<Rightarrow> bool" where
  "inv_log s \<longleftrightarrow> (\<forall>e \<in> set (log s). wf_msg (rl_vs e) (rl_arg e))"

definition inv_jumps :: "cohort \<Rightarrow> bool" where
  "inv_jumps s \<longleftrightarrow> (\<forall>p n. jumps s p = Some n \<longrightarrow> p < n \<and> vs_ts n = 0)"

definition inv_exec :: "cohort \<Rightarrow> bool" where
  "inv_exec s \<longleftrightarrow>
     executed s \<le> committed s \<and> sorted_wrt (<) (execs (outs s)) \<and> (\<forall>v \<in> set (execs (outs s)). v \<le> executed s) \<and>
     (\<forall>r v. Exec r v \<in> set (outs s) \<longrightarrow> (\<exists>e \<in> set (log s). rl_vs e = v \<and> ea_request (rl_arg e) = r))"

definition inv_view :: "cohort \<Rightarrow> bool" where
  "inv_view s \<longleftrightarrow>
     vs_vid (executed s) = (if valid_view s then vw_vid (view s) else ViewId 0 0) \<and>
     (valid_view s \<longrightarrow> (\<forall>t \<le> vs_ts (executed s). logged (VS (vs_vid (executed s)) t) s))"

text \<open>The entries of its view up to a viewstamp are in the log, or that view is behind.\<close>

definition covered :: "viewstamp_t \<Rightarrow> viewstamp_t set \<Rightarrow> cohort \<Rightarrow> bool" where
  "covered vs ex s \<longleftrightarrow>
     vs_vid vs < vs_vid (executed s) \<or>
     (\<forall>t \<le> vs_ts vs. VS (vs_vid vs) t \<le> executed s \<or> logged (VS (vs_vid vs) t) s \<or> VS (vs_vid vs) t \<in> ex)"

definition inv_pull :: "pull_log_state \<Rightarrow> cohort \<Rightarrow> bool" where
  "inv_pull p s \<longleftrightarrow>
     set_ok (\<lambda>k. k) (expected (pl_ack p)) \<and> set_ok (\<lambda>k. k) (received (pl_ack p)) \<and>
     set (received (pl_ack p)) \<subseteq> set (expected (pl_ack p)) \<and>
     (\<forall>v \<in> set (received (pl_ack p)). logged v s)"

definition inv_pulls :: "cohort \<Rightarrow> bool" where
  "inv_pulls s \<longleftrightarrow>
     (\<forall>p \<in> set (pulls s). inv_pull p s) \<and>
     (\<forall>a v i. CallFetchlog a v i \<in> set (outs s) \<longrightarrow> i < length (pulls s) \<and> v \<in> set (expected (pl_ack (pulls s ! i))))"

definition inv_acks :: "cohort \<Rightarrow> bool" where
  "inv_acks s \<longleftrightarrow> (\<forall>sbp vs. Reply sbp (ReplyReplicate vs) \<in> set (outs s) \<longrightarrow> covered vs {} s)"

definition done_ok :: "pull_log_state \<Rightarrow> cohort \<Rightarrow> bool" where
  "done_ok p s \<longleftrightarrow>
     (\<forall>sbp vs. pl_donecb p = ReplicatePulldone sbp vs \<longrightarrow> covered vs (set (expected (pl_ack p))) s)"

definition inv_done :: "cohort \<Rightarrow> bool" where
  "inv_done s \<longleftrightarrow> (\<forall>p \<in> set (pulls s). done_ok p s)"

text \<open>The last conjunct does not hold yet while a log is being pulled for the first time.\<close>

definition base_inv :: "cohort \<Rightarrow> bool" where
  "base_inv s \<longleftrightarrow> inv_log s \<and> inv_jumps s \<and> inv_exec s \<and> inv_view s \<and> inv_pulls s \<and> inv_acks s"

definition cohort_inv :: "cohort \<Rightarrow> bool" where
  "cohort_inv s \<longleftrightarrow> base_inv s \<and> inv_done s"

lemma base_invD:
  assumes "base_inv s"
  shows "inv_log s" "inv_jumps s" "inv_exec s" "inv_view s" "inv_pulls s" "inv_acks s"
  using assms by (simp_all add: base_inv_def)

lemma cohort_invD:
  assumes "cohort_inv s"
  shows "inv_log s" "inv_jumps s" "inv_exec s" "inv_view s" "inv_pulls s" "inv_acks s" "inv_done s" "base_inv s"
  using assms by (simp_all add: cohort_inv_def base_inv_def)

section \<open>The log\<close>

lemma log_get_None: "log_get vs s = None \<longleftrightarrow> \<not> logged vs s"
  by (auto simp: log_get_def logged_def find_None_iff)

lemma log_get_Some: "log_get vs s = Some e \<Longrightarrow> e \<in> set (log s) \<and> rl_vs e = vs"
  by (auto simp: log_get_def find_Some_iff)

lemma logged_get: "log_get vs s = Some e \<Longrightarrow> logged vs s"
  using log_get_Some [of vs s e] by (auto simp: logged_def)

definition keys :: "request_log_entry list \<Rightarrow> (viewstamp_t \<times> execute_arg) list" where
  "keys es = map (\<lambda>e. (rl_vs e, rl_arg e)) es"

lemma keys_update_first:
  "(\<And>e. rl_vs (f e) = rl_vs e \<and> rl_arg (f e) = rl_arg e) \<Longrightarrow> keys (update_first P f es) = keys es"
  by (induction es) (simp_all add: keys_def)

lemma keys_set: "keys es = keys es' \<Longrightarrow> (\<lambda>e. (rl_vs e, rl_arg e)) ` set es = (\<lambda>e. (rl_vs e, rl_arg e)) ` set es'"
  by (metis keys_def set_map)

lemma keys_logged: "keys (log s') = keys (log s) \<Longrightarrow> logged v s' \<longleftrightarrow> logged v s"
  using keys_set [of "log s'" "log s"] by (force simp: logged_def image_def set_eq_iff)

lemma keys_wf: "keys es = keys es' \<Longrightarrow> (\<forall>e \<in> set es. P (rl_vs e) (rl_arg e)) \<longleftrightarrow> (\<forall>e \<in> set es'. P (rl_vs e) (rl_arg e))"
proof -
  have "(\<forall>e \<in> set es. P (rl_vs e) (rl_arg e)) \<longleftrightarrow> (\<forall>(v, a) \<in> set (keys es). P v a)" for es
    by (simp add: keys_def)
  then show "keys es = keys es' \<Longrightarrow> ?thesis" by simp
qed

section \<open>What leaves the invariant alone\<close>

fun harmless :: "effect \<Rightarrow> bool" where
  "harmless (Exec r v) = False"
| "harmless (CallFetchlog a v i) = False"
| "harmless (Reply sbp (ReplyReplicate vs)) = False"
| "harmless _ = True"

definition keeps :: "cohort \<Rightarrow> cohort \<Rightarrow> bool" where
  "keeps s s' \<longleftrightarrow>
     keys (log s') = keys (log s) \<and> jumps s' = jumps s \<and> executed s' = executed s \<and> valid_view s' = valid_view s \<and>
     view s' = view s \<and> pulls s' = pulls s \<and> self s' = self s \<and> committed s \<le> committed s' \<and>
     proposed_vid s \<le> proposed_vid s' \<and> (\<exists>xs. outs s' = outs s @ xs \<and> list_all harmless xs)"

lemma keeps_refl [simp]: "keeps s s"
  by (simp add: keeps_def)

lemma keeps_trans [trans]: "keeps s t \<Longrightarrow> keeps t u \<Longrightarrow> keeps s u"
  by (auto simp: keeps_def)

lemma harmless_execs: "list_all harmless xs \<Longrightarrow> execs xs = []"
proof (induction xs)
  case (Cons x xs)
  then show ?case by (cases x) (simp_all add: execs_def)
qed (simp add: execs_def)

lemma harmless_mem:
  "list_all harmless xs \<Longrightarrow> Exec r v \<notin> set xs \<and> CallFetchlog a v i \<notin> set xs \<and> Reply sbp (ReplyReplicate vs) \<notin> set xs"
  by (auto simp: list_all_iff)

lemma execs_append [simp]: "execs (xs @ ys) = execs xs @ execs ys"
  by (simp add: execs_def)

lemma covered_cong:
  "executed s' = executed s \<Longrightarrow> (\<And>v. logged v s' \<longleftrightarrow> logged v s) \<Longrightarrow> covered vs ex s' \<longleftrightarrow> covered vs ex s"
  by (simp add: covered_def)

lemma inv_pull_cong:
  assumes "executed s' = executed s" and "\<And>v. logged v s' \<longleftrightarrow> logged v s"
  shows "inv_pull p s' \<longleftrightarrow> inv_pull p s"
  using covered_cong [OF assms] assms(2) by (simp add: inv_pull_def)

lemma inv_view_mono:
  assumes i: "inv_view s" and e: "executed s' = executed s" "valid_view s' = valid_view s" "view s' = view s"
    and lg: "\<And>v. logged v s \<Longrightarrow> logged v s'"
  shows "inv_view s'"
  using i unfolding inv_view_def e by (intro conjI impI allI lg) (drule conjunct1, assumption, blast)

lemma keeps_inv:
  assumes "cohort_inv s" and k: "keeps s s'"
  shows "cohort_inv s'"
proof -
  from k obtain xs where f: "keys (log s') = keys (log s)" "jumps s' = jumps s" "executed s' = executed s"
      "valid_view s' = valid_view s" "view s' = view s" "pulls s' = pulls s" "committed s \<le> committed s'"
      "outs s' = outs s @ xs" and xs: "list_all harmless xs"
    by (auto simp: keeps_def)
  note lg = keys_logged [OF f(1)]
  note h = harmless_mem [OF xs]
  note I = cohort_invD [OF assms(1)]
  have "inv_log s'" using I(1) keys_wf [OF f(1)] by (simp add: inv_log_def)
  moreover have "inv_jumps s'" using I(2) f by (simp add: inv_jumps_def)
  moreover have "inv_exec s'"
  proof -
    have m: "(\<exists>e \<in> set (log s'). rl_vs e = v \<and> ea_request (rl_arg e) = r) \<longleftrightarrow>
        (\<exists>e \<in> set (log s). rl_vs e = v \<and> ea_request (rl_arg e) = r)" for v r
      using keys_wf [OF f(1), where P = "\<lambda>a b. \<not> (a = v \<and> ea_request b = r)"] by blast
    have "executed s \<le> committed s'" using I(3) f(7) by (auto simp: inv_exec_def)
    with I(3) h show ?thesis unfolding inv_exec_def f m by (simp add: harmless_execs [OF xs])
  qed
  moreover have "inv_view s'" using I(4) unfolding inv_view_def f lg .
  moreover have "inv_pulls s'"
    using I(5) f h inv_pull_cong [OF f(3) lg] by (auto simp: inv_pulls_def)
  moreover have "inv_acks s'"
    using I(6) f h covered_cong [OF f(3) lg] by (auto simp: inv_acks_def)
  moreover have "inv_done s'"
    using I(7) f covered_cong [OF f(3) lg] by (simp add: inv_done_def done_ok_def)
  ultimately show ?thesis by (simp add: cohort_inv_def base_inv_def)
qed

lemma keeps_emit: "harmless x \<Longrightarrow> keeps s (emit x s)"
  by (simp add: keeps_def emit_def)

lemma keeps_entry_update:
  "(\<And>e. rl_vs (f e) = rl_vs e \<and> rl_arg (f e) = rl_arg e) \<Longrightarrow> keeps s (entry_update v f s)"
  by (simp add: keeps_def entry_update_def keys_update_first)

lemma watching_harmless: "watching x \<Longrightarrow> harmless x"
  by (cases x) simp_all

lemma keeps_quiet: "quiet s s' \<Longrightarrow> keeps s s'"
proof -
  assume "quiet s s'"
  then obtain xs where c: "core_of s' = core_of s" and xs: "outs s' = outs s @ xs" "list_all watching xs"
    by (auto simp: quiet_def)
  have "list_all harmless xs" using xs(2) watching_harmless by (auto simp: list_all_iff)
  with xs(1) show ?thesis by (simp add: keeps_def core_of_fields [OF c])
qed

lemma keeps_fold: "(\<And>x s. x \<in> set xs \<Longrightarrow> keeps s (f x s)) \<Longrightarrow> keeps s (fold f xs s)"
proof (induction xs arbitrary: s)
  case (Cons x xs)
  have "keeps s (f x s)" using Cons.prems by simp
  also have "keeps (f x s) (fold f xs (f x s))" using Cons by simp
  finally show ?case by simp
qed simp

lemma keeps_res_fold:
  "(\<And>x s s'. x \<in> set xs \<Longrightarrow> f x s = Inr s' \<Longrightarrow> keeps s s') \<Longrightarrow> res_fold f xs s = Inr s' \<Longrightarrow> keeps s s'"
proof (induction xs arbitrary: s)
  case (Cons x xs)
  from Cons.prems(2) obtain t where t: "f x s = Inr t" "res_fold f xs t = Inr s'" by auto
  have "keeps s t" by (rule Cons.prems(1) [OF _ t(1)]) simp
  also have "keeps t s'" by (rule Cons.IH [OF _ t(2)]) (rule Cons.prems(1), simp_all)
  finally show ?case .
qed simp

end
