(* ===== verification/PmpLoops.thy ===== *)
theory PmpLoops
  imports PmpInv
begin

text \<open>
  The loops of a cohort keep the invariant: appending to the log, executing, committing and acknowledging, and pulling
  missing entries.
\<close>

section \<open>The successor of a viewstamp\<close>

lemma vs_next_less: "inv_jumps s \<Longrightarrow> vs_next v s = Inr n \<Longrightarrow> v < n"
  using vs_add_1 by (auto simp: vs_next_def inv_jumps_def split: option.splits)

lemma vs_next_same: "inv_jumps s \<Longrightarrow> vs_next v s = Inr n \<Longrightarrow> vs_ts n \<noteq> 0 \<Longrightarrow>
    vs_vid n = vs_vid v \<and> unat (vs_ts n) = Suc (unat (vs_ts v))"
  using vs_add_1 by (auto simp: vs_next_def inv_jumps_def split: option.splits)

lemma vs_next_cong: "jumps s' = jumps s \<Longrightarrow> vs_next v s' = vs_next v s"
  by (simp add: vs_next_def)

section \<open>Appending to the log\<close>

text \<open>More entries and further execution keep what is covered.\<close>

lemma covered_mono:
  assumes "covered vs ex s" and "executed s \<le> executed s'" and "\<And>v. logged v s \<Longrightarrow> logged v s'" and "ex \<subseteq> ex'"
  shows "covered vs ex' s'"
proof (cases "vs_vid vs < vs_vid (executed s)")
  case True
  then show ?thesis using le_vs_vid [OF assms(2)] by (auto simp: covered_def)
next
  case False
  with assms show ?thesis unfolding covered_def by (meson order_trans subsetD)
qed

definition appended :: "request_log_entry \<Rightarrow> cohort \<Rightarrow> cohort \<Rightarrow> bool" where
  "appended e s s' \<longleftrightarrow> (\<exists>j. s' = s\<lparr>log := log s @ [e], jumps := j\<rparr>)"

lemma log_append_appended: "log_append e s = Inr s' \<Longrightarrow> appended e s s'"
proof -
  assume "log_append e s = Inr s'"
  then obtain t where t: "vs_jumps_update e s = Inr t" and s': "s' = log_insert e t"
    by (auto simp: log_append_def)
  have "\<exists>j. t = s\<lparr>jumps := j\<rparr>"
  proof -
    from t consider "t = s" | p n where "t = s\<lparr>jumps := (jumps s)(p \<mapsto> n)\<rparr>"
      by (auto simp: vs_jumps_update_def split: if_splits option.splits)
    then show ?thesis
    proof cases
      case 1
      then have "t = s\<lparr>jumps := jumps s\<rparr>" by simp
      then show ?thesis by blast
    qed blast
  qed
  then obtain j where "t = s\<lparr>jumps := j\<rparr>" by blast
  then have "s' = s\<lparr>log := log s @ [e], jumps := j\<rparr>" by (simp add: s' log_insert_def)
  then show ?thesis unfolding appended_def by blast
qed

lemma log_append_jumps:
  assumes "inv_jumps s" and "wf_msg (rl_vs e) (rl_arg e)" and "log_append e s = Inr s'"
  shows "inv_jumps s'"
proof -
  from assms(3) obtain t where t: "vs_jumps_update e s = Inr t" and s': "s' = log_insert e t"
    by (auto simp: log_append_def)
  have "inv_jumps t"
    using t assms(1,2)
    by (auto simp: vs_jumps_update_def inv_jumps_def wf_msg_def split: if_splits option.splits)
  then show ?thesis by (simp add: s' log_insert_def inv_jumps_def)
qed

lemma log_append_inv:
  assumes I: "cohort_inv s" and w: "wf_msg (rl_vs e) (rl_arg e)" and a: "log_append e s = Inr s'"
  shows "cohort_inv s'"
proof -
  from log_append_appended [OF a] obtain j where s': "s' = s\<lparr>log := log s @ [e], jumps := j\<rparr>"
    by (auto simp: appended_def)
  note I = cohort_invD [OF I]
  have f: "executed s' = executed s" "valid_view s' = valid_view s" "view s' = view s" by (simp_all add: s')
  have lg: "logged v s \<Longrightarrow> logged v s'" for v by (auto simp: logged_def s')
  have c: "covered vs ex s \<Longrightarrow> covered vs ex s'" for vs ex
    using covered_mono [of vs ex s s' ex] lg by (simp add: s')
  have "inv_log s'" using I(1) w by (simp add: inv_log_def s')
  moreover have "inv_jumps s'" using log_append_jumps [OF I(2) w a] .
  moreover have "inv_exec s'" using I(3) by (fastforce simp: inv_exec_def s')
  moreover have "inv_view s'" by (rule inv_view_mono [OF I(4) f lg])
  moreover have "inv_pulls s'" using I(5) lg by (simp add: inv_pulls_def inv_pull_def s')
  moreover have "inv_acks s'" using I(6) c by (simp add: inv_acks_def s')
  moreover have "inv_done s'" using I(7) c by (simp add: inv_done_def done_ok_def s')
  ultimately show ?thesis by (simp add: cohort_inv_def base_inv_def)
qed

section \<open>Execution\<close>

lemma core_abort_current: "core_of (abort_current s) = (core_of s)\<lparr>attempts := attempts (abort_current s)\<rparr>"
  by (simp add: abort_current_def abort_attempt_def core_of_def split: option.splits)

lemma abort_current_fields [simp]:
  "log (abort_current s) = log s" "jumps (abort_current s) = jumps s" "outs (abort_current s) = outs s"
  "executed (abort_current s) = executed s" "committed (abort_current s) = committed s"
  "valid_view (abort_current s) = valid_view s" "view (abort_current s) = view s" "pulls (abort_current s) = pulls s"
  "self (abort_current s) = self s" "latest (abort_current s) = latest s"
  by (simp_all add: abort_current_def abort_attempt_def split: option.splits)

context detector
begin

lemma new_view_quiet: "on_new_view E s = Inr s' \<Longrightarrow> quiet s s'"
  using detectsD [OF new_view] by (simp add: quiet_def)

lemma attempt_quiet: "on_attempt E s = Inr s' \<Longrightarrow> quiet s s'"
  using detectsD [OF attempt] by (simp add: quiet_def)

lemma install_view_fields:
  assumes "install_view E f s = Inr s'"
  shows "log s' = log s" "jumps s' = jumps s" "executed s' = executed s" "committed s' = committed s"
    "valid_view s'" "view s' = vf_view f" "pulls s' = pulls s" "self s' = self s" "latest s' = latest s"
    "\<exists>xs. outs s' = outs s @ xs \<and> list_all harmless xs"
proof -
  let ?t = "(abort_current (s\<lparr>view := vf_view f, proposed_vid := vw_vid (vf_view f), valid_view := True,
               accepted_view := None\<rparr>))\<lparr>mode := VC_ACTIVE\<rparr>"
  have q: "quiet ?t s'" using new_view_quiet assms by (simp add: install_view_def)
  from q have c: "core_of s' = core_of ?t" by (simp add: quiet_def)
  note f = core_of_fields [OF c]
  show "log s' = log s" "jumps s' = jumps s" "executed s' = executed s" "committed s' = committed s"
    "valid_view s'" "view s' = vf_view f" "pulls s' = pulls s" "self s' = self s" "latest s' = latest s"
    using f by simp_all
  from q obtain xs where "outs s' = outs ?t @ xs" "list_all watching xs" by (auto simp: quiet_def)
  then show "\<exists>xs. outs s' = outs s @ xs \<and> list_all harmless xs"
    using watching_harmless by (auto simp: list_all_iff)
qed

text \<open>What one round of the loop of \<open>advance_executed\<close> leaves alone.\<close>

lemma execute_entry_fields:
  assumes "execute_entry E rle s = Inr s'"
  shows "log s' = log s" "jumps s' = jumps s" "executed s' = executed s" "committed s' = committed s"
    "pulls s' = pulls s" "self s' = self s" "latest s' = latest s"
  using assms install_view_fields
  by (auto simp: execute_entry_def emit_def split: if_splits option.splits)

lemma execute_round:
  assumes I: "cohort_inv s" and g: "log_get vs s = Some rle" and le: "vs \<le> committed s"
    and n: "vs_next (executed s) s = Inr vs" and x: "execute_entry E rle s = Inr s1"
  shows "cohort_inv (entry_update vs (\<lambda>e. e\<lparr>rl_state := RQ_EXECUTING\<rparr>) (s1\<lparr>executed := vs\<rparr>))"
proof -
  let ?s = "s1\<lparr>executed := vs\<rparr>"
  note f = execute_entry_fields [OF x]
  note I = cohort_invD [OF I]
  from log_get_Some [OF g] have e: "rle \<in> set (log s)" "rl_vs rle = vs" by auto
  have lt: "executed s < vs" using vs_next_less [OF I(2) n] .
  have lg: "logged v ?s \<longleftrightarrow> logged v s" for v by (simp add: logged_def f)
  have c: "covered v ex s \<Longrightarrow> covered v ex ?s" for v ex
    using covered_mono [of v ex s ?s ex] lt lg by simp
  have w: "wf_msg vs (rl_arg rle)" using I(1) e by (auto simp: inv_log_def)
  have lvs: "logged vs s" using logged_get [OF g] .
  have keep: "cohort_inv ?s"
  proof (cases "vs_ts vs = 0")
    case False
    then have s1: "s1 = emit (Exec (ea_request (rl_arg rle)) vs) s" using x e by (simp add: execute_entry_def)
    have same: "vs_vid vs = vs_vid (executed s)" "unat (vs_ts vs) = Suc (unat (vs_ts (executed s)))"
      using vs_next_same [OF I(2) n False] by auto
    have o: "outs s1 = outs s @ [Exec (ea_request (rl_arg rle)) vs]" by (simp add: s1 emit_def)
    have "inv_log ?s" "inv_jumps ?s" using I(1,2) by (simp_all add: inv_log_def inv_jumps_def f)
    moreover have "inv_exec ?s"
    proof -
      have "\<forall>v \<in> set (execs (outs s)). v < vs" using I(3) lt by (auto simp: inv_exec_def)
      then show ?thesis using I(3) le lt e
        by (fastforce simp: inv_exec_def s1 emit_def execs_def sorted_wrt_append)
    qed
    moreover have "inv_view ?s"
    proof -
      have "t \<le> vs_ts vs \<Longrightarrow> t \<le> vs_ts (executed s) \<or> t = vs_ts vs" for t
        using same(2) by (simp add: word_le_nat_alt) (metis le_Suc_eq word_unat_eq_iff)
      moreover have "VS (vs_vid (executed s)) (vs_ts vs) = vs" using same(1) by (cases vs) simp
      ultimately show ?thesis using I(4) same(1) lvs unfolding inv_view_def lg
        by (simp add: s1 emit_def) metis
    qed
    moreover have "inv_pulls ?s" using I(5) by (auto simp: inv_pulls_def inv_pull_def lg f o)
    moreover have "inv_acks ?s" using I(6) c by (auto simp: inv_acks_def o)
    moreover have "inv_done ?s" using I(7) c by (simp add: inv_done_def done_ok_def f)
    ultimately show ?thesis by (simp add: cohort_inv_def base_inv_def)
  next
    case True
    then obtain fm where fm: "str2form (ea_request (rl_arg rle)) = Some fm" "vw_vid (vf_view fm) = vs_vid vs"
      using w by (auto simp: wf_msg_def split: option.splits)
    with x e True have iv: "install_view E fm s = Inr s1" by (simp add: execute_entry_def)
    note v = install_view_fields [OF iv]
    from v(10) obtain xs where o: "outs s1 = outs s @ xs" "list_all harmless xs" by blast
    note h = harmless_mem [OF o(2)]
    have "inv_log ?s" "inv_jumps ?s" using I(1,2) by (simp_all add: inv_log_def inv_jumps_def f)
    moreover have "inv_exec ?s" using I(3) le lt h
      by (fastforce simp: inv_exec_def f o harmless_execs [OF o(2)])
    moreover have "inv_view ?s"
    proof -
      have "t \<le> vs_ts vs \<Longrightarrow> VS (vs_vid vs) t = vs" for t using True by (cases vs) simp
      then show ?thesis using lvs unfolding inv_view_def lg by (simp add: v fm)
    qed
    moreover have "inv_pulls ?s" using I(5) h by (auto simp: inv_pulls_def inv_pull_def lg f o)
    moreover have "inv_acks ?s" using I(6) c h by (auto simp: inv_acks_def o)
    moreover have "inv_done ?s" using I(7) c by (simp add: inv_done_def done_ok_def f)
    ultimately show ?thesis by (simp add: cohort_inv_def base_inv_def)
  qed
  show ?thesis by (rule keeps_inv [OF keep keeps_entry_update]) simp
qed

lemma executed_loop_inv:
  "cohort_inv s \<Longrightarrow> vs_next (executed s) s = Inr vs \<Longrightarrow> executed_loop E n vs s = Inr s' \<Longrightarrow> cohort_inv s'"
proof (induction n arbitrary: vs s)
  case 0
  then show ?case by (subst (asm) executed_loop.simps) (auto split: if_splits option.splits)
next
  case (Suc n)
  show ?case
  proof (cases "vs \<le> committed s \<and> log_get vs s \<noteq> None")
    case False
    then have "s' = s" using Suc.prems(3) by (subst (asm) executed_loop.simps) (auto split: if_splits)
    then show ?thesis using Suc.prems(1) by simp
  next
    case True
    then obtain rle where g: "log_get vs s = Some rle" by blast
    from Suc.prems(3) True g obtain s1 vs'
      where x: "execute_entry E rle s = Inr s1"
        and n: "vs_next vs (entry_update vs (\<lambda>e. e\<lparr>rl_state := RQ_EXECUTING\<rparr>) (s1\<lparr>executed := vs\<rparr>)) = Inr vs'"
        and l: "executed_loop E n vs' (entry_update vs (\<lambda>e. e\<lparr>rl_state := RQ_EXECUTING\<rparr>) (s1\<lparr>executed := vs\<rparr>)) = Inr s'"
      by (subst (asm) executed_loop.simps) (auto simp: Let_def)
    show ?thesis
      by (rule Suc.IH [OF execute_round [OF Suc.prems(1) g _ Suc.prems(2) x] _ l])
        (use True n in \<open>simp_all add: entry_update_def\<close>)
  qed
qed

lemma advance_executed_inv: "cohort_inv s \<Longrightarrow> advance_executed E s = Inr s' \<Longrightarrow> cohort_inv s'"
  using executed_loop_inv by (auto simp: advance_executed_def)

end

section \<open>Commitment and acknowledgements\<close>

lemma committed_loop_keeps:
  "inv_jumps s \<Longrightarrow> committed s < vs \<Longrightarrow> committed_loop n vs s = Inr s' \<Longrightarrow> keeps s s' \<and> latest s' = latest s"
proof (induction n arbitrary: vs s)
  case 0
  then show ?case by (subst (asm) committed_loop.simps) (auto split: if_splits option.splits)
next
  case (Suc n)
  let ?t = "entry_update vs (\<lambda>e. e\<lparr>rl_ack := None, rl_state := RQ_COMMITTED\<rparr>) (s\<lparr>committed := vs\<rparr>)"
  from Suc.prems(3) consider "s' = s" | vs' where "vs_next vs ?t = Inr vs'" "committed_loop n vs' ?t = Inr s'"
    by (subst (asm) committed_loop.simps) (auto simp: Let_def split: if_splits option.splits)
  then show ?case
  proof cases
    case (2 vs')
    have j: "inv_jumps ?t" using Suc.prems(1) by (simp add: inv_jumps_def entry_update_def)
    have "keeps s (s\<lparr>committed := vs\<rparr>)" using Suc.prems(2) by (simp add: keeps_def)
    also have "keeps (s\<lparr>committed := vs\<rparr>) ?t" by (rule keeps_entry_update) simp
    finally have k: "keeps s ?t" .
    have "committed ?t < vs'" using vs_next_less [OF j 2(1)] by (simp add: entry_update_def)
    from Suc.IH [OF j this 2(2)] keeps_trans [OF k] show ?thesis by (simp add: entry_update_def)
  qed simp
qed

lemma ack_loop_keeps: "ack_loop b bound n vs s = Inr s' \<Longrightarrow> keeps s s' \<and> latest s' = latest s \<and> committed s' = committed s"
proof (induction n arbitrary: vs s)
  case 0
  then show ?case by (subst (asm) ack_loop.simps) (auto split: if_splits option.splits)
next
  case (Suc n)
  let ?t = "entry_update vs (\<lambda>e. e\<lparr>rl_ack := map_option (\<lambda>a. a\<lparr>received := mids_insert b (received a)\<rparr>) (rl_ack e)\<rparr>) s"
  from Suc.prems consider "s' = s" | vs' where "ack_loop b bound n vs' ?t = Inr s'"
    by (subst (asm) ack_loop.simps, cases "vs \<le> bound"; cases "log_get vs s") (auto simp: Let_def)
  then show ?case
  proof cases
    case (2 vs')
    have k: "keeps s ?t" by (rule keeps_entry_update) simp
    from Suc.IH [OF 2] keeps_trans [OF k] show ?thesis by (simp add: entry_update_def)
  qed simp
qed

context detector
begin

lemma advance_committed_inv:
  assumes I: "cohort_inv s" and a: "advance_committed E s = Inr s'"
  shows "cohort_inv s'"
proof -
  from a obtain vs t where v: "vs_next (committed s) s = Inr vs" and c: "committed_loop (length (log s)) vs s = Inr t"
    and x: "advance_executed E t = Inr s'" by (auto simp: advance_committed_def)
  have "keeps s t"
    using committed_loop_keeps [OF cohort_invD(2) [OF I] vs_next_less [OF cohort_invD(2) [OF I] v] c] by simp
  from advance_executed_inv [OF keeps_inv [OF I this] x] show ?thesis .
qed

lemma replicate_cb_inv:
  assumes I: "cohort_inv s" and r: "replicate_cb E b resp s = Inr s'"
  shows "cohort_inv s'"
proof -
  from r consider "s' = s" | vs v0 t where "ack_loop b vs (length (log s)) v0 s = Inr t" "advance_committed E t = Inr s'"
    by (auto simp: replicate_cb_def split: option.splits if_splits)
  then show ?thesis
  proof cases
    case (2 vs v0 t)
    from ack_loop_keeps [OF 2(1)] have "cohort_inv t" using keeps_inv [OF I] by simp
    then show ?thesis using advance_committed_inv 2(2) by blast
  qed (simp add: I)
qed

end

section \<open>Pulling\<close>

text \<open>What queueing calls for missing entries does.\<close>

definition pulled :: "cohort \<Rightarrow> cohort \<Rightarrow> bool" where
  "pulled s s' \<longleftrightarrow>
     log s' = log s \<and> jumps s' = jumps s \<and> executed s' = executed s \<and> committed s' = committed s \<and>
     valid_view s' = valid_view s \<and> view s' = view s \<and> self s' = self s \<and> latest s' = latest s \<and>
     length (pulls s') = length (pulls s) \<and>
     (\<forall>j < length (pulls s). pl_donecb (pulls s' ! j) = pl_donecb (pulls s ! j) \<and>
        set (expected (pl_ack (pulls s ! j))) \<subseteq> set (expected (pl_ack (pulls s' ! j))))"

lemma pulled_refl [simp]: "pulled s s"
  by (simp add: pulled_def)

lemma pulled_trans: "pulled s t \<Longrightarrow> pulled t u \<Longrightarrow> pulled s u"
  by (simp add: pulled_def) blast

lemma pulled_fields:
  assumes "pulled s s'"
  shows "log s' = log s" "jumps s' = jumps s" "executed s' = executed s" "committed s' = committed s"
    "valid_view s' = valid_view s" "view s' = view s" "self s' = self s" "latest s' = latest s"
    "length (pulls s') = length (pulls s)"
  using assms by (simp_all add: pulled_def)

lemma pulled_covered:
  assumes "pulled s s'" and "j < length (pulls s)" and "covered vs (set (expected (pl_ack (pulls s ! j)))) s"
  shows "covered vs (set (expected (pl_ack (pulls s' ! j)))) s'"
  by (rule covered_mono [OF assms(3)]) (use assms pulled_fields [OF assms(1)] in \<open>auto simp: pulled_def logged_def\<close>)

lemma pulled_done:
  assumes "pulled s s'" and "j < length (pulls s)" and "done_ok (pulls s ! j) s"
  shows "done_ok (pulls s' ! j) s'"
  using assms pulled_covered [OF assms(1,2)] by (auto simp: done_ok_def pulled_def)

end
