(* ===== verification/PmpSteps.thy ===== *)
theory PmpSteps
  imports PmpLoops
begin

text \<open>
  Every step of a cohort keeps the invariant, and the states it can reach.
\<close>

section \<open>Pulling the log\<close>

lemma pull_update_nth [simp]: "i < length (pulls s) \<Longrightarrow> pulls (pull_update i f s) ! i = f (pulls s ! i)"
  by (simp add: pull_update_def)

lemma pull_one_inv:
  assumes B: "base_inv s" and i: "i < length (pulls s)"
  shows "base_inv (pull_one i v s) \<and> pulled s (pull_one i v s) \<and>
    (logged v s \<or> v \<in> set (expected (pl_ack (pulls (pull_one i v s) ! i))))"
proof (cases "logged v s")
  case True
  then show ?thesis using B by (simp add: pull_one_def log_get_None)
next
  case False
  note I = base_invD [OF B]
  let ?p = "pulls s ! i"
  let ?q = "?p\<lparr>pl_ack := (pl_ack ?p)\<lparr>expected := mids_insert v (expected (pl_ack ?p))\<rparr>\<rparr>"
  let ?a = "netaddr2sockaddr (co_addr (pl_src ?p))"
  let ?t = "pull_one i v s"
  have t: "?t = s\<lparr>pulls := (pulls s)[i := ?q], outs := outs s @ [CallFetchlog ?a v i]\<rparr>"
    using False i by (simp add: pull_one_def log_get_None emit_def pull_update_def)
  have lg: "logged w ?t \<longleftrightarrow> logged w s" for w by (simp add: logged_def t)
  have o: "outs ?t = outs s @ [CallFetchlog ?a v i]" "pulls ?t = (pulls s)[i := ?q]" "executed ?t = executed s"
    by (simp_all add: t)
  have "inv_log ?t" "inv_jumps ?t" using I(1,2) by (simp_all add: inv_log_def inv_jumps_def t)
  moreover have "inv_view ?t" by (rule inv_view_mono [OF I(4)]) (simp_all add: lg, simp_all add: t)
  moreover have "inv_exec ?t" using I(3) by (auto simp: inv_exec_def t execs_def)
  moreover have "inv_pulls ?t"
  proof -
    have "inv_pull ?p s" using I(5) i by (simp add: inv_pulls_def)
    then have "inv_pull ?q ?t" by (auto simp: inv_pull_def lg)
    moreover have "inv_pull p ?t" if "p \<in> set (pulls s)" for p
      using that I(5) by (simp add: inv_pulls_def inv_pull_def lg)
    ultimately have "\<forall>p \<in> set (pulls ?t). inv_pull p ?t"
      unfolding o using set_update_subset_insert [of "pulls s" i ?q] by blast
    moreover have "j < length (pulls ?t) \<and> w \<in> set (expected (pl_ack (pulls ?t ! j)))"
      if "CallFetchlog b w j \<in> set (outs ?t)" for b w j
    proof -
      from that consider "w = v" "j = i" | "CallFetchlog b w j \<in> set (outs s)" by (auto simp: o)
      then show ?thesis
      proof cases
        case 1
        then show ?thesis using i by (simp add: o)
      next
        case 2
        then have "j < length (pulls s)" "w \<in> set (expected (pl_ack (pulls s ! j)))"
          using I(5) by (auto simp: inv_pulls_def)
        then show ?thesis by (cases "j = i") (simp_all add: o)
      qed
    qed
    ultimately show ?thesis by (auto simp: inv_pulls_def)
  qed
  moreover have "inv_acks ?t" using I(6) by (auto simp: inv_acks_def o covered_def lg)
  moreover have "pulled s ?t" using i by (auto simp: pulled_def t nth_list_update)
  ultimately show ?thesis using i by (simp add: base_inv_def o)
qed

lemma pull_fold_inv:
  "base_inv s \<Longrightarrow> i < length (pulls s) \<Longrightarrow>
   let s' = fold (\<lambda>t. pull_one i (VS v (word_of_nat t))) ts s in
     base_inv s' \<and> pulled s s' \<and>
     (\<forall>t \<in> set ts. logged (VS v (word_of_nat t)) s \<or>
        VS v (word_of_nat t) \<in> set (expected (pl_ack (pulls s' ! i))))"
proof (induction ts arbitrary: s)
  case Nil
  then show ?case by simp
next
  case (Cons t ts)
  let ?t = "pull_one i (VS v (word_of_nat t)) s"
  let ?u = "fold (\<lambda>t. pull_one i (VS v (word_of_nat t))) ts ?t"
  from pull_one_inv [OF Cons.prems, of "VS v (word_of_nat t)"]
  have a: "base_inv ?t" "pulled s ?t" "logged (VS v (word_of_nat t)) s \<or>
      VS v (word_of_nat t) \<in> set (expected (pl_ack (pulls ?t ! i)))" by auto
  have i: "i < length (pulls ?t)" using Cons.prems(2) pulled_fields(9) [OF a(2)] by simp
  from Cons.IH [OF a(1) i] have b: "base_inv ?u" "pulled ?t ?u"
      "\<forall>x \<in> set ts. logged (VS v (word_of_nat x)) ?t \<or> VS v (word_of_nat x) \<in> set (expected (pl_ack (pulls ?u ! i)))"
    by (auto simp: Let_def)
  have lg: "logged w ?t \<longleftrightarrow> logged w s" for w using pulled_fields(1) [OF a(2)] by (simp add: logged_def)
  have "set (expected (pl_ack (pulls ?t ! i))) \<subseteq> set (expected (pl_ack (pulls ?u ! i)))"
    using b(2) i by (simp add: pulled_def)
  with a(3) b(3) pulled_trans [OF a(2) b(2)] b(1) show ?case by (auto simp: Let_def lg)
qed

lemma pull_range_inv:
  assumes B: "base_inv s" and i: "i < length (pulls s)" and r: "pull_range i base upper s = Inr s'"
    and v: "vs_vid base = vs_vid upper"
  shows "base_inv s' \<and> pulled s s' \<and>
    (\<forall>t \<le> vs_ts upper. vs_ts base \<le> t \<longrightarrow> logged (VS (vs_vid upper) t) s' \<or>
       VS (vs_vid upper) t \<in> set (expected (pl_ack (pulls s' ! i))))"
proof (cases "base \<le> upper")
  case False
  then have "s' = s" using r by (simp add: pull_range_def)
  moreover have "\<not> vs_ts base \<le> vs_ts upper" using False v by (cases base; cases upper) auto
  ultimately show ?thesis using B by auto
next
  case True
  then have s': "s' = fold (\<lambda>t. pull_one i (VS (vs_vid base) (word_of_nat t)))
      [unat (vs_ts base)..<Suc (unat (vs_ts upper))] s"
    using r by (auto simp: pull_range_def Let_def)
  from pull_fold_inv [OF B i, of "vs_vid base" "[unat (vs_ts base)..<Suc (unat (vs_ts upper))]"]
  have f: "base_inv s'" "pulled s s'"
    "\<forall>t \<in> {unat (vs_ts base)..unat (vs_ts upper)}. logged (VS (vs_vid base) (word_of_nat t)) s \<or>
       VS (vs_vid base) (word_of_nat t) \<in> set (expected (pl_ack (pulls s' ! i)))"
    unfolding Let_def s' by (auto simp del: upt_Suc)
  have "logged (VS (vs_vid upper) t) s' \<or> VS (vs_vid upper) t \<in> set (expected (pl_ack (pulls s' ! i)))"
    if "t \<le> vs_ts upper" "vs_ts base \<le> t" for t
    using f(3) [rule_format, of "unat t"] that pulled_fields(1) [OF f(2)]
    by (simp add: word_le_nat_alt logged_def v)
  with f(1,2) show ?thesis by blast
qed

lemma pull_upto_inv:
  assumes B: "base_inv s" and i: "i < length (pulls s)" and r: "pull_upto i upper s = Inr s'"
  shows "base_inv s' \<and> pulled s s' \<and> covered upper (set (expected (pl_ack (pulls s' ! i)))) s'"
proof -
  consider "vs_vid upper < vs_vid (executed s)" "s' = s"
    | base where "vs_vid upper = vs_vid (executed s)" "vs_add (executed s) 1 = Inr base" "pull_range i base upper s = Inr s'"
    | "\<not> vs_vid upper < vs_vid (executed s)" "pull_range i (VS (vs_vid upper) 0) upper s = Inr s'"
    using r by (auto simp: pull_upto_def split: if_splits)
  then show ?thesis
  proof cases
    case 1
    then show ?thesis using B by (simp add: covered_def)
  next
    case (2 base)
    from vs_add_1 [OF 2(2)] have b: "vs_vid base = vs_vid upper" "unat (vs_ts base) = Suc (unat (vs_ts (executed s)))"
      using 2(1) by auto
    from pull_range_inv [OF B i 2(3) b(1)] have p: "base_inv s'" "pulled s s'"
      "\<forall>t \<le> vs_ts upper. vs_ts base \<le> t \<longrightarrow> logged (VS (vs_vid upper) t) s' \<or>
         VS (vs_vid upper) t \<in> set (expected (pl_ack (pulls s' ! i)))" by auto
    have "vs_ts base \<le> t \<or> VS (vs_vid upper) t \<le> executed s'" for t
      using b(2) 2(1) pulled_fields(3) [OF p(2)]
      by (cases "executed s") (auto simp: word_le_nat_alt)
    with p show ?thesis unfolding covered_def by blast
  next
    case 3
    from pull_range_inv [OF B i 3(2)] have p: "base_inv s'" "pulled s s'"
      "\<forall>t \<le> vs_ts upper. logged (VS (vs_vid upper) t) s' \<or> VS (vs_vid upper) t \<in> set (expected (pl_ack (pulls s' ! i)))"
      by auto
    then show ?thesis unfolding covered_def by blast
  qed
qed

lemma pulled_inv:
  assumes "cohort_inv s" and "base_inv s'" and "pulled s s'"
  shows "cohort_inv s'"
proof -
  have "done_ok (pulls s' ! j) s'" if "j < length (pulls s')" for j
    using that pulled_done [OF assms(3)] pulled_fields(9) [OF assms(3)] cohort_invD(7) [OF assms(1)]
    by (simp add: inv_done_def)
  then have "inv_done s'" unfolding inv_done_def by (metis in_set_conv_nth)
  with assms(2) show ?thesis by (simp add: cohort_inv_def)
qed

text \<open>An update of one pull that keeps what it still waits for.\<close>

lemma pull_update_inv:
  assumes I: "cohort_inv s" and i: "i < length (pulls s)"
    and p: "inv_pull (f (pulls s ! i)) s" "done_ok (f (pulls s ! i)) s"
    and e: "set (expected (pl_ack (pulls s ! i))) \<subseteq> set (expected (pl_ack (f (pulls s ! i))))"
  shows "cohort_inv (pull_update i f s)"
proof -
  let ?t = "pull_update i f s"
  have t: "?t = s\<lparr>pulls := (pulls s)[i := f (pulls s ! i)]\<rparr>" by (simp add: pull_update_def)
  note I = cohort_invD [OF I]
  have lg: "logged w ?t \<longleftrightarrow> logged w s" for w by (simp add: logged_def t)
  have c: "covered v ex ?t \<longleftrightarrow> covered v ex s" for v ex by (rule covered_cong) (simp_all add: t lg [unfolded t])
  have sub: "q \<in> set (pulls ?t) \<Longrightarrow> q = f (pulls s ! i) \<or> q \<in> set (pulls s)" for q
    using set_update_subset_insert [of "pulls s" i "f (pulls s ! i)"] by (auto simp: t)
  have "inv_view ?t" by (rule inv_view_mono [OF I(4)]) (simp_all add: lg, simp_all add: t)
  moreover have "inv_log ?t" "inv_jumps ?t" "inv_exec ?t" using I(1-3) by (simp_all add: inv_log_def inv_jumps_def inv_exec_def t)
  moreover have "inv_acks ?t" using I(6) unfolding inv_acks_def c by (simp add: t)
  moreover have "inv_pulls ?t"
  proof -
    have "inv_pull q ?t" if "q \<in> set (pulls ?t)" for q
    proof -
      have "inv_pull q s" using sub [OF that] p(1) I(5) by (auto simp: inv_pulls_def)
      then show ?thesis by (simp add: inv_pull_def lg)
    qed
    moreover have "w \<in> set (expected (pl_ack (pulls ?t ! j)))"
      if "j < length (pulls s)" "w \<in> set (expected (pl_ack (pulls s ! j)))" for w j
      using that e i by (cases "j = i") (auto simp: t)
    ultimately show ?thesis using I(5) by (auto simp: inv_pulls_def t)
  qed
  moreover have "done_ok q ?t" if "q \<in> set (pulls ?t)" for q
  proof -
    have "done_ok q s" using sub [OF that] p(2) I(7) by (auto simp: inv_done_def)
    then show ?thesis by (simp add: done_ok_def c)
  qed
  ultimately show ?thesis by (auto simp: cohort_inv_def base_inv_def inv_done_def)
qed

lemma inv_pullD: "cohort_inv s \<Longrightarrow> i < length (pulls s) \<Longrightarrow> inv_pull (pulls s ! i) s \<and> done_ok (pulls s ! i) s"
  by (simp add: cohort_inv_def base_inv_def inv_pulls_def inv_done_def)

lemma fetch_bottom_inv:
  assumes I: "cohort_inv s" and i: "i < length (pulls s)" and f: "fetch_bottom i s = Inr s'"
  shows "cohort_inv s' \<and> length (pulls s') = length (pulls s)"
proof -
  note p = inv_pullD [OF I i]
  from f obtain n where n: "vs_next (executed s) s = Inr n" by (auto simp: fetch_bottom_def)
  consider "s' = s"
    | g where "pull_upto i g (pull_update i (\<lambda>p. p\<lparr>pl_bottomview := vs_vid g\<rparr>) s) = Inr s'"
    | "s' = pull_update i (\<lambda>p. p\<lparr>pl_bottomdone := True\<rparr>) s"
  proof (cases "vs_vid n < pl_bottomview (pulls s ! i)")
    case False
    then show ?thesis using f n that(3) by (simp add: fetch_bottom_def)
  next
    case True
    show ?thesis
    proof (cases "log_get (VS (pl_bottomview (pulls s ! i)) 0) s")
      case None
      then show ?thesis using f n True that(1) by (simp add: fetch_bottom_def)
    next
      case (Some rle)
      then show ?thesis using f n True that(2)
        by (cases "str2form (ea_request (rl_arg rle))") (simp_all add: fetch_bottom_def)
    qed
  qed
  then show ?thesis
  proof cases
    case (2 g)
    let ?t = "pull_update i (\<lambda>p. p\<lparr>pl_bottomview := vs_vid g\<rparr>) s"
    have t: "cohort_inv ?t" by (rule pull_update_inv [OF I i]) (use p in \<open>auto simp: inv_pull_def done_ok_def\<close>)
    have l: "length (pulls ?t) = length (pulls s)" by (simp add: pull_update_def)
    from pull_upto_inv [OF cohort_invD(8) [OF t] _ 2] l i have "base_inv s'" "pulled ?t s'" by auto
    with pulled_inv [OF t this] pulled_fields(9) [of ?t s'] l show ?thesis by simp
  next
    case 3
    have "cohort_inv s'" unfolding 3 by (rule pull_update_inv [OF I i]) (use p in \<open>auto simp: inv_pull_def done_ok_def\<close>)
    then show ?thesis by (simp add: 3 pull_update_def)
  qed (simp add: I)
qed

text \<open>The answer of a finished pull: everything that was asked for is in the log.\<close>

lemma finished_covered:
  assumes I: "cohort_inv s" and i: "i < length (pulls s)" and d: "pl_donecb (pulls s ! i) = ReplicatePulldone sbp vs"
    and l: "length (expected (pl_ack (pulls s ! i))) = length (received (pl_ack (pulls s ! i)))"
  shows "covered vs {} s"
proof -
  let ?p = "pl_ack (pulls s ! i)"
  from inv_pullD [OF I i] have p: "set_ok (\<lambda>k. k) (expected ?p)" "set_ok (\<lambda>k. k) (received ?p)"
    "set (received ?p) \<subseteq> set (expected ?p)" "\<forall>v \<in> set (received ?p). logged v s" "covered vs (set (expected ?p)) s"
    using d by (auto simp: inv_pull_def done_ok_def)
  have "card (set (received ?p)) = card (set (expected ?p))"
    using set_ok_length [OF p(1)] set_ok_length [OF p(2)] l by simp
  then have "set (received ?p) = set (expected ?p)" using p(3) by (simp add: card_subset_eq)
  with p(4,5) show ?thesis by (auto simp: covered_def)
qed

lemma inv_emit_ack:
  assumes I: "cohort_inv s" and c: "covered vs {} s"
  shows "cohort_inv (emit (Reply sbp (ReplyReplicate vs)) s)"
proof -
  let ?t = "emit (Reply sbp (ReplyReplicate vs)) s"
  have t: "?t = s\<lparr>outs := outs s @ [Reply sbp (ReplyReplicate vs)]\<rparr>" by (simp add: emit_def)
  have lg: "logged w ?t \<longleftrightarrow> logged w s" for w by (simp add: logged_def t)
  have c': "covered v ex ?t \<longleftrightarrow> covered v ex s" for v ex by (rule covered_cong) (simp_all add: t lg [unfolded t])
  note I = cohort_invD [OF I]
  have "inv_view ?t" by (rule inv_view_mono [OF I(4)]) (simp_all add: lg, simp_all add: t)
  moreover have "inv_log ?t" "inv_jumps ?t" "inv_exec ?t"
    using I(1-3) by (auto simp: inv_log_def inv_jumps_def inv_exec_def t execs_def)
  moreover have "inv_pulls ?t" using I(5) by (auto simp: inv_pulls_def inv_pull_def lg) (auto simp: t)
  moreover have "inv_acks ?t" using I(6) c by (auto simp: inv_acks_def c') (auto simp: t)
  moreover have "inv_done ?t" using I(7) by (auto simp: inv_done_def done_ok_def c') (auto simp: t)
  ultimately show ?thesis by (simp add: cohort_inv_def base_inv_def)
qed

lemma fetch_finish_inv:
  assumes I: "cohort_inv s" and i: "i < length (pulls s)"
  shows "cohort_inv (fetch_finish i s)"
proof (cases "\<not> pl_ok (pulls s ! i) \<or>
    length (expected (pl_ack (pulls s ! i))) = length (received (pl_ack (pulls s ! i)))")
  case False
  then show ?thesis using I by (simp add: fetch_finish_def Let_def)
next
  case True
  let ?ok = "pl_ok (pulls s ! i) \<and> pl_bottomdone (pulls s ! i)"
  let ?t = "call_donecb (pl_donecb (pulls s ! i)) ?ok s"
  have t: "cohort_inv ?t \<and> pulls ?t = pulls s"
  proof (cases "pl_donecb (pulls s ! i)")
    case (ReplicatePulldone sbp vs)
    show ?thesis
    proof (cases ?ok)
      case True
      with \<open>\<not> pl_ok (pulls s ! i) \<or> _\<close> have "covered vs {} s"
        using finished_covered [OF I i ReplicatePulldone] by simp
      from inv_emit_ack [OF I this] True show ?thesis
        by (simp add: ReplicatePulldone call_donecb_def replicate_pulldone_def emit_def)
    next
      case False
      have "cohort_inv (emit (Reject sbp SYSTEM_ERR) s)" by (rule keeps_inv [OF I keeps_emit]) simp
      with False show ?thesis by (auto simp: ReplicatePulldone call_donecb_def replicate_pulldone_def emit_def)
    qed
  next
    case (NewViewPulldone sbp)
    have "cohort_inv (emit (Reply sbp (ReplyNewView ?ok)) s)" by (rule keeps_inv [OF I keeps_emit]) simp
    then show ?thesis by (simp add: NewViewPulldone call_donecb_def new_view_pulldone_def emit_def)
  next
    case CbbNull
    then show ?thesis using I by (simp add: call_donecb_def)
  qed
  then have t': "cohort_inv ?t" "pulls ?t = pulls s" by auto
  have i': "i < length (pulls ?t)" using t' i by simp
  have "cohort_inv (pull_update i (\<lambda>p. p\<lparr>pl_donecb := CbbNull\<rparr>) ?t)"
    by (rule pull_update_inv [OF t'(1) i'])
      (use inv_pullD [OF t'(1) i'] in \<open>auto simp: inv_pull_def done_ok_def\<close>)
  then show ?thesis using True by (simp add: fetch_finish_def Let_def)
qed

context detector
begin

lemma executed_loop_fields:
  "executed_loop E n vs s = Inr s' \<Longrightarrow> pulls s' = pulls s \<and> self s' = self s \<and> latest s' = latest s \<and> committed s' = committed s"
proof (induction n arbitrary: vs s)
  case 0
  then show ?case by (subst (asm) executed_loop.simps) (auto split: if_splits option.splits)
next
  case (Suc n)
  show ?case
  proof (cases "vs \<le> committed s \<and> log_get vs s \<noteq> None")
    case False
    then show ?thesis using Suc.prems by (subst (asm) executed_loop.simps) (auto split: if_splits)
  next
    case True
    then obtain rle where g: "log_get vs s = Some rle" by blast
    from Suc.prems True g obtain s1 vs'
      where x: "execute_entry E rle s = Inr s1"
        and l: "executed_loop E n vs' (entry_update vs (\<lambda>e. e\<lparr>rl_state := RQ_EXECUTING\<rparr>) (s1\<lparr>executed := vs\<rparr>)) = Inr s'"
      by (subst (asm) executed_loop.simps) (auto simp: Let_def)
    from Suc.IH [OF l] execute_entry_fields [OF x] show ?thesis by (simp add: entry_update_def)
  qed
qed

lemma advance_executed_fields:
  "advance_executed E s = Inr s' \<Longrightarrow> pulls s' = pulls s \<and> self s' = self s \<and> latest s' = latest s \<and> committed s' = committed s"
  using executed_loop_fields by (auto simp: advance_executed_def)

lemma advance_committed_fields:
  assumes I: "cohort_inv s" and a: "advance_committed E s = Inr s'"
  shows "pulls s' = pulls s \<and> self s' = self s \<and> latest s' = latest s"
proof -
  from a obtain vs t where v: "vs_next (committed s) s = Inr vs" and c: "committed_loop (length (log s)) vs s = Inr t"
    and x: "advance_executed E t = Inr s'" by (auto simp: advance_committed_def)
  have "keeps s t \<and> latest t = latest s"
    using committed_loop_keeps [OF cohort_invD(2) [OF I] vs_next_less [OF cohort_invD(2) [OF I] v] c] .
  with advance_executed_fields [OF x] show ?thesis by (simp add: keeps_def)
qed

lemma fetchlog_check_inv:
  assumes I: "cohort_inv s" and i: "i < length (pulls s)" and f: "fetchlog_check E i s = Inr s'"
  shows "cohort_inv s'"
proof -
  from f obtain s1 s2 where a: "advance_committed E s = Inr s1" and b: "fetch_bottom i s1 = Inr s2"
    and s': "s' = fetch_finish i s2" by (auto simp: fetchlog_check_def)
  have "i < length (pulls s1)" using i advance_committed_fields [OF I a] by simp
  note s2 = fetch_bottom_inv [OF advance_committed_inv [OF I a] this b]
  with \<open>i < length (pulls s1)\<close> show ?thesis unfolding s' by (intro fetch_finish_inv) auto
qed

lemma fetchlog_cb_inv:
  assumes I: "cohort_inv s" and c: "CallFetchlog a vs i \<in> set (outs s)"
    and w: "\<And>arg. resp = Some arg \<Longrightarrow> wf_msg vs arg" and f: "fetchlog_cb E i vs resp s = Inr s'"
  shows "cohort_inv s'"
proof -
  have i: "i < length (pulls s)" and e: "vs \<in> set (expected (pl_ack (pulls s ! i)))"
    using cohort_invD(5) [OF I] c by (auto simp: inv_pulls_def)
  define fin where "fin p = p\<lparr>pl_ack := (pl_ack p)\<lparr>received := mids_insert vs (received (pl_ack p))\<rparr>\<rparr>"
    for p :: pull_log_state
  have finish: "cohort_inv (pull_update i fin t)"
    if t: "cohort_inv t" "pulls t = pulls s" "logged vs t" for t
    by (rule pull_update_inv [OF t(1)])
      (use inv_pullD [OF t(1), of i] i e t(2,3) in \<open>auto simp: fin_def inv_pull_def done_ok_def\<close>)
  have len: "length (pulls (pull_update i g t)) = length (pulls t)" for g t by (simp add: pull_update_def)
  note f = f [unfolded fetchlog_cb_def Let_def, folded fin_def]
  show ?thesis
  proof (cases "log_get vs s")
    case (Some rle)
    with f have "fetchlog_check E i (pull_update i fin s) = Inr s'" by simp
    from fetchlog_check_inv [OF finish [OF I refl logged_get [OF Some]] _ this] i len show ?thesis by simp
  next
    case None
    show ?thesis
    proof (cases resp)
      case None
      let ?t = "pull_update i (\<lambda>p. p\<lparr>pl_ok := False\<rparr>) s"
      have "fetchlog_check E i ?t = Inr s'" using f \<open>log_get vs s = None\<close> None by simp
      moreover have "cohort_inv ?t"
        by (rule pull_update_inv [OF I i]) (use inv_pullD [OF I i] in \<open>auto simp: inv_pull_def done_ok_def\<close>)
      ultimately show ?thesis using fetchlog_check_inv i len by simp
    next
      case (Some arg)
      with f \<open>log_get vs s = None\<close> obtain t where t: "log_append (new_entry vs arg) s = Inr t"
        and c: "fetchlog_check E i (pull_update i fin t) = Inr s'" by auto
      have ti: "cohort_inv t" by (rule log_append_inv [OF I _ t]) (simp add: new_entry_def w [OF Some])
      have "pulls t = pulls s" "logged vs t"
        using log_append_appended [OF t] by (auto simp: appended_def logged_def new_entry_def)
      from fetchlog_check_inv [OF finish [OF ti this] _ c] i len this(1) show ?thesis by simp
    qed
  qed
qed

lemma pull_log_inv:
  assumes I: "cohort_inv s" and d: "\<And>sbp vs. donecb = ReplicatePulldone sbp vs \<Longrightarrow> vs = upper"
    and p: "pull_log E src upper donecb s = Inr s'"
  shows "cohort_inv s'"
proof -
  let ?i = "length (pulls s)"
  let ?p = "\<lparr>pl_ack = \<lparr>received = [], expected = []\<rparr>, pl_bottomview = vs_vid upper, pl_src = src,
              pl_donecb = donecb, pl_ok = True, pl_bottomdone = False\<rparr>"
  let ?t = "s\<lparr>pulls := pulls s @ [?p]\<rparr>"
  from p obtain u where u: "pull_upto ?i upper ?t = Inr u" and c: "fetchlog_check E ?i u = Inr s'"
    by (auto simp: pull_log_def Let_def)
  note I' = cohort_invD [OF I]
  have lg: "logged w ?t \<longleftrightarrow> logged w s" for w by (simp add: logged_def)
  have B: "base_inv ?t"
  proof -
    have "inv_view ?t" by (rule inv_view_mono [OF I'(4)]) (simp_all add: lg)
    moreover have "inv_log ?t" "inv_jumps ?t" "inv_exec ?t"
      using I'(1-3) by (simp_all add: inv_log_def inv_jumps_def inv_exec_def)
    moreover have "inv_pulls ?t" using I'(5) by (auto simp: inv_pulls_def inv_pull_def lg nth_append less_Suc_eq)
    moreover have "inv_acks ?t" using I'(6) by (simp add: inv_acks_def covered_def lg)
    ultimately show ?thesis by (simp add: base_inv_def)
  qed
  have i: "?i < length (pulls ?t)" by simp
  from pull_upto_inv [OF B i u] have q: "base_inv u" "pulled ?t u"
    "covered upper (set (expected (pl_ack (pulls u ! ?i)))) u" by auto
  have "done_ok (pulls u ! j) u" if j: "j < length (pulls u)" for j
  proof (cases "j = ?i")
    case True
    have "pl_donecb (pulls u ! ?i) = donecb" using q(2) i by (simp add: pulled_def)
    with d q(3) True show ?thesis by (auto simp: done_ok_def)
  next
    case False
    then have js: "j < length (pulls s)" using j pulled_fields(9) [OF q(2)] by simp
    then have "done_ok (pulls ?t ! j) ?t"
      using inv_pullD [OF I js] by (simp add: nth_append done_ok_def covered_def lg)
    with js show ?thesis by (intro pulled_done [OF q(2)]) simp_all
  qed
  then have "inv_done u" unfolding inv_done_def by (metis in_set_conv_nth)
  with q(1) have U: "cohort_inv u" by (simp add: cohort_inv_def)
  have "?i < length (pulls u)" using i pulled_fields(9) [OF q(2)] by simp
  from fetchlog_check_inv [OF U this c] show ?thesis .
qed

end

section \<open>The view change\<close>

lemma keeps_attempts: "keeps s (s\<lparr>attempts := a\<rparr>)"
  by (simp add: keeps_def)

lemma keeps_attempt_update: "keeps s (attempt_update i f s)"
  by (simp add: keeps_def attempt_update_def)

lemma keeps_abort: "keeps s (abort_attempt i s)" "keeps s (abort_other v s)"
  by (auto simp: keeps_def abort_attempt_def abort_other_def split: option.splits)

lemma keeps_check_newview: "keeps s (view_change_check_newview i s)"
  using keeps_emit keeps_abort by (simp add: view_change_check_newview_def Let_def)

lemma keeps_newview_cb: "keeps s (view_change_newview_cb i c resp s)"
  unfolding view_change_newview_cb_def by (rule keeps_trans [OF keeps_attempt_update keeps_check_newview])

lemma keeps_merge: "keeps s (merge_newview i nv s)"
proof -
  have "keeps t (merge_underling i arg u t)" for arg u t
  proof (cases "set_insert co_mid u (va_underlings (attempts t ! i))")
    case (Pair new ul)
    have "keeps t (send_view_change (vcattempt t) arg u (attempt_update i (\<lambda>a. a\<lparr>va_underlings := ul\<rparr>) t))"
      unfolding send_view_change_def by (rule keeps_trans [OF keeps_attempt_update keeps_emit]) simp
    then show ?thesis by (simp add: merge_underling_def Pair)
  qed
  then show ?thesis unfolding merge_newview_def Let_def
    by (intro keeps_trans [OF keeps_fold keeps_attempt_update])
qed

lemma keeps_choose_and_issue: "choose_and_issue junk i s = Inr s' \<Longrightarrow> keeps s s'"
proof -
  assume "choose_and_issue junk i s = Inr s'"
  then obtain a where "s' = view_change_issue_newview i (attempt_update i (\<lambda>_. a) s)"
    by (auto simp: choose_and_issue_def)
  moreover have "keeps t (view_change_issue_newview i t)" for t
    unfolding view_change_issue_newview_def Let_def by (rule keeps_fold) (simp add: keeps_emit)
  ultimately show ?thesis using keeps_trans [OF keeps_attempt_update] by blast
qed

lemma check_prepare_cases:
  assumes "check_prepare_loop junk n i s = Inr s'"
  obtains "s' = s" | "s' = abort_attempt i s" | "choose_and_issue junk i s = Inr s'"
    | m nv where "n = Suc m" "check_prepare_loop junk m i (merge_newview i nv s) = Inr s'"
proof -
  let ?a = "attempts s ! i"
  note c = assms [unfolded check_prepare_loop.simps [of junk n i s] Let_def]
  show thesis
  proof (cases "va_aborted ?a \<or> length (va_prepare_done ?a) \<noteq> length (va_underlings ?a)")
    case True
    then show ?thesis using c that(1) by simp
  next
    case False
    show ?thesis
    proof (cases "majority (va_prepare_accepted ?a) (view2mids (view s))")
      case m: True
      show ?thesis
      proof (cases "va_newview ?a")
        case None
        then show ?thesis using c False m that(3) by simp
      next
        case (Some nv)
        then show ?thesis using c False m that(2,3) that(4) [of _ nv]
          by (cases "va_merged_vid ?a < vw_vid nv"; cases n; cases "majority (va_prepare_accepted ?a) (view2mids nv)")
            simp_all
      qed
    qed (use c False that(2) in simp)
  qed
qed

lemma keeps_check_prepare_loop: "check_prepare_loop junk n i s = Inr s' \<Longrightarrow> keeps s s'"
proof (induction n arbitrary: s)
  case 0
  then show ?case by (cases rule: check_prepare_cases) (simp_all add: keeps_abort keeps_choose_and_issue)
next
  case (Suc n)
  from Suc.prems show ?case
  proof (cases rule: check_prepare_cases)
    case (4 m nv)
    then have "check_prepare_loop junk n i (merge_newview i nv s) = Inr s'" by simp
    from keeps_trans [OF keeps_merge Suc.IH [OF this]] show ?thesis .
  qed (simp_all add: keeps_abort keeps_choose_and_issue)
qed

lemma keeps_prepare_cb: "view_change_prepare_cb E at c resp s = Inr s' \<Longrightarrow> keeps s s'"
proof -
  assume p: "view_change_prepare_cb E at c resp s = Inr s'"
  then obtain i where i: "at = Some i" by (cases at) (simp_all add: view_change_prepare_cb_def)
  show ?thesis
  proof (cases "va_aborted (attempts s ! i)")
    case True
    then show ?thesis using p i by (simp add: view_change_prepare_cb_def)
  next
    case False
    let ?t = "attempt_update i (\<lambda>a. a\<lparr>va_prepare_done := mids_insert (co_mid c) (va_prepare_done a)\<rparr>) s"
    obtain u where u: "view_change_check_prepare (stack_junk E) i u = Inr s'" and k: "keeps ?t u"
    proof (cases resp)
      case None
      then show ?thesis using that [of ?t] p i False by (simp add: view_change_prepare_cb_def Let_def)
    next
      case (Some r)
      show ?thesis
      proof (cases r)
        case (VcReject rj)
        let ?u = "let s' = abort_attempt i ?t in if proposed_vid s' < vcr_newvid rj then s'\<lparr>proposed_vid := vcr_newvid rj\<rparr> else s'"
        have "keeps ?t (abort_attempt i ?t)" by (rule keeps_abort)
        also have "keeps (abort_attempt i ?t) ?u" by (simp add: keeps_def Let_def less_imp_le)
        finally show ?thesis using that [of ?u] p i False Some VcReject
          by (simp add: view_change_prepare_cb_def Let_def)
      next
        case (VcAccept ac)
        have "keeps ?t (note_accept i c ac ?t)" unfolding note_accept_def by (rule keeps_attempt_update)
        then show ?thesis using that [of "note_accept i c ac ?t"] p i False Some VcAccept
          by (simp add: view_change_prepare_cb_def Let_def)
      qed
    qed
    have "keeps s ?t" by (rule keeps_attempt_update)
    also note k
    also have "keeps u s'" using u keeps_check_prepare_loop by (simp add: view_change_check_prepare_def)
    finally show ?thesis .
  qed
qed

end
