(* ===== verification/PmpReach.thy ===== *)
theory PmpReach
  imports PmpSteps
begin

text \<open>
  The handlers keep the invariant; the inputs of a cohort, the states it reaches, and what holds in all of them.
\<close>

section \<open>Handlers\<close>

lemma keeps_execute_done: "execute_done vs reply s = Inr s' \<Longrightarrow> keeps s s'"
proof -
  assume x: "execute_done vs reply s = Inr s'"
  then obtain rle where rle: "log_get vs s = Some rle" by (cases "log_get vs s") (simp_all add: execute_done_def)
  let ?s1 = "entry_update vs (\<lambda>e. e\<lparr>rl_state := RQ_EXECUTED\<rparr>) s"
  let ?s2 = "?s1\<lparr>replycache := (replycache ?s1)(ea_client (rl_arg rle) \<mapsto>
               \<lparr>rc_rid = ea_rid (rl_arg rle), rc_rle = vs, rc_reply = Some reply\<rparr>)\<rparr>"
  have "keeps s ?s1" by (rule keeps_entry_update) simp
  also have "keeps ?s1 ?s2" by (simp add: keeps_def)
  finally have a: "keeps s ?s2" .
  show ?thesis
  proof (cases "rl_sbp rle")
    case None
    then show ?thesis using x rle a by (simp add: execute_done_def Let_def)
  next
    case (Some sbp)
    have "keeps ?s2 (emit (Reply sbp (ReplyExecute (ExecuteOk reply))) ?s2)" by (rule keeps_emit) simp
    also have "keeps (emit (Reply sbp (ReplyExecute (ExecuteOk reply))) ?s2)
        (entry_update vs (\<lambda>e. e\<lparr>rl_sbp := None\<rparr>) (emit (Reply sbp (ReplyExecute (ExecuteOk reply))) ?s2))"
      by (rule keeps_entry_update) simp
    finally show ?thesis using x rle Some keeps_trans [OF a] by (simp add: execute_done_def Let_def)
  qed
qed

lemma keeps_join_view: "keeps s (join_view a s)"
  by (simp add: join_view_def Let_def keeps_def emit_def)

lemma inv_set_committed:
  assumes I: "cohort_inv s" and c: "executed s \<le> c"
  shows "cohort_inv (s\<lparr>latest := l, committed := c\<rparr>)"
proof -
  let ?t = "s\<lparr>latest := l, committed := c\<rparr>"
  note I = cohort_invD [OF I]
  have lg: "logged w ?t \<longleftrightarrow> logged w s" for w by (simp add: logged_def)
  have cv: "covered v ex ?t \<longleftrightarrow> covered v ex s" for v ex by (simp add: covered_def lg)
  have "inv_view ?t" by (rule inv_view_mono [OF I(4)]) (simp_all add: lg)
  moreover have "inv_log ?t" "inv_jumps ?t" "inv_exec ?t" using I(1-3) c
    by (simp_all add: inv_log_def inv_jumps_def inv_exec_def)
  moreover have "inv_pulls ?t" using I(5) by (simp add: inv_pulls_def inv_pull_def lg)
  moreover have "inv_acks ?t" using I(6) by (simp add: inv_acks_def cv)
  moreover have "inv_done ?t" using I(7) by (simp add: inv_done_def done_ok_def cv)
  ultimately show ?thesis by (simp add: cohort_inv_def base_inv_def)
qed

lemma wf_msg_form: "wf_form f \<Longrightarrow> wf_msg (VS (vw_vid (vf_view f)) 0) (form_arg f)"
  by (simp add: wf_form_def wf_msg_def form_arg_def str2form_enc_Nil)

lemma null_vid_least: "ViewId 0 0 \<le> v"
  by (cases v) (auto simp: word_gt_0)

lemma form_above:
  assumes I: "cohort_inv s" and f: "wf_form f" and v: "\<not> valid_view s \<or> vw_vid (view s) < vw_vid (vf_view f)"
  shows "executed s < VS (vw_vid (vf_view f)) 0"
proof -
  have e: "vs_vid (executed s) = (if valid_view s then vw_vid (view s) else ViewId 0 0)"
    using cohort_invD(4) [OF I] by (simp add: inv_view_def)
  have "vs_vid (vf_prev f) < vw_vid (vf_view f)"
    using f by (cases "vf_prev f") (auto simp: wf_form_def)
  then have "ViewId 0 0 < vw_vid (vf_view f)" using null_vid_least le_less_trans by blast
  with e v have "vs_vid (executed s) < vw_vid (vf_view f)" by (auto split: if_splits)
  then show ?thesis by (cases "executed s") simp
qed

context detector
begin

lemma form_view_inv:
  assumes I: "cohort_inv s" and f: "wf_form f" and v: "\<not> valid_view s \<or> vw_vid (view s) < vw_vid (vf_view f)"
    and r: "form_view E f s = Inr s'"
  shows "cohort_inv s'"
proof -
  let ?vs = "VS (vw_vid (vf_view f)) 0"
  let ?ra = "\<lparr>rp_vs = ?vs, rp_arg = form_arg f, rp_committed = ?vs\<rparr>"
  from r obtain s2 s3 where a: "log_append (new_entry ?vs (form_arg f)) (s\<lparr>latest := ?vs, committed := ?vs\<rparr>) = Inr s2"
    and b: "advance_committed E s2 = Inr s3" and s': "s' = fold (send_replicate ?ra) (vw_backups (vf_view f)) s3"
    by (auto simp: form_view_def Let_def split: if_splits)
  have "cohort_inv (s\<lparr>latest := ?vs, committed := ?vs\<rparr>)"
    using inv_set_committed [OF I] form_above [OF I f v] by simp
  then have "cohort_inv s2" by (rule log_append_inv [OF _ _ a]) (simp add: new_entry_def wf_msg_form [OF f])
  from advance_committed_inv [OF this b] have "cohort_inv s3" .
  moreover have "keeps s3 s'" unfolding s' by (rule keeps_fold) (simp add: send_replicate_def keeps_emit)
  ultimately show ?thesis by (rule keeps_inv)
qed

lemma keeps_initiate: "view_change_initiate E joiners s = Inr s' \<Longrightarrow> keeps s s'"
proof -
  assume v: "view_change_initiate E joiners s = Inr s'"
  let ?i = "length (attempts s)"
  let ?ul = "fold (\<lambda>j u. snd (set_insert co_mid j u)) joiners (set_assign co_mid (view2cohorts (view s)))"
  let ?s1 = "s\<lparr>attempts := attempts s @ [new_attempt (stack_junk E) (next_vid s) ?ul], vcattempt := Some ?i, mode := VC_VIEWCHANGE\<rparr>"
  let ?arg = "\<lparr>vca_oldview = view s, vca_newvid = next_vid s\<rparr>"
  show ?thesis
  proof (cases "(\<exists>i. vcattempt s = Some i \<and> \<not> va_aborted (attempts s ! i)) \<or> \<not> is_view_member (co_mid (self s)) s")
    case True
    then have "s' = s" using v by (auto simp: view_change_initiate_def split: if_splits)
    then show ?thesis by simp
  next
    case False
    with v obtain t where t: "on_attempt E ?s1 = Inr t" and f: "res_fold (contact_underling E joiners ?arg ?i) ?ul t = Inr s'"
      by (auto simp: view_change_initiate_def Let_def split: if_splits)
    have "keeps s ?s1" by (simp add: keeps_def)
    also have "keeps ?s1 t" using keeps_quiet attempt_quiet [OF t] by blast
    also have "keeps t s'"
    proof (rule keeps_res_fold [OF _ f])
      fix x u u' assume "contact_underling E joiners ?arg ?i x u = Inr u'"
      then show "keeps u u'"
        using keeps_prepare_cb keeps_emit by (auto simp: contact_underling_def send_view_change_def split: if_splits)
    qed
    finally show ?thesis .
  qed
qed

lemma keeps_letmein: "rep_letmein E sbp c s = Inr s' \<Longrightarrow> keeps s s'"
  using keeps_initiate keeps_trans [OF _ keeps_emit] by (auto simp: rep_letmein_def)

lemma keeps_drop_waiting: "keeps s (drop_waiting rle s)"
proof (cases "rl_sbp rle")
  case (Some old)
  have "keeps s (emit (Ignore old) s)" by (rule keeps_emit) simp
  also have "keeps (emit (Ignore old) s) (entry_update (rl_vs rle) (\<lambda>e. e\<lparr>rl_sbp := None\<rparr>) (emit (Ignore old) s))"
    by (rule keeps_entry_update) simp
  finally show ?thesis by (simp add: drop_waiting_def Some)
qed (simp add: drop_waiting_def)

lemma accept_request_inv:
  assumes I: "cohort_inv s" and r: "accept_request E sbp arg s = Inr s'"
  shows "cohort_inv s'"
proof -
  let ?ack = "\<lparr>received = [co_mid (self s)],
      expected = fold (\<lambda>b. mids_insert (co_mid b)) (vw_backups (view s)) [co_mid (self s)]\<rparr>"
  from r obtain vs s2 where vs: "vs_add (latest s) 1 = Inr vs"
    and a: "log_append ((new_entry vs arg)\<lparr>rl_ack := Some ?ack, rl_sbp := Some sbp\<rparr>) (s\<lparr>latest := vs\<rparr>) = Inr s2"
    and c: "advance_committed E (fold (send_replicate \<lparr>rp_vs = vs, rp_arg = arg, rp_committed = committed s\<rparr>)
              (vw_backups (view s)) (s2\<lparr>replycache := (replycache s2)(ea_client arg \<mapsto>
                \<lparr>rc_rid = ea_rid arg, rc_rle = vs,
                 rc_reply = (case replycache s2 (ea_client arg) of Some rce \<Rightarrow> rc_reply rce | None \<Rightarrow> None)\<rparr>)\<rparr>)) = Inr s'"
    by (auto simp: accept_request_def Let_def)
  have "keeps s (s\<lparr>latest := vs\<rparr>)" by (simp add: keeps_def)
  from keeps_inv [OF I this] have "cohort_inv (s\<lparr>latest := vs\<rparr>)" .
  moreover have "vs_ts vs \<noteq> 0" using vs_add_1 [OF vs] by auto
  ultimately have s2: "cohort_inv s2" using log_append_inv [OF _ _ a] by (simp add: new_entry_def wf_msg_def)
  have "keeps s2 (s2\<lparr>replycache := m\<rparr>)" for m by (simp add: keeps_def)
  also have "keeps t (fold (send_replicate ra) bs t)" for t ra bs
    by (rule keeps_fold) (simp add: send_replicate_def keeps_emit)
  finally show ?thesis using advance_committed_inv [OF keeps_inv [OF s2] c] by blast
qed

lemma execute_request_inv: "cohort_inv s \<Longrightarrow> execute_request E sbp arg s = Inr s' \<Longrightarrow> cohort_inv s'"
  using accept_request_inv keeps_inv [OF _ keeps_emit] by (auto simp: execute_request_def split: if_splits)

lemma rep_execute_cases:
  assumes r: "rep_execute E sbp arg s = Inr s'"
  shows "keeps s s' \<or> (\<exists>t. keeps s t \<and> execute_request E sbp arg t = Inr s')"
proof (cases "mode s \<noteq> VC_ACTIVE \<or> replycache s (ea_client arg) = None")
  case True
  then show ?thesis using r keeps_emit [of "Ignore sbp"] keeps_refl by (auto simp: rep_execute_def split: if_splits)
next
  case False
  then obtain rce where rce: "mode s = VC_ACTIVE" "replycache s (ea_client arg) = Some rce" by auto
  show ?thesis
  proof (cases "rc_rid rce \<noteq> ea_rid arg \<or> log_get (rc_rle rce) s = None")
    case True
    then show ?thesis using r rce keeps_refl by (auto simp: rep_execute_def split: if_splits)
  next
    case False
    then obtain rle where rle: "rc_rid rce = ea_rid arg" "log_get (rc_rle rce) s = Some rle" by auto
    let ?up = "entry_update (rl_vs rle) (\<lambda>e. e\<lparr>rl_sbp := Some sbp\<rparr>) (drop_waiting rle s)"
    have r: "(if rl_state rle = RQ_EXECUTED then
                (case rc_reply rce of None \<Rightarrow> Inl Null_deref | Some x \<Rightarrow> Inr (emit (Reply sbp (ReplyExecute (ExecuteOk x))) s))
              else if \<not> (rl_state rle = RQ_LOGGED \<and> vs_vid (rl_vs rle) < vw_vid (view s)) then Inr ?up
              else execute_request E sbp arg (drop_waiting rle s)) = Inr s'"
      using r rce rle by (simp add: rep_execute_def)
    show ?thesis
    proof (cases "rl_state rle = RQ_EXECUTED")
      case True
      then show ?thesis using r keeps_emit by (cases "rc_reply rce") auto
    next
      case False
      have "keeps s (entry_update v (\<lambda>e. e\<lparr>rl_sbp := x\<rparr>) (drop_waiting rle s))" for v x
        by (rule keeps_trans [OF keeps_drop_waiting keeps_entry_update]) simp
      then show ?thesis using r False keeps_drop_waiting [of s rle] by (auto split: if_splits)
    qed
  qed
qed

lemma rep_execute_inv:
  assumes I: "cohort_inv s" and r: "rep_execute E sbp arg s = Inr s'"
  shows "cohort_inv s'"
  using rep_execute_cases [OF r] keeps_inv [OF I] execute_request_inv by blast

lemma replicate_log_inv:
  assumes I: "cohort_inv s" and w: "wf_msg (rp_vs ra) (rp_arg ra)" and r: "replicate_log E sbp p ra s = Inr s'"
  shows "cohort_inv s'"
proof -
  from r obtain s1 s2
    where a: "(if committed s < rp_vs ra \<and> log_get (rp_vs ra) s = None
               then log_append (new_entry (rp_vs ra) (rp_arg ra)) s else Inr s) = Inr s1"
      and b: "advance_executed E (if committed s1 < rp_committed ra then s1\<lparr>committed := rp_committed ra\<rparr> else s1) = Inr s2"
      and c: "pull_log E p (rp_vs ra) (ReplicatePulldone sbp (rp_vs ra)) s2 = Inr s'"
    by (auto simp: replicate_log_def)
  have "cohort_inv s1" using a I log_append_inv [OF I, of "new_entry (rp_vs ra) (rp_arg ra)"] w
    by (auto simp: new_entry_def split: if_splits)
  then have "cohort_inv (if committed s1 < rp_committed ra then s1\<lparr>committed := rp_committed ra\<rparr> else s1)"
    by (rule keeps_inv) (simp add: keeps_def less_imp_le)
  from pull_log_inv [OF advance_executed_inv [OF this b] _ c] show ?thesis by simp
qed

lemma rep_replicate_inv:
  assumes I: "cohort_inv s" and w: "wf_msg (rp_vs ra) (rp_arg ra)" and r: "rep_replicate E sbp ra s = Inr s'"
  shows "cohort_inv s'"
proof -
  have em: "harmless x \<Longrightarrow> cohort_inv (emit x s)" for x by (rule keeps_inv [OF I keeps_emit])
  from r consider x where "s' = emit x s" "harmless x" | p where "replicate_log E sbp p ra s = Inr s'"
    by (auto simp: rep_replicate_def split: if_splits option.splits)
  then show ?thesis using em replicate_log_inv [OF I w] by cases auto
qed

lemma rep_view_change_keeps:
  assumes r: "rep_view_change E sbp arg s = Inr s'"
  shows "keeps s s'"
proof (cases "(valid_view s \<and> vw_vid (vca_oldview arg) < vw_vid (view s)) \<or> vca_newvid arg < proposed_vid s")
  case True
  then show ?thesis using r keeps_emit by (auto simp: rep_view_change_def)
next
  case False
  with r obtain s1 l where a: "on_attempt E (s\<lparr>mode := VC_VIEWCHANGE\<rparr>) = Inr s1"
    and s': "s' = emit (Reply sbp (ReplyViewChange (VcAccept
      \<lparr>vcc_myid = self s1, vcc_include_me = True, vcc_latest = l, vcc_newview = accepted_view s1\<rparr>)))
      (abort_other (vca_newvid arg) (s1\<lparr>proposed_vid := vca_newvid arg\<rparr>))"
    by (auto simp: rep_view_change_def Let_def)
  have "keeps s (s\<lparr>mode := VC_VIEWCHANGE\<rparr>)" by (simp add: keeps_def)
  also have "keeps (s\<lparr>mode := VC_VIEWCHANGE\<rparr>) s1" using keeps_quiet attempt_quiet [OF a] by blast
  also have "keeps s1 (s1\<lparr>proposed_vid := vca_newvid arg\<rparr>)"
    using False core_of_fields(8) [OF attempt_core [OF a]] by (simp add: keeps_def not_less)
  also note keeps_abort(2) [of "s1\<lparr>proposed_vid := vca_newvid arg\<rparr>" "vca_newvid arg"]
  also have "keeps (abort_other (vca_newvid arg) (s1\<lparr>proposed_vid := vca_newvid arg\<rparr>)) s'"
    unfolding s' by (rule keeps_emit) simp
  finally show ?thesis .
qed

lemma rep_new_view_inv:
  assumes I: "cohort_inv s" and r: "rep_new_view E sbp arg s = Inr s'"
  shows "cohort_inv s'"
proof (cases "(valid_view s \<and> vw_vid (nva_view arg) < vw_vid (view s)) \<or> vw_vid (nva_view arg) < proposed_vid s")
  case True
  then show ?thesis using r keeps_inv [OF I keeps_emit] by (auto simp: rep_new_view_def Let_def)
next
  case False
  with r obtain s1 where a: "on_attempt E (s\<lparr>mode := VC_VIEWCHANGE\<rparr>) = Inr s1"
    and p: "pull_log E (vw_primary (nva_view arg)) (nva_latest arg) (NewViewPulldone sbp)
      ((abort_other (vw_vid (nva_view arg)) s1)\<lparr>accepted_view := Some (nva_view arg)\<rparr>) = Inr s'"
    by (auto simp: rep_new_view_def Let_def)
  have "keeps s (s\<lparr>mode := VC_VIEWCHANGE\<rparr>)" by (simp add: keeps_def)
  also have "keeps (s\<lparr>mode := VC_VIEWCHANGE\<rparr>) s1" using keeps_quiet attempt_quiet [OF a] by blast
  also note keeps_abort(2) [of s1 "vw_vid (nva_view arg)"]
  also have "keeps t (t\<lparr>accepted_view := v\<rparr>)" for t v by (simp add: keeps_def)
  finally have "keeps s ((abort_other (vw_vid (nva_view arg)) s1)\<lparr>accepted_view := Some (nva_view arg)\<rparr>)" .
  from pull_log_inv [OF keeps_inv [OF I this] _ p] show ?thesis by simp
qed

lemma rep_init_view_inv:
  assumes I: "cohort_inv s" and f: "wf_form f" and r: "rep_init_view E sbp f s = Inr s'"
  shows "cohort_inv s'"
proof -
  from r obtain t where t: "(if \<not> valid_view s \<or> vw_vid (view s) < vw_vid (vf_view f) then form_view E f s else Inr s) = Inr t"
    and s': "s' = emit (Reply sbp ReplyVoid) t" by (auto simp: rep_init_view_def)
  have "cohort_inv t" using t I form_view_inv [OF I f] by (auto split: if_splits)
  then show ?thesis unfolding s' by (rule keeps_inv [OF _ keeps_emit]) simp
qed

end

section \<open>What a cohort can receive\<close>

text \<open>
  A request to the server, the answer to a call, the answer of the state machine, the timer that repeats a join, and a
  report that the view is down.  A call answers once at most, but an answer may come at any time, or never.
\<close>

datatype cohort_event =
    EvCall nat rep_call
  | EvBcast nat bcast_call
  | EvReplicate u64 "viewstamp_t option"
  | EvFetchlog nat viewstamp_t "execute_arg option"
  | EvPrepare "nat option" cohort_t "view_change_res option"
  | EvNewview nat cohort_t "bool option"
  | EvExecuted viewstamp_t "byte list"
  | EvJoin sockaddr_in
  | EvDown

definition cohort_step :: "env \<Rightarrow> cohort_event \<Rightarrow> cohort \<Rightarrow> cohort res" where
  "cohort_step E ev s =
     (case ev of
        EvCall sbp c \<Rightarrow> dispatch E sbp c s
      | EvBcast sbp c \<Rightarrow> dispatch_bcast E sbp c s
      | EvReplicate b resp \<Rightarrow> replicate_cb E b resp s
      | EvFetchlog i vs resp \<Rightarrow> fetchlog_cb E i vs resp s
      | EvPrepare i c resp \<Rightarrow> view_change_prepare_cb E i c resp s
      | EvNewview i c resp \<Rightarrow> Inr (view_change_newview_cb i c resp s)
      | EvExecuted vs r \<Rightarrow> execute_done vs r s
      | EvJoin a \<Rightarrow> Inr (join_view a s)
      | EvDown \<Rightarrow> view_is_down E s)"

text \<open>What is asked of the senders; answers to \<open>REP_FETCHLOG\<close> belong to a call that was made.\<close>

definition wf_event :: "cohort \<Rightarrow> cohort_event \<Rightarrow> bool" where
  "wf_event s ev \<longleftrightarrow>
     (case ev of
        EvCall sbp (RepReplicate ra) \<Rightarrow> wf_msg (rp_vs ra) (rp_arg ra)
      | EvCall sbp (RepInitView f) \<Rightarrow> wf_form f
      | EvFetchlog i vs resp \<Rightarrow>
          (\<exists>a. CallFetchlog a vs i \<in> set (outs s)) \<and> (case resp of None \<Rightarrow> True | Some arg \<Rightarrow> wf_msg vs arg)
      | _ \<Rightarrow> True)"

text \<open>Between the events, the failure detector of the version may act: timers, pings, connections.\<close>

inductive cohort_reach :: "env \<Rightarrow> cohort \<Rightarrow> bool" for E :: env where
  start: "cohort_ok me \<Longrightarrow> new_cohort me v0 a = Inr s \<Longrightarrow> cohort_reach E s"
| step: "cohort_reach E s \<Longrightarrow> wf_event s ev \<Longrightarrow> cohort_step E ev s = Inr s' \<Longrightarrow> cohort_reach E s'"
| watch: "cohort_reach E s \<Longrightarrow> quiet s s' \<Longrightarrow> cohort_reach E s'"

lemma new_cohort_inv:
  assumes ok: "cohort_ok me" and n: "new_cohort me v0 a = Inr s"
  shows "cohort_inv s"
proof (cases "sin_port a = 0")
  case False
  have "cohort_inv (blank_cohort me v0)"
    by (simp add: cohort_inv_def base_inv_def inv_log_def inv_jumps_def inv_exec_def inv_view_def inv_pulls_def
        inv_acks_def inv_done_def blank_cohort_def vs_null_def execs_def)
  from keeps_inv [OF this keeps_join_view] show ?thesis using n False by (auto simp: new_cohort_def Let_def)
next
  case True
  define v where "v = \<lparr>vw_vid = ViewId 1 (co_mid me), vw_primary = me, vw_backups = []\<rparr>"
  define f where "f = \<lparr>vf_prev = vs_null, vf_view = v\<rparr>"
  let ?vs = "VS (vw_vid v) 0"
  have w: "wf_form f" using ok by (simp add: wf_form_def f_def v_def form_ok_def view_ok_def vs_null_def)
  let ?s = "(blank_cohort me v0)\<lparr>view := v, latest := ?vs, committed := ?vs, executed := ?vs, valid_view := True, mode := VC_ACTIVE\<rparr>"
  have a: "log_append (new_entry ?vs (form_arg f)) ?s = Inr s"
    using n True by (simp add: new_cohort_def Let_def v_def f_def)
  from log_append_appended [OF a] obtain j where s: "s = ?s\<lparr>log := log ?s @ [new_entry ?vs (form_arg f)], jumps := j\<rparr>"
    by (auto simp: appended_def)
  have wm: "wf_msg ?vs (form_arg f)" using wf_msg_form [OF w] by (simp add: f_def)
  have "inv_jumps s"
    by (rule log_append_jumps [OF _ _ a]) (simp_all add: inv_jumps_def blank_cohort_def new_entry_def wm)
  then show ?thesis using wm unfolding s
    by (auto simp: cohort_inv_def base_inv_def inv_log_def inv_exec_def inv_view_def inv_pulls_def
        inv_acks_def inv_done_def blank_cohort_def new_entry_def execs_def logged_def inv_jumps_def v_def)
qed

context detector
begin

lemma dispatch_inv:
  assumes I: "cohort_inv s" and w: "wf_event s (EvCall sbp c)" and d: "dispatch E sbp c s = Inr s'"
  shows "cohort_inv s'"
proof -
  have em: "harmless x \<Longrightarrow> cohort_inv (emit x s)" for x by (rule keeps_inv [OF I keeps_emit])
  show ?thesis
  proof (cases c)
    case (RepExecute a)
    then show ?thesis using rep_execute_inv [OF I] d by (simp add: dispatch_def)
  next
    case (RepReplicate a)
    then show ?thesis using rep_replicate_inv [OF I] d w by (simp add: dispatch_def wf_event_def)
  next
    case (RepLetmein a)
    then show ?thesis using keeps_inv [OF I keeps_letmein] d by (simp add: dispatch_def)
  next
    case (RepViewChange a)
    then show ?thesis using keeps_inv [OF I rep_view_change_keeps] d by (simp add: dispatch_def)
  next
    case (RepNewView a)
    then show ?thesis using rep_new_view_inv [OF I] d by (simp add: dispatch_def)
  next
    case (RepInitView a)
    then show ?thesis using rep_init_view_inv [OF I] d w by (simp add: dispatch_def wf_event_def)
  next
    case (RepPing a)
    then have p: "on_ping E sbp a s = Inr s'" using d by (simp add: dispatch_def)
    from ping [OF p] obtain ok where c: "core_of s' = core_of s" and o: "outs s' = outs s @ [Reply sbp (ReplyPing ok)]"
      by auto
    have "keeps s s'" using o by (simp add: keeps_def core_of_fields [OF c])
    then show ?thesis by (rule keeps_inv [OF I])
  qed (use d em in \<open>auto simp: dispatch_def rep_viewinfo_def rep_fetchlog_def rep_get_view_def split: option.splits\<close>)
qed

lemma cohort_step_inv:
  assumes I: "cohort_inv s" and w: "wf_event s ev" and d: "cohort_step E ev s = Inr s'"
  shows "cohort_inv s'"
proof (cases ev)
  case (EvCall sbp c)
  then show ?thesis using dispatch_inv [OF I] w d by (simp add: cohort_step_def)
next
  case (EvBcast sbp c)
  have em: "harmless x \<Longrightarrow> cohort_inv (emit x s)" for x by (rule keeps_inv [OF I keeps_emit])
  show ?thesis using EvBcast d em keeps_inv [OF I keeps_letmein]
    by (cases c) (auto simp: cohort_step_def dispatch_bcast_def)
next
  case (EvReplicate b resp)
  then show ?thesis using replicate_cb_inv [OF I] d by (simp add: cohort_step_def)
next
  case (EvFetchlog i vs resp)
  then obtain a where "CallFetchlog a vs i \<in> set (outs s)" using w by (auto simp: wf_event_def)
  moreover have "wf_msg vs arg" if "resp = Some arg" for arg using EvFetchlog w that by (simp add: wf_event_def)
  moreover have "fetchlog_cb E i vs resp s = Inr s'" using EvFetchlog d by (simp add: cohort_step_def)
  ultimately show ?thesis by (rule fetchlog_cb_inv [OF I])
next
  case (EvPrepare i c resp)
  then show ?thesis using keeps_inv [OF I keeps_prepare_cb] d by (simp add: cohort_step_def)
next
  case (EvNewview i c resp)
  then show ?thesis using keeps_inv [OF I keeps_newview_cb] d by (auto simp: cohort_step_def)
next
  case (EvExecuted vs r)
  then show ?thesis using keeps_inv [OF I keeps_execute_done] d by (simp add: cohort_step_def)
next
  case (EvJoin a)
  then show ?thesis using keeps_inv [OF I keeps_join_view] d by (auto simp: cohort_step_def)
next
  case EvDown
  then show ?thesis using keeps_inv [OF I keeps_initiate] d by (simp add: cohort_step_def view_is_down_def)
qed

lemma cohort_reach_inv: "cohort_reach E s \<Longrightarrow> cohort_inv s"
  by (induction rule: cohort_reach.induct) (auto intro: new_cohort_inv cohort_step_inv keeps_inv keeps_quiet)

end

end
