(* ===== verification/PmpDemo.thy ===== *)
theory PmpDemo
  imports PmpReach
begin

text \<open>
  Concrete runs, for the theorems' witnesses: a backup that joins a view, executes a request and hears of an old view, and a
  primary that forms a view and has a request acknowledged.
\<close>

definition demo_me :: cohort_t where
  "demo_me = \<lparr>co_mid = 7, co_addr = \<lparr>na_ipaddr = 1, na_port = 2\<rparr>, co_name = ''a'', co_hypervisor = ''h''\<rparr>"

definition demo_peer :: cohort_t where
  "demo_peer = \<lparr>co_mid = 9, co_addr = \<lparr>na_ipaddr = 3, na_port = 4\<rparr>, co_name = ''b'', co_hypervisor = ''h''\<rparr>"

text \<open>The view of two cohorts whose primary is the peer.\<close>

definition demo_view :: view_t where
  "demo_view = \<lparr>vw_vid = ViewId 2 9, vw_primary = demo_peer, vw_backups = [demo_me]\<rparr>"

definition demo_form :: view_form_t where
  "demo_form = \<lparr>vf_prev = vs_null, vf_view = demo_view\<rparr>"

definition demo_arg :: execute_arg where
  "demo_arg = \<lparr>ea_client = 5, ea_rid = 1, ea_vid = ViewId 2 9, ea_request = [1, 2]\<rparr>"

lemma demo_form_ok: "wf_form demo_form" "cohort_ok demo_me"
  by (simp_all add: char_of_eq_iff wf_form_def form_ok_def view_ok_def cohort_ok_def str_ok_def demo_form_def demo_view_def
      demo_peer_def demo_me_def vs_null_def)

lemma demo_decodes [simp]: "str2form (view_form_t_enc demo_form) = Some demo_form"
  using demo_form_ok str2form_enc_Nil by (simp add: wf_form_def)

lemma demo_form_fields [simp]: "vf_prev demo_form = vs_null" "vf_view demo_form = demo_view"
  by (simp_all add: demo_form_def)

lemma demo_view_fields [simp]:
  "vw_vid demo_view = ViewId 2 9" "vw_primary demo_view = demo_peer" "vw_backups demo_view = [demo_me]"
  by (simp_all add: demo_view_def)

lemma demo_mids [simp]: "co_mid demo_me = 7" "co_mid demo_peer = 9"
  by (simp_all add: demo_me_def demo_peer_def)

definition demo_joined :: cohort where
  "demo_joined = join_view \<lparr>sin_addr = 1, sin_port = 5\<rparr> (blank_cohort demo_me demo_view)"

definition demo_env :: env where
  "demo_env = falcon_env demo_me"

definition demo_ra0 :: replicate_arg where
  "demo_ra0 = \<lparr>rp_vs = VS (ViewId 2 9) 0, rp_arg = form_arg demo_form, rp_committed = VS (ViewId 2 9) 0\<rparr>"

definition demo_ra1 :: replicate_arg where
  "demo_ra1 = \<lparr>rp_vs = VS (ViewId 2 9) 1, rp_arg = demo_arg, rp_committed = VS (ViewId 2 9) 1\<rparr>"

definition demo_stale :: replicate_arg where
  "demo_stale = \<lparr>rp_vs = VS (ViewId 1 9) 3, rp_arg = demo_arg, rp_committed = VS (ViewId 1 9) 2\<rparr>"

definition demo_form0 :: view_form_t where
  "demo_form0 = \<lparr>vf_prev = vs_null, vf_view = \<lparr>vw_vid = ViewId 1 9, vw_primary = demo_peer, vw_backups = []\<rparr>\<rparr>"

definition demo_form1 :: view_form_t where
  "demo_form1 = \<lparr>vf_prev = VS (ViewId 1 9) 0, vf_view = demo_view\<rparr>"

lemma demo_forms_ok: "wf_form demo_form0" "wf_form demo_form1" "cohort_ok demo_peer"
  by (simp_all add: char_of_eq_iff wf_form_def form_ok_def view_ok_def cohort_ok_def str_ok_def demo_form0_def
      demo_form1_def demo_view_def demo_peer_def demo_me_def vs_null_def)

lemma demo_forms_decode [simp]:
  "str2form (view_form_t_enc demo_form0) = Some demo_form0" "str2form (view_form_t_enc demo_form1) = Some demo_form1"
  using demo_forms_ok str2form_enc_Nil by (simp_all add: wf_form_def)

lemma demo_forms_fields [simp]:
  "vf_prev demo_form0 = vs_null" "vw_vid (vf_view demo_form0) = ViewId 1 9"
  "vf_prev demo_form1 = VS (ViewId 1 9) 0" "vf_view demo_form1 = demo_view"
  by (simp_all add: demo_form0_def demo_form1_def)

lemmas demo_defs = cohort_step_def dispatch_def rep_replicate_def replicate_log_def log_append_def
  vs_jumps_update_def log_insert_def new_entry_def advance_executed_def executed_loop.simps execute_entry_def
  install_view_def vs_next_def vs_add_def log_get_def entry_update_def pull_log_def pull_upto_def pull_range_def
  fetchlog_check_def advance_committed_def committed_loop.simps fetch_bottom_def fetch_finish_def pull_update_def
  call_donecb_def replicate_pulldone_def emit_def abort_current_def falcon_env_def falcon_on_new_view_def
  falcon_watch_def form_arg_def vs_null_def Let_def
  join_view_def blank_cohort_def is_view_member_def INADDR_BROADCAST_def new_cohort_def set_contains_def demo_env_def view_members_def


lemma demo_join: "new_cohort demo_me demo_view \<lparr>sin_addr = 1, sin_port = 5\<rparr> = Inr demo_joined"
  by (simp add: new_cohort_def demo_joined_def)

lemma two_le_one [simp]: "\<not> (2 :: u64) \<le> 1" "\<not> (2 :: u32) \<le> 1"
  by (simp_all add: word_le_nat_alt)

lemma demo_form0_decodes [simp]:
  "str2form (view_form_t_enc \<lparr>vf_prev = VS (ViewId 0 0) 0,
      vf_view = \<lparr>vw_vid = ViewId 1 9, vw_primary = demo_peer, vw_backups = []\<rparr>\<rparr>) = Some demo_form0"
  using demo_forms_decode(1) by (simp add: demo_form0_def vs_null_def)

text \<open>The primary: its own group, the view of two, a request, and the answer of its backup.\<close>

definition demo_q0 :: cohort where
  "demo_q0 = (blank_cohort demo_peer demo_view)
     \<lparr>log := [new_entry (VS (ViewId 1 9) 0) (form_arg demo_form0)], jumps := [vs_null \<mapsto> VS (ViewId 1 9) 0],
      view := vf_view demo_form0, latest := VS (ViewId 1 9) 0, committed := VS (ViewId 1 9) 0,
      executed := VS (ViewId 1 9) 0, valid_view := True, mode := VC_ACTIVE\<rparr>"

lemma demo_primary: "new_cohort demo_peer demo_view \<lparr>sin_addr = 1, sin_port = 0\<rparr> = Inr demo_q0"
  by (simp add: demo_defs demo_q0_def demo_form0_def)

definition demo_q1 :: cohort where
  "demo_q1 = demo_q0
     \<lparr>log := [new_entry (VS (ViewId 1 9) 0) (form_arg demo_form0),
              (new_entry (VS (ViewId 2 9) 0) (form_arg demo_form1))\<lparr>rl_state := RQ_EXECUTING\<rparr>],
      jumps := [vs_null \<mapsto> VS (ViewId 1 9) 0, VS (ViewId 1 9) 0 \<mapsto> VS (ViewId 2 9) 0],
      view := demo_view, proposed_vid := ViewId 2 9, latest := VS (ViewId 2 9) 0, committed := VS (ViewId 2 9) 0,
      executed := VS (ViewId 2 9) 0,
      outs := [FalconConnect (co_name demo_me) (co_hypervisor demo_me) 7,
               CallReplicate (netaddr2sockaddr (co_addr demo_me))
                 \<lparr>rp_vs = VS (ViewId 2 9) 0, rp_arg = form_arg demo_form1, rp_committed = VS (ViewId 2 9) 0\<rparr> 7,
               Reply 1 ReplyVoid],
      mid2fdfd := (\<lambda>_. 0)(7 := - 1)\<rparr>"

lemma demo_q1_step: "cohort_step demo_env (EvCall 1 (RepInitView demo_form1)) demo_q0 = Inr demo_q1"
  by (simp add: demo_defs demo_q0_def demo_q1_def rep_init_view_def form_view_def send_replicate_def)

definition demo_q2 :: cohort where
  "demo_q2 = demo_q1
     \<lparr>log := log demo_q1 @ [(new_entry (VS (ViewId 2 9) 1) demo_arg)
               \<lparr>rl_ack := Some \<lparr>received = [9], expected = [7, 9]\<rparr>, rl_sbp := Some 2\<rparr>],
      replycache := [5 \<mapsto> \<lparr>rc_rid = 1, rc_rle = VS (ViewId 2 9) 1, rc_reply = None\<rparr>],
      latest := VS (ViewId 2 9) 1,
      outs := outs demo_q1 @
              [CallReplicate (netaddr2sockaddr (co_addr demo_me))
                 \<lparr>rp_vs = VS (ViewId 2 9) 1, rp_arg = demo_arg, rp_committed = VS (ViewId 2 9) 0\<rparr> 7]\<rparr>"

lemmas demo_q = demo_q0_def demo_q1_def demo_q2_def

lemma demo_q2_step: "cohort_step demo_env (EvCall 2 (RepExecute demo_arg)) demo_q1 = Inr demo_q2"
  by (simp add: demo_defs demo_q rep_execute_def execute_request_def accept_request_def send_replicate_def
      demo_arg_def contains_majority_of_def set_insert_def)

text \<open>The second cohort's answer commits the request and has it executed.\<close>

lemma demo_q3_step:
  "\<exists>s. replicate_cb demo_env 7 (Some (VS (ViewId 2 9) 1)) demo_q2 = Inr s \<and> committed s = VS (ViewId 2 9) 1 \<and>
     executed s = VS (ViewId 2 9) 1"
  by (simp add: demo_defs demo_q replicate_cb_def ack_loop.simps demo_arg_def contains_majority_of_def set_insert_def)

section \<open>The backup\<close>

definition demo_b1 :: cohort where
  "demo_b1 = (blank_cohort demo_me demo_view)
     \<lparr>log := [(new_entry (VS (ViewId 2 9) 0) (form_arg demo_form))\<lparr>rl_state := RQ_EXECUTING\<rparr>],
      jumps := [vs_null \<mapsto> VS (ViewId 2 9) 0], mode := VC_ACTIVE, valid_view := True, view := demo_view,
      proposed_vid := ViewId 2 9, committed := VS (ViewId 2 9) 0, executed := VS (ViewId 2 9) 0,
      pulls := [\<lparr>pl_ack = \<lparr>received = [], expected = []\<rparr>, pl_bottomview = ViewId 2 9, pl_src = demo_peer,
                 pl_donecb = CbbNull, pl_ok = True, pl_bottomdone = True\<rparr>],
      outs := outs demo_joined @
              [FalconConnect (co_name demo_peer) (co_hypervisor demo_peer) 9,
               Reply 1 (ReplyReplicate (VS (ViewId 2 9) 0))],
      mid2fdfd := (\<lambda>_. 0)(9 := - 1)\<rparr>"

lemma demo_b1_step: "cohort_step demo_env (EvCall 1 (RepReplicate demo_ra0)) demo_joined = Inr demo_b1"
  by (simp add: demo_defs demo_joined_def demo_b1_def demo_ra0_def)

definition demo_b2 :: cohort where
  "demo_b2 = demo_b1
     \<lparr>log := log demo_b1 @ [(new_entry (VS (ViewId 2 9) 1) demo_arg)\<lparr>rl_state := RQ_EXECUTING\<rparr>],
      committed := VS (ViewId 2 9) 1, executed := VS (ViewId 2 9) 1, pulls := pulls demo_b1 @ pulls demo_b1,
      outs := outs demo_b1 @
              [Exec (ea_request demo_arg) (VS (ViewId 2 9) 1), Reply 2 (ReplyReplicate (VS (ViewId 2 9) 1))]\<rparr>"

lemma demo_b2_step: "cohort_step demo_env (EvCall 2 (RepReplicate demo_ra1)) demo_b1 = Inr demo_b2"
  by (simp add: demo_defs demo_joined_def demo_b1_def demo_b2_def demo_ra1_def)

section \<open>They are reachable\<close>

lemma demo_detector: "detector demo_env"
  unfolding demo_env_def by (rule fal.detector_axioms)

lemma demo_ra_wf: "wf_msg (rp_vs demo_ra0) (rp_arg demo_ra0)" "wf_msg (rp_vs demo_ra1) (rp_arg demo_ra1)"
  by (simp_all add: wf_msg_def demo_ra0_def demo_ra1_def form_arg_def vs_null_def)

lemma demo_b1_reach: "cohort_reach demo_env demo_b1"
  by (rule cohort_reach.step [OF cohort_reach.start [OF demo_form_ok(2) demo_join] _ demo_b1_step])
    (simp add: wf_event_def demo_ra_wf)

lemma demo_b2_reach: "cohort_reach demo_env demo_b2"
  by (rule cohort_reach.step [OF demo_b1_reach _ demo_b2_step]) (simp add: wf_event_def demo_ra_wf)

lemma demo_q1_reach: "cohort_reach demo_env demo_q1"
  by (rule cohort_reach.step [OF cohort_reach.start [OF demo_forms_ok(3) demo_primary] _ demo_q1_step])
    (simp add: wf_event_def demo_forms_ok)

lemma demo_q2_reach: "cohort_reach demo_env demo_q2"
  by (rule cohort_reach.step [OF demo_q1_reach _ demo_q2_step]) (simp add: wf_event_def)

end
