(* ===== verification/PmpProps.thy ===== *)
theory PmpProps
  imports PmpDemo
begin

text \<open>
  What the replicated service promises: requests are executed in the order of their viewstamps, an acknowledgement means
  that the log is complete, a commitment rests on a majority, a view change hears of what a majority holds, a request that is
  sent again is not executed again, and every loop ends; and where the code falls short of it.
\<close>

lemma demo_b2_execs: "execs (outs demo_b2) = [VS (ViewId 2 9) 1]"
  by (simp add: demo_b2_def demo_b1_def demo_joined_def join_view_def blank_cohort_def is_view_member_def execs_def
      emit_def Let_def)

section \<open>Order of execution and acknowledgements\<close>

text \<open>
  C7. In every state a cohort reaches, with any of the three detectors and whatever arrives, the requests handed to the state
  machine are those of log entries, in strictly increasing order of their viewstamps, so none is handed over twice; none is
  beyond what has been executed, and nothing is executed before it is committed.
\<close>

theorem executes_in_order:
  assumes "detector E" and "cohort_reach E s"
  shows "sorted_wrt (<) (execs (outs s)) \<and> executed s \<le> committed s \<and>
    (\<forall>r v. Exec r v \<in> set (outs s) \<longrightarrow> v \<le> executed s \<and> (\<exists>e \<in> set (log s). rl_vs e = v \<and> ea_request (rl_arg e) = r))"
proof -
  have I: "inv_exec s" using detector.cohort_reach_inv [OF assms] by (rule cohort_invD(3))
  have "v \<in> set (execs (outs s))" if "Exec r v \<in> set (outs s)" for r v
    using that by (auto simp: execs_def intro!: bexI [of _ "Exec r v"])
  with I show ?thesis by (auto simp: inv_exec_def)
qed

theorem executes_in_order_witness:
  "execs (outs demo_b2) = [VS (ViewId 2 9) 1] \<and> sorted_wrt (<) (execs (outs demo_b2)) \<and>
    executed demo_b2 \<le> committed demo_b2"
  using executes_in_order [OF demo_detector demo_b2_reach] demo_b2_execs by blast

lemma acks_logged:
  assumes "detector E" and "cohort_reach E s" and "Reply sbp (ReplyReplicate vs) \<in> set (outs s)"
    and "vs_vid vs \<noteq> ViewId 0 0"
  shows "vs_vid vs < vs_vid (executed s) \<or> (\<forall>t \<le> vs_ts vs. log_get (VS (vs_vid vs) t) s \<noteq> None)"
proof -
  note I = detector.cohort_reach_inv [OF assms(1,2)]
  have c: "covered vs {} s" using cohort_invD(6) [OF I] assms(3) by (auto simp: inv_acks_def)
  have "logged (VS (vs_vid vs) t) s"
    if n: "\<not> vs_vid vs < vs_vid (executed s)" and t: "t \<le> vs_ts vs" for t
  proof (cases "logged (VS (vs_vid vs) t) s")
    case False
    with c n t have le: "VS (vs_vid vs) t \<le> executed s" by (auto simp: covered_def)
    with n have e: "vs_vid vs = vs_vid (executed s)" "t \<le> vs_ts (executed s)"
      by (cases "executed s"; auto)+
    have "valid_view s" using cohort_invD(4) [OF I] assms(4) e by (auto simp: inv_view_def split: if_splits)
    with cohort_invD(4) [OF I] e show ?thesis by (auto simp: inv_view_def)
  qed
  then show ?thesis by (auto simp: log_get_None)
qed

text \<open>
  C13. A cohort that has acknowledged a viewstamp has all the entries of that view up to it in its log, unless it has executed
  the formation of a later view.
\<close>

theorem acknowledged_is_logged:
  assumes "detector E" and "cohort_reach E s" and "Reply sbp (ReplyReplicate vs) \<in> set (outs s)"
    and "vs_vid vs \<noteq> ViewId 0 0"
  shows "vs_vid vs < vs_vid (executed s) \<or> (\<forall>t \<le> vs_ts vs. log_get (VS (vs_vid vs) t) s \<noteq> None)"
  by (rule acks_logged [OF assms])

theorem acknowledged_is_logged_witness:
  "log_get (VS (ViewId 2 9) 0) demo_b2 \<noteq> None \<and> log_get (VS (ViewId 2 9) 1) demo_b2 \<noteq> None"
  using acknowledged_is_logged [OF demo_detector demo_b2_reach, of 2 "VS (ViewId 2 9) 1"]
  by (simp add: demo_b2_def)



section \<open>The loops end\<close>

lemma res_bind_Inl_iff: "res_bind m f = Inl e \<longleftrightarrow> m = Inl e \<or> (\<exists>x. m = Inr x \<and> f x = Inl e)"
  by (cases m) simp_all

text \<open>Entries at or above a viewstamp: the measure of the loops.\<close>

definition above :: "viewstamp_t \<Rightarrow> cohort \<Rightarrow> viewstamp_t set" where
  "above vs s = {v \<in> rl_vs ` set (log s). vs \<le> v}"

lemma finite_above [simp]: "finite (above vs s)"
  by (simp add: above_def)

lemma above_less: "logged vs s \<Longrightarrow> vs < vs' \<Longrightarrow> card (above vs' s) < card (above vs s)"
proof -
  assume l: "logged vs s" and lt: "vs < vs'"
  have "above vs' s \<subseteq> above vs s" using lt by (auto simp: above_def)
  moreover have "vs \<in> above vs s" "vs \<notin> above vs' s" using l lt by (auto simp: above_def logged_def)
  ultimately have "above vs' s \<subset> above vs s" by blast
  then show ?thesis by (simp add: psubset_card_mono)
qed

lemma above_cong: "keys (log s') = keys (log s) \<Longrightarrow> above vs s' = above vs s"
  using keys_logged [of s' s] by (auto simp: above_def logged_def)

lemma above_length: "card (above vs s) \<le> length (log s)"
proof -
  have "card (above vs s) \<le> card (rl_vs ` set (log s))" by (rule card_mono) (auto simp: above_def)
  also have "\<dots> \<le> length (log s)" using card_image_le card_length le_trans by blast
  finally show ?thesis .
qed

lemma above_pos: "logged vs s \<Longrightarrow> 0 < card (above vs s)"
  by (auto simp: card_gt_0_iff above_def logged_def)

lemma vs_next_no_spin: "vs_next v s \<noteq> Inl Spin"
  by (auto simp: vs_next_def vs_add_def Let_def split: option.splits)

lemma keys_entry_update:
  "(\<And>e. rl_vs (f e) = rl_vs e \<and> rl_arg (f e) = rl_arg e) \<Longrightarrow> keys (log (entry_update v f s)) = keys (log s)"
  by (simp add: entry_update_def keys_update_first)

lemma latest_loop_ends:
  "inv_jumps s \<Longrightarrow> card (above vs s) \<le> n \<Longrightarrow> latest_loop s n vs acc \<noteq> Inl Spin"
proof (induction n arbitrary: vs acc)
  case 0
  then have "\<not> logged vs s" using above_pos by fastforce
  then show ?case by (subst latest_loop.simps) (simp add: log_get_None [symmetric] option.case_eq_if)
next
  case (Suc n)
  show ?case
  proof (cases "log_get vs s")
    case None
    then show ?thesis by (subst latest_loop.simps) simp
  next
    case (Some rle)
    have "latest_loop s n vs' vs \<noteq> Inl Spin" if "vs_next vs s = Inr vs'" for vs'
    proof -
      have "card (above vs' s) < card (above vs s)"
        using above_less [OF logged_get [OF Some] vs_next_less [OF Suc.prems(1) that]] .
      then show ?thesis using Suc.IH [OF Suc.prems(1), of vs' vs] Suc.prems(2) by simp
    qed
    with Some show ?thesis
      by (subst latest_loop.simps) (auto simp: res_bind_Inl_iff vs_next_no_spin)
  qed
qed

lemma ack_loop_ends:
  "inv_jumps s \<Longrightarrow> card (above vs s) \<le> n \<Longrightarrow> ack_loop b bound n vs s \<noteq> Inl Spin"
proof (induction n arbitrary: vs s)
  case 0
  then have "\<not> logged vs s" using above_pos by fastforce
  then show ?case by (subst ack_loop.simps) (simp add: log_get_None [symmetric] option.case_eq_if)
next
  case (Suc n)
  let ?t = "entry_update vs (\<lambda>e. e\<lparr>rl_ack := map_option (\<lambda>a. a\<lparr>received := mids_insert b (received a)\<rparr>) (rl_ack e)\<rparr>) s"
  have j: "inv_jumps ?t" using Suc.prems(1) by (simp add: inv_jumps_def entry_update_def)
  have k: "keys (log ?t) = keys (log s)" by (rule keys_entry_update) simp
  show ?case
  proof (cases "log_get vs s")
    case None
    then show ?thesis by (subst ack_loop.simps) simp
  next
    case (Some rle)
    have "ack_loop b bound n vs' ?t \<noteq> Inl Spin" if "vs_next vs ?t = Inr vs'" for vs'
    proof -
      have "vs_next vs s = Inr vs'" using that by (simp add: vs_next_def entry_update_def)
      from above_less [OF logged_get [OF Some] vs_next_less [OF Suc.prems(1) this]]
      have "card (above vs' ?t) < card (above vs s)" using above_cong [OF k] by simp
      then show ?thesis using Suc.IH [OF j] Suc.prems(2) by simp
    qed
    with Some show ?thesis
      by (subst ack_loop.simps) (auto simp: res_bind_Inl_iff vs_next_no_spin Let_def)
  qed
qed

lemma committed_loop_ends:
  "inv_jumps s \<Longrightarrow> card (above vs s) \<le> n \<Longrightarrow> committed_loop n vs s \<noteq> Inl Spin"
proof (induction n arbitrary: vs s)
  case 0
  then have "\<not> logged vs s" using above_pos by fastforce
  then show ?case by (subst committed_loop.simps) (simp add: log_get_None [symmetric] option.case_eq_if)
next
  case (Suc n)
  let ?t = "entry_update vs (\<lambda>e. e\<lparr>rl_ack := None, rl_state := RQ_COMMITTED\<rparr>) (s\<lparr>committed := vs\<rparr>)"
  have j: "inv_jumps ?t" using Suc.prems(1) by (simp add: inv_jumps_def entry_update_def)
  have k: "keys (log ?t) = keys (log s)"
    using keys_entry_update [of "\<lambda>e. e\<lparr>rl_ack := None, rl_state := RQ_COMMITTED\<rparr>" vs "s\<lparr>committed := vs\<rparr>"] by simp
  show ?case
  proof (cases "log_get vs s")
    case None
    then show ?thesis by (subst committed_loop.simps) simp
  next
    case (Some rle)
    have "committed_loop n vs' ?t \<noteq> Inl Spin" if "vs_next vs ?t = Inr vs'" for vs'
    proof -
      have "vs_next vs s = Inr vs'" using that by (simp add: vs_next_def entry_update_def)
      from above_less [OF logged_get [OF Some] vs_next_less [OF Suc.prems(1) this]]
      have "card (above vs' ?t) < card (above vs s)" using above_cong [OF k] by simp
      then show ?thesis using Suc.IH [OF j] Suc.prems(2) by simp
    qed
    with Some show ?thesis
      by (subst committed_loop.simps) (auto simp: res_bind_Inl_iff vs_next_no_spin Let_def split: option.splits)
  qed
qed

context detector
begin

lemma executed_loop_ends:
  assumes q: "\<And>s. on_new_view E s \<noteq> Inl Spin"
  shows "inv_jumps s \<Longrightarrow> card (above vs s) \<le> n \<Longrightarrow> executed_loop E n vs s \<noteq> Inl Spin"
proof (induction n arbitrary: vs s)
  case 0
  then have "\<not> logged vs s" using above_pos by fastforce
  then show ?case by (subst executed_loop.simps) (simp add: log_get_None [symmetric] option.case_eq_if)
next
  case (Suc n)
  show ?case
  proof (cases "log_get vs s")
    case None
    then show ?thesis by (subst executed_loop.simps) simp
  next
    case (Some rle)
    have x: "execute_entry E rle s \<noteq> Inl Spin"
      by (auto simp: execute_entry_def install_view_def q Let_def split: option.splits)
    have "executed_loop E n vs' t \<noteq> Inl Spin"
      if s1: "execute_entry E rle s = Inr s1"
        and t: "t = entry_update vs (\<lambda>e. e\<lparr>rl_state := RQ_EXECUTING\<rparr>) (s1\<lparr>executed := vs\<rparr>)"
        and n: "vs_next vs t = Inr vs'" for s1 t vs'
    proof -
      note f = execute_entry_fields [OF s1]
      have j: "inv_jumps t" using Suc.prems(1) by (simp add: inv_jumps_def entry_update_def t f)
      have k: "keys (log t) = keys (log s)"
        using keys_entry_update [of "\<lambda>e. e\<lparr>rl_state := RQ_EXECUTING\<rparr>" vs "s1\<lparr>executed := vs\<rparr>"] by (simp add: t f)
      have "vs_next vs s = Inr vs'" using n by (simp add: vs_next_def entry_update_def t f)
      from above_less [OF logged_get [OF Some] vs_next_less [OF Suc.prems(1) this]]
      have "card (above vs' t) < card (above vs s)" using above_cong [OF k] by simp
      then show ?thesis using Suc.IH [OF j] Suc.prems(2) by simp
    qed
    with Some x show ?thesis
      by (subst executed_loop.simps) (auto simp: res_bind_Inl_iff vs_next_no_spin Let_def)
  qed
qed

end

text \<open>The recursion of the view change manager.\<close>

definition same_attempt :: "nat \<Rightarrow> cohort \<Rightarrow> cohort \<Rightarrow> bool" where
  "same_attempt i s s' \<longleftrightarrow>
     length (attempts s') = length (attempts s) \<and> view s' = view s \<and>
     (let a = attempts s ! i; b = attempts s' ! i in
      va_newview b = va_newview a \<and> va_prepare_accepted b = va_prepare_accepted a \<and>
      va_vcaccepts b = va_vcaccepts a \<and> va_proposed_vid b = va_proposed_vid a)"

lemma same_attempt_fields:
  assumes "same_attempt i s s'"
  shows "length (attempts s') = length (attempts s)" "view s' = view s"
    "va_newview (attempts s' ! i) = va_newview (attempts s ! i)"
    "va_prepare_accepted (attempts s' ! i) = va_prepare_accepted (attempts s ! i)"
    "va_vcaccepts (attempts s' ! i) = va_vcaccepts (attempts s ! i)"
    "va_proposed_vid (attempts s' ! i) = va_proposed_vid (attempts s ! i)"
  using assms by (auto simp: same_attempt_def Let_def)

lemma same_attempt_trans: "same_attempt i s t \<Longrightarrow> same_attempt i t u \<Longrightarrow> same_attempt i s u"
  by (auto simp: same_attempt_def Let_def)

lemma merge_underling_same: "i < length (attempts s) \<Longrightarrow> same_attempt i s (merge_underling i arg u s)"
  by (cases "set_insert co_mid u (va_underlings (attempts s ! i))")
    (simp add: same_attempt_def merge_underling_def send_view_change_def emit_def attempt_update_def)

lemma merge_fold_same:
  "i < length (attempts s) \<Longrightarrow> same_attempt i s (fold (merge_underling i arg) us s)"
proof (induction us arbitrary: s)
  case Nil
  show ?case by (simp add: same_attempt_def)
next
  case (Cons u us)
  note a = merge_underling_same [OF Cons.prems]
  with Cons.prems have "i < length (attempts (merge_underling i arg u s))" by (simp add: same_attempt_def)
  from same_attempt_trans [OF a Cons.IH [OF this]] show ?case by simp
qed

lemma merge_newview_same:
  assumes "i < length (attempts s)"
  shows "same_attempt i s (merge_newview i nv s) \<and> va_merged_vid (attempts (merge_newview i nv s) ! i) = vw_vid nv"
proof -
  let ?arg = "\<lparr>vca_oldview = view s, vca_newvid = va_proposed_vid (attempts s ! i)\<rparr>"
  let ?t = "fold (merge_underling i ?arg) (view2cohorts nv) s"
  have a: "same_attempt i s ?t" by (rule merge_fold_same [OF assms])
  then have i: "i < length (attempts ?t)" using assms by (simp add: same_attempt_def)
  have u: "merge_newview i nv s =
      ?t\<lparr>attempts := (attempts ?t)[i := (attempts ?t ! i)\<lparr>va_merged_vid := vw_vid nv\<rparr>]\<rparr>"
    by (simp add: merge_newview_def attempt_update_def Let_def)
  have "same_attempt i ?t (merge_newview i nv s)" unfolding u using i by (simp add: same_attempt_def)
  with same_attempt_trans [OF a] show ?thesis using i by (simp add: u)
qed

lemma choose_no_spin: "view_change_choose_view junk a \<noteq> Inl Spin"
proof -
  have a: "res_fold (choose_step nv) rs m \<noteq> Inl Spin" for nv rs m
    by (induction rs arbitrary: m) (auto simp: res_bind_Inl_iff choose_step_def check_def split: if_splits)
  have b: "res_fold (place_step c) rs m \<noteq> Inl Spin" for c rs m
    by (induction rs arbitrary: m) (auto simp: res_bind_Inl_iff place_step_def split: if_splits)
  show ?thesis
    using a b by (auto simp: view_change_choose_view_def choose_reported_def choose_accepting_def res_bind_Inl_iff
        Let_def split: option.splits prod.splits if_splits)
qed

lemma choose_and_issue_no_spin: "choose_and_issue junk i s \<noteq> Inl Spin"
  using choose_no_spin by (auto simp: choose_and_issue_def res_bind_Inl_iff)

lemma check_prepare_merged:
  assumes "va_newview (attempts s ! i) = Some nv" and "va_merged_vid (attempts s ! i) = vw_vid nv"
  shows "check_prepare_loop junk n i s \<noteq> Inl Spin"
  using assms choose_and_issue_no_spin
  by (subst check_prepare_loop.simps) (simp add: Let_def)

lemma check_prepare_ends:
  assumes "i < length (attempts s)"
  shows "view_change_check_prepare junk i s \<noteq> Inl Spin"
proof -
  have m: "check_prepare_loop junk (Suc 0) i (merge_newview i nv s) \<noteq> Inl Spin"
    if "va_newview (attempts s ! i) = Some nv" for nv
  proof (rule check_prepare_merged)
    note q = merge_newview_same [OF assms, of nv]
    show "va_newview (attempts (merge_newview i nv s) ! i) = Some nv"
      using same_attempt_fields(3) [OF conjunct1 [OF q]] that by simp
    show "va_merged_vid (attempts (merge_newview i nv s) ! i) = vw_vid nv" using q by simp
  qed
  have two: "(2 :: nat) = Suc (Suc 0)" by simp
  show ?thesis
  proof (cases "va_newview (attempts s ! i)")
    case None
    then show ?thesis unfolding view_change_check_prepare_def
      by (subst check_prepare_loop.simps) (simp add: Let_def choose_and_issue_no_spin)
  next
    case (Some nv)
    then show ?thesis unfolding view_change_check_prepare_def two
      by (subst check_prepare_loop.simps) (simp add: Let_def choose_and_issue_no_spin m)
  qed
qed



end
