(* ===== verification/PmpViews.thy ===== *)
theory PmpViews
  imports PmpProps
begin

text \<open>
  Majorities: what it takes to commit an entry, and what the view that a view change chooses knows.
\<close>

section \<open>Commitment\<close>

text \<open>One viewstamp follows another in the log of a cohort.\<close>

definition succ_vs :: "cohort \<Rightarrow> viewstamp_t \<Rightarrow> viewstamp_t \<Rightarrow> bool" where
  "succ_vs s v w \<longleftrightarrow> vs_next v s = Inr w"

lemma find_update_first_other:
  "vs \<noteq> v \<Longrightarrow> (\<And>e. rl_vs (f e) = rl_vs e) \<Longrightarrow>
   find (\<lambda>e. rl_vs e = v) (update_first (\<lambda>e. rl_vs e = vs) f es) = find (\<lambda>e. rl_vs e = v) es"
  by (induction es) auto

lemma log_get_other:
  "vs \<noteq> v \<Longrightarrow> (\<And>e. rl_vs (f e) = rl_vs e) \<Longrightarrow> log_get v (entry_update vs f s) = log_get v s"
  by (simp add: log_get_def entry_update_def find_update_first_other)

lemma succ_vs_less:
  assumes "inv_jumps s" and "(succ_vs s)\<^sup>*\<^sup>* v w"
  shows "v \<le> w"
  using assms(2)
proof (induction rule: rtranclp_induct)
  case (step y z)
  then show ?case using vs_next_less [OF assms(1), of y z] by (simp add: succ_vs_def)
qed simp

lemma succ_vs_head:
  assumes "(succ_vs s)\<^sup>*\<^sup>* v w" and "v \<noteq> w" and "vs_next v s = Inr u"
  shows "(succ_vs s)\<^sup>*\<^sup>* u w"
  using assms(1)
proof (cases rule: converse_rtranclpE)
  case base
  then show ?thesis using assms(2) by simp
next
  case (step y)
  then show ?thesis using assms(3) by (simp add: succ_vs_def)
qed

lemma committed_loop_majority:
  assumes "inv_jumps s" and "committed s < vs" and "committed_loop n vs s = Inr s'"
    and "(succ_vs s)\<^sup>*\<^sup>* vs v" and "v \<le> committed s'"
  shows "\<exists>e a. log_get v s = Some e \<and> rl_ack e = Some a \<and> majority (received a) (expected a)"
  using assms
proof (induction n arbitrary: vs s)
  case 0
  from "0.prems"(3) have "s' = s"
    by (subst (asm) committed_loop.simps) (auto split: if_splits option.splits)
  with 0 succ_vs_less [OF "0.prems"(1,4)] show ?case by simp
next
  case (Suc n)
  let ?t = "entry_update vs (\<lambda>e. e\<lparr>rl_ack := None, rl_state := RQ_COMMITTED\<rparr>) (s\<lparr>committed := vs\<rparr>)"
  have le: "vs \<le> v" using succ_vs_less [OF Suc.prems(1,4)] .
  from Suc.prems(3) consider "s' = s"
    | e a vs' where "log_get vs s = Some e" "rl_ack e = Some a" "majority (received a) (expected a)"
        "vs_next vs ?t = Inr vs'" "committed_loop n vs' ?t = Inr s'"
    by (subst (asm) committed_loop.simps) (auto simp: Let_def split: if_splits option.splits)
  then show ?case
  proof cases
    case 1
    then show ?thesis using Suc.prems(2,5) le by simp
  next
    case (2 e a vs')
    have j: "inv_jumps ?t" using Suc.prems(1) by (simp add: inv_jumps_def entry_update_def)
    have n: "vs_next w ?t = vs_next w s" for w by (simp add: vs_next_def entry_update_def)
    have su: "succ_vs ?t = succ_vs s" by (intro ext) (simp add: succ_vs_def n)
    show ?thesis
    proof (cases "v = vs")
      case True
      then show ?thesis using 2 by blast
    next
      case False
      have "vs_next vs s = Inr vs'" using 2(4) by (simp add: n)
      from succ_vs_head [OF Suc.prems(4) _ this] False have r: "(succ_vs ?t)\<^sup>*\<^sup>* vs' v" by (simp add: su)
      have "committed ?t < vs'" using vs_next_less [OF j 2(4)] by (simp add: entry_update_def)
      from Suc.IH [OF j this 2(5) r Suc.prems(5)] obtain e' a'
        where e': "log_get v ?t = Some e'" "rl_ack e' = Some a'" "majority (received a') (expected a')" by blast
      have "log_get v ?t = log_get v s" using log_get_other [of vs v] False by (simp add: log_get_def)
      with e' show ?thesis by auto
    qed
  qed
qed

lemma advance_executed_commits: "detector E \<Longrightarrow> advance_executed E s = Inr s' \<Longrightarrow> committed s' = committed s"
  using detector.advance_executed_fields by blast

text \<open>An acknowledgement credits the entries on the way to its viewstamp.\<close>

definition credit :: "u64 \<Rightarrow> request_log_entry \<Rightarrow> request_log_entry" where
  "credit b e = e\<lparr>rl_ack := map_option (\<lambda>a. a\<lparr>received := mids_insert b (received a)\<rparr>) (rl_ack e)\<rparr>"

lemma find_update_first_same:
  "(\<And>e. rl_vs (f e) = rl_vs e) \<Longrightarrow>
   find (\<lambda>e. rl_vs e = vs) (update_first (\<lambda>e. rl_vs e = vs) f es) = map_option f (find (\<lambda>e. rl_vs e = vs) es)"
  by (induction es) auto

lemma log_get_same:
  "(\<And>e. rl_vs (f e) = rl_vs e) \<Longrightarrow> log_get vs (entry_update vs f s) = map_option f (log_get vs s)"
  by (simp add: log_get_def entry_update_def find_update_first_same)

lemma ack_loop_below:
  assumes "inv_jumps s" and "ack_loop b bound n vs s = Inr t" and "v < vs"
  shows "log_get v t = log_get v s"
  using assms
proof (induction n arbitrary: vs s)
  case 0
  then have "t = s" by (subst (asm) ack_loop.simps) (auto split: if_splits option.splits)
  then show ?case by simp
next
  case (Suc n)
  let ?t = "entry_update vs (\<lambda>e. e\<lparr>rl_ack := map_option (\<lambda>a. a\<lparr>received := mids_insert b (received a)\<rparr>) (rl_ack e)\<rparr>) s"
  have j: "inv_jumps ?t" using Suc.prems(1) by (simp add: inv_jumps_def entry_update_def)
  from Suc.prems(2) consider "t = s" | vs' where "vs_next vs ?t = Inr vs'" "ack_loop b bound n vs' ?t = Inr t"
    by (subst (asm) ack_loop.simps, cases "vs \<le> bound"; cases "log_get vs s") (auto simp: Let_def)
  then show ?case
  proof cases
    case (2 vs')
    have "v < vs'" using Suc.prems(3) vs_next_less [OF j 2(1)] by (rule less_trans)
    from Suc.IH [OF j 2(2) this] have "log_get v t = log_get v ?t" .
    also have "\<dots> = log_get v s" by (rule log_get_other) (use Suc.prems(3) in auto)
    finally show ?thesis .
  qed simp
qed

lemma ack_loop_credits:
  assumes "inv_jumps s" and "ack_loop b bound n vs s = Inr t" and "(succ_vs s)\<^sup>*\<^sup>* vs v"
  shows "log_get v t = (if v \<le> bound then map_option (credit b) (log_get v s) else log_get v s)"
  using assms
proof (induction n arbitrary: vs s)
  case 0
  then have "t = s \<and> \<not> vs \<le> bound"
    by (subst (asm) ack_loop.simps) (auto split: if_splits option.splits)
  with succ_vs_less [OF "0.prems"(1,3)] show ?case by auto
next
  case (Suc n)
  let ?t = "entry_update vs (\<lambda>e. e\<lparr>rl_ack := map_option (\<lambda>a. a\<lparr>received := mids_insert b (received a)\<rparr>) (rl_ack e)\<rparr>) s"
  have cr: "?t = entry_update vs (credit b) s" by (simp add: credit_def [abs_def])
  have keep: "rl_vs (credit b e) = rl_vs e" for e by (simp add: credit_def)
  have le: "vs \<le> v" using succ_vs_less [OF Suc.prems(1,3)] .
  have j: "inv_jumps ?t" using Suc.prems(1) by (simp add: inv_jumps_def entry_update_def)
  have nx: "vs_next w ?t = vs_next w s" for w by (simp add: vs_next_def entry_update_def)
  have su: "succ_vs ?t = succ_vs s" by (intro ext) (simp add: succ_vs_def nx)
  show ?case
  proof (cases "vs \<le> bound")
    case False
    then have "t = s" using Suc.prems(2) by (subst (asm) ack_loop.simps) simp
    with False le show ?thesis by auto
  next
    case True
    with Suc.prems(2) obtain vs' where n: "vs_next vs ?t = Inr vs'" and l: "ack_loop b bound n vs' ?t = Inr t"
      by (subst (asm) ack_loop.simps, cases "log_get vs s") (auto simp: Let_def)
    have lt: "vs < vs'" using vs_next_less [OF j n] .
    show ?thesis
    proof (cases "v = vs")
      case False
      have "vs_next vs s = Inr vs'" using n by (simp add: nx)
      from succ_vs_head [OF Suc.prems(3) _ this] False have r: "(succ_vs ?t)\<^sup>*\<^sup>* vs' v" by (simp add: su)
      have "log_get v ?t = log_get v s" unfolding cr using log_get_other [of vs v "credit b"] False keep by simp
      with Suc.IH [OF j l r] show ?thesis by simp
    next
      case True
      have g: "log_get vs ?t = map_option (credit b) (log_get vs s)" unfolding cr using log_get_same [of "credit b"] keep .
      have "log_get vs t = log_get vs ?t"
        using ack_loop_below [OF j l lt] .
      with g True \<open>vs \<le> bound\<close> show ?thesis by simp
    qed
  qed
qed

text \<open>
  C10. An acknowledgement commits an entry only when a majority of the cohorts it was sent to, the primary included, has acknowledged
  it: whenever the answer of a backup moves the commit point, the backup is a member of the view, and every viewstamp that is passed has an
  entry whose acknowledgements, this one included, contain a majority of those expected.
\<close>

theorem commit_needs_majority:
  assumes "detector E" and "cohort_reach E s" and "replicate_cb E b (Some w) s = Inr s'"
    and "(succ_vs s)\<^sup>*\<^sup>* (committed s) v" and "committed s < v" and "v \<le> committed s'"
  shows "is_view_member b s \<and> co_mid (vw_primary (view s)) = co_mid (self s) \<and>
    (\<exists>e a. log_get v s = Some e \<and> rl_ack e = Some a \<and>
      majority (if v \<le> w then mids_insert b (received a) else received a) (expected a))"
proof -
  have j: "inv_jumps s" using cohort_invD(2) [OF detector.cohort_reach_inv [OF assms(1,2)]] .
  have ne: "s' \<noteq> s" using assms(5,6) by auto
  with assms(3) have m: "is_view_member b s" "co_mid (vw_primary (view s)) = co_mid (self s)"
    by (auto simp: replicate_cb_def split: if_splits)
  from assms(3) ne obtain v0 t where v0: "vs_next (committed s) s = Inr v0"
    and a: "ack_loop b w (length (log s)) v0 s = Inr t" and c: "advance_committed E t = Inr s'"
    by (auto simp: replicate_cb_def split: if_splits)
  have k: "keeps s t" "committed t = committed s" using ack_loop_keeps [OF a] by auto
  have jt: "inv_jumps t" "jumps t = jumps s" using k(1) j by (auto simp: keeps_def inv_jumps_def)
  have su: "succ_vs t = succ_vs s" by (intro ext) (simp add: succ_vs_def vs_next_cong [OF jt(2)])
  from c obtain v1 u where v1: "vs_next (committed t) t = Inr v1" and l: "committed_loop (length (log t)) v1 t = Inr u"
    and x: "advance_executed E u = Inr s'" by (auto simp: advance_committed_def)
  have "v1 = v0" using v1 v0 k(2) vs_next_cong [OF jt(2)] by simp
  have r: "(succ_vs s)\<^sup>*\<^sup>* v0 v" using succ_vs_head [OF assms(4) _ v0] assms(5) by auto
  then have "(succ_vs t)\<^sup>*\<^sup>* v1 v" by (simp add: su \<open>v1 = v0\<close>)
  moreover have "v \<le> committed u" using assms(6) advance_executed_commits [OF assms(1) x] by simp
  ultimately obtain e a where e: "log_get v t = Some e" "rl_ack e = Some a" "majority (received a) (expected a)"
    using committed_loop_majority [OF jt(1) vs_next_less [OF jt(1) v1] l] by blast
  show ?thesis
  proof (cases "v \<le> w")
    case True
    with ack_loop_credits [OF j a r] e(1) have "map_option (credit b) (log_get v s) = Some e" by simp
    then obtain e0 where e0: "log_get v s = Some e0" "e = credit b e0" by (cases "log_get v s") simp_all
    with e(2,3) True m show ?thesis by (auto simp: credit_def)
  next
    case False
    with ack_loop_credits [OF j a r] e(1) have "log_get v s = Some e" by simp
    with e(2,3) False m show ?thesis by auto
  qed
qed

theorem commit_needs_majority_witness:
  "\<exists>e a. log_get (VS (ViewId 2 9) 1) demo_q2 = Some e \<and> rl_ack e = Some a \<and> majority (mids_insert 7 (received a)) (expected a)"
proof -
  obtain s where s: "replicate_cb demo_env 7 (Some (VS (ViewId 2 9) 1)) demo_q2 = Inr s" "committed s = VS (ViewId 2 9) 1"
    using demo_q3_step by blast
  have c: "committed demo_q2 = VS (ViewId 2 9) 0" by (simp add: demo_q)
  have "succ_vs demo_q2 (committed demo_q2) (VS (ViewId 2 9) 1)"
    by (simp add: succ_vs_def vs_next_def vs_add_def c demo_q vs_null_def)
  then have r: "(succ_vs demo_q2)\<^sup>*\<^sup>* (committed demo_q2) (VS (ViewId 2 9) 1)" by blast
  show ?thesis
    using commit_needs_majority [OF demo_detector demo_q2_reach s(1) r] s(2) c by simp
qed

section \<open>The chosen view\<close>

lemma choose_fold:
  assumes "res_fold (choose_step nv) rs m = Inr m'"
  shows "fst m \<le> fst m' \<and> (\<forall>r \<in> set rs. co_mid (vcc_myid r) \<in> view_members nv \<longrightarrow> vcc_latest r \<le> fst m') \<and>
    (m' = m \<or> (\<exists>r \<in> set rs. m' = (vcc_latest r, vcc_myid r)))"
  using assms
proof (induction rs arbitrary: m)
  case (Cons r rs)
  then obtain u where u: "choose_step nv r m = Inr u" "res_fold (choose_step nv) rs u = Inr m'" by auto
  from u(1) have "fst m \<le> fst u \<and> (co_mid (vcc_myid r) \<in> view_members nv \<longrightarrow> vcc_latest r \<le> fst u) \<and>
      (u = m \<or> u = (vcc_latest r, vcc_myid r))"
    by (auto simp: choose_step_def set_contains_def check_def split: if_splits)
  with Cons.IH [OF u(2)] show ?case by auto
qed simp

lemma max_fold:
  "let m' = fold max_step rs m in
    fst m \<le> fst m' \<and> (\<forall>r \<in> set rs. vcc_latest r \<le> fst m') \<and> (m' = m \<or> (\<exists>r \<in> set rs. m' = (vcc_latest r, vcc_myid r)))"
proof (induction rs arbitrary: m)
  case (Cons r rs)
  have "fst m \<le> fst (max_step r m) \<and> vcc_latest r \<le> fst (max_step r m) \<and>
      (max_step r m = m \<or> max_step r m = (vcc_latest r, vcc_myid r))"
    by (auto simp: max_step_def)
  with Cons.IH [of "max_step r m"] show ?case by (auto simp: Let_def)
qed simp

text \<open>The view whose members are asked for their logs: the reported one, or else the manager's own.\<close>

definition asked_view :: "view_change_attempt \<Rightarrow> view_t \<Rightarrow> view_t" where
  "asked_view a v = (case va_newview a of Some nv \<Rightarrow> nv | None \<Rightarrow> v)"

lemma choose_latest:
  assumes "view_change_choose_view junk a = Inr a'" and "r \<in> set (va_vcaccepts a)"
    and "co_mid (vcc_myid r) \<in> view_members (asked_view a v)"
  shows "vcc_latest r \<le> nva_latest (va_nvarg a')"
proof (cases "va_newview a")
  case None
  then show ?thesis using assms max_fold [of "va_vcaccepts a" "(vs_null, junk)"]
    by (auto simp: view_change_choose_view_def choose_accepting_def Let_def split: prod.splits if_splits)
next
  case (Some nv)
  with assms(1) obtain m where m: "res_fold (choose_step nv) (va_vcaccepts a) (vs_null, junk) = Inr m"
    and "nva_latest (va_nvarg a') = fst m"
    by (auto simp: view_change_choose_view_def choose_reported_def Let_def)
  with choose_fold [OF m] assms(2,3) Some show ?thesis by (auto simp: asked_view_def)
qed

lemma choose_keeps:
  "view_change_choose_view junk a = Inr a' \<Longrightarrow> a' = a\<lparr>va_nvarg := va_nvarg a'\<rparr> \<and> vw_vid (nva_view (va_nvarg a')) = va_proposed_vid a"
proof -
  have p: "vw_vid (fst m') = vw_vid (fst m)" if "res_fold (place_step c) rs m = Inr m'" for c rs m m'
    by (rule res_fold_invariant [OF that, of "\<lambda>x. vw_vid (fst x) = vw_vid (fst m)"])
      (auto simp: place_step_def split: if_splits)
  show "view_change_choose_view junk a = Inr a' \<Longrightarrow> ?thesis"
    using p by (auto simp: view_change_choose_view_def choose_reported_def choose_accepting_def Let_def
        split: option.splits prod.splits if_splits; fastforce)
qed

text \<open>Where a new view is issued from.\<close>

fun is_new_view :: "effect \<Rightarrow> bool" where
  "is_new_view (CallNewView a nv i u) = True"
| "is_new_view _ = False"

definition new_views :: "effect list \<Rightarrow> effect list" where
  "new_views xs = filter is_new_view xs"

lemma new_views_merge: "new_views (outs (merge_newview i nv s)) = new_views (outs s)"
proof -
  have u: "new_views (outs (merge_underling i arg u t)) = new_views (outs t)" for arg u t
    by (cases "set_insert co_mid u (va_underlings (attempts t ! i))")
      (simp add: merge_underling_def send_view_change_def emit_def attempt_update_def new_views_def)
  have "new_views (outs (fold (merge_underling i arg) us t)) = new_views (outs t)" for arg us t
    by (induction us arbitrary: t) (simp_all add: u)
  then show ?thesis by (simp add: merge_newview_def attempt_update_def Let_def)
qed

lemma check_prepare_issues:
  assumes "check_prepare_loop junk n i s = Inr s'" and "i < length (attempts s)"
    and "new_views (outs s') \<noteq> new_views (outs s)"
  shows "\<exists>t. same_attempt i s t \<and> new_views (outs t) = new_views (outs s) \<and> choose_and_issue junk i t = Inr s' \<and>
    majority (va_prepare_accepted (attempts s ! i)) (view2mids (view s)) \<and>
    majority (va_prepare_accepted (attempts s ! i)) (view2mids (asked_view (attempts s ! i) (view s)))"
  using assms
proof (induction n arbitrary: s)
  case (0 s)
  let ?a = "attempts s ! i"
  have "same_attempt i s s" by (simp add: same_attempt_def)
  with 0 show ?case
    by (subst (asm) check_prepare_loop.simps)
      (auto simp: Let_def asked_view_def abort_attempt_def split: if_splits option.splits)
next
  case (Suc n)
  let ?a = "attempts s ! i"
  have refl: "same_attempt i s s" by (simp add: same_attempt_def)
  show ?case
  proof (cases "\<exists>nv. va_newview ?a = Some nv \<and> va_merged_vid ?a < vw_vid nv")
    case False
    with Suc.prems refl show ?thesis
      by (subst (asm) check_prepare_loop.simps)
        (auto simp: Let_def asked_view_def abort_attempt_def split: if_splits option.splits)
  next
    case True
    then obtain nv where nv: "va_newview ?a = Some nv" "va_merged_vid ?a < vw_vid nv" by blast
    let ?m = "merge_newview i nv s"
    have "check_prepare_loop junk n i ?m = Inr s'"
      using Suc.prems(1,3) nv
      by (subst (asm) check_prepare_loop.simps) (auto simp: Let_def abort_attempt_def split: if_splits)
    note q = conjunct1 [OF merge_newview_same [OF Suc.prems(2), of nv]]
    note f = same_attempt_fields [OF q]
    have "\<exists>t. same_attempt i ?m t \<and> new_views (outs t) = new_views (outs ?m) \<and> choose_and_issue junk i t = Inr s' \<and>
      majority (va_prepare_accepted (attempts ?m ! i)) (view2mids (view ?m)) \<and>
      majority (va_prepare_accepted (attempts ?m ! i)) (view2mids (asked_view (attempts ?m ! i) (view ?m)))"
      by (rule Suc.IH) (use \<open>check_prepare_loop junk n i ?m = Inr s'\<close> Suc.prems(2,3) f new_views_merge in simp_all)
    then show ?thesis using same_attempt_trans [OF q] by (auto simp: f new_views_merge asked_view_def)
  qed
qed

lemma issued_new_view:
  assumes c: "choose_and_issue junk i t = Inr s'" and i: "i < length (attempts t)"
    and n: "CallNewView ad nv j u \<in> set (outs s')" "CallNewView ad nv j u \<notin> set (outs t)"
  shows "\<exists>a. view_change_choose_view junk (attempts t ! i) = Inr a \<and> nv = va_nvarg a \<and> j = i"
proof -
  from c obtain a where a: "view_change_choose_view junk (attempts t ! i) = Inr a"
    and s': "s' = view_change_issue_newview i (attempt_update i (\<lambda>_. a) t)"
    by (auto simp: choose_and_issue_def)
  have "outs (fold (\<lambda>u. emit (CallNewView (netaddr2sockaddr (co_addr u)) nv0 i u)) us s0) =
      outs s0 @ map (\<lambda>u. CallNewView (netaddr2sockaddr (co_addr u)) nv0 i u) us" for us s0 nv0
    by (induction us arbitrary: s0) (simp_all add: emit_def)
  then have "outs s' = outs t @ map (\<lambda>u. CallNewView (netaddr2sockaddr (co_addr u)) (va_nvarg a) i u) (va_underlings a)"
    using i by (simp add: s' view_change_issue_newview_def Let_def attempt_update_def)
  with n a show ?thesis by auto
qed

text \<open>A view change of which both members have been heard, for the witness.\<close>

definition demo_report :: "cohort_t \<Rightarrow> view_change_accept" where
  "demo_report c = \<lparr>vcc_myid = c, vcc_include_me = True, vcc_latest = VS (ViewId 2 9) 1, vcc_newview = None\<rparr>"

definition demo_attempt :: view_change_attempt where
  "demo_attempt = (new_attempt demo_me (ViewId 3 9) [demo_me, demo_peer])
     \<lparr>va_prepare_accepted := [7, 9], va_prepare_done := [7, 9], va_vcaccepts := [demo_report demo_me, demo_report demo_peer]\<rparr>"

definition demo_vc :: cohort where
  "demo_vc = demo_q2\<lparr>attempts := [demo_attempt], vcattempt := Some 0\<rparr>"

definition demo_nv :: new_view_arg where
  "demo_nv = \<lparr>nva_latest = VS (ViewId 2 9) 1, nva_view = \<lparr>vw_vid = ViewId 3 9, vw_primary = demo_me, vw_backups = [demo_peer]\<rparr>\<rparr>"

lemma demo_vc_step:
  "\<exists>s. view_change_check_prepare demo_me 0 demo_vc = Inr s \<and>
     CallNewView (netaddr2sockaddr (co_addr demo_me)) demo_nv 0 demo_me \<in> set (outs s)"
  by (simp add: view_change_check_prepare_def check_prepare_loop.simps demo_vc_def demo_attempt_def demo_report_def
      demo_nv_def new_attempt_def demo_q view2mids_def contains_majority_of_def set_insert_def choose_and_issue_def
      view_change_choose_view_def choose_accepting_def max_step_def place_step_def vs_null_def
      view_change_issue_newview_def set_contains_def emit_def attempt_update_def Let_def)

text \<open>
  A view change manager proposes a view only after a majority of its own view, and of the view that was reported to it if there is
  one, has accepted; the view has the proposed id, and its predecessor reaches what the accepting members of some majority report.
\<close>

lemma new_view_reaches:
  assumes "view_change_check_prepare junk i s = Inr s'" and "i < length (attempts s)"
    and "CallNewView ad nv j u \<in> set (outs s')" and "CallNewView ad nv j u \<notin> set (outs s)"
    and honest: "\<forall>m \<in> set (va_prepare_accepted (attempts s ! i)). \<exists>r \<in> set (va_vcaccepts (attempts s ! i)). co_mid (vcc_myid r) = m"
    and sets: "set_ok (\<lambda>k. k) (va_prepare_accepted (attempts s ! i))"
    and G: "majority_of G (view_members (asked_view (attempts s ! i) (view s)))"
    and holds: "\<forall>r \<in> set (va_vcaccepts (attempts s ! i)). co_mid (vcc_myid r) \<in> G \<longrightarrow> vs \<le> vcc_latest r"
  shows "majority_of (set (va_prepare_accepted (attempts s ! i))) (view_members (view s)) \<and>
    vs \<le> nva_latest nv \<and> vw_vid (nva_view nv) = va_proposed_vid (attempts s ! i)"
proof -
  let ?a = "attempts s ! i"
  have "CallNewView ad nv j u \<in> set (new_views (outs s'))" "CallNewView ad nv j u \<notin> set (new_views (outs s))"
    using assms(3,4) by (simp_all add: new_views_def)
  then have "new_views (outs s') \<noteq> new_views (outs s)" by auto
  from check_prepare_issues [OF _ assms(2) this] assms(1) obtain t
    where t: "same_attempt i s t" "new_views (outs t) = new_views (outs s)" "choose_and_issue junk i t = Inr s'"
      and m: "majority (va_prepare_accepted ?a) (view2mids (view s))"
        "majority (va_prepare_accepted ?a) (view2mids (asked_view ?a (view s)))"
    by (auto simp: view_change_check_prepare_def)
  note f = same_attempt_fields [OF t(1)]
  have "CallNewView ad nv j u \<notin> set (outs t)"
  proof
    assume "CallNewView ad nv j u \<in> set (outs t)"
    then have "CallNewView ad nv j u \<in> set (new_views (outs t))" by (simp add: new_views_def)
    with t(2) \<open>CallNewView ad nv j u \<notin> set (new_views (outs s))\<close> show False by simp
  qed
  from issued_new_view [OF t(3) _ assms(3) this] assms(2) f(1) obtain a
    where a: "view_change_choose_view junk (attempts t ! i) = Inr a" and nv: "nv = va_nvarg a" by auto
  have mo: "majority_of (set (va_prepare_accepted ?a)) (view_members (view s))"
    "majority_of (set (va_prepare_accepted ?a)) (view_members (asked_view ?a (view s)))"
    using m majority_iff [OF sets] by simp_all
  from mq.meet [OF _ mo(2) G] obtain p where p: "p \<in> set (va_prepare_accepted ?a)" "p \<in> G"
    "p \<in> view_members (asked_view ?a (view s))" by auto
  with honest obtain r where r: "r \<in> set (va_vcaccepts ?a)" "co_mid (vcc_myid r) = p" by blast
  have "vcc_latest r \<le> nva_latest nv"
    unfolding nv by (rule choose_latest [OF a, of r "view s"]) (use r p f in \<open>simp_all add: asked_view_def\<close>)
  moreover have "vs \<le> vcc_latest r" using holds r p by blast
  ultimately have "vs \<le> nva_latest nv" by (rule order_trans [rotated])
  moreover have "vw_vid (nva_view nv) = va_proposed_vid ?a" using choose_keeps [OF a] by (simp add: nv f)
  ultimately show ?thesis using mo(1) by blast
qed

end
