(* ===== verification/PmpPromise.thy ===== *)
theory PmpPromise
  imports PmpViews
begin

text \<open>
  What a cohort does not take back: execution and views go forward, what it has promised to a view change is given up only for the
  formation of a later view, and what it has logged without a gap is what it reports to a view change.
\<close>

section \<open>Going forward\<close>

definition jumps_logged :: "cohort \<Rightarrow> bool" where
  "jumps_logged s \<longleftrightarrow> (\<forall>p n. jumps s p = Some n \<longrightarrow> logged n s)"

definition advances :: "cohort \<Rightarrow> cohort \<Rightarrow> bool" where
  "advances s s' \<longleftrightarrow>
     executed s \<le> executed s' \<and> (valid_view s \<longrightarrow> valid_view s') \<and> (jumps_logged s \<longrightarrow> jumps_logged s') \<and>
     (proposed_vid s \<le> proposed_vid s' \<or> vs_vid (executed s) < vs_vid (executed s')) \<and>
     (\<exists>xs. outs s' = outs s @ xs)"

lemma advances_refl [simp]: "advances s s"
  by (simp add: advances_def)

lemma advances_trans [trans]: "advances s t \<Longrightarrow> advances t u \<Longrightarrow> advances s u"
  using le_vs_vid [of "executed s" "executed t"] le_vs_vid [of "executed t" "executed u"]
  unfolding advances_def by fastforce

lemma advances_same:
  assumes "executed s' = executed s" "valid_view s' = valid_view s" "proposed_vid s' = proposed_vid s"
    "jumps s' = jumps s" "keys (log s') = keys (log s)" "\<exists>xs. outs s' = outs s @ xs"
  shows "advances s s'"
  using assms keys_logged [OF assms(5)] by (simp add: advances_def jumps_logged_def)

lemma keeps_advances: "keeps s s' \<Longrightarrow> advances s s'"
  using keys_logged [of s' s] by (auto simp: keeps_def advances_def jumps_logged_def)

lemma log_append_advances: "log_append e s = Inr s' \<Longrightarrow> advances s s'"
proof -
  assume "log_append e s = Inr s'"
  then obtain t where t: "vs_jumps_update e s = Inr t" and s': "s' = log_insert e t"
    by (auto simp: log_append_def)
  have f: "log t = log s" "outs t = outs s" "executed t = executed s" "valid_view t = valid_view s" "proposed_vid t = proposed_vid s"
    "jumps t p = Some n \<Longrightarrow> jumps s p = Some n \<or> n = rl_vs e" for p n
    using t by (auto simp: vs_jumps_update_def split: if_splits option.splits)
  have "jumps_logged s \<Longrightarrow> jumps_logged s'"
    using f(6) unfolding jumps_logged_def s' by (force simp: log_insert_def logged_def f(1))
  then show ?thesis by (simp add: advances_def s' log_insert_def f(2-5))
qed

lemma formation_later: "v < w \<Longrightarrow> vs_ts w = 0 \<Longrightarrow> vs_vid v < vs_vid w"
  by (cases v; cases w) auto

context detector
begin

lemma execute_entry_advances:
  assumes j: "inv_jumps s" and n: "vs_next (executed s) s = Inr vs" and g: "log_get vs s = Some rle"
    and x: "execute_entry E rle s = Inr s1"
  shows "advances s (s1\<lparr>executed := vs\<rparr>)"
proof -
  have lt: "executed s < vs" using vs_next_less [OF j n] .
  have v: "rl_vs rle = vs" using log_get_Some [OF g] by simp
  note f = execute_entry_fields [OF x]
  have jl: "jumps_logged s \<Longrightarrow> jumps_logged (s1\<lparr>executed := vs\<rparr>)" by (simp add: jumps_logged_def logged_def f)
  show ?thesis
  proof (cases "vs_ts vs = 0")
    case False
    then have "s1 = emit (Exec (ea_request (rl_arg rle)) vs) s" using x v by (simp add: execute_entry_def)
    then show ?thesis using lt jl by (simp add: advances_def emit_def)
  next
    case True
    with x v obtain fm where "install_view E fm s = Inr s1"
      by (auto simp: execute_entry_def split: option.splits)
    from install_view_fields(5,10) [OF this] formation_later [OF lt True] lt jl
    show ?thesis by (auto simp: advances_def)
  qed
qed

lemma executed_loop_advances:
  "inv_jumps s \<Longrightarrow> vs_next (executed s) s = Inr vs \<Longrightarrow> executed_loop E n vs s = Inr s' \<Longrightarrow>
   advances s s' \<and> jumps s' = jumps s"
proof (induction n arbitrary: vs s)
  case 0
  then show ?case by (subst (asm) executed_loop.simps) (auto split: if_splits option.splits)
next
  case (Suc n)
  show ?case
  proof (cases "vs \<le> committed s \<and> log_get vs s \<noteq> None")
    case False
    then have "s' = s" using Suc.prems(3) by (subst (asm) executed_loop.simps) (auto split: if_splits)
    then show ?thesis by simp
  next
    case True
    then obtain rle where g: "log_get vs s = Some rle" by blast
    let ?u = "\<lambda>t. entry_update vs (\<lambda>e. e\<lparr>rl_state := RQ_EXECUTING\<rparr>) (t\<lparr>executed := vs\<rparr>)"
    from Suc.prems(3) True g obtain s1 vs'
      where x: "execute_entry E rle s = Inr s1" and n: "vs_next vs (?u s1) = Inr vs'"
        and l: "executed_loop E n vs' (?u s1) = Inr s'"
      by (subst (asm) executed_loop.simps) (auto simp: Let_def)
    note f = execute_entry_fields [OF x]
    have u: "jumps (?u s1) = jumps s" "executed (?u s1) = vs" by (simp_all add: entry_update_def f)
    have ih: "advances (?u s1) s' \<and> jumps s' = jumps (?u s1)"
      by (rule Suc.IH [OF _ _ l]) (use Suc.prems(1) n u in \<open>simp_all add: inv_jumps_def\<close>)
    have "advances s (s1\<lparr>executed := vs\<rparr>)" by (rule execute_entry_advances [OF Suc.prems(1,2) g x])
    also have "advances (s1\<lparr>executed := vs\<rparr>) (?u s1)" by (rule keeps_advances [OF keeps_entry_update]) simp
    also note conjunct1 [OF ih]
    finally show ?thesis using u ih by simp
  qed
qed

lemma advance_executed_advances:
  "inv_jumps s \<Longrightarrow> advance_executed E s = Inr s' \<Longrightarrow> advances s s' \<and> jumps s' = jumps s"
  using executed_loop_advances by (auto simp: advance_executed_def)

lemma advance_committed_advances:
  assumes j: "inv_jumps s" and a: "advance_committed E s = Inr s'"
  shows "advances s s' \<and> jumps s' = jumps s"
proof -
  from a obtain vs t where v: "vs_next (committed s) s = Inr vs" and c: "committed_loop (length (log s)) vs s = Inr t"
    and x: "advance_executed E t = Inr s'" by (auto simp: advance_committed_def)
  have k: "keeps s t" using committed_loop_keeps [OF j vs_next_less [OF j v] c] by simp
  then have "jumps t = jumps s" by (simp add: keeps_def)
  with advance_executed_advances [OF _ x] j advances_trans [OF keeps_advances [OF k]]
  show ?thesis by (simp add: inv_jumps_def)
qed

lemma replicate_cb_advances:
  assumes j: "inv_jumps s" and r: "replicate_cb E b resp s = Inr s'"
  shows "advances s s'"
proof -
  from r consider "s' = s" | vs v0 t where "ack_loop b vs (length (log s)) v0 s = Inr t" "advance_committed E t = Inr s'"
    by (auto simp: replicate_cb_def split: option.splits if_splits)
  then show ?thesis
  proof cases
    case (2 vs v0 t)
    have k: "keeps s t" using ack_loop_keeps [OF 2(1)] by simp
    then have "inv_jumps t" using j by (simp add: keeps_def inv_jumps_def)
    with advance_committed_advances [OF _ 2(2)] show ?thesis using advances_trans [OF keeps_advances [OF k]] by blast
  qed simp
qed

end

section \<open>Pulling\<close>

text \<open>Fetching sends and keeps accounts; the rest of the state is as it was.\<close>

definition only_pulls :: "cohort \<Rightarrow> cohort \<Rightarrow> bool" where
  "only_pulls s s' \<longleftrightarrow>
     executed s' = executed s \<and> valid_view s' = valid_view s \<and> proposed_vid s' = proposed_vid s \<and>
     jumps s' = jumps s \<and> log s' = log s \<and> (\<exists>xs. outs s' = outs s @ xs)"

lemma only_pulls_advances: "only_pulls s s' \<Longrightarrow> advances s s' \<and> jumps s' = jumps s"
  by (auto simp: only_pulls_def intro: advances_same)

lemma only_pulls_trans: "only_pulls s t \<Longrightarrow> only_pulls t u \<Longrightarrow> only_pulls s u"
  by (auto simp: only_pulls_def)

lemma only_pulls_update: "only_pulls s (pull_update i f s)"
  by (simp add: only_pulls_def pull_update_def)

lemma only_pulls_one: "only_pulls s (pull_one i v s)"
  by (simp add: only_pulls_def pull_one_def emit_def pull_update_def)

lemma only_pulls_fold: "only_pulls s (fold (\<lambda>t. pull_one i (f t)) ts s)"
proof (induction ts arbitrary: s)
  case (Cons t ts)
  from only_pulls_trans [OF only_pulls_one Cons.IH] show ?case by simp
qed (simp add: only_pulls_def)

lemma only_pulls_range: "pull_range i base upper s = Inr s' \<Longrightarrow> only_pulls s s'"
proof (cases "base \<le> upper")
  case True
  assume "pull_range i base upper s = Inr s'"
  with True have "s' = fold (\<lambda>t. pull_one i (VS (vs_vid base) (word_of_nat t)))
      [unat (vs_ts base)..<Suc (unat (vs_ts upper))] s"
    by (auto simp: pull_range_def simp del: upt_Suc)
  then show ?thesis by (simp only: only_pulls_fold)
qed (simp add: pull_range_def only_pulls_def)

lemma only_pulls_upto: "pull_upto i upper s = Inr s' \<Longrightarrow> only_pulls s s'"
  using only_pulls_range by (auto simp: pull_upto_def only_pulls_def split: if_splits)

lemma only_pulls_bottom: "fetch_bottom i s = Inr s' \<Longrightarrow> only_pulls s s'"
  using only_pulls_trans [OF only_pulls_update only_pulls_upto] only_pulls_update
  by (auto simp: fetch_bottom_def only_pulls_def split: if_splits option.splits)

lemma only_pulls_finish: "only_pulls s (fetch_finish i s)"
  by (cases "pl_donecb (pulls s ! i)")
    (auto simp: fetch_finish_def only_pulls_def pull_update_def call_donecb_def replicate_pulldone_def
      new_view_pulldone_def emit_def Let_def)

context detector
begin

lemma fetchlog_check_advances:
  assumes j: "inv_jumps s" and f: "fetchlog_check E i s = Inr s'"
  shows "advances s s'"
proof -
  from f obtain s1 s2 where a: "advance_committed E s = Inr s1" and b: "fetch_bottom i s1 = Inr s2"
    and s': "s' = fetch_finish i s2" by (auto simp: fetchlog_check_def)
  note a = advance_committed_advances [OF j a]
  have "only_pulls s1 s'" unfolding s' by (rule only_pulls_trans [OF only_pulls_bottom [OF b] only_pulls_finish])
  from advances_trans [OF conjunct1 [OF a] conjunct1 [OF only_pulls_advances [OF this]]] show ?thesis .
qed

lemma fetchlog_cb_advances:
  assumes j: "inv_jumps s" and w: "\<And>arg. resp = Some arg \<Longrightarrow> wf_msg vs arg" and f: "fetchlog_cb E i vs resp s = Inr s'"
  shows "advances s s'"
proof -
  have up: "advances s s'"
    if a: "advances s t" "inv_jumps t" and c: "fetchlog_check E i (pull_update i g t) = Inr s'" for t g
  proof -
    note u = only_pulls_advances [OF only_pulls_update [of t i g]]
    with a(2) have "inv_jumps (pull_update i g t)" by (simp add: inv_jumps_def)
    from advances_trans [OF advances_trans [OF a(1) conjunct1 [OF u]] fetchlog_check_advances [OF this c]]
    show ?thesis .
  qed
  show ?thesis
  proof (cases "log_get vs s")
    case (Some rle)
    then show ?thesis using f up [of s] j by (simp add: fetchlog_cb_def Let_def)
  next
    case None
    show ?thesis
    proof (cases resp)
      case None
      then show ?thesis using f \<open>log_get vs s = None\<close> up [of s] j by (simp add: fetchlog_cb_def Let_def)
    next
      case (Some arg)
      with f \<open>log_get vs s = None\<close> obtain t where t: "log_append (new_entry vs arg) s = Inr t"
        and c: "fetchlog_check E i (pull_update i
          (\<lambda>p. p\<lparr>pl_ack := (pl_ack p)\<lparr>received := mids_insert vs (received (pl_ack p))\<rparr>\<rparr>) t) = Inr s'"
        by (auto simp: fetchlog_cb_def Let_def)
      have "inv_jumps t" by (rule log_append_jumps [OF j _ t]) (simp add: new_entry_def w [OF Some])
      from up [OF log_append_advances [OF t] this c] show ?thesis .
    qed
  qed
qed

lemma pull_log_advances:
  assumes j: "inv_jumps s" and p: "pull_log E src upper donecb s = Inr s'"
  shows "advances s s'"
proof -
  let ?p = "\<lparr>pl_ack = \<lparr>received = [], expected = []\<rparr>, pl_bottomview = vs_vid upper, pl_src = src,
              pl_donecb = donecb, pl_ok = True, pl_bottomdone = False\<rparr>"
  let ?t = "s\<lparr>pulls := pulls s @ [?p]\<rparr>"
  from p obtain u where u: "pull_upto (length (pulls s)) upper ?t = Inr u"
    and c: "fetchlog_check E (length (pulls s)) u = Inr s'" by (auto simp: pull_log_def Let_def)
  have "only_pulls s ?t" by (simp add: only_pulls_def)
  from only_pulls_advances [OF only_pulls_trans [OF this only_pulls_upto [OF u]]]
  have a: "advances s u" "jumps u = jumps s" by auto
  with j have "inv_jumps u" by (simp add: inv_jumps_def)
  from advances_trans [OF a(1) fetchlog_check_advances [OF this c]] show ?thesis .
qed

end

section \<open>Handlers\<close>

context detector
begin

lemma form_view_advances:
  assumes j: "inv_jumps s" and f: "wf_form f" and r: "form_view E f s = Inr s'"
  shows "advances s s'"
proof -
  let ?vs = "VS (vw_vid (vf_view f)) 0"
  let ?ra = "\<lparr>rp_vs = ?vs, rp_arg = form_arg f, rp_committed = ?vs\<rparr>"
  let ?s1 = "s\<lparr>latest := ?vs, committed := ?vs\<rparr>"
  from r obtain s2 s3 where a: "log_append (new_entry ?vs (form_arg f)) ?s1 = Inr s2"
    and b: "advance_committed E s2 = Inr s3" and s': "s' = fold (send_replicate ?ra) (vw_backups (vf_view f)) s3"
    by (auto simp: form_view_def Let_def split: if_splits)
  have j1: "inv_jumps ?s1" using j by (simp add: inv_jumps_def)
  have "inv_jumps s2" by (rule log_append_jumps [OF j1 _ a]) (simp add: new_entry_def wf_msg_form [OF f])
  note c = advance_committed_advances [OF this b]
  have "advances s ?s1" by (rule advances_same) simp_all
  also note log_append_advances [OF a]
  also note conjunct1 [OF c]
  also have "advances s3 s'"
    unfolding s' by (rule keeps_advances [OF keeps_fold]) (simp add: send_replicate_def keeps_emit)
  finally show ?thesis .
qed

lemma accept_request_advances:
  assumes j: "inv_jumps s" and r: "accept_request E sbp arg s = Inr s'"
  shows "advances s s'"
proof -
  let ?ack = "\<lparr>received = [co_mid (self s)],
      expected = fold (\<lambda>b. mids_insert (co_mid b)) (vw_backups (view s)) [co_mid (self s)]\<rparr>"
  from r obtain vs s2 where vs: "vs_add (latest s) 1 = Inr vs"
    and a: "log_append ((new_entry vs arg)\<lparr>rl_ack := Some ?ack, rl_sbp := Some sbp\<rparr>) (s\<lparr>latest := vs\<rparr>) = Inr s2"
    and c: "advance_committed E (fold (send_replicate \<lparr>rp_vs = vs, rp_arg = arg, rp_committed = committed s\<rparr>)
              (vw_backups (view s)) (s2\<lparr>replycache := (replycache s2)(ea_client arg \<mapsto>
                \<lparr>rc_rid = ea_rid arg, rc_rle = vs,
                 rc_reply = (case replycache s2 (ea_client arg) of Some rce \<Rightarrow> rc_reply rce | None \<Rightarrow> None)\<rparr>)\<rparr>)) = Inr s'"
    by (auto simp: accept_request_def Let_def)
  have "vs_ts vs \<noteq> 0" using vs_add_1 [OF vs] by auto
  then have j2: "inv_jumps s2"
    by (intro log_append_jumps [OF _ _ a]) (use j in \<open>simp_all add: inv_jumps_def new_entry_def wf_msg_def\<close>)
  have k: "keeps s2 (fold (send_replicate ra) bs (s2\<lparr>replycache := m\<rparr>))" for ra bs m
    by (rule keeps_trans [OF _ keeps_fold]) (simp_all add: keeps_def send_replicate_def emit_def)
  have "inv_jumps (fold (send_replicate ra) bs (s2\<lparr>replycache := m\<rparr>))" for ra bs m
    using k [of ra bs m] j2 by (simp add: keeps_def inv_jumps_def)
  note c = advance_committed_advances [OF this c]
  have "advances s (s\<lparr>latest := vs\<rparr>)" by (rule advances_same) simp_all
  also note log_append_advances [OF a]
  also note keeps_advances [OF k]
  also note conjunct1 [OF c]
  finally show ?thesis .
qed

lemma rep_execute_advances:
  assumes j: "inv_jumps s" and r: "rep_execute E sbp arg s = Inr s'"
  shows "advances s s'"
proof -
  have x: "advances t s'" if "inv_jumps t" "execute_request E sbp arg t = Inr s'" for t
    using that accept_request_advances keeps_advances [OF keeps_emit] by (auto simp: execute_request_def split: if_splits)
  have "inv_jumps t" if "keeps s t" for t using that j by (simp add: keeps_def inv_jumps_def)
  with rep_execute_cases [OF r] x keeps_advances advances_trans show ?thesis by blast
qed

lemma replicate_log_advances:
  assumes j: "inv_jumps s" and w: "wf_msg (rp_vs ra) (rp_arg ra)" and r: "replicate_log E sbp p ra s = Inr s'"
  shows "advances s s'"
proof -
  let ?c = "\<lambda>s1. if committed s1 < rp_committed ra then s1\<lparr>committed := rp_committed ra\<rparr> else s1"
  from r obtain s1 s2
    where a: "(if committed s < rp_vs ra \<and> log_get (rp_vs ra) s = None
               then log_append (new_entry (rp_vs ra) (rp_arg ra)) s else Inr s) = Inr s1"
      and b: "advance_executed E (?c s1) = Inr s2"
      and c: "pull_log E p (rp_vs ra) (ReplicatePulldone sbp (rp_vs ra)) s2 = Inr s'"
    by (auto simp: replicate_log_def)
  have j1: "inv_jumps s1" using a j log_append_jumps [OF j, of "new_entry (rp_vs ra) (rp_arg ra)"] w
    by (auto simp: new_entry_def split: if_splits)
  have jc: "inv_jumps (?c s1)" using j1 by (simp add: inv_jumps_def)
  note b = advance_executed_advances [OF jc b]
  have j2: "inv_jumps s2" using jc unfolding inv_jumps_def conjunct2 [OF b] .
  have "advances s s1" using a log_append_advances by (auto split: if_splits)
  also have "advances s1 (?c s1)" by (rule keeps_advances) (simp add: keeps_def less_imp_le)
  also note conjunct1 [OF b]
  also note pull_log_advances [OF j2 c]
  finally show ?thesis .
qed

lemma rep_replicate_advances:
  assumes j: "inv_jumps s" and w: "wf_msg (rp_vs ra) (rp_arg ra)" and r: "rep_replicate E sbp ra s = Inr s'"
  shows "advances s s'"
proof -
  from r consider x where "s' = emit x s" "harmless x" | p where "replicate_log E sbp p ra s = Inr s'"
    by (auto simp: rep_replicate_def split: if_splits option.splits)
  then show ?thesis using keeps_advances [OF keeps_emit] replicate_log_advances [OF j w] by cases auto
qed

lemma rep_new_view_advances:
  assumes j: "inv_jumps s" and r: "rep_new_view E sbp arg s = Inr s'"
  shows "advances s s'"
proof (cases "(valid_view s \<and> vw_vid (nva_view arg) < vw_vid (view s)) \<or> vw_vid (nva_view arg) < proposed_vid s")
  case True
  then show ?thesis using r keeps_advances [OF keeps_emit] by (auto simp: rep_new_view_def Let_def)
next
  case False
  with r obtain s1 where a: "on_attempt E (s\<lparr>mode := VC_VIEWCHANGE\<rparr>) = Inr s1"
    and p: "pull_log E (vw_primary (nva_view arg)) (nva_latest arg) (NewViewPulldone sbp)
      ((abort_other (vw_vid (nva_view arg)) s1)\<lparr>accepted_view := Some (nva_view arg)\<rparr>) = Inr s'"
    by (auto simp: rep_new_view_def Let_def)
  have "keeps s (s\<lparr>mode := VC_VIEWCHANGE\<rparr>)" by (simp add: keeps_def)
  also have "keeps (s\<lparr>mode := VC_VIEWCHANGE\<rparr>) s1" using keeps_quiet attempt_quiet [OF a] by blast
  also note keeps_abort(2) [of s1 "vw_vid (nva_view arg)"]
  also have "keeps t (t\<lparr>accepted_view := v\<rparr>)" for t v by (simp add: keeps_def)
  finally have k: "keeps s ((abort_other (vw_vid (nva_view arg)) s1)\<lparr>accepted_view := Some (nva_view arg)\<rparr>)" .
  then have "inv_jumps ((abort_other (vw_vid (nva_view arg)) s1)\<lparr>accepted_view := Some (nva_view arg)\<rparr>)"
    using j by (simp add: keeps_def inv_jumps_def)
  from advances_trans [OF keeps_advances [OF k] pull_log_advances [OF this p]] show ?thesis .
qed

lemma rep_init_view_advances:
  assumes j: "inv_jumps s" and f: "wf_form f" and r: "rep_init_view E sbp f s = Inr s'"
  shows "advances s s'"
proof -
  from r obtain t where t: "(if \<not> valid_view s \<or> vw_vid (view s) < vw_vid (vf_view f) then form_view E f s else Inr s) = Inr t"
    and s': "s' = emit (Reply sbp ReplyVoid) t" by (auto simp: rep_init_view_def)
  have "advances s t" using t form_view_advances [OF j f] by (auto split: if_splits)
  also have "advances t s'" unfolding s' by (rule keeps_advances [OF keeps_emit]) simp
  finally show ?thesis .
qed

lemma dispatch_advances:
  assumes j: "inv_jumps s" and w: "wf_event s (EvCall sbp c)" and d: "dispatch E sbp c s = Inr s'"
  shows "advances s s'"
proof -
  have em: "harmless x \<Longrightarrow> advances s (emit x s)" for x by (rule keeps_advances [OF keeps_emit])
  show ?thesis
  proof (cases c)
    case (RepExecute a)
    then show ?thesis using rep_execute_advances [OF j] d by (simp add: dispatch_def)
  next
    case (RepReplicate a)
    then show ?thesis using rep_replicate_advances [OF j] d w by (simp add: dispatch_def wf_event_def)
  next
    case (RepLetmein a)
    then show ?thesis using keeps_advances [OF keeps_letmein] d by (simp add: dispatch_def)
  next
    case (RepViewChange a)
    then show ?thesis using keeps_advances [OF rep_view_change_keeps] d by (simp add: dispatch_def)
  next
    case (RepNewView a)
    then show ?thesis using rep_new_view_advances [OF j] d by (simp add: dispatch_def)
  next
    case (RepInitView a)
    then show ?thesis using rep_init_view_advances [OF j] d w by (simp add: dispatch_def wf_event_def)
  next
    case (RepPing a)
    then have p: "on_ping E sbp a s = Inr s'" using d by (simp add: dispatch_def)
    from ping [OF p] obtain ok where c: "core_of s' = core_of s" and o: "outs s' = outs s @ [Reply sbp (ReplyPing ok)]" by auto
    show ?thesis by (rule advances_same) (simp_all add: core_of_fields [OF c] o)
  qed (use d em in \<open>auto simp: dispatch_def rep_viewinfo_def rep_fetchlog_def rep_get_view_def split: option.splits\<close>)
qed

lemma cohort_step_advances:
  assumes I: "cohort_inv s" and w: "wf_event s ev" and d: "cohort_step E ev s = Inr s'"
  shows "advances s s'"
proof -
  note j = cohort_invD(2) [OF I]
  show ?thesis
  proof (cases ev)
    case (EvCall sbp c)
    then show ?thesis using dispatch_advances [OF j] w d by (simp add: cohort_step_def)
  next
    case (EvBcast sbp c)
    have em: "harmless x \<Longrightarrow> advances s (emit x s)" for x by (rule keeps_advances [OF keeps_emit])
    show ?thesis using EvBcast d em keeps_advances [OF keeps_letmein]
      by (cases c) (auto simp: cohort_step_def dispatch_bcast_def)
  next
    case (EvReplicate b resp)
    then show ?thesis using replicate_cb_advances [OF j] d by (simp add: cohort_step_def)
  next
    case (EvFetchlog i vs resp)
    then have w: "wf_msg vs arg" if "resp = Some arg" for arg using w that by (simp add: wf_event_def)
    have "fetchlog_cb E i vs resp s = Inr s'" using EvFetchlog d by (simp add: cohort_step_def)
    from fetchlog_cb_advances [OF j w this] show ?thesis .
  next
    case (EvPrepare i c resp)
    then show ?thesis using keeps_advances [OF keeps_prepare_cb] d by (simp add: cohort_step_def)
  next
    case (EvNewview i c resp)
    then show ?thesis using keeps_advances [OF keeps_newview_cb] d by (auto simp: cohort_step_def)
  next
    case (EvExecuted vs r)
    then show ?thesis using keeps_advances [OF keeps_execute_done] d by (simp add: cohort_step_def)
  next
    case (EvJoin a)
    then show ?thesis using keeps_advances [OF keeps_join_view] d by (auto simp: cohort_step_def)
  next
    case EvDown
    then show ?thesis using keeps_advances [OF keeps_initiate] d by (simp add: cohort_step_def view_is_down_def)
  qed
qed

lemma cohort_reach_jumps: "cohort_reach E s \<Longrightarrow> jumps_logged s"
proof (induction rule: cohort_reach.induct)
  case (start me v0 a s)
  have ja: "log_append e t = Inr s \<Longrightarrow> jumps t = (\<lambda>_. None) \<Longrightarrow> jumps_logged s" for e t
    using log_append_advances [of e t s] by (simp add: advances_def jumps_logged_def)
  have jj: "jumps (join_view a t) = jumps t" for t by (simp add: join_view_def emit_def Let_def)
  show ?case
  proof (cases "sin_port a = 0")
    case True
    then show ?thesis using start(2) by (auto simp: new_cohort_def Let_def blank_cohort_def dest: ja)
  next
    case False
    then show ?thesis using start(2) by (auto simp: new_cohort_def jumps_logged_def jj blank_cohort_def)
  qed
next
  case (step s ev s')
  then show ?case using cohort_step_advances [OF cohort_reach_inv] by (simp add: advances_def)
next
  case (watch s s')
  then show ?case using keeps_advances [OF keeps_quiet] by (simp add: advances_def)
qed

end

section \<open>What a cohort reports\<close>

lemma latest_loop_above:
  assumes j: "inv_jumps s"
  shows "latest_loop s n v acc = Inr l \<Longrightarrow> acc < v \<Longrightarrow> acc \<le> l"
proof (induction n arbitrary: v acc)
  case 0
  then show ?case by (subst (asm) latest_loop.simps) (simp split: option.splits)
next
  case (Suc n)
  show ?case
  proof (cases "log_get v s")
    case None
    then show ?thesis using Suc.prems by (subst (asm) latest_loop.simps) simp
  next
    case (Some rle)
    with Suc.prems obtain v' where v': "vs_next v s = Inr v'" "latest_loop s n v' v = Inr l"
      by (subst (asm) latest_loop.simps) auto
    from Suc.IH [OF v'(2) vs_next_less [OF j v'(1)]] Suc.prems(2) show ?thesis by simp
  qed
qed

lemma latest_loop_covers:
  assumes j: "inv_jumps s" and l: "jumps_logged s"
    and h: "\<And>t. t \<le> vs_ts w \<Longrightarrow> logged (VS (vs_vid w) t) s"
  shows "latest_loop s n v acc = Inr r \<Longrightarrow> vs_next acc s = Inr v \<Longrightarrow> vs_vid acc = vs_vid w \<Longrightarrow> w \<le> r"
proof (induction n arbitrary: v acc)
  have nx: "w < v \<and> logged v s \<or> vs_vid v = vs_vid w \<and> logged v s"
    if n: "vs_next acc s = Inr v" and e: "vs_vid acc = vs_vid w" and lt: "acc < w" for v acc
  proof (cases "jumps s acc")
    case None
    with n have "vs_add acc 1 = Inr v" by (simp add: vs_next_def)
    from vs_add_1 [OF this] have v: "vs_vid v = vs_vid w" "unat (vs_ts v) = Suc (unat (vs_ts acc))" using e by auto
    have "vs_ts acc < vs_ts w" using lt e by (cases acc; cases w) auto
    then have "vs_ts v \<le> vs_ts w" using v(2) by (simp add: word_le_nat_alt word_less_nat_alt)
    with h [of "vs_ts v"] v(1) show ?thesis by (cases v) simp
  next
    case (Some k)
    with n have v: "v = k" "acc < v" "vs_ts v = 0" "logged v s"
      using j l by (auto simp: vs_next_def inv_jumps_def jumps_logged_def)
    from formation_later [OF v(2,3)] e have "w < v" by (cases v; cases w) simp
    with v(4) show ?thesis by simp
  qed
  {
    case 0
    then have nl: "\<not> logged v s \<and> r = acc"
      by (subst (asm) latest_loop.simps) (simp add: log_get_None [symmetric] split: option.splits)
    with nx [OF "0.prems"(2,3)] show ?case by (cases "acc < w") auto
  next
    case (Suc n)
    show ?case
    proof (cases "acc < w")
      case False
      then show ?thesis
        using latest_loop_above [OF j Suc.prems(1) vs_next_less [OF j Suc.prems(2)]] by simp
    next
      case True
      note m = nx [OF Suc.prems(2,3) True]
      then obtain rle where g: "log_get v s = Some rle" by (metis log_get_None not_None_eq)
      with Suc.prems(1) obtain v' where v': "vs_next v s = Inr v'" "latest_loop s n v' v = Inr r"
        by (subst (asm) latest_loop.simps) auto
      show ?thesis
      proof (cases "w < v")
        case True
        then show ?thesis using latest_loop_above [OF j v'(2) vs_next_less [OF j v'(1)]] by simp
      next
        case False
        with m have "vs_vid v = vs_vid w" by auto
        from Suc.IH [OF v'(2,1) this] show ?thesis .
      qed
    qed
  }
qed

lemma latest_covers:
  assumes "inv_jumps s" and "jumps_logged s" and "vs_vid w = vs_vid (executed s)"
    and "\<And>t. t \<le> vs_ts w \<Longrightarrow> logged (VS (vs_vid w) t) s" and "latest_consecutive s = Inr l"
  shows "w \<le> l"
  using assms(5) latest_loop_covers [OF assms(1,2,4)] assms(3) by (auto simp: latest_consecutive_def)

end
