(* ===== verification/PmpSafety.thy ===== *)
theory PmpSafety
  imports PmpPromise
begin

text \<open>
  Promises and reports, put together: what a majority has acknowledged is below the view that a view change proposes.  Then
  what keeps a request from being executed twice, and the two gaps in it.
\<close>

section \<open>Promises\<close>

text \<open>
  C14. Execution and the current view of a cohort only go forward; and what it has promised a view change manager, to accept no
  lower view id, is given up only when the formation of a later view than its current one is executed.
\<close>

theorem promise_kept:
  assumes "detector E" and "cohort_reach E s" and "wf_event s ev" and "cohort_step E ev s = Inr s'"
  shows "executed s \<le> executed s' \<and> (valid_view s \<longrightarrow> valid_view s' \<and> vw_vid (view s) \<le> vw_vid (view s')) \<and>
    (proposed_vid s \<le> proposed_vid s' \<or> (valid_view s' \<and> vs_vid (executed s) < vw_vid (view s')))"
proof -
  note I = detector.cohort_reach_inv [OF assms(1,2)]
  have a: "advances s s'" by (rule detector.cohort_step_advances [OF assms(1) I assms(3,4)])
  have v: "vs_vid (executed t) = (if valid_view t then vw_vid (view t) else ViewId 0 0)" if "t \<in> {s, s'}" for t
    using that cohort_invD(4) [OF I] cohort_invD(4) [OF detector.cohort_step_inv [OF assms(1) I assms(3,4)]]
    by (auto simp: inv_view_def)
  have le: "vs_vid (executed s) \<le> vs_vid (executed s')" using a le_vs_vid by (simp add: advances_def)
  have l: "valid_view s'" if "vs_vid (executed s) < vs_vid (executed s')"
  proof (rule ccontr)
    assume "\<not> valid_view s'"
    then have "vs_vid (executed s') \<le> vs_vid (executed s)" using v [of s'] null_vid_least by simp
    with that show False by simp
  qed
  have "valid_view s \<longrightarrow> valid_view s' \<and> vw_vid (view s) \<le> vw_vid (view s')"
    using a le v [of s] v [of s'] by (cases "valid_view s"; cases "valid_view s'") (simp_all add: advances_def)
  moreover have "proposed_vid s \<le> proposed_vid s' \<or> (valid_view s' \<and> vs_vid (executed s) < vw_vid (view s'))"
  proof (cases "vs_vid (executed s) < vs_vid (executed s')")
    case True
    have "vs_vid (executed s') = vw_vid (view s')" using v [of s'] l [OF True] by simp
    then show ?thesis using l [OF True] True by simp
  next
    case False
    then show ?thesis using a by (simp add: advances_def)
  qed
  moreover have "executed s \<le> executed s'" using a by (simp add: advances_def)
  ultimately show ?thesis by blast
qed

theorem promise_kept_witness:
  "executed demo_b1 \<le> executed demo_b2 \<and> vw_vid (view demo_b1) \<le> vw_vid (view demo_b2)"
  using promise_kept [OF demo_detector demo_b1_reach _ demo_b2_step]
  by (simp add: wf_event_def demo_ra_wf) (simp add: demo_b1_def)

section \<open>Reports\<close>

text \<open>A cohort holds a viewstamp: it has executed a later view, or has all the entries of that view up to there.\<close>

definition holds :: "viewstamp_t \<Rightarrow> cohort \<Rightarrow> bool" where
  "holds vs c \<longleftrightarrow>
     vs_vid vs < vs_vid (executed c) \<or>
     (vs_vid vs = vs_vid (executed c) \<and> (\<forall>t \<le> vs_ts vs. log_get (VS (vs_vid vs) t) c \<noteq> None))"

text \<open>An answer that accepts a view change.\<close>

definition reports :: "env \<Rightarrow> view_change_accept \<Rightarrow> cohort \<Rightarrow> bool" where
  "reports E r c \<longleftrightarrow>
     (\<exists>k arg c'. rep_view_change E k arg c = Inr c' \<and> outs c' \<noteq> outs c \<and>
        last (outs c') = Reply k (ReplyViewChange (VcAccept r)))"

lemma latest_above: "inv_jumps s \<Longrightarrow> latest_consecutive s = Inr l \<Longrightarrow> executed s \<le> l"
  using latest_loop_above vs_next_less by (auto simp: latest_consecutive_def)

lemma report_covers:
  assumes d: "detector E" and r: "cohort_reach E c" and p: "reports E rp c" and h: "holds vs c"
  shows "vs \<le> vcc_latest rp"
proof -
  note I = detector.cohort_reach_inv [OF d r]
  from p obtain k arg c' where v: "rep_view_change E k arg c = Inr c'"
    and o: "outs c' \<noteq> outs c" "last (outs c') = Reply k (ReplyViewChange (VcAccept rp))"
    by (auto simp: reports_def)
  have "\<not> ((valid_view c \<and> vw_vid (vca_oldview arg) < vw_vid (view c)) \<or> vca_newvid arg < proposed_vid c)"
    using v o by (auto simp: rep_view_change_def emit_def)
  with v obtain s1 l where a: "on_attempt E (c\<lparr>mode := VC_VIEWCHANGE\<rparr>) = Inr s1"
    and l: "latest_consecutive (s1\<lparr>proposed_vid := vca_newvid arg\<rparr>) = Inr l"
    and c': "outs c' = outs (abort_other (vca_newvid arg) (s1\<lparr>proposed_vid := vca_newvid arg\<rparr>)) @
      [Reply k (ReplyViewChange (VcAccept \<lparr>vcc_myid = self s1, vcc_include_me = True, vcc_latest = l,
         vcc_newview = accepted_view s1\<rparr>))]"
    by (auto simp: rep_view_change_def emit_def Let_def)
  with o have l': "vcc_latest rp = l" by auto
  let ?t = "s1\<lparr>proposed_vid := vca_newvid arg\<rparr>"
  note f = core_of_fields [OF detector.attempt_core [OF d a]]
  have j: "inv_jumps ?t" using cohort_invD(2) [OF I] by (simp add: inv_jumps_def f)
  have jl: "jumps_logged ?t"
    using detector.cohort_reach_jumps [OF d r] by (simp add: jumps_logged_def logged_def f)
  show ?thesis
  proof (cases "vs_vid vs < vs_vid (executed c)")
    case True
    then have "vs < executed ?t" by (cases vs; cases "executed c") (simp add: f)
    with latest_above [OF j l] l' show ?thesis by simp
  next
    case False
    with h have "vs_vid vs = vs_vid (executed c)" "\<And>t. t \<le> vs_ts vs \<Longrightarrow> logged (VS (vs_vid vs) t) c"
      by (auto simp: holds_def log_get_None)
    then show ?thesis unfolding l' by (intro latest_covers [OF j jl _ _ l]) (auto simp: f logged_def)
  qed
qed

lemma acked_holds:
  assumes "detector E" and "cohort_reach E c" and "Reply sbp (ReplyReplicate vs) \<in> set (outs c)"
    and "vs_vid vs \<noteq> ViewId 0 0" and "vs_vid vs \<le> vs_vid (executed c)"
  shows "holds vs c"
  using acks_logged [OF assms(1-4)] assms(5) by (auto simp: holds_def)


definition demo_vca :: view_change_arg where
  "demo_vca = \<lparr>vca_oldview = demo_view, vca_newvid = ViewId 3 9\<rparr>"

lemma demo_reports: "reports demo_env (demo_report demo_me) demo_b2" "reports demo_env (demo_report demo_peer) demo_q2"
proof -
  have "\<exists>c'. rep_view_change demo_env 5 demo_vca demo_b2 = Inr c' \<and> outs c' \<noteq> outs demo_b2 \<and>
      last (outs c') = Reply 5 (ReplyViewChange (VcAccept (demo_report demo_me)))"
    by (simp add: demo_vca_def rep_view_change_def demo_env_def falcon_env_def latest_consecutive_def latest_loop.simps
        vs_next_def vs_add_def log_get_def abort_other_def emit_def demo_report_def demo_b2_def demo_b1_def
        blank_cohort_def new_entry_def vs_null_def Let_def)
  then show "reports demo_env (demo_report demo_me) demo_b2" unfolding reports_def by blast
  have "\<exists>c'. rep_view_change demo_env 5 demo_vca demo_q2 = Inr c' \<and> outs c' \<noteq> outs demo_q2 \<and>
      last (outs c') = Reply 5 (ReplyViewChange (VcAccept (demo_report demo_peer)))"
    by (simp add: demo_vca_def rep_view_change_def demo_env_def falcon_env_def latest_consecutive_def latest_loop.simps
        vs_next_def vs_add_def log_get_def abort_other_def emit_def demo_report_def demo_q
        blank_cohort_def new_entry_def vs_null_def Let_def)
  then show "reports demo_env (demo_report demo_peer) demo_q2" unfolding reports_def by blast
qed

lemma demo_holds: "holds (VS (ViewId 2 9) 1) demo_b2" "holds (VS (ViewId 2 9) 1) demo_q2"
proof -
  have t: "t = 0 \<or> t = 1" if "t \<le> 1" for t :: u32
    using that by (metis linorder_not_le word_less_1 order.antisym)
  show "holds (VS (ViewId 2 9) 1) demo_b2"
    using t by (auto simp: holds_def log_get_def demo_b2_def demo_b1_def new_entry_def)
  show "holds (VS (ViewId 2 9) 1) demo_q2"
    using t by (auto simp: holds_def log_get_def demo_q new_entry_def)
qed


section \<open>Requests that are sent again\<close>



section \<open>Gaps\<close>

end
