(* ===== verification/PmpGaps.thy ===== *)
theory PmpGaps
  imports PmpSafety
begin

text \<open>
  Where the protocol falls short: an old primary's message is acknowledged without being logged, a request may be executed
  twice around a change of primary, a promise is given up, and a choice of view aborts.
\<close>

section \<open>Messages of an old view\<close>

context detector
begin

lemma executed_loop_keys: "executed_loop E n vs s = Inr s' \<Longrightarrow> keys (log s') = keys (log s)"
proof (induction n arbitrary: vs s)
  case 0
  then show ?case by (subst (asm) executed_loop.simps) (auto split: if_splits option.splits)
next
  case (Suc n)
  show ?case
  proof (cases "vs \<le> committed s \<and> log_get vs s \<noteq> None")
    case False
    then show ?thesis using Suc.prems by (subst (asm) executed_loop.simps) (auto split: if_splits)
  next
    case True
    then obtain rle where g: "log_get vs s = Some rle" by blast
    from Suc.prems True g obtain s1 vs'
      where x: "execute_entry E rle s = Inr s1"
        and l: "executed_loop E n vs' (entry_update vs (\<lambda>e. e\<lparr>rl_state := RQ_EXECUTING\<rparr>) (s1\<lparr>executed := vs\<rparr>)) = Inr s'"
      by (subst (asm) executed_loop.simps) (auto simp: Let_def)
    from Suc.IH [OF l] execute_entry_fields [OF x] show ?thesis
      by (simp add: entry_update_def keys_update_first)
  qed
qed

lemma advance_executed_keys: "advance_executed E s = Inr s' \<Longrightarrow> keys (log s') = keys (log s)"
  using executed_loop_keys by (auto simp: advance_executed_def)

lemma advance_committed_keys:
  assumes j: "inv_jumps s" and a: "advance_committed E s = Inr s'"
  shows "keys (log s') = keys (log s)"
proof -
  from a obtain vs t where v: "vs_next (committed s) s = Inr vs" and c: "committed_loop (length (log s)) vs s = Inr t"
    and x: "advance_executed E t = Inr s'" by (auto simp: advance_committed_def)
  have "keeps s t" using committed_loop_keeps [OF j vs_next_less [OF j v] c] by simp
  then show ?thesis using advance_executed_keys [OF x] by (simp add: keeps_def)
qed

text \<open>Fetching up to a viewstamp of an earlier view fetches nothing and is done at once.\<close>

lemma pull_log_stale:
  assumes I: "cohort_inv s" and lt: "vs_vid vs < vs_vid (executed s)"
    and p: "pull_log E src vs (ReplicatePulldone sbp vs) s = Inr s'"
  shows "Reply sbp (ReplyReplicate vs) \<in> set (outs s') \<and> keys (log s') = keys (log s)"
proof -
  let ?i = "length (pulls s)"
  let ?p = "\<lparr>pl_ack = \<lparr>received = [], expected = []\<rparr>, pl_bottomview = vs_vid vs, pl_src = src,
              pl_donecb = ReplicatePulldone sbp vs, pl_ok = True, pl_bottomdone = False\<rparr>"
  let ?t = "s\<lparr>pulls := pulls s @ [?p]\<rparr>"
  from p lt obtain s1 s2 where a: "advance_committed E ?t = Inr s1" and b: "fetch_bottom ?i s1 = Inr s2"
    and s': "s' = fetch_finish ?i s2"
    by (auto simp: pull_log_def fetchlog_check_def pull_upto_def Let_def)
  have jt: "inv_jumps ?t" using cohort_invD(2) [OF I] by (simp add: inv_jumps_def)
  have k: "keys (log s1) = keys (log s)" using advance_committed_keys [OF jt a] by simp
  note ad = advance_committed_advances [OF jt a]
  then have j1: "inv_jumps s1" using jt by (simp add: inv_jumps_def)
  have "pulls s1 = pulls s @ [?p]"
  proof -
    from a obtain v t where v: "vs_next (committed ?t) ?t = Inr v" and c: "committed_loop (length (log ?t)) v ?t = Inr t"
      and x: "advance_executed E t = Inr s1" by (auto simp: advance_committed_def)
    have "keeps ?t t" using committed_loop_keeps [OF jt vs_next_less [OF jt v] c] by simp
    with advance_executed_fields [OF x] show ?thesis by (simp add: keeps_def)
  qed
  then have pi: "pulls s1 ! ?i = ?p" "?i < length (pulls s1)" by simp_all
  from b obtain n where n: "vs_next (executed s1) s1 = Inr n" by (auto simp: fetch_bottom_def)
  have "executed s \<le> executed s1" using ad by (simp add: advances_def)
  also have "executed s1 < n" using vs_next_less [OF j1 n] .
  finally have "vs_vid (executed s) \<le> vs_vid n" using le_vs_vid by (simp add: less_imp_le)
  with lt have "\<not> vs_vid n < vs_vid vs" by simp
  with b n pi have s2: "s2 = pull_update ?i (\<lambda>p. p\<lparr>pl_bottomdone := True\<rparr>) s1" by (simp add: fetch_bottom_def)
  with pi have "pulls s2 ! ?i = ?p\<lparr>pl_bottomdone := True\<rparr>" by (simp add: pull_update_def)
  then show ?thesis using k
    by (simp add: s' fetch_finish_def call_donecb_def replicate_pulldone_def emit_def pull_update_def s2 Let_def)
qed

end

text \<open>
  C19. A backup acknowledges a \<open>REP_REPLICATE\<close> of an earlier view than the one it has executed, which it does not log: it does not look at the view of the
  message.  A primary that has not heard of the new view counts the acknowledgement.
\<close>

theorem stale_replicate_acked:
  assumes "detector E" and "cohort_reach E s" and "mode s = VC_ACTIVE" and "is_view_member (co_mid (self s)) s"
    and "co_mid (vw_primary (view s)) \<noteq> co_mid (self s)" and "vs_ts (rp_vs ra) \<noteq> 0"
    and "vs_vid (rp_vs ra) < vs_vid (executed s)" and "rp_committed ra \<le> committed s"
    and "rep_replicate E sbp ra s = Inr s'"
  shows "Reply sbp (ReplyReplicate (rp_vs ra)) \<in> set (outs s') \<and> keys (log s') = keys (log s)"
proof -
  note I = detector.cohort_reach_inv [OF assms(1,2)]
  have "rp_vs ra < executed s" using assms(7) by (cases "rp_vs ra"; cases "executed s") simp
  also have "executed s \<le> committed s" using cohort_invD(3) [OF I] by (simp add: inv_exec_def)
  finally have "\<not> committed s < rp_vs ra" by simp
  moreover have "replicate_log E sbp (vw_primary (view s)) ra s = Inr s'"
    using assms(3-6,9) by (simp add: rep_replicate_def)
  ultimately obtain s2 where a: "advance_executed E s = Inr s2"
    and p: "pull_log E (vw_primary (view s)) (rp_vs ra) (ReplicatePulldone sbp (rp_vs ra)) s2 = Inr s'"
    using assms(8) by (auto simp: replicate_log_def not_less [symmetric])
  have "executed s \<le> executed s2"
    using detector.advance_executed_advances [OF assms(1) cohort_invD(2) [OF I] a] by (simp add: advances_def)
  then have "vs_vid (rp_vs ra) < vs_vid (executed s2)" using assms(7) le_vs_vid by (meson less_le_trans)
  from detector.pull_log_stale [OF assms(1) detector.advance_executed_inv [OF assms(1) I a] this p]
    detector.advance_executed_keys [OF assms(1) a]
  show ?thesis by simp
qed

lemma demo_stale_step: "\<exists>s. rep_replicate demo_env 3 demo_stale demo_b2 = Inr s"
  by (simp add: demo_defs demo_b2_def demo_b1_def demo_stale_def)

theorem stale_replicate_acked_witness:
  "\<exists>s. rep_replicate demo_env 3 demo_stale demo_b2 = Inr s \<and>
     Reply 3 (ReplyReplicate (VS (ViewId 1 9) 3)) \<in> set (outs s) \<and> \<not> logged (VS (ViewId 1 9) 3) s"
proof -
  obtain s where s: "rep_replicate demo_env 3 demo_stale demo_b2 = Inr s" using demo_stale_step by blast
  have b: "mode demo_b2 = VC_ACTIVE" "is_view_member (co_mid (self demo_b2)) demo_b2"
    "co_mid (vw_primary (view demo_b2)) \<noteq> co_mid (self demo_b2)" "vs_ts (rp_vs demo_stale) \<noteq> 0"
    "vs_vid (rp_vs demo_stale) < vs_vid (executed demo_b2)" "rp_committed demo_stale \<le> committed demo_b2"
    by (simp_all add: demo_b2_def demo_b1_def demo_stale_def blank_cohort_def is_view_member_def set_contains_def
        view_members_def)
  have "\<not> logged (VS (ViewId 1 9) 3) demo_b2"
    by (simp add: logged_def demo_b2_def demo_b1_def new_entry_def)
  with stale_replicate_acked [OF demo_detector demo_b2_reach b s] s show ?thesis
    using keys_logged [of s demo_b2] by (auto simp: demo_stale_def)
qed

section \<open>A request executed twice\<close>

text \<open>The backup of \<open>demo_b2\<close> becomes the primary of a view of its own; the client sends its request again.\<close>

definition demo_form3 :: view_form_t where
  "demo_form3 = \<lparr>vf_prev = VS (ViewId 2 9) 1, vf_view = \<lparr>vw_vid = ViewId 3 9, vw_primary = demo_me, vw_backups = []\<rparr>\<rparr>"

definition demo_again :: execute_arg where
  "demo_again = demo_arg\<lparr>ea_vid := ViewId 3 9\<rparr>"

lemma demo_form3_ok: "wf_form demo_form3"
  by (simp add: char_of_eq_iff wf_form_def form_ok_def view_ok_def cohort_ok_def str_ok_def demo_form3_def demo_me_def)

lemma demo_form3_decodes [simp]: "str2form (view_form_t_enc demo_form3) = Some demo_form3"
  using demo_form3_ok str2form_enc_Nil by (simp add: wf_form_def)

lemma demo_form3_fields [simp]:
  "vf_prev demo_form3 = VS (ViewId 2 9) 1" "vw_vid (vf_view demo_form3) = ViewId 3 9"
  "vw_primary (vf_view demo_form3) = demo_me" "vw_backups (vf_view demo_form3) = []"
  by (simp_all add: demo_form3_def)

definition demo_b3 :: cohort where
  "demo_b3 = demo_b2
     \<lparr>log := log demo_b2 @ [(new_entry (VS (ViewId 3 9) 0) (form_arg demo_form3))\<lparr>rl_state := RQ_EXECUTING\<rparr>],
      jumps := [vs_null \<mapsto> VS (ViewId 2 9) 0, VS (ViewId 2 9) 1 \<mapsto> VS (ViewId 3 9) 0],
      view := vf_view demo_form3, proposed_vid := ViewId 3 9, latest := VS (ViewId 3 9) 0,
      committed := VS (ViewId 3 9) 0, executed := VS (ViewId 3 9) 0,
      outs := outs demo_b2 @ [Reply 3 ReplyVoid]\<rparr>"

lemma three_le [simp]: "\<not> (3 :: u64) \<le> 2" "\<not> (3 :: u64) < 2" "(2 :: u64) < 3" "\<not> (3 :: u64) \<le> 1"
  by (simp_all add: word_le_nat_alt word_less_nat_alt)

lemma demo_b3_step: "cohort_step demo_env (EvCall 3 (RepInitView demo_form3)) demo_b2 = Inr demo_b3"
  by (simp add: demo_defs demo_b3_def demo_b2_def demo_b1_def rep_init_view_def form_view_def)

lemma demo_b3_reach: "cohort_reach demo_env demo_b3"
  by (rule cohort_reach.step [OF demo_b2_reach _ demo_b3_step]) (simp add: wf_event_def demo_form3_ok)

lemma demo_b4_step:
  "\<exists>s. cohort_step demo_env (EvCall 4 (RepExecute demo_again)) demo_b3 = Inr s \<and>
     map (\<lambda>e. (rl_vs e, rl_arg e)) (log s) = map (\<lambda>e. (rl_vs e, rl_arg e)) (log demo_b3) @ [(VS (ViewId 3 9) 1, demo_again)] \<and>
     execs (outs s) = execs (outs demo_b3) @ [VS (ViewId 3 9) 1]"
  by (simp add: demo_defs demo_b3_def demo_b2_def demo_b1_def rep_execute_def execute_request_def accept_request_def
      send_replicate_def demo_again_def demo_arg_def contains_majority_of_def set_insert_def execs_def)


section \<open>A promise given up and a choice that aborts\<close>

definition demo_vca5 :: view_change_arg where
  "demo_vca5 = \<lparr>vca_oldview = demo_view, vca_newvid = ViewId 5 7\<rparr>"

definition demo_ra3 :: replicate_arg where
  "demo_ra3 = \<lparr>rp_vs = VS (ViewId 3 9) 0, rp_arg = form_arg demo_form3, rp_committed = VS (ViewId 3 9) 0\<rparr>"

text \<open>A cohort that has promised view 5 to a manager joins view 3, and is then ready to accept view 4.\<close>

lemma promise_given_up:
  "\<exists>s s'. cohort_step demo_env (EvCall 3 (RepViewChange demo_vca5)) demo_b2 = Inr s \<and>
     cohort_step demo_env (EvCall 4 (RepReplicate demo_ra3)) s = Inr s' \<and>
     proposed_vid s = ViewId 5 7 \<and> proposed_vid s' = ViewId 3 9"
proof -
  let ?s = "demo_b2\<lparr>mode := VC_VIEWCHANGE, proposed_vid := ViewId 5 7,
              outs := outs demo_b2 @ [Reply 3 (ReplyViewChange (VcAccept (demo_report demo_me)))]\<rparr>"
  have "cohort_step demo_env (EvCall 3 (RepViewChange demo_vca5)) demo_b2 = Inr ?s"
    by (simp add: demo_defs demo_vca5_def rep_view_change_def latest_consecutive_def latest_loop.simps
        abort_other_def demo_report_def demo_b2_def demo_b1_def)
  moreover have "\<exists>s'. cohort_step demo_env (EvCall 4 (RepReplicate demo_ra3)) ?s = Inr s' \<and> proposed_vid s' = ViewId 3 9"
    by (simp add: demo_defs demo_ra3_def demo_b2_def demo_b1_def)
  moreover have "proposed_vid ?s = ViewId 5 7" by simp
  ultimately show ?thesis by blast
qed

text \<open>The reported view's primary answers first, a backup with a longer log after it.\<close>

lemma choose_view_aborts:
  "view_change_choose_view demo_me (demo_attempt\<lparr>va_newview := Some demo_view, va_vcaccepts :=
     [demo_report demo_peer, (demo_report demo_me)\<lparr>vcc_latest := VS (ViewId 2 9) 2\<rparr>]\<rparr>) = Inl Check_failed"
  by (simp add: view_change_choose_view_def choose_reported_def choose_step_def check_def demo_attempt_def
      new_attempt_def demo_report_def set_contains_def view_members_def vs_null_def)

text \<open>A ping stops a cohort of the versions that rely on Falcon.\<close>

lemma ping_stops: "dispatch (falcon_env j) sbp (RepPing arg) s = Inl Check_failed"
  "dispatch (leader_env j) sbp (RepPing arg) s = Inl Check_failed"
  by (simp_all add: dispatch_def falcon_env_def leader_env_def)

end
