(* ===== verification/PmpBcast.thy ===== *)
theory PmpBcast
  imports PmpGaps
begin

text \<open>
  Broadcasts (\<open>apps/pmp_falcon/bcast.C\<close>): the broadcast addresses of a machine's interfaces, and the datagrams that a call to
  everybody becomes.
\<close>

unbundle bit_operations_syntax

definition AF_INET :: nat where "AF_INET = 2"
definition IFF_UP :: u16 where "IFF_UP = 1"
definition IFF_BROADCAST :: u16 where "IFF_BROADCAST = 2"
definition IFF_RUNNING :: u16 where "IFF_RUNNING = 64"

text \<open>An interface: the family of its address, its flags and its broadcast address, \<open>None\<close> where the \<open>ioctl\<close> fails.\<close>

record ifreq =
  if_family :: nat
  if_flags :: "u16 option"
  if_broadaddr :: "(nat \<times> u32) option"

definition usable_flags :: "u16 \<Rightarrow> bool" where
  "usable_flags f \<longleftrightarrow> f AND (IFF_UP OR IFF_RUNNING OR IFF_BROADCAST) = (IFF_UP OR IFF_RUNNING OR IFF_BROADCAST)"

text \<open>The loop over the interfaces with the addresses found so far; \<open>None\<close> is the return of \<open>false\<close>.\<close>

fun bcast_loop :: "ifreq list \<Rightarrow> u32 list \<Rightarrow> u32 list option" where
  "bcast_loop [] addrs = Some addrs"
| "bcast_loop (i # is) addrs =
     (if if_family i \<noteq> AF_INET then bcast_loop is addrs
      else
        case if_flags i of
          None \<Rightarrow> None
        | Some f \<Rightarrow>
            if \<not> usable_flags f then bcast_loop is addrs
            else
              case if_broadaddr i of
                None \<Rightarrow> None
              | Some (fam, a) \<Rightarrow>
                  if fam \<noteq> AF_INET then bcast_loop is addrs
                  else bcast_loop is (if a \<notin> set addrs \<and> a \<noteq> 0 then addrs @ [a] else addrs))"

text \<open>\<open>conf\<close> is what \<open>SIOCGIFCONF\<close> gives: the number of bytes written and the interfaces; an entry has 40 bytes.\<close>

definition get_bcast_addrs :: "bool \<Rightarrow> (nat \<times> ifreq list) option \<Rightarrow> u32 list option" where
  "get_bcast_addrs socket_ok conf =
     (if \<not> socket_ok then None
      else
        case conf of
          None \<Rightarrow> None
        | Some (len, is) \<Rightarrow> if len + 40 + 64 \<ge> 8192 then None else bcast_loop is [])"

text \<open>
  \<open>rpccb_bcast::init\<close>: the addresses that the call is sent to, and whether the call is alive; \<open>eof n\<close> is whether the transport has
  failed after the \<open>n\<close>-th datagram.
\<close>

fun send_each :: "u32 list \<Rightarrow> u16 \<Rightarrow> (nat \<Rightarrow> bool) \<Rightarrow> nat \<Rightarrow> sockaddr_in list \<times> bool" where
  "send_each [] port eof n = ([], True)"
| "send_each (a # as) port eof n =
     (let x = \<lparr>sin_addr = a, sin_port = port\<rparr> in
      if eof n then ([x], False) else (let (xs, ok) = send_each as port eof (Suc n) in (x # xs, ok)))"

definition bcast_init :: "nat \<Rightarrow> sockaddr_in \<Rightarrow> u32 list \<Rightarrow> (nat \<Rightarrow> bool) \<Rightarrow> (sockaddr_in list \<times> bool) res" where
  "bcast_init family dest bcast_addrs eof =
     (if family \<noteq> AF_INET then Inl Check_failed
      else if sin_port dest = 0 then Inl Check_failed
      else if sin_addr dest = INADDR_BROADCAST then Inr (send_each bcast_addrs (sin_port dest) eof 0)
      else Inr ([dest], \<not> eof 0))"

section \<open>What is found and sent\<close>

definition bcast_of :: "ifreq \<Rightarrow> u32 option" where
  "bcast_of i =
     (if if_family i = AF_INET \<and> (case if_flags i of None \<Rightarrow> False | Some f \<Rightarrow> usable_flags f) then
        (case if_broadaddr i of Some (fam, a) \<Rightarrow> (if fam = AF_INET \<and> a \<noteq> 0 then Some a else None) | None \<Rightarrow> None)
      else None)"

text \<open>Every network is found once, in the order of the interfaces.\<close>

lemma bcast_loop_result:
  "bcast_loop is addrs = Some as \<Longrightarrow> distinct addrs \<Longrightarrow>
   distinct as \<and> set as = set addrs \<union> {a. Some a \<in> bcast_of ` set is} \<and> take (length addrs) as = addrs"
proof (induction "is" arbitrary: addrs)
  case (Cons i "is")
  show ?case
  proof (cases "bcast_of i")
    case None
    then have "bcast_loop is addrs = Some as"
      using Cons.prems(1) by (auto simp: bcast_of_def split: if_splits option.splits)
    from Cons.IH [OF this Cons.prems(2)] None show ?thesis by (simp add: image_iff)
  next
    case (Some a)
    let ?as = "if a \<notin> set addrs then addrs @ [a] else addrs"
    have "bcast_loop is ?as = Some as"
      using Cons.prems(1) Some by (auto simp: bcast_of_def split: if_splits option.splits)
    moreover have "distinct ?as" using Cons.prems(2) by simp
    ultimately have "distinct as \<and> set as = set ?as \<union> {a. Some a \<in> bcast_of ` set is} \<and> take (length ?as) as = ?as"
      using Cons.IH by blast
    moreover have "take (length addrs) as = addrs" if "take (length addrs + 1) as = addrs @ [a]"
      using arg_cong [OF that, of "take (length addrs)"] by simp
    ultimately show ?thesis using Some by (auto split: if_splits)
  qed
qed simp

lemma send_each_all: "(\<And>n. \<not> eof n) \<Longrightarrow> send_each as port eof n = (map (\<lambda>a. \<lparr>sin_addr = a, sin_port = port\<rparr>) as, True)"
  by (induction "as" arbitrary: n) simp_all

text \<open>
  A call to everybody is sent once to each network of the machine, with the port that the caller gave, as long as the transport works.
\<close>

theorem broadcast_reaches_every_network:
  assumes "get_bcast_addrs True (Some (len, is)) = Some as" and "sin_port dest \<noteq> 0" and "sin_addr dest = INADDR_BROADCAST"
  shows "\<exists>xs. bcast_init AF_INET dest as (\<lambda>_. False) = Inr (xs, True) \<and> distinct xs \<and>
    set xs = {x. sin_port x = sin_port dest \<and> Some (sin_addr x) \<in> bcast_of ` set is}"
proof -
  have l: "bcast_loop is [] = Some as" using assms(1) by (simp add: get_bcast_addrs_def split: if_splits)
  have r: "distinct as" "set as = {a. Some a \<in> bcast_of ` set is}" using bcast_loop_result [OF l] by simp_all
  let ?f = "\<lambda>a. \<lparr>sin_addr = a, sin_port = sin_port dest\<rparr>"
  have "inj_on ?f (set as)" by (rule inj_onI) simp
  then have "distinct (map ?f as)" using r(1) by (simp add: distinct_map)
  moreover have "set (map ?f as) = {x. sin_port x = sin_port dest \<and> Some (sin_addr x) \<in> bcast_of ` set is}"
  proof (intro set_eqI iffI)
    fix x :: sockaddr_in
    assume "x \<in> {x. sin_port x = sin_port dest \<and> Some (sin_addr x) \<in> bcast_of ` set is}"
    then have "x = ?f (sin_addr x)" "sin_addr x \<in> set as" using r(2) by auto
    then show "x \<in> set (map ?f as)" by (metis image_eqI list.set_map)
  qed (use r(2) in auto)
  ultimately show ?thesis using assms(2,3) send_each_all [of "\<lambda>_. False" as "sin_port dest" 0]
    by (simp add: bcast_init_def)
qed

end
