(* ===== verification/PmpExec.thy ===== *)
theory PmpExec
  imports PmpGaps
begin

text \<open>
  The connection to the state machine (\<open>apps/pmp_falcon/execute.h\<close>): a queue of requests of which the first is with the
  state machine; and a cohort together with it.
\<close>

section \<open>State and operations\<close>

text \<open>
  The queue, whether there is a connection and whether one is being made.  The last three fields are a record of what has
  happened: the requests sent, those answered with their callbacks and results, the connections lost.
\<close>

record 'c exec_server =
  xs_rq :: "(byte list \<times> 'c) list"
  xs_x :: bool
  xs_connecting :: nat
  xs_sent :: "byte list list"
  xs_done :: "(byte list \<times> 'c \<times> byte list) list"
  xs_lost :: nat

definition exec_init :: "'c exec_server" where
  "exec_init = \<lparr>xs_rq = [], xs_x = False, xs_connecting = 0, xs_sent = [], xs_done = [], xs_lost = 0\<rparr>"

definition sendreq :: "'c exec_server \<Rightarrow> 'c exec_server res" where
  "sendreq x =
     (if \<not> xs_x x then Inr (x\<lparr>xs_connecting := Suc (xs_connecting x)\<rparr>)
      else
        case xs_rq x of
          [] \<Rightarrow> Inl Bad_index
        | r # _ \<Rightarrow> Inr (x\<lparr>xs_sent := xs_sent x @ [fst r]\<rparr>))"

definition exec_execute :: "byte list \<Rightarrow> 'c \<Rightarrow> 'c exec_server \<Rightarrow> 'c exec_server res" where
  "exec_execute input cb x =
     (let x1 = x\<lparr>xs_rq := xs_rq x @ [(input, cb)]\<rparr> in
      if length (xs_rq x1) = 1 then sendreq x1 else Inr x1)"

definition connect_cb :: "'c exec_server \<Rightarrow> 'c exec_server res" where
  "connect_cb x = sendreq (x\<lparr>xs_x := True, xs_connecting := xs_connecting x - 1\<rparr>)"

text \<open>A packet of the state machine; \<open>None\<close> when it has closed the connection.\<close>

definition exec_recv :: "byte list option \<Rightarrow> 'c exec_server \<Rightarrow> 'c exec_server res" where
  "exec_recv pkt x =
     (case pkt of
        None \<Rightarrow>
          (let x1 = x\<lparr>xs_x := False, xs_lost := Suc (xs_lost x)\<rparr> in
           if xs_rq x1 \<noteq> [] then sendreq x1 else Inr x1)
      | Some r \<Rightarrow>
          (case xs_rq x of
             [] \<Rightarrow> Inl Bad_index
           | (i, cb) # rest \<Rightarrow>
               let x1 = x\<lparr>xs_rq := rest, xs_done := xs_done x @ [(i, cb, r)]\<rparr> in
               if rest \<noteq> [] then sendreq x1 else Inr x1))"

section \<open>Runs\<close>

text \<open>\<open>exec_reach cs x\<close>: \<open>x\<close> is reached with the calls \<open>cs\<close> of \<open>execute\<close>.\<close>

inductive exec_reach :: "(byte list \<times> 'c) list \<Rightarrow> 'c exec_server \<Rightarrow> bool" where
  start: "exec_reach [] exec_init"
| call: "exec_reach cs x \<Longrightarrow> exec_execute i c x = Inr x' \<Longrightarrow> exec_reach (cs @ [(i, c)]) x'"
| connected: "exec_reach cs x \<Longrightarrow> 0 < xs_connecting x \<Longrightarrow> connect_cb x = Inr x' \<Longrightarrow> exec_reach cs x'"
| packet: "exec_reach cs x \<Longrightarrow> xs_x x \<Longrightarrow> exec_recv pkt x = Inr x' \<Longrightarrow> exec_reach cs x'"

definition answered_calls :: "'c exec_server \<Rightarrow> (byte list \<times> 'c) list" where
  "answered_calls x = map (\<lambda>(i, c, r). (i, c)) (xs_done x)"

text \<open>
  How often each request was sent: \<open>ks\<close> for those answered, \<open>k\<close> for the one that is with the state machine.  Each lost connection
  makes for one repetition at most.
\<close>

definition sent_as :: "nat list \<Rightarrow> nat \<Rightarrow> 'c exec_server \<Rightarrow> bool" where
  "sent_as ks k x \<longleftrightarrow>
     length ks = length (xs_done x) \<and> (\<forall>m \<in> set ks. 1 \<le> m) \<and>
     xs_sent x = concat (map2 (\<lambda>m d. replicate m (fst d)) ks (xs_done x)) @
       (case xs_rq x of [] \<Rightarrow> [] | r # _ \<Rightarrow> replicate k (fst r)) \<and>
     (if xs_rq x = [] then k = 0 \<and> sum_list ks \<le> length ks + xs_lost x
      else if xs_x x then 1 \<le> k \<and> sum_list ks + k \<le> Suc (length ks) + xs_lost x
      else sum_list ks + k \<le> length ks + xs_lost x)"

definition exec_inv :: "(byte list \<times> 'c) list \<Rightarrow> 'c exec_server \<Rightarrow> bool" where
  "exec_inv cs x \<longleftrightarrow>
     answered_calls x @ xs_rq x = cs \<and>
     xs_connecting x = (if \<not> xs_x x \<and> xs_rq x \<noteq> [] then 1 else 0) \<and>
     (\<exists>ks k. sent_as ks k x)"

lemma exec_init_inv: "exec_inv [] exec_init"
  by (simp add: exec_inv_def exec_init_def answered_calls_def sent_as_def)

lemma exec_execute_inv:
  assumes "exec_inv cs x" and x: "exec_execute i c x = Inr x'"
  shows "exec_inv (cs @ [(i, c)]) x'"
proof -
  from assms(1) obtain ks k where c: "answered_calls x @ xs_rq x = cs" "sent_as ks k x"
    "xs_connecting x = (if \<not> xs_x x \<and> xs_rq x \<noteq> [] then 1 else 0)" by (auto simp: exec_inv_def)
  show ?thesis
  proof (cases "xs_rq x")
    case Nil
    have "sent_as ks (if xs_x x then 1 else 0) x'"
      using c(2) x Nil by (auto simp: sent_as_def exec_execute_def sendreq_def Let_def split: if_splits)
    moreover have "answered_calls x' @ xs_rq x' = cs @ [(i, c)]" "xs_connecting x' = (if \<not> xs_x x' \<and> xs_rq x' \<noteq> [] then 1 else 0)"
      using c(1,3) x Nil by (auto simp: answered_calls_def exec_execute_def sendreq_def Let_def split: if_splits)
    ultimately show ?thesis by (auto simp: exec_inv_def)
  next
    case (Cons r rs)
    then have x': "x' = x\<lparr>xs_rq := xs_rq x @ [(i, c)]\<rparr>" using x by (simp add: exec_execute_def)
    then have "sent_as ks k x'" using c(2) Cons by (auto simp: sent_as_def split: if_splits)
    with c Cons show ?thesis by (auto simp: exec_inv_def x' answered_calls_def)
  qed
qed

lemma connect_cb_inv:
  assumes "exec_inv cs x" and "0 < xs_connecting x" and x: "connect_cb x = Inr x'"
  shows "exec_inv cs x'"
proof -
  from assms(1,2) obtain ks k where c: "answered_calls x @ xs_rq x = cs" "sent_as ks k x" "\<not> xs_x x" "xs_connecting x = 1"
    by (auto simp: exec_inv_def split: if_splits)
  from assms(1,2) obtain r rs where r: "xs_rq x = r # rs" by (cases "xs_rq x") (auto simp: exec_inv_def)
  have x': "x' = x\<lparr>xs_x := True, xs_connecting := 0, xs_sent := xs_sent x @ [fst r]\<rparr>"
    using x r c(4) by (simp add: connect_cb_def sendreq_def)
  have "sent_as ks (Suc k) x'" using c(2,3) r by (simp add: sent_as_def x' replicate_append_same)
  with c r show ?thesis by (auto simp: exec_inv_def x' answered_calls_def)
qed

lemma exec_recv_inv:
  assumes "exec_inv cs x" and u: "xs_x x" and x: "exec_recv pkt x = Inr x'"
  shows "exec_inv cs x'"
proof -
  from assms(1,2) obtain ks k where c: "answered_calls x @ xs_rq x = cs" "sent_as ks k x" "xs_connecting x = 0"
    by (auto simp: exec_inv_def)
  show ?thesis
  proof (cases pkt)
    case None
    have "sent_as ks k x'" using c(2) u x None
      by (auto simp: sent_as_def exec_recv_def sendreq_def Let_def split: if_splits list.splits)
    with c u x None show ?thesis
      by (auto simp: exec_inv_def exec_recv_def sendreq_def answered_calls_def Let_def split: if_splits)
  next
    case (Some r)
    with x obtain i cb rest where q: "xs_rq x = (i, cb) # rest" by (cases "xs_rq x") (auto simp: exec_recv_def)
    have x': "x' = x\<lparr>xs_rq := rest, xs_done := xs_done x @ [(i, cb, r)],
        xs_sent := xs_sent x @ (case rest of [] \<Rightarrow> [] | q # _ \<Rightarrow> [fst q])\<rparr>"
      using x Some q u by (cases rest) (auto simp: exec_recv_def sendreq_def)
    have "sent_as (ks @ [k]) (if rest = [] then 0 else 1) x'"
      using c(2) u q by (cases rest) (auto simp: sent_as_def x')
    with c q u show ?thesis by (auto simp: exec_inv_def x' answered_calls_def)
  qed
qed

lemma exec_reach_inv: "exec_reach cs x \<Longrightarrow> exec_inv cs x"
  by (induction rule: exec_reach.induct) (auto intro: exec_init_inv exec_execute_inv connect_cb_inv exec_recv_inv)

text \<open>
  C23. The state machine gets the requests in the order of the calls and one at a time, and its answers go to the callbacks in that
  order: those answered are the first calls, the rest is waiting; what was sent is each request in turn, at least once when it is
  answered, with at most one repetition for each lost connection.  The connection is made when there is something to send, and once.
\<close>

theorem requests_in_turn:
  assumes "exec_reach cs x"
  shows "answered_calls x @ xs_rq x = cs \<and> xs_connecting x = (if \<not> xs_x x \<and> xs_rq x \<noteq> [] then 1 else 0) \<and>
    (\<exists>ks k. length ks = length (xs_done x) \<and> list_all (\<lambda>m. 1 \<le> m) ks \<and>
       xs_sent x = concat (map2 (\<lambda>m d. replicate m (fst d)) ks (xs_done x)) @ concat (map (\<lambda>r. replicate k (fst r)) (take 1 (xs_rq x))) \<and>
       sum_list ks + k \<le> length ks + length (take 1 (xs_rq x)) + xs_lost x)"
proof -
  from exec_reach_inv [OF assms] obtain ks k where i: "answered_calls x @ xs_rq x = cs"
    "xs_connecting x = (if \<not> xs_x x \<and> xs_rq x \<noteq> [] then 1 else 0)" "sent_as ks k x" by (auto simp: exec_inv_def)
  from i(3) have "length ks = length (xs_done x) \<and> list_all (\<lambda>m. 1 \<le> m) ks \<and>
       xs_sent x = concat (map2 (\<lambda>m d. replicate m (fst d)) ks (xs_done x)) @ concat (map (\<lambda>r. replicate k (fst r)) (take 1 (xs_rq x))) \<and>
       sum_list ks + k \<le> length ks + length (take 1 (xs_rq x)) + xs_lost x"
    by (cases "xs_rq x") (auto simp: sent_as_def list_all_iff split: if_splits)
  with i(1,2) show ?thesis by blast
qed

theorem requests_in_turn_witness:
  "\<exists>x. exec_reach [([1, 2], 3 :: nat), ([4], 5)] x \<and> answered_calls x @ xs_rq x = [([1, 2], 3), ([4], 5)] \<and>
     xs_sent x = [[1, 2], [1, 2], [4]]"
proof -
  let ?x1 = "exec_init\<lparr>xs_rq := [([1, 2], 3)], xs_connecting := 1\<rparr> :: nat exec_server"
  let ?x2 = "?x1\<lparr>xs_rq := [([1, 2], 3), ([4], 5)]\<rparr>"
  let ?x3 = "?x2\<lparr>xs_x := True, xs_connecting := 0, xs_sent := [[1, 2]]\<rparr>"
  let ?x4 = "?x3\<lparr>xs_x := False, xs_connecting := 1, xs_lost := 1\<rparr>"
  let ?x5 = "?x4\<lparr>xs_x := True, xs_connecting := 0, xs_sent := [[1, 2], [1, 2]]\<rparr>"
  let ?x6 = "?x5\<lparr>xs_rq := [([4], 5)], xs_done := [([1, 2], 3, [7])], xs_sent := [[1, 2], [1, 2], [4]]\<rparr>"
  note d = exec_init_def exec_execute_def sendreq_def connect_cb_def exec_recv_def
  have "exec_reach ([] @ [([1, 2], 3)]) ?x1" by (rule exec_reach.call [OF exec_reach.start]) (simp add: d)
  then have "exec_reach (([] @ [([1, 2], 3)]) @ [([4], 5)]) ?x2" by (rule exec_reach.call) (simp add: d)
  then have "exec_reach [([1, 2], 3), ([4], 5)] ?x2" by simp
  then have "exec_reach [([1, 2], 3), ([4], 5)] ?x3" by (rule exec_reach.connected) (simp_all add: d)
  then have "exec_reach [([1, 2], 3), ([4], 5)] ?x4" by (rule exec_reach.packet [where pkt = None]) (simp_all add: d)
  then have "exec_reach [([1, 2], 3), ([4], 5)] ?x5" by (rule exec_reach.connected) (simp_all add: d)
  then have r: "exec_reach [([1, 2], 3), ([4], 5)] ?x6" by (rule exec_reach.packet [where pkt = "Some [7]"]) (simp_all add: d)
  from requests_in_turn [OF r] r show ?thesis by (intro exI [of _ ?x6]) simp
qed

text \<open>A request that the state machine may have run already is sent again when the connection breaks.\<close>

lemma lost_connection_repeats:
  assumes "xs_x x" and "xs_rq x = (i, c) # rest"
  shows "\<exists>x1 x2. exec_recv None x = Inr x1 \<and> connect_cb x1 = Inr x2 \<and> xs_sent x2 = xs_sent x @ [i]"
  using assms by (simp add: exec_recv_def connect_cb_def sendreq_def)

section \<open>A cohort with its state machine\<close>

fun exec_call :: "effect \<Rightarrow> (byte list \<times> viewstamp_t) list" where
  "exec_call (Exec r v) = [(r, v)]"
| "exec_call _ = []"

definition exec_calls :: "effect list \<Rightarrow> (byte list \<times> viewstamp_t) list" where
  "exec_calls xs = concat (map exec_call xs)"

definition feed :: "(byte list \<times> viewstamp_t) list \<Rightarrow> viewstamp_t exec_server \<Rightarrow> viewstamp_t exec_server res" where
  "feed = res_fold (\<lambda>(i, v). exec_execute i v)"

text \<open>
  The cohort's calls of \<open>exec_\<close> go to the queue; the callback of a result is \<open>execute_done\<close>, with the viewstamp of its entry.
\<close>

inductive node_reach :: "env \<Rightarrow> cohort \<Rightarrow> viewstamp_t exec_server \<Rightarrow> bool" for E :: env where
  start: "cohort_ok me \<Longrightarrow> new_cohort me v0 a = Inr s \<Longrightarrow> feed (exec_calls (outs s)) exec_init = Inr x \<Longrightarrow> node_reach E s x"
| step: "node_reach E s x \<Longrightarrow> wf_event s ev \<Longrightarrow> cohort_step E ev s = Inr s' \<Longrightarrow>
    feed (exec_calls (drop (length (outs s)) (outs s'))) x = Inr x' \<Longrightarrow> node_reach E s' x'"
| result: "node_reach E s x \<Longrightarrow> xs_x x \<Longrightarrow> xs_rq x = (i, v) # rest \<Longrightarrow> exec_recv (Some r) x = Inr x' \<Longrightarrow>
    execute_done v r s = Inr s' \<Longrightarrow> node_reach E s' x'"
| closed: "node_reach E s x \<Longrightarrow> xs_x x \<Longrightarrow> exec_recv None x = Inr x' \<Longrightarrow> node_reach E s x'"
| connected: "node_reach E s x \<Longrightarrow> 0 < xs_connecting x \<Longrightarrow> connect_cb x = Inr x' \<Longrightarrow> node_reach E s x'"
| watch: "node_reach E s x \<Longrightarrow> quiet s s' \<Longrightarrow> node_reach E s' x"

lemma exec_calls_append [simp]: "exec_calls (xs @ ys) = exec_calls xs @ exec_calls ys"
  by (simp add: exec_calls_def)

lemma exec_calls_execs: "map snd (exec_calls xs) = execs xs"
proof (induction xs)
  case (Cons x xs)
  then show ?case by (cases x) (simp_all add: exec_calls_def execs_def)
qed (simp add: exec_calls_def execs_def)

lemma exec_calls_mem: "(r, v) \<in> set (exec_calls xs) \<longleftrightarrow> Exec r v \<in> set xs"
proof (induction xs)
  case (Cons x xs)
  then show ?case by (cases x) (auto simp: exec_calls_def)
qed (simp add: exec_calls_def)

lemma harmless_calls: "list_all harmless xs \<Longrightarrow> exec_calls xs = []"
  using harmless_execs exec_calls_execs [of xs] by simp

lemma feed_reach: "exec_reach cs x \<Longrightarrow> feed ds x = Inr x' \<Longrightarrow> exec_reach (cs @ ds) x'"
proof (induction ds arbitrary: cs x)
  case (Cons d ds)
  then obtain t where t: "exec_execute (fst d) (snd d) x = Inr t" "feed ds t = Inr x'"
    by (cases d) (auto simp: feed_def)
  from Cons.IH [OF exec_reach.call [OF Cons.prems(1) t(1)] t(2)] show ?case by simp
qed (simp add: feed_def)

lemma keeps_calls: "keeps s s' \<Longrightarrow> exec_calls (outs s') = exec_calls (outs s)"
  using harmless_calls by (auto simp: keeps_def)

lemma node_parts:
  assumes E: "detector E"
  shows "node_reach E s x \<Longrightarrow> cohort_reach E s \<and> exec_reach (exec_calls (outs s)) x"
proof (induction rule: node_reach.induct)
  case (start me v0 a s x)
  from feed_reach [OF exec_reach.start start(3)] cohort_reach.start [OF start(1,2)] show ?case by simp
next
  case (step s x ev s' x')
  then have r: "cohort_reach E s" "exec_reach (exec_calls (outs s)) x" by auto
  from detector.cohort_step_advances [OF E detector.cohort_reach_inv [OF E r(1)] step(2,3)]
  obtain xs where "outs s' = outs s @ xs" by (auto simp: advances_def)
  with feed_reach [OF r(2)] step(4) cohort_reach.step [OF r(1) step(2,3)] show ?case by simp
next
  case (result s x i v rest r x' s')
  then have c: "cohort_reach E s" "exec_reach (exec_calls (outs s)) x" by auto
  have "cohort_step E (EvExecuted v r) s = Inr s'" using result(5) by (simp add: cohort_step_def)
  from cohort_reach.step [OF c(1) _ this] have "cohort_reach E s'" by (simp add: wf_event_def)
  with exec_reach.packet [OF c(2) result(2,4)] keeps_calls [OF keeps_execute_done [OF result(5)]] show ?case by simp
next
  case (closed s x x')
  then show ?case using exec_reach.packet by blast
next
  case (connected s x x')
  then show ?case using exec_reach.connected by blast
next
  case (watch s x s')
  then have "cohort_reach E s'" using cohort_reach.watch by blast
  with watch show ?case using keeps_calls [OF keeps_quiet] by simp
qed



end
