(* ===== verification/PmpCalm.thy ===== *)
theory PmpCalm
  imports PmpExec
begin

text \<open>
  The steps of a cohort by which no request of a client is answered: what they leave of the log, the reply cache and the outputs.
\<close>

section \<open>Steps that answer nobody\<close>

fun is_ok :: "nat \<Rightarrow> effect \<Rightarrow> bool" where
  "is_ok b (Reply sbp (ReplyExecute (ExecuteOk r))) \<longleftrightarrow> sbp = b"
| "is_ok b _ = False"

definition same_entry :: "request_log_entry \<Rightarrow> request_log_entry \<Rightarrow> bool" where
  "same_entry e e' \<longleftrightarrow>
     rl_vs e' = rl_vs e \<and> rl_arg e' = rl_arg e \<and> rl_sbp e' = rl_sbp e \<and>
     (rl_state e' = RQ_EXECUTED \<longrightarrow> rl_state e = RQ_EXECUTED)"

definition idle :: "request_log_entry \<Rightarrow> bool" where
  "idle e \<longleftrightarrow> rl_sbp e = None \<and> rl_state e \<noteq> RQ_EXECUTED"

text \<open>What a step that answers nobody may do: change entries as \<open>same_entry\<close> allows, add others, hand logged requests to the state machine.\<close>

definition calm :: "cohort \<Rightarrow> cohort \<Rightarrow> bool" where
  "calm s s' \<longleftrightarrow>
     replycache s' = replycache s \<and>
     (\<exists>xs ys. log s' = xs @ ys \<and> list_all2 same_entry (log s) xs \<and> list_all idle ys) \<and>
     (\<exists>zs. outs s' = outs s @ zs \<and> (\<forall>b. \<forall>z \<in> set zs. \<not> is_ok b z) \<and>
        (\<forall>r v. Exec r v \<in> set zs \<longrightarrow> (\<exists>e. log_get v s' = Some e \<and> ea_request (rl_arg e) = r)))"

lemma same_entry_refl [simp]: "same_entry e e"
  by (simp add: same_entry_def)

lemma same_entry_trans: "same_entry e f \<Longrightarrow> same_entry f g \<Longrightarrow> same_entry e g"
  by (auto simp: same_entry_def)

lemma same_entry_idle: "same_entry e f \<Longrightarrow> idle e \<Longrightarrow> idle f"
  by (auto simp: same_entry_def idle_def)

lemma all2_same_refl: "list_all2 same_entry es es"
  by (simp add: list_all2_refl)

lemma all2_same_idle: "list_all2 same_entry es fs \<Longrightarrow> list_all idle es \<Longrightarrow> list_all idle fs"
  by (induction rule: list_all2_induct) (auto intro: same_entry_idle)

lemma same_find:
  "list_all2 same_entry es fs \<Longrightarrow> find (\<lambda>e. rl_vs e = v) es = Some e \<Longrightarrow>
   \<exists>f. find (\<lambda>e. rl_vs e = v) (fs @ gs) = Some f \<and> same_entry e f"
proof (induction rule: list_all2_induct)
  case (Cons x xs y ys)
  then show ?case by (cases "rl_vs x = v") (auto simp: same_entry_def)
qed simp

lemma calm_log_get:
  assumes "calm s s'" and "log_get v s = Some e"
  obtains e' where "log_get v s' = Some e'" "same_entry e e'"
proof -
  from assms(1) obtain xs ys where "log s' = xs @ ys" "list_all2 same_entry (log s) xs" by (auto simp: calm_def)
  with same_find [of "log s" xs v e ys] assms(2) that show ?thesis by (auto simp: log_get_def)
qed

lemma calm_intro:
  assumes "replycache s' = replycache s" "log s' = xs @ ys" "list_all2 same_entry (log s) xs" "list_all idle ys"
    "outs s' = outs s @ zs" "\<And>b z. z \<in> set zs \<Longrightarrow> \<not> is_ok b z"
    "\<And>r v. Exec r v \<in> set zs \<Longrightarrow> \<exists>e. log_get v s' = Some e \<and> ea_request (rl_arg e) = r"
  shows "calm s s'"
  using assms unfolding calm_def by blast

lemma calm_elim:
  assumes "calm s s'"
  obtains xs ys zs where "replycache s' = replycache s" "log s' = xs @ ys" "list_all2 same_entry (log s) xs" "list_all idle ys"
    "outs s' = outs s @ zs" "\<And>b z. z \<in> set zs \<Longrightarrow> \<not> is_ok b z"
    "\<And>r v. Exec r v \<in> set zs \<Longrightarrow> \<exists>e. log_get v s' = Some e \<and> ea_request (rl_arg e) = r"
  using assms unfolding calm_def by blast

lemma calm_trans [trans]:
  assumes a: "calm s t" and b: "calm t u"
  shows "calm s u"
proof (rule calm_elim [OF a], rule calm_elim [OF b])
  fix xs ys zs xs' ys' zs'
  assume c: "replycache t = replycache s" "replycache u = replycache t"
    and l: "log t = xs @ ys" "list_all2 same_entry (log s) xs" "list_all idle ys"
    and m: "log u = xs' @ ys'" "list_all2 same_entry (log t) xs'" "list_all idle ys'"
    and z: "outs t = outs s @ zs" "\<And>b z. z \<in> set zs \<Longrightarrow> \<not> is_ok b z"
      "\<And>r v. Exec r v \<in> set zs \<Longrightarrow> \<exists>e. log_get v t = Some e \<and> ea_request (rl_arg e) = r"
    and z': "outs u = outs t @ zs'" "\<And>b z. z \<in> set zs' \<Longrightarrow> \<not> is_ok b z"
      "\<And>r v. Exec r v \<in> set zs' \<Longrightarrow> \<exists>e. log_get v u = Some e \<and> ea_request (rl_arg e) = r"
  from m(2) l(1) obtain x1 x2 where x: "xs' = x1 @ x2" "list_all2 same_entry xs x1" "list_all2 same_entry ys x2"
    by (auto simp: list_all2_append1)
  have x1: "list_all2 same_entry (log s) x1" by (rule list_all2_trans [OF same_entry_trans l(2) x(2)])
  have y: "list_all idle (x2 @ ys')" using all2_same_idle [OF x(3) l(3)] m(3) by simp
  have e: "\<exists>e. log_get v u = Some e \<and> ea_request (rl_arg e) = r" if "Exec r v \<in> set zs" for r v
  proof -
    from z(3) [OF that] obtain e where e: "log_get v t = Some e" "ea_request (rl_arg e) = r" by blast
    obtain e' where "log_get v u = Some e'" "same_entry e e'" by (rule calm_log_get [OF b e(1)])
    with e(2) show ?thesis by (auto simp: same_entry_def)
  qed
  show ?thesis
  proof (rule calm_intro [OF _ _ x1 y])
    show "outs u = outs s @ (zs @ zs')" using z(1) z'(1) by simp
    show "Exec r v \<in> set (zs @ zs') \<Longrightarrow> \<exists>e. log_get v u = Some e \<and> ea_request (rl_arg e) = r" for r v
      using e z'(3) by auto
  qed (use c m(1) x(1) z(2) z'(2) in auto)
qed

fun silent :: "effect \<Rightarrow> bool" where
  "silent (Exec r v) = False"
| "silent (Reply sbp (ReplyExecute (ExecuteOk r))) = False"
| "silent _ = True"

lemma silent_not: "silent z \<Longrightarrow> \<not> is_ok b z" "\<not> silent (Exec r v)"
  by (cases z rule: silent.cases; simp) simp

lemma calmI:
  assumes "replycache s' = replycache s" "log s' = log s" "outs s' = outs s @ zs" "list_all silent zs"
  shows "calm s s'"
  by (rule calm_intro [of _ _ "log s" "[]"]) (use assms silent_not in \<open>auto simp: all2_same_refl list_all_iff\<close>)

lemma calm_refl [simp]: "calm s s"
  by (rule calmI [of _ _ "[]"]) simp_all

lemma calm_emit: "silent x \<Longrightarrow> calm s (emit x s)"
  by (rule calmI [of _ _ "[x]"]) (simp_all add: emit_def)

lemma calm_same: "replycache s' = replycache s \<Longrightarrow> log s' = log s \<Longrightarrow> outs s' = outs s \<Longrightarrow> calm s s'"
  by (rule calmI [of _ _ "[]"]) simp_all

lemma same_update_first: "(\<And>e. same_entry e (f e)) \<Longrightarrow> list_all2 same_entry es (update_first P f es)"
  by (induction es) (simp_all add: all2_same_refl)

lemma calm_entry_update: "(\<And>e. same_entry e (f e)) \<Longrightarrow> calm s (entry_update v f s)"
  by (rule calm_intro [of _ _ "update_first (\<lambda>e. rl_vs e = v) f (log s)" "[]" "[]"])
    (simp_all add: same_update_first entry_update_def)

lemma calm_log_append:
  assumes "idle e" and a: "log_append e s = Inr s'"
  shows "calm s s'"
proof -
  from a obtain t where "vs_jumps_update e s = Inr t" and s': "s' = log_insert e t" by (auto simp: log_append_def)
  then have f: "log t = log s" "outs t = outs s" "replycache t = replycache s"
    by (auto simp: vs_jumps_update_def split: if_splits option.splits)
  show ?thesis
    by (rule calm_intro [of _ _ "log s" "[e]" "[]"]) (use assms(1) f in \<open>simp_all add: all2_same_refl s' log_insert_def\<close>)
qed

lemma idle_new_entry [simp]: "idle (new_entry v arg)"
  by (simp add: idle_def new_entry_def)

lemma calm_quiet: "quiet s s' \<Longrightarrow> calm s s'"
proof -
  assume "quiet s s'"
  then obtain xs where c: "core_of s' = core_of s" and xs: "outs s' = outs s @ xs" "list_all watching xs"
    by (auto simp: quiet_def)
  have "silent x" if "watching x" for x using that by (cases x) simp_all
  with xs(2) have "list_all silent xs" by (simp add: list_all_iff)
  with calmI [OF core_of_fields(3,1) [OF c] xs(1)] show ?thesis .
qed

lemma calm_fold: "(\<And>x s. calm s (f x s)) \<Longrightarrow> calm s (fold f xs s)"
  by (induction xs arbitrary: s) (simp_all, meson calm_trans)

lemma calm_res_fold:
  "(\<And>x s s'. f x s = Inr s' \<Longrightarrow> calm s s') \<Longrightarrow> res_fold f xs s = Inr s' \<Longrightarrow> calm s s'"
proof (induction xs arbitrary: s)
  case (Cons x xs)
  from Cons.prems(2) obtain t where t: "f x s = Inr t" "res_fold f xs t = Inr s'" by auto
  from calm_trans [OF Cons.prems(1) [OF t(1)] Cons.IH [OF Cons.prems(1) t(2)]] show ?case .
qed simp

lemma calm_send_replicate: "calm s (fold (send_replicate ra) bs s)"
  by (rule calm_fold) (simp add: send_replicate_def calm_emit)

section \<open>Execution and commitment\<close>

context detector
begin

lemma calm_execute_entry:
  assumes g: "log_get vs s = Some rle" and x: "execute_entry E rle s = Inr s1"
  shows "calm s s1"
proof -
  have v: "rl_vs rle = vs" using log_get_Some [OF g] by simp
  show ?thesis
  proof (cases "vs_ts vs = 0")
    case False
    then have s1: "s1 = emit (Exec (ea_request (rl_arg rle)) vs) s" using x v by (simp add: execute_entry_def)
    have "log_get vs s1 = Some rle" using g by (simp add: s1 emit_def log_get_def)
    then show ?thesis
      by (intro calm_intro [of _ _ "log s" "[]" "[Exec (ea_request (rl_arg rle)) vs]"])
        (auto simp: all2_same_refl s1 emit_def)
  next
    case True
    with x v obtain f where "install_view E f s = Inr s1" by (auto simp: execute_entry_def split: option.splits)
    then obtain t where t: "on_new_view E t = Inr s1" "replycache t = replycache s" "log t = log s" "outs t = outs s"
      by (auto simp: install_view_def Let_def abort_current_def abort_attempt_def split: option.splits)
    have "quiet t s1" using detectsD [OF new_view t(1)] by (simp add: quiet_def)
    from calm_trans [OF calm_same [OF t(2-4)] calm_quiet [OF this]] show ?thesis .
  qed
qed

lemma calm_executed_loop: "executed_loop E n vs s = Inr s' \<Longrightarrow> calm s s'"
proof (induction n arbitrary: vs s)
  case 0
  then show ?case by (subst (asm) executed_loop.simps) (auto split: if_splits option.splits)
next
  case (Suc n)
  show ?case
  proof (cases "vs \<le> committed s \<and> log_get vs s \<noteq> None")
    case False
    then have "s' = s" using Suc.prems by (subst (asm) executed_loop.simps) (auto split: if_splits)
    then show ?thesis by simp
  next
    case True
    then obtain rle where g: "log_get vs s = Some rle" by blast
    let ?u = "\<lambda>t. entry_update vs (\<lambda>e. e\<lparr>rl_state := RQ_EXECUTING\<rparr>) (t\<lparr>executed := vs\<rparr>)"
    from Suc.prems True g obtain s1 vs'
      where x: "execute_entry E rle s = Inr s1" and l: "executed_loop E n vs' (?u s1) = Inr s'"
      by (subst (asm) executed_loop.simps) (auto simp: Let_def)
    note calm_execute_entry [OF g x]
    also have "calm s1 (s1\<lparr>executed := vs\<rparr>)" by (rule calm_same) simp_all
    also have "calm (s1\<lparr>executed := vs\<rparr>) (?u s1)" by (rule calm_entry_update) (simp add: same_entry_def)
    also note Suc.IH [OF l]
    finally show ?thesis .
  qed
qed

lemma calm_advance_executed: "advance_executed E s = Inr s' \<Longrightarrow> calm s s'"
  using calm_executed_loop by (auto simp: advance_executed_def)

end

lemma calm_committed_loop: "committed_loop n vs s = Inr s' \<Longrightarrow> calm s s'"
proof (induction n arbitrary: vs s)
  case 0
  then show ?case by (subst (asm) committed_loop.simps) (auto split: if_splits option.splits)
next
  case (Suc n)
  let ?u = "entry_update vs (\<lambda>e. e\<lparr>rl_ack := None, rl_state := RQ_COMMITTED\<rparr>) (s\<lparr>committed := vs\<rparr>)"
  from Suc.prems consider "s' = s" | vs' where "vs_next vs ?u = Inr vs'" "committed_loop n vs' ?u = Inr s'"
    by (subst (asm) committed_loop.simps) (auto simp: Let_def split: if_splits option.splits)
  then show ?case
  proof cases
    case (2 vs')
    have "calm s (s\<lparr>committed := vs\<rparr>)" by (rule calm_same) simp_all
    also have "calm (s\<lparr>committed := vs\<rparr>) ?u" by (rule calm_entry_update) (simp add: same_entry_def)
    also note Suc.IH [OF 2(2)]
    finally show ?thesis .
  qed simp
qed

lemma calm_ack_loop: "ack_loop b bound n vs s = Inr s' \<Longrightarrow> calm s s'"
proof (induction n arbitrary: vs s)
  case 0
  then show ?case by (subst (asm) ack_loop.simps) (auto split: if_splits option.splits)
next
  case (Suc n)
  let ?u = "entry_update vs (\<lambda>e. e\<lparr>rl_ack := map_option (\<lambda>a. a\<lparr>received := mids_insert b (received a)\<rparr>) (rl_ack e)\<rparr>) s"
  from Suc.prems consider "s' = s" | vs' where "ack_loop b bound n vs' ?u = Inr s'"
    by (subst (asm) ack_loop.simps, cases "vs \<le> bound"; cases "log_get vs s") (auto simp: Let_def)
  then show ?case
  proof cases
    case (2 vs')
    have "calm s ?u" by (rule calm_entry_update) (simp add: same_entry_def)
    from calm_trans [OF this Suc.IH [OF 2]] show ?thesis .
  qed simp
qed

context detector
begin

lemma calm_advance_committed: "advance_committed E s = Inr s' \<Longrightarrow> calm s s'"
  using calm_trans [OF calm_committed_loop calm_advance_executed] by (auto simp: advance_committed_def)

lemma calm_replicate_cb: "replicate_cb E b resp s = Inr s' \<Longrightarrow> calm s s'"
  using calm_trans [OF calm_ack_loop calm_advance_committed]
  by (auto simp: replicate_cb_def split: option.splits if_splits)

end

section \<open>Fetching, handlers and the view change\<close>

lemma calm_pull_update: "calm s (pull_update i f s)"
  by (rule calm_same) (simp_all add: pull_update_def)

lemma calm_pull_one: "calm s (pull_one i v s)"
  using calm_trans [OF calm_pull_update calm_emit] by (simp add: pull_one_def)

lemma calm_pull_range: "pull_range i base upper s = Inr s' \<Longrightarrow> calm s s'"
  using calm_fold [OF calm_pull_one] by (auto simp: pull_range_def simp del: upt_Suc split: if_splits)

lemma calm_pull_upto: "pull_upto i upper s = Inr s' \<Longrightarrow> calm s s'"
  using calm_pull_range by (auto simp: pull_upto_def split: if_splits)

lemma calm_fetch_bottom: "fetch_bottom i s = Inr s' \<Longrightarrow> calm s s'"
  using calm_trans [OF calm_pull_update calm_pull_upto] calm_pull_update
  by (auto simp: fetch_bottom_def split: if_splits option.splits)

lemma calm_call_donecb: "calm s (call_donecb cb ok s)"
  by (cases cb) (simp_all add: call_donecb_def replicate_pulldone_def new_view_pulldone_def calm_emit)

lemma calm_fetch_finish: "calm s (fetch_finish i s)"
  using calm_trans [OF calm_call_donecb calm_pull_update] by (simp add: fetch_finish_def Let_def)

lemma calm_abort: "calm s (abort_attempt i s)" "calm s (abort_other v s)"
  by (auto intro!: calm_same simp: abort_attempt_def abort_other_def split: option.splits)

lemma calm_attempt_update: "calm s (attempt_update i f s)"
  by (rule calm_same) (simp_all add: attempt_update_def)

lemma calm_check_newview: "calm s (view_change_check_newview i s)"
  using calm_emit calm_abort by (simp add: view_change_check_newview_def Let_def)

lemma calm_newview_cb: "calm s (view_change_newview_cb i c resp s)"
  unfolding view_change_newview_cb_def by (rule calm_trans [OF calm_attempt_update calm_check_newview])

lemma calm_send_view_change: "calm s (send_view_change i arg u s)"
  by (simp add: send_view_change_def calm_emit)

lemma calm_merge: "calm s (merge_newview i nv s)"
proof -
  have "calm t (merge_underling i arg u t)" for arg u t
    using calm_trans [OF calm_attempt_update calm_send_view_change] by (simp add: merge_underling_def split: prod.splits)
  then show ?thesis unfolding merge_newview_def Let_def by (intro calm_trans [OF calm_fold calm_attempt_update])
qed

lemma calm_choose_and_issue: "choose_and_issue junk i s = Inr s' \<Longrightarrow> calm s s'"
proof -
  assume "choose_and_issue junk i s = Inr s'"
  then obtain a where "s' = view_change_issue_newview i (attempt_update i (\<lambda>_. a) s)" by (auto simp: choose_and_issue_def)
  moreover have "calm t (view_change_issue_newview i t)" for t
    unfolding view_change_issue_newview_def Let_def by (rule calm_fold) (simp add: calm_emit)
  ultimately show ?thesis using calm_trans [OF calm_attempt_update] by blast
qed

lemma calm_check_prepare_loop: "check_prepare_loop junk n i s = Inr s' \<Longrightarrow> calm s s'"
proof (induction n arbitrary: s)
  case 0
  then show ?case by (cases rule: check_prepare_cases) (simp_all add: calm_abort calm_choose_and_issue)
next
  case (Suc n)
  from Suc.prems show ?case
  proof (cases rule: check_prepare_cases)
    case (4 m nv)
    then have "check_prepare_loop junk n i (merge_newview i nv s) = Inr s'" by simp
    from calm_trans [OF calm_merge Suc.IH [OF this]] show ?thesis .
  qed (simp_all add: calm_abort calm_choose_and_issue)
qed

lemma calm_prepare_cb:
  assumes p: "view_change_prepare_cb E at c resp s = Inr s'"
  shows "calm s s'"
proof -
  from p obtain i where i: "at = Some i" by (cases at) (simp_all add: view_change_prepare_cb_def)
  show ?thesis
  proof (cases "va_aborted (attempts s ! i)")
    case True
    then show ?thesis using p i by (simp add: view_change_prepare_cb_def)
  next
    case False
    let ?t = "attempt_update i (\<lambda>a. a\<lparr>va_prepare_done := mids_insert (co_mid c) (va_prepare_done a)\<rparr>) s"
    obtain u where u: "view_change_check_prepare (stack_junk E) i u = Inr s'"
      "log u = log s" "replycache u = replycache s" "outs u = outs s"
      using p i False
      by (cases resp; simp add: view_change_prepare_cb_def Let_def split: view_change_res.splits if_splits)
        (auto simp: attempt_update_def abort_attempt_def note_accept_def Let_def)
    have "calm s u" by (rule calm_same) (simp_all add: u)
    also have "calm u s'" using u(1) calm_check_prepare_loop by (simp add: view_change_check_prepare_def)
    finally show ?thesis .
  qed
qed

lemma calm_join_view: "calm s (join_view a s)"
  using calm_emit calm_trans [OF calm_emit calm_emit] by (simp add: join_view_def Let_def)

context detector
begin

lemma calm_new_view_attempt: "on_attempt E s = Inr s' \<Longrightarrow> calm s s'"
  using calm_quiet detectsD [OF attempt] by (auto simp: quiet_def)

lemma calm_fetchlog_check: "fetchlog_check E i s = Inr s' \<Longrightarrow> calm s s'"
  using calm_trans [OF calm_trans [OF calm_advance_committed calm_fetch_bottom] calm_fetch_finish]
  by (auto simp: fetchlog_check_def)

lemma calm_fetchlog_cb: "fetchlog_cb E i vs resp s = Inr s' \<Longrightarrow> calm s s'"
  using calm_trans [OF calm_pull_update calm_fetchlog_check]
    calm_trans [OF calm_trans [OF calm_log_append [OF idle_new_entry] calm_pull_update] calm_fetchlog_check]
  by (auto simp: fetchlog_cb_def Let_def split: option.splits)

lemma calm_pull_log:
  assumes "pull_log E src upper donecb s = Inr s'"
  shows "calm s s'"
proof -
  from assms obtain ps u where u: "pull_upto (length (pulls s)) upper (s\<lparr>pulls := ps\<rparr>) = Inr u"
    and c: "fetchlog_check E (length (pulls s)) u = Inr s'" by (auto simp: pull_log_def Let_def)
  have "calm s (s\<lparr>pulls := ps\<rparr>)" by (rule calm_same) simp_all
  also note calm_pull_upto [OF u]
  also note calm_fetchlog_check [OF c]
  finally show ?thesis .
qed

lemma calm_form_view:
  assumes r: "form_view E f s = Inr s'"
  shows "calm s s'"
proof -
  let ?vs = "VS (vw_vid (vf_view f)) 0"
  let ?s1 = "s\<lparr>latest := ?vs, committed := ?vs\<rparr>"
  from r obtain s2 s3 ra where a: "log_append (new_entry ?vs (form_arg f)) ?s1 = Inr s2"
    and b: "advance_committed E s2 = Inr s3" and s': "s' = fold (send_replicate ra) (vw_backups (vf_view f)) s3"
    by (auto simp: form_view_def Let_def split: if_splits)
  have "calm s ?s1" by (rule calm_same) simp_all
  also note calm_log_append [OF idle_new_entry a]
  also note calm_advance_committed [OF b]
  also note calm_send_replicate
  finally show ?thesis unfolding s' .
qed

lemma calm_replicate_log:
  assumes r: "replicate_log E sbp p ra s = Inr s'"
  shows "calm s s'"
proof -
  let ?c = "\<lambda>s1. if committed s1 < rp_committed ra then s1\<lparr>committed := rp_committed ra\<rparr> else s1"
  from r obtain s1 s2
    where a: "(if committed s < rp_vs ra \<and> log_get (rp_vs ra) s = None
               then log_append (new_entry (rp_vs ra) (rp_arg ra)) s else Inr s) = Inr s1"
      and b: "advance_executed E (?c s1) = Inr s2"
      and c: "pull_log E p (rp_vs ra) (ReplicatePulldone sbp (rp_vs ra)) s2 = Inr s'"
    by (auto simp: replicate_log_def)
  have "calm s s1" using a calm_log_append [OF idle_new_entry] by (auto split: if_splits)
  also have "calm s1 (?c s1)" by (rule calm_same) simp_all
  also note calm_advance_executed [OF b]
  also note calm_pull_log [OF c]
  finally show ?thesis .
qed

lemma calm_rep_replicate: "rep_replicate E sbp ra s = Inr s' \<Longrightarrow> calm s s'"
  using calm_replicate_log calm_emit by (auto simp: rep_replicate_def split: if_splits option.splits)

lemma calm_rep_view_change:
  assumes r: "rep_view_change E sbp arg s = Inr s'"
  shows "calm s s'"
proof (cases "(valid_view s \<and> vw_vid (vca_oldview arg) < vw_vid (view s)) \<or> vca_newvid arg < proposed_vid s")
  case True
  then show ?thesis using r calm_emit by (auto simp: rep_view_change_def)
next
  case False
  with r obtain s1 r where a: "on_attempt E (s\<lparr>mode := VC_VIEWCHANGE\<rparr>) = Inr s1"
    and s': "s' = emit (Reply sbp (ReplyViewChange (VcAccept r))) (abort_other (vca_newvid arg) (s1\<lparr>proposed_vid := vca_newvid arg\<rparr>))"
    by (auto simp: rep_view_change_def Let_def)
  have "calm s (s\<lparr>mode := VC_VIEWCHANGE\<rparr>)" by (rule calm_same) simp_all
  also note calm_new_view_attempt [OF a]
  also have "calm s1 (s1\<lparr>proposed_vid := vca_newvid arg\<rparr>)" by (rule calm_same) simp_all
  also note calm_abort(2)
  also have "calm t (emit (Reply sbp (ReplyViewChange (VcAccept r))) t)" for t by (rule calm_emit) simp
  finally show ?thesis unfolding s' .
qed

lemma calm_rep_new_view:
  assumes r: "rep_new_view E sbp arg s = Inr s'"
  shows "calm s s'"
proof (cases "(valid_view s \<and> vw_vid (nva_view arg) < vw_vid (view s)) \<or> vw_vid (nva_view arg) < proposed_vid s")
  case True
  then show ?thesis using r calm_emit by (auto simp: rep_new_view_def Let_def)
next
  case False
  with r obtain s1 where a: "on_attempt E (s\<lparr>mode := VC_VIEWCHANGE\<rparr>) = Inr s1"
    and p: "pull_log E (vw_primary (nva_view arg)) (nva_latest arg) (NewViewPulldone sbp)
      ((abort_other (vw_vid (nva_view arg)) s1)\<lparr>accepted_view := Some (nva_view arg)\<rparr>) = Inr s'"
    by (auto simp: rep_new_view_def Let_def)
  have "calm s (s\<lparr>mode := VC_VIEWCHANGE\<rparr>)" by (rule calm_same) simp_all
  also note calm_new_view_attempt [OF a]
  also note calm_abort(2) [of s1 "vw_vid (nva_view arg)"]
  also have "calm t (t\<lparr>accepted_view := v\<rparr>)" for t v by (rule calm_same) simp_all
  also note calm_pull_log [OF p]
  finally show ?thesis .
qed

lemma calm_initiate: "view_change_initiate E joiners s = Inr s' \<Longrightarrow> calm s s'"
proof -
  assume v: "view_change_initiate E joiners s = Inr s'"
  show ?thesis
  proof (cases "(\<exists>i. vcattempt s = Some i \<and> \<not> va_aborted (attempts s ! i)) \<or> \<not> is_view_member (co_mid (self s)) s")
    case True
    then have "s' = s" using v by (auto simp: view_change_initiate_def split: if_splits)
    then show ?thesis by simp
  next
    case False
    with v obtain t i ul arg as vc where t: "on_attempt E (s\<lparr>attempts := as, vcattempt := vc, mode := VC_VIEWCHANGE\<rparr>) = Inr t"
      and f: "res_fold (contact_underling E joiners arg i) ul t = Inr s'"
      by (auto simp: view_change_initiate_def Let_def split: if_splits)
    have "calm s (s\<lparr>attempts := as, vcattempt := vc, mode := VC_VIEWCHANGE\<rparr>)" by (rule calm_same) simp_all
    also note calm_new_view_attempt [OF t]
    also have "calm t s'" using calm_prepare_cb calm_send_view_change
      by (intro calm_res_fold [OF _ f]) (auto simp: contact_underling_def split: if_splits)
    finally show ?thesis .
  qed
qed

lemma calm_letmein: "rep_letmein E sbp c s = Inr s' \<Longrightarrow> calm s s'"
  using calm_trans [OF calm_initiate calm_emit] by (auto simp: rep_letmein_def)

lemma calm_rep_init_view:
  assumes "rep_init_view E sbp f s = Inr s'"
  shows "calm s s'"
proof -
  from assms obtain t where t: "(if \<not> valid_view s \<or> vw_vid (view s) < vw_vid (vf_view f) then form_view E f s else Inr s) = Inr t"
    and s': "s' = emit (Reply sbp ReplyVoid) t" by (auto simp: rep_init_view_def)
  have "calm s t" using t calm_form_view by (auto split: if_splits)
  also have "calm t s'" unfolding s' by (rule calm_emit) simp
  finally show ?thesis .
qed

lemma calm_ping: "on_ping E sbp arg s = Inr s' \<Longrightarrow> calm s s'"
proof -
  assume "on_ping E sbp arg s = Inr s'"
  from ping [OF this] obtain ok where c: "core_of s' = core_of s" and o: "outs s' = outs s @ [Reply sbp (ReplyPing ok)]" by auto
  show ?thesis by (rule calmI [OF core_of_fields(3,1) [OF c] o]) simp
qed

lemma calm_dispatch: "dispatch E sbp c s = Inr s' \<Longrightarrow> \<forall>a. c \<noteq> RepExecute a \<Longrightarrow> calm s s'"
  using calm_rep_replicate calm_letmein calm_rep_view_change calm_rep_new_view calm_rep_init_view calm_ping calm_emit
  by (cases c) (auto simp: dispatch_def rep_viewinfo_def rep_fetchlog_def rep_get_view_def split: option.splits)

lemma calm_step:
  assumes d: "cohort_step E ev s = Inr s'" and n: "\<And>sbp a. ev \<noteq> EvCall sbp (RepExecute a)" "\<And>v r. ev \<noteq> EvExecuted v r"
  shows "calm s s'"
proof (cases ev)
  case (EvCall sbp c)
  then show ?thesis using calm_dispatch d n by (simp add: cohort_step_def)
next
  case (EvBcast sbp c)
  then show ?thesis using d calm_emit calm_letmein by (cases c) (auto simp: cohort_step_def dispatch_bcast_def)
qed (use d n calm_replicate_cb calm_fetchlog_cb calm_prepare_cb calm_newview_cb calm_join_view calm_initiate
    in \<open>auto simp: cohort_step_def view_is_down_def\<close>)

end

end
