(* ===== verification/PmpAnswers.thy ===== *)
theory PmpAnswers
  imports PmpCalm
begin

text \<open>
  The answers of a cohort to the requests of its clients: each is what the state machine returned for a request of the same client
  with the same number, and no call is answered twice.
\<close>

section \<open>The invariant\<close>

definition same_request :: "execute_arg \<Rightarrow> execute_arg \<Rightarrow> bool" where
  "same_request a b \<longleftrightarrow> ea_client a = ea_client b \<and> ea_rid a = ea_rid b"

definition wait_count :: "nat \<Rightarrow> request_log_entry list \<Rightarrow> nat" where
  "wait_count b es = length (filter (\<lambda>e. rl_sbp e = Some b) es)"

definition ok_count :: "nat \<Rightarrow> effect list \<Rightarrow> nat" where
  "ok_count b xs = length (filter (is_ok b) xs)"

lemma counts_simps [simp]:
  "wait_count b [] = 0" "wait_count b (e # es) = (if rl_sbp e = Some b then 1 else 0) + wait_count b es"
  "wait_count b (es @ fs) = wait_count b es + wait_count b fs"
  "ok_count b [] = 0" "ok_count b (x # xs) = (if is_ok b x then 1 else 0) + ok_count b xs"
  "ok_count b (xs @ ys) = ok_count b xs + ok_count b ys"
  by (simp_all add: wait_count_def ok_count_def)

text \<open>
  \<open>A\<close> has the calls of \<open>REP_EXECUTE\<close> so far, \<open>R\<close> the results of the state machine.  The reply cache knows the log entry of its
  request and, when that has been executed, its result; the calls that wait with an entry, and those answered, asked for its request.
\<close>

definition cache_ok :: "(viewstamp_t \<times> byte list) list \<Rightarrow> cohort \<Rightarrow> bool" where
  "cache_ok R s \<longleftrightarrow>
     (\<forall>c rce. replycache s c = Some rce \<longrightarrow>
        (\<exists>e. log_get (rc_rle rce) s = Some e \<and> ea_client (rl_arg e) = c \<and> ea_rid (rl_arg e) = rc_rid rce \<and>
           (rl_state e = RQ_EXECUTED \<longrightarrow> (\<exists>r. rc_reply rce = Some r \<and> (rc_rle rce, r) \<in> set R))))"

definition waits_ok :: "(nat \<times> execute_arg) list \<Rightarrow> cohort \<Rightarrow> bool" where
  "waits_ok A s \<longleftrightarrow>
     (\<forall>e \<in> set (log s). \<forall>b. rl_sbp e = Some b \<longrightarrow> (\<exists>a. (b, a) \<in> set A \<and> same_request a (rl_arg e)))"

definition answers_ok :: "(nat \<times> execute_arg) list \<Rightarrow> (viewstamp_t \<times> byte list) list \<Rightarrow> cohort \<Rightarrow> bool" where
  "answers_ok A R s \<longleftrightarrow>
     (\<forall>b r. Reply b (ReplyExecute (ExecuteOk r)) \<in> set (outs s) \<longrightarrow>
        (\<exists>a v e. (b, a) \<in> set A \<and> log_get v s = Some e \<and> same_request a (rl_arg e) \<and> (v, r) \<in> set R))"

definition execs_ok :: "cohort \<Rightarrow> bool" where
  "execs_ok s \<longleftrightarrow> (\<forall>r v. Exec r v \<in> set (outs s) \<longrightarrow> (\<exists>e. log_get v s = Some e \<and> ea_request (rl_arg e) = r))"

definition counts_ok :: "(nat \<times> execute_arg) list \<Rightarrow> cohort \<Rightarrow> bool" where
  "counts_ok A s \<longleftrightarrow> (\<forall>b. wait_count b (log s) + ok_count b (outs s) \<le> count_list (map fst A) b)"

definition ans_inv :: "(nat \<times> execute_arg) list \<Rightarrow> (viewstamp_t \<times> byte list) list \<Rightarrow> cohort \<Rightarrow> bool" where
  "ans_inv A R s \<longleftrightarrow> cache_ok R s \<and> waits_ok A s \<and> answers_ok A R s \<and> execs_ok s \<and> counts_ok A s"

lemma ans_invD:
  assumes "ans_inv A R s"
  shows "cache_ok R s" "waits_ok A s" "answers_ok A R s" "execs_ok s" "counts_ok A s"
  using assms by (simp_all add: ans_inv_def)

lemma ans_inv_more:
  assumes "ans_inv A R s"
  shows "ans_inv (A @ A') (R @ R') s"
proof -
  note I = ans_invD [OF assms]
  have "cache_ok (R @ R') s" unfolding cache_ok_def
  proof (intro allI impI)
    fix c rce assume "replycache s c = Some rce"
    with I(1) show "\<exists>e. log_get (rc_rle rce) s = Some e \<and> ea_client (rl_arg e) = c \<and> ea_rid (rl_arg e) = rc_rid rce \<and>
      (rl_state e = RQ_EXECUTED \<longrightarrow> (\<exists>r. rc_reply rce = Some r \<and> (rc_rle rce, r) \<in> set (R @ R')))"
      unfolding cache_ok_def set_append by blast
  qed
  moreover have "waits_ok (A @ A') s" using I(2) unfolding waits_ok_def set_append by blast
  moreover have "answers_ok (A @ A') (R @ R') s" using I(3) unfolding answers_ok_def set_append by blast
  moreover have "counts_ok (A @ A') s" using I(5) by (simp add: counts_ok_def trans_le_add1)
  ultimately show ?thesis using I(4) by (simp add: ans_inv_def)
qed

section \<open>Steps that answer nobody keep it\<close>

lemma same_waits: "list_all2 same_entry es fs \<Longrightarrow> wait_count b fs = wait_count b es"
  by (induction rule: list_all2_induct) (auto simp: same_entry_def)

lemma idle_waits: "list_all idle es \<Longrightarrow> wait_count b es = 0"
  by (induction es) (auto simp: idle_def)

lemma no_ok: "(\<And>z. z \<in> set zs \<Longrightarrow> \<not> is_ok b z) \<Longrightarrow> ok_count b zs = 0"
  by (simp add: ok_count_def filter_empty_conv)

lemma calm_ans_inv:
  assumes I: "ans_inv A R s" and c: "calm s s'"
  shows "ans_inv A R s'"
proof (rule calm_elim [OF c])
  fix xs ys zs
  assume f: "replycache s' = replycache s" "log s' = xs @ ys" "list_all2 same_entry (log s) xs" "list_all idle ys"
    "outs s' = outs s @ zs" and z: "\<And>b z. z \<in> set zs \<Longrightarrow> \<not> is_ok b z"
    "\<And>r v. Exec r v \<in> set zs \<Longrightarrow> \<exists>e. log_get v s' = Some e \<and> ea_request (rl_arg e) = r"
  note I = ans_invD [OF I]
  have g: "\<exists>e'. log_get v s' = Some e' \<and> same_entry e e'" if "log_get v s = Some e" for v e
    using calm_log_get [OF c that] by blast
  have "cache_ok R s'" unfolding cache_ok_def f(1)
  proof (intro allI impI)
    fix ci rce assume "replycache s ci = Some rce"
    with I(1) obtain e where e: "log_get (rc_rle rce) s = Some e" "ea_client (rl_arg e) = ci" "ea_rid (rl_arg e) = rc_rid rce"
      "rl_state e = RQ_EXECUTED \<longrightarrow> (\<exists>r. rc_reply rce = Some r \<and> (rc_rle rce, r) \<in> set R)" unfolding cache_ok_def by blast
    from g [OF e(1)] e(2-4) show "\<exists>e. log_get (rc_rle rce) s' = Some e \<and> ea_client (rl_arg e) = ci \<and> ea_rid (rl_arg e) = rc_rid rce \<and>
      (rl_state e = RQ_EXECUTED \<longrightarrow> (\<exists>r. rc_reply rce = Some r \<and> (rc_rle rce, r) \<in> set R))"
      by (auto simp: same_entry_def)
  qed
  moreover have "waits_ok A s'" unfolding waits_ok_def
  proof (intro ballI allI impI)
    fix e b assume e: "e \<in> set (log s')" "rl_sbp e = Some b"
    with f(2,4) have "e \<in> set xs" by (auto simp: list_all_iff idle_def)
    with f(3) obtain e0 where "e0 \<in> set (log s)" "same_entry e0 e" by (metis list_all2_conv_all_nth in_set_conv_nth)
    with I(2) e(2) show "\<exists>a. (b, a) \<in> set A \<and> same_request a (rl_arg e)" by (auto simp: waits_ok_def same_entry_def)
  qed
  moreover have "answers_ok A R s'" unfolding answers_ok_def
  proof (intro allI impI)
    fix b r assume "Reply b (ReplyExecute (ExecuteOk r)) \<in> set (outs s')"
    then have "Reply b (ReplyExecute (ExecuteOk r)) \<in> set (outs s)" using z(1) [of _ b] f(5) by fastforce
    with I(3) obtain a v e where e: "(b, a) \<in> set A" "log_get v s = Some e" "same_request a (rl_arg e)" "(v, r) \<in> set R"
      unfolding answers_ok_def by blast
    from g [OF e(2)] e show "\<exists>a v e. (b, a) \<in> set A \<and> log_get v s' = Some e \<and> same_request a (rl_arg e) \<and> (v, r) \<in> set R"
      unfolding same_entry_def by metis
  qed
  moreover have "execs_ok s'" unfolding execs_ok_def
  proof (intro allI impI)
    fix r v assume "Exec r v \<in> set (outs s')"
    then consider "Exec r v \<in> set (outs s)" | "Exec r v \<in> set zs" using f(5) by auto
    then show "\<exists>e. log_get v s' = Some e \<and> ea_request (rl_arg e) = r"
    proof cases
      case 1
      with I(4) obtain e where e: "log_get v s = Some e" "ea_request (rl_arg e) = r" unfolding execs_ok_def by blast
      from g [OF e(1)] e(2) show ?thesis by (auto simp: same_entry_def)
    qed (rule z(2))
  qed
  moreover have "counts_ok A s'"
    using I(5) f(2,5) same_waits [OF f(3)] idle_waits [OF f(4)] no_ok [OF z(1)] by (simp add: counts_ok_def)
  ultimately show ?thesis by (simp add: ans_inv_def)
qed

section \<open>Changes of a single entry\<close>

lemma log_get_update:
  "(\<And>e. rl_vs (f e) = rl_vs e) \<Longrightarrow>
   log_get v (entry_update w f s) = (if v = w then map_option f (log_get v s) else log_get v s)"
proof -
  assume k: "\<And>e. rl_vs (f e) = rl_vs e"
  have "find (\<lambda>e. rl_vs e = v) (update_first (\<lambda>e. rl_vs e = w) f es) =
      (if v = w then map_option f (find (\<lambda>e. rl_vs e = v) es) else find (\<lambda>e. rl_vs e = v) es)" for es
    by (induction es) (auto simp: k)
  then show ?thesis by (simp add: log_get_def entry_update_def)
qed

lemma update_first_mem:
  "e' \<in> set (update_first P f es) \<Longrightarrow> e' \<in> set es \<or> (\<exists>e. find P es = Some e \<and> e' = f e)"
  by (induction es) (auto split: if_splits)

lemma wait_count_update:
  "find P es = Some e \<Longrightarrow>
   wait_count b (update_first P f es) + (if rl_sbp e = Some b then 1 else 0) =
   wait_count b es + (if rl_sbp (f e) = Some b then 1 else 0)"
  by (induction es) (auto split: if_splits)

lemma entry_update_fields [simp]:
  "replycache (entry_update v f s) = replycache s" "outs (entry_update v f s) = outs s"
  "replycache (emit x s) = replycache s" "log (emit x s) = log s" "outs (emit x s) = outs s @ [x]"
  "log_get w (emit x s) = log_get w s"
  by (simp_all add: entry_update_def emit_def log_get_def)

text \<open>The entry of a call gets another waiting call, or none.\<close>

lemma ans_inv_set_sbp:
  assumes I: "ans_inv A R s" and e: "log_get v s = Some e"
    and n: "\<And>b. n = Some b \<Longrightarrow> \<exists>a. (b, a) \<in> set A \<and> same_request a (rl_arg e)"
    and c: "\<And>b. n = Some b \<Longrightarrow> wait_count b (log s) + ok_count b (outs s) < count_list (map fst A) b + (if rl_sbp e = Some b then 1 else 0)"
  shows "ans_inv A R (entry_update v (\<lambda>e. e\<lparr>rl_sbp := n\<rparr>) s)"
proof -
  let ?f = "\<lambda>e. e\<lparr>rl_sbp := n\<rparr>"
  let ?s = "entry_update v ?f s"
  note I = ans_invD [OF I]
  have g: "log_get w ?s = (if w = v then map_option ?f (log_get w s) else log_get w s)" for w by (rule log_get_update) simp
  have g': "\<exists>e'. log_get w ?s = Some e' \<and> rl_arg e' = rl_arg e0 \<and> rl_state e' = rl_state e0" if "log_get w s = Some e0" for w e0
    using that by (auto simp: g)
  have fe: "find (\<lambda>e. rl_vs e = v) (log s) = Some e" using e by (simp add: log_get_def)
  have "cache_ok R ?s" using I(1) g' unfolding cache_ok_def entry_update_fields by metis
  moreover have "waits_ok A ?s" unfolding waits_ok_def
  proof (intro ballI allI impI)
    fix e' b assume e': "e' \<in> set (log ?s)" "rl_sbp e' = Some b"
    from update_first_mem e'(1) fe consider "e' \<in> set (log s)" | "e' = ?f e" by (fastforce simp: entry_update_def)
    then show "\<exists>a. (b, a) \<in> set A \<and> same_request a (rl_arg e')"
      using I(2) e'(2) n by cases (auto simp: waits_ok_def)
  qed
  moreover have "answers_ok A R ?s" using I(3) g' unfolding answers_ok_def entry_update_fields by metis
  moreover have "execs_ok ?s" using I(4) g' unfolding execs_ok_def entry_update_fields by metis
  moreover have "counts_ok A ?s" unfolding counts_ok_def entry_update_fields
  proof
    fix b
    from wait_count_update [OF fe, of b ?f] I(5) c [of b]
    show "wait_count b (log ?s) + ok_count b (outs s) \<le> count_list (map fst A) b"
      by (cases "n = Some b"; cases "rl_sbp e = Some b") (auto simp: entry_update_def counts_ok_def dest: spec [of _ b])
  qed
  ultimately show ?thesis by (simp add: ans_inv_def)
qed

lemma ans_inv_cache:
  assumes I: "ans_inv A R s" and e: "log_get (rc_rle rce) s = Some e" "ea_rid (rl_arg e) = rc_rid rce"
    "rl_state e = RQ_EXECUTED \<Longrightarrow> \<exists>r. rc_reply rce = Some r \<and> (rc_rle rce, r) \<in> set R"
  shows "ans_inv A R (s\<lparr>replycache := (replycache s)(ea_client (rl_arg e) \<mapsto> rce)\<rparr>)"
proof -
  let ?s = "s\<lparr>replycache := (replycache s)(ea_client (rl_arg e) \<mapsto> rce)\<rparr>"
  have g: "log_get v ?s = log_get v s" for v by (simp add: log_get_def)
  note I = ans_invD [OF I]
  have "cache_ok R ?s" using I(1) e unfolding cache_ok_def g by auto
  then show ?thesis using I(2-5)
    by (simp add: ans_inv_def waits_ok_def answers_ok_def execs_ok_def counts_ok_def g)
qed

lemma ans_inv_executed:
  assumes I: "ans_inv A R s" and e: "log_get v s = Some e"
    and c: "replycache s (ea_client (rl_arg e)) = Some rce" "rc_reply rce = Some r" "(v, r) \<in> set R" "rc_rle rce = v"
  shows "ans_inv A R (entry_update v (\<lambda>e. e\<lparr>rl_state := RQ_EXECUTED\<rparr>) s)"
proof -
  let ?f = "\<lambda>e. e\<lparr>rl_state := RQ_EXECUTED\<rparr>"
  let ?s = "entry_update v ?f s"
  note I = ans_invD [OF I]
  have g: "log_get w ?s = (if w = v then map_option ?f (log_get w s) else log_get w s)" for w by (rule log_get_update) simp
  have g': "\<exists>e'. log_get w ?s = Some e' \<and> rl_arg e' = rl_arg e0" if "log_get w s = Some e0" for w e0
    using that by (auto simp: g)
  have fe: "find (\<lambda>e. rl_vs e = v) (log s) = Some e" using e by (simp add: log_get_def)
  have "cache_ok R ?s" unfolding cache_ok_def entry_update_fields
  proof (intro allI impI)
    fix ci rce' assume r: "replycache s ci = Some rce'"
    with I(1) obtain e' where e': "log_get (rc_rle rce') s = Some e'" "ea_client (rl_arg e') = ci" "ea_rid (rl_arg e') = rc_rid rce'"
      "rl_state e' = RQ_EXECUTED \<longrightarrow> (\<exists>r. rc_reply rce' = Some r \<and> (rc_rle rce', r) \<in> set R)" unfolding cache_ok_def by blast
    show "\<exists>e. log_get (rc_rle rce') ?s = Some e \<and> ea_client (rl_arg e) = ci \<and> ea_rid (rl_arg e) = rc_rid rce' \<and>
      (rl_state e = RQ_EXECUTED \<longrightarrow> (\<exists>r. rc_reply rce' = Some r \<and> (rc_rle rce', r) \<in> set R))"
    proof (cases "rc_rle rce' = v")
      case True
      with e e' have "e' = e" by simp
      with r e' c True show ?thesis by (auto simp: g)
    qed (use e' g in auto)
  qed
  moreover have "waits_ok A ?s" unfolding waits_ok_def
  proof (intro ballI allI impI)
    fix e' b assume e': "e' \<in> set (log ?s)" "rl_sbp e' = Some b"
    have "e \<in> set (log s)" using log_get_Some [OF e] by simp
    moreover have "e' \<in> set (log s) \<or> e' = ?f e" using update_first_mem e'(1) fe by (fastforce simp: entry_update_def)
    ultimately show "\<exists>a. (b, a) \<in> set A \<and> same_request a (rl_arg e')"
      using I(2) e'(2) unfolding waits_ok_def by (elim disjE) simp_all
  qed
  moreover have "answers_ok A R ?s" using I(3) g' unfolding answers_ok_def entry_update_fields by metis
  moreover have "execs_ok ?s" using I(4) g' unfolding execs_ok_def entry_update_fields by metis
  moreover have "counts_ok A ?s" using I(5) wait_count_update [OF fe, of _ ?f]
    by (simp add: counts_ok_def entry_update_def)
  ultimately show ?thesis by (simp add: ans_inv_def)
qed

lemma update_emit: "entry_update v f (emit x s) = emit x (entry_update v f s)"
  by (cases s) (simp add: entry_update_def emit_def)

lemma ans_inv_reply:
  assumes I: "ans_inv A R s" and a: "(b, a) \<in> set A" "log_get v s = Some e" "same_request a (rl_arg e)" "(v, r) \<in> set R"
    and c: "wait_count b (log s) + ok_count b (outs s) < count_list (map fst A) b"
  shows "ans_inv A R (emit (Reply b (ReplyExecute (ExecuteOk r))) s)"
proof -
  let ?s = "emit (Reply b (ReplyExecute (ExecuteOk r))) s"
  note I = ans_invD [OF I]
  have "answers_ok A R ?s" using I(3) a unfolding answers_ok_def by auto
  moreover have "counts_ok A ?s" using I(5) c by (auto simp: counts_ok_def)
  ultimately show ?thesis using I(1,2,4) by (simp add: ans_inv_def cache_ok_def waits_ok_def execs_ok_def)
qed

lemma ans_inv_drop:
  assumes I: "ans_inv A R s" and e: "log_get v s = Some rle"
  shows "ans_inv A R (drop_waiting rle s)" "log_get v (drop_waiting rle s) = Some (rle\<lparr>rl_sbp := None\<rparr>)"
    "replycache (drop_waiting rle s) = replycache s" "view (drop_waiting rle s) = view s"
    "self (drop_waiting rle s) = self s" "latest (drop_waiting rle s) = latest s" "logged w (drop_waiting rle s) \<longleftrightarrow> logged w s"
proof -
  have v: "rl_vs rle = v" using log_get_Some [OF e] by simp
  have "ans_inv A R (entry_update v (\<lambda>e. e\<lparr>rl_sbp := None\<rparr>) (emit (Ignore old) s))" for old
    by (rule ans_inv_set_sbp [OF calm_ans_inv [OF I calm_emit]]) (use e in simp_all)
  then show "ans_inv A R (drop_waiting rle s)" using I v by (simp add: drop_waiting_def split: option.split)
  show "log_get v (drop_waiting rle s) = Some (rle\<lparr>rl_sbp := None\<rparr>)"
    using e v by (auto simp: drop_waiting_def log_get_update split: option.split)
  show "logged w (drop_waiting rle s) \<longleftrightarrow> logged w s"
    by (rule keys_logged) (simp add: drop_waiting_def entry_update_def emit_def keys_update_first split: option.split)
qed (simp_all add: drop_waiting_def entry_update_def emit_def split: option.split)

section \<open>The calls of the clients\<close>

lemma ans_inv_execute_done:
  assumes I: "ans_inv A R s" and x: "execute_done vs r s = Inr s'"
  shows "ans_inv A (R @ [(vs, r)]) s'"
proof -
  from x obtain rle where e: "log_get vs s = Some rle" by (cases "log_get vs s") (simp_all add: execute_done_def)
  let ?R = "R @ [(vs, r)]" and ?ex = "\<lambda>e :: request_log_entry. e\<lparr>rl_state := RQ_EXECUTED\<rparr>"
  let ?rce = "\<lparr>rc_rid = ea_rid (rl_arg rle), rc_rle = vs, rc_reply = Some r\<rparr>"
  let ?c = "s\<lparr>replycache := (replycache s)(ea_client (rl_arg rle) \<mapsto> ?rce)\<rparr>"
  let ?s = "entry_update vs ?ex ?c"
  have I0: "ans_inv A ?R s" using ans_inv_more [OF I, of "[]" "[(vs, r)]"] by simp
  have c: "ans_inv A ?R ?c" by (rule ans_inv_cache [OF I0]) (use e in simp_all)
  have ec: "log_get vs ?c = Some rle" using e by (simp add: log_get_def)
  have J: "ans_inv A ?R ?s" by (rule ans_inv_executed [OF c ec, where rce = ?rce and r = r]) simp_all
  have es: "log_get vs ?s = Some (?ex rle)" using ec by (subst log_get_update) simp_all
  have s: "(entry_update vs ?ex s)\<lparr>replycache := m\<rparr> = entry_update vs ?ex (s\<lparr>replycache := m\<rparr>)" for m
    by (simp add: entry_update_def)
  show ?thesis
  proof (cases "rl_sbp rle")
    case None
    then have "s' = ?s" using x e by (simp add: execute_done_def Let_def s)
    with J show ?thesis by simp
  next
    case (Some b)
    let ?n = "\<lambda>e :: request_log_entry. e\<lparr>rl_sbp := None\<rparr>"
    let ?t = "entry_update vs ?n ?s"
    have s': "s' = emit (Reply b (ReplyExecute (ExecuteOk r))) ?t"
      using x e Some by (simp add: execute_done_def Let_def s update_emit)
    have K: "ans_inv A ?R ?t" by (rule ans_inv_set_sbp [OF J es]) simp_all
    have et: "log_get vs ?t = Some (?n (?ex rle))" using es by (subst log_get_update) simp_all
    have "rle \<in> set (log s)" using log_get_Some [OF e] by simp
    with ans_invD(2) [OF I] Some obtain a where a: "(b, a) \<in> set A" "same_request a (rl_arg rle)" by (auto simp: waits_ok_def)
    have f: "find (\<lambda>e. rl_vs e = vs) (log ?s) = Some (?ex rle)" using es by (simp add: log_get_def)
    have "wait_count b (log ?t) + 1 = wait_count b (log ?s)"
      using wait_count_update [OF f, of b ?n] Some by (simp add: entry_update_def)
    moreover have "wait_count b (log ?s) + ok_count b (outs ?s) \<le> count_list (map fst A) b"
      using ans_invD(5) [OF J] by (simp add: counts_ok_def)
    ultimately have "wait_count b (log ?t) + ok_count b (outs ?t) < count_list (map fst A) b" by simp
    from ans_inv_reply [OF K a(1) et _ _ this] a(2) show ?thesis unfolding s' by simp
  qed
qed

lemma log_append_waiting:
  assumes n: "\<not> logged (rl_vs e) s" and a: "log_append (e\<lparr>rl_sbp := b\<rparr>) s = Inr s'"
  obtains t where "log_append e s = Inr t" "s' = entry_update (rl_vs e) (\<lambda>e. e\<lparr>rl_sbp := b\<rparr>) t" "log_get (rl_vs e) t = Some e"
proof -
  have "vs_jumps_update (e\<lparr>rl_sbp := b\<rparr>) s = vs_jumps_update e s"
    by (cases "vs_ts (rl_vs e) = 0") (simp_all add: vs_jumps_update_def split: option.split)
  with a obtain u where u: "vs_jumps_update e s = Inr u" and s': "s' = log_insert (e\<lparr>rl_sbp := b\<rparr>) u"
    by (auto simp: log_append_def)
  have l: "log u = log s" using u by (auto simp: vs_jumps_update_def split: if_splits option.splits)
  have f: "find P es = None \<Longrightarrow> update_first P f (es @ [e]) = es @ update_first P f [e] \<and> find P (es @ [e]) = find P [e]"
    for P f es by (induction es) (auto split: if_splits)
  have "find (\<lambda>x. rl_vs x = rl_vs e) (log s) = None" using n log_get_None [of "rl_vs e" s] by (simp add: log_get_def)
  note f = f [OF this]
  show thesis
  proof (rule that)
    show "log_append e s = Inr (log_insert e u)" by (simp add: log_append_def u)
    show "s' = entry_update (rl_vs e) (\<lambda>e. e\<lparr>rl_sbp := b\<rparr>) (log_insert e u)"
      using f by (simp add: s' log_insert_def entry_update_def l)
    show "log_get (rl_vs e) (log_insert e u) = Some e" using f by (simp add: log_get_def log_insert_def l)
  qed
qed

text \<open>
  The viewstamp that a primary gives to a request is not in its log yet: only the primary of a view makes its entries.
\<close>

definition next_is_new :: "cohort \<Rightarrow> bool" where
  "next_is_new s \<longleftrightarrow>
     (mode s = VC_ACTIVE \<and> co_mid (self s) = co_mid (vw_primary (view s)) \<longrightarrow>
        (case vs_add (latest s) 1 of Inl _ \<Rightarrow> True | Inr vs \<Rightarrow> log_get vs s = None))"

lemma count_more: "ans_inv A R s \<Longrightarrow> wait_count b (log s) + ok_count b (outs s) < count_list (map fst (A @ [(b, a)])) b"
  using ans_invD(5) [of A R s] by (simp add: counts_ok_def less_Suc_eq_le)

context detector
begin

lemma ans_inv_accept:
  assumes I: "ans_inv A R s" and n: "\<And>vs. vs_add (latest s) 1 = Inr vs \<Longrightarrow> log_get vs s = None"
    and r: "accept_request E sbp arg s = Inr s'"
  shows "ans_inv (A @ [(sbp, arg)]) R s'"
proof -
  let ?A = "A @ [(sbp, arg)]"
  let ?ack = "\<lparr>received = [co_mid (self s)],
      expected = fold (\<lambda>b. mids_insert (co_mid b)) (vw_backups (view s)) [co_mid (self s)]\<rparr>"
  from r obtain vs s2 where vs: "vs_add (latest s) 1 = Inr vs"
    and a: "log_append ((new_entry vs arg)\<lparr>rl_ack := Some ?ack, rl_sbp := Some sbp\<rparr>) (s\<lparr>latest := vs\<rparr>) = Inr s2"
    and c: "advance_committed E (fold (send_replicate \<lparr>rp_vs = vs, rp_arg = arg, rp_committed = committed s\<rparr>)
              (vw_backups (view s)) (s2\<lparr>replycache := (replycache s2)(ea_client arg \<mapsto>
                \<lparr>rc_rid = ea_rid arg, rc_rle = vs,
                 rc_reply = (case replycache s2 (ea_client arg) of Some rce \<Rightarrow> rc_reply rce | None \<Rightarrow> None)\<rparr>)\<rparr>)) = Inr s'"
    by (auto simp: accept_request_def Let_def)
  define e where "e = (new_entry vs arg)\<lparr>rl_ack := Some ?ack\<rparr>"
  have ve: "rl_vs e = vs" "rl_arg e = arg" "idle e" "rl_state e \<noteq> RQ_EXECUTED" by (simp_all add: e_def new_entry_def idle_def)
  let ?s1 = "s\<lparr>latest := vs\<rparr>"
  have "\<not> logged (rl_vs e) ?s1" using n [OF vs] log_get_None [of vs s] ve(1) by (simp add: logged_def)
  then obtain t where t: "log_append e ?s1 = Inr t" and s2: "s2 = entry_update vs (\<lambda>e. e\<lparr>rl_sbp := Some sbp\<rparr>) t"
    and g: "log_get vs t = Some e"
    using log_append_waiting [of e ?s1 "Some sbp" s2] a ve(1) unfolding e_def by (auto simp: new_entry_def)
  have "calm s ?s1" by (rule calm_same) simp_all
  from calm_trans [OF this calm_log_append [OF ve(3) t]] have T: "ans_inv A R t" by (rule calm_ans_inv [OF I])
  have T': "ans_inv ?A R t" using ans_inv_more [OF T, of "[(sbp, arg)]" "[]"] by simp
  have S2: "ans_inv ?A R s2" unfolding s2
    by (rule ans_inv_set_sbp [OF T' g]) (use count_more [OF T, of sbp arg] ve in \<open>auto simp: same_request_def\<close>)
  have g2: "log_get vs s2 = Some (e\<lparr>rl_sbp := Some sbp\<rparr>)" unfolding s2 by (subst log_get_update) (simp_all add: g)
  have S3: "ans_inv ?A R (s2\<lparr>replycache := (replycache s2)(ea_client arg \<mapsto>
        \<lparr>rc_rid = ea_rid arg, rc_rle = vs, rc_reply = p\<rparr>)\<rparr>)" for p
    using ans_inv_cache [OF S2, of "\<lparr>rc_rid = ea_rid arg, rc_rle = vs, rc_reply = p\<rparr>"] g2 ve by simp
  show ?thesis by (rule calm_ans_inv [OF S3 calm_trans [OF calm_send_replicate calm_advance_committed [OF c]]])
qed

lemma ans_inv_execute_request:
  assumes I: "ans_inv A R s" and n: "next_is_new s" "mode s = VC_ACTIVE" and r: "execute_request E sbp arg s = Inr s'"
  shows "ans_inv (A @ [(sbp, arg)]) R s'"
proof (cases "ea_vid arg \<noteq> vw_vid (view s) \<or> co_mid (self s) \<noteq> co_mid (vw_primary (view s))")
  case True
  then have "s' = emit (Reply sbp (ReplyExecute (ExecuteView (my_viewinfo s)))) s" using r by (auto simp: execute_request_def)
  with calm_ans_inv [OF I calm_emit] show ?thesis using ans_inv_more [of A R _ "[(sbp, arg)]" "[]"] by simp
next
  case False
  then have "accept_request E sbp arg s = Inr s'" using r by (simp add: execute_request_def)
  from ans_inv_accept [OF I _ this] n False show ?thesis by (simp add: next_is_new_def split: sum.splits)
qed

lemma ans_inv_rep_execute:
  assumes I: "ans_inv A R s" and n: "next_is_new s" and r: "rep_execute E sbp arg s = Inr s'"
  shows "ans_inv (A @ [(sbp, arg)]) R s'"
proof -
  let ?A = "A @ [(sbp, arg)]"
  have I': "ans_inv ?A R s" using ans_inv_more [OF I, of "[(sbp, arg)]" "[]"] by simp
  show ?thesis
  proof (cases "mode s = VC_ACTIVE")
    case False
    then show ?thesis using r calm_ans_inv [OF I' calm_emit] by (auto simp: rep_execute_def)
  next
    case act: True
    show ?thesis
    proof (cases "\<exists>rce. replycache s (ea_client arg) = Some rce \<and> rc_rid rce = ea_rid arg")
      case False
      then have "execute_request E sbp arg s = Inr s'" using r act by (auto simp: rep_execute_def split: option.splits if_splits)
      from ans_inv_execute_request [OF I n act this] show ?thesis .
    next
      case True
      then obtain rce where rce: "replycache s (ea_client arg) = Some rce" "rc_rid rce = ea_rid arg" by blast
      from ans_invD(1) [OF I] rce(1) obtain rle where g: "log_get (rc_rle rce) s = Some rle"
        and e: "ea_client (rl_arg rle) = ea_client arg" "ea_rid (rl_arg rle) = rc_rid rce"
        and x: "rl_state rle = RQ_EXECUTED \<longrightarrow> (\<exists>r. rc_reply rce = Some r \<and> (rc_rle rce, r) \<in> set R)"
        unfolding cache_ok_def by metis
      have q: "same_request arg (rl_arg rle)" using e rce(2) by (simp add: same_request_def)
      have v: "rl_vs rle = rc_rle rce" using log_get_Some [OF g] by simp
      note D = ans_inv_drop [OF I g]
      let ?d = "drop_waiting rle s"
      have f: "(if rl_state rle = RQ_EXECUTED then
          (case rc_reply rce of None \<Rightarrow> Inl Null_deref | Some x \<Rightarrow> Inr (emit (Reply sbp (ReplyExecute (ExecuteOk x))) s))
        else if \<not> (rl_state rle = RQ_LOGGED \<and> vs_vid (rl_vs rle) < vw_vid (view s)) then
          Inr (entry_update (rl_vs rle) (\<lambda>e. e\<lparr>rl_sbp := Some sbp\<rparr>) ?d)
        else execute_request E sbp arg ?d) = Inr s'" using r act rce g by (simp add: rep_execute_def)
      show ?thesis
      proof (cases "rl_state rle = RQ_EXECUTED")
        case True
        with x obtain p where p: "rc_reply rce = Some p" "(rc_rle rce, p) \<in> set R" by blast
        have s': "s' = emit (Reply sbp (ReplyExecute (ExecuteOk p))) s" using f True p(1) by simp
        have c: "wait_count sbp (log s) + ok_count sbp (outs s) < count_list (map fst ?A) sbp" by (rule count_more [OF I])
        show ?thesis unfolding s' by (rule ans_inv_reply [OF I' _ g q p(2) c]) simp
      next
        case ex: False
        show ?thesis
        proof (cases "rl_state rle = RQ_LOGGED \<and> vs_vid (rl_vs rle) < vw_vid (view s)")
          case False
          then have s': "s' = entry_update (rc_rle rce) (\<lambda>e. e\<lparr>rl_sbp := Some sbp\<rparr>) ?d" using f ex v by (simp only: if_False if_True simp_thms sum.inject)
          have D': "ans_inv ?A R ?d" using ans_inv_more [OF D(1), of "[(sbp, arg)]" "[]"] by simp
          show ?thesis unfolding s'
            by (rule ans_inv_set_sbp [OF D' D(2)]) (use count_more [OF D(1), of sbp arg] q in auto)
        next
          case True
          then have d: "execute_request E sbp arg ?d = Inr s'" using f ex by simp
          have m: "mode ?d = VC_ACTIVE" using act by (simp add: drop_waiting_def entry_update_def emit_def split: option.split)
          have "log_get w ?d = None \<longleftrightarrow> log_get w s = None" for w using D(7) by (simp add: log_get_None)
          then have "next_is_new ?d" using n D(4-6) m act by (simp add: next_is_new_def split: sum.splits)
          from ans_inv_execute_request [OF D(1) this m d] show ?thesis .
        qed
      qed
    qed
  qed
qed

end

section \<open>A cohort with its state machine and its clients\<close>

fun asked :: "cohort_event \<Rightarrow> (nat \<times> execute_arg) list" where
  "asked (EvCall sbp (RepExecute arg)) = [(sbp, arg)]"
| "asked _ = []"

definition results :: "viewstamp_t exec_server \<Rightarrow> (viewstamp_t \<times> byte list) list" where
  "results x = map snd (xs_done x)"

text \<open>As \<open>node_reach\<close>, with the calls of \<open>REP_EXECUTE\<close> that have come; results come from the state machine only.\<close>

inductive node_served :: "env \<Rightarrow> (nat \<times> execute_arg) list \<Rightarrow> cohort \<Rightarrow> viewstamp_t exec_server \<Rightarrow> bool" for E :: env where
  start: "cohort_ok me \<Longrightarrow> new_cohort me v0 a = Inr s \<Longrightarrow> feed (exec_calls (outs s)) exec_init = Inr x \<Longrightarrow> node_served E [] s x"
| step: "node_served E A s x \<Longrightarrow> wf_event s ev \<Longrightarrow> (\<And>v r. ev \<noteq> EvExecuted v r) \<Longrightarrow> (asked ev \<noteq> [] \<longrightarrow> next_is_new s) \<Longrightarrow>
    cohort_step E ev s = Inr s' \<Longrightarrow> feed (exec_calls (drop (length (outs s)) (outs s'))) x = Inr x' \<Longrightarrow>
    node_served E (A @ asked ev) s' x'"
| result: "node_served E A s x \<Longrightarrow> xs_x x \<Longrightarrow> xs_rq x = (i, v) # rest \<Longrightarrow> exec_recv (Some r) x = Inr x' \<Longrightarrow>
    execute_done v r s = Inr s' \<Longrightarrow> node_served E A s' x'"
| closed: "node_served E A s x \<Longrightarrow> xs_x x \<Longrightarrow> exec_recv None x = Inr x' \<Longrightarrow> node_served E A s x'"
| connected: "node_served E A s x \<Longrightarrow> 0 < xs_connecting x \<Longrightarrow> connect_cb x = Inr x' \<Longrightarrow> node_served E A s x'"
| watch: "node_served E A s x \<Longrightarrow> quiet s s' \<Longrightarrow> node_served E A s' x"

lemma node_served_reach: "node_served E A s x \<Longrightarrow> node_reach E s x"
  by (induction rule: node_served.induct) (auto intro: node_reach.intros)

lemma sendreq_results: "sendreq x = Inr x' \<Longrightarrow> results x' = results x"
  by (auto simp: sendreq_def results_def split: if_splits list.splits)

lemma feed_results: "feed ds x = Inr x' \<Longrightarrow> results x' = results x"
proof (induction ds arbitrary: x)
  case (Cons d ds)
  then obtain t where t: "exec_execute (fst d) (snd d) x = Inr t" "feed ds t = Inr x'" by (cases d) (auto simp: feed_def)
  have "results t = results x" using t(1) sendreq_results
    by (fastforce simp: exec_execute_def Let_def results_def split: if_splits)
  with Cons.IH [OF t(2)] show ?case by simp
qed (simp add: feed_def)

lemma recv_results:
  "exec_recv None x = Inr x' \<Longrightarrow> results x' = results x"
  "exec_recv (Some r) x = Inr x' \<Longrightarrow> xs_rq x = (i, v) # rest \<Longrightarrow> results x' = results x @ [(v, r)]"
  "connect_cb x = Inr x' \<Longrightarrow> results x' = results x"
proof -
  show "exec_recv None x = Inr x' \<Longrightarrow> results x' = results x"
    using sendreq_results by (fastforce simp: exec_recv_def Let_def results_def split: if_splits)
  show "exec_recv (Some r) x = Inr x' \<Longrightarrow> xs_rq x = (i, v) # rest \<Longrightarrow> results x' = results x @ [(v, r)]"
    using sendreq_results by (fastforce simp: exec_recv_def Let_def results_def split: if_splits)
  show "connect_cb x = Inr x' \<Longrightarrow> results x' = results x"
    using sendreq_results [of "x\<lparr>xs_x := True, xs_connecting := xs_connecting x - 1\<rparr>" x'] by (simp add: connect_cb_def results_def)
qed

lemma new_cohort_ans_inv:
  assumes "new_cohort me v0 a = Inr s"
  shows "ans_inv [] [] s"
proof -
  have b: "ans_inv [] [] t" if "log t = []" "replycache t = (\<lambda>_. None)" "outs t = []" for t
    using that by (simp add: ans_inv_def cache_ok_def waits_ok_def answers_ok_def execs_ok_def counts_ok_def)
  show ?thesis
  proof (cases "sin_port a = 0")
    case True
    have "\<exists>t e u. log_append (new_entry t e) u = Inr s \<and> log u = [] \<and> replycache u = (\<lambda>_. None) \<and> outs u = []"
      using assms True by (simp add: new_cohort_def Let_def blank_cohort_def) (intro exI conjI; assumption?; simp)
    then obtain t e u where u: "log_append (new_entry t e) u = Inr s" "log u = []" "replycache u = (\<lambda>_. None)" "outs u = []"
      by blast
    show ?thesis by (rule calm_ans_inv [OF b [OF u(2-4)] calm_log_append [OF idle_new_entry u(1)]])
  next
    case False
    then have s: "s = join_view a (blank_cohort me v0)" using assms by (simp add: new_cohort_def Let_def)
    show ?thesis unfolding s by (rule calm_ans_inv [OF b calm_join_view]) (simp_all add: blank_cohort_def)
  qed
qed

lemma node_served_inv:
  assumes E: "detector E"
  shows "node_served E A s x \<Longrightarrow> ans_inv A (results x) s"
proof (induction rule: node_served.induct)
  case (start me v0 a s x)
  then show ?case using new_cohort_ans_inv feed_results [OF start(3)] by (simp add: results_def exec_init_def)
next
  case (step A s x ev s' x')
  note r = feed_results [OF step(6)]
  show ?case
  proof (cases "\<exists>sbp arg. ev = EvCall sbp (RepExecute arg)")
    case True
    then obtain sbp arg where ev: "ev = EvCall sbp (RepExecute arg)" by blast
    then have "rep_execute E sbp arg s = Inr s'" using step(5) by (simp add: cohort_step_def dispatch_def)
    from detector.ans_inv_rep_execute [OF E step.IH _ this] show ?thesis using step(4) by (simp add: ev r)
  next
    case False
    then have "asked ev = []" by (cases ev rule: asked.cases) simp_all
    with calm_ans_inv [OF step.IH detector.calm_step [OF E step(5)]] False step(3) show ?thesis by (auto simp: r)
  qed
next
  case (result A s x i v rest r x' s')
  from ans_inv_execute_done [OF result.IH result(5)] show ?case unfolding recv_results(2) [OF result(4,3)] .
next
  case (closed A s x x')
  then show ?case using recv_results(1) by simp
next
  case (connected A s x x')
  then show ?case using recv_results(3) by simp
next
  case (watch A s x s')
  then show ?case using calm_ans_inv calm_quiet by blast
qed

lemma answers_in_log:
  assumes "detector E" and "node_served E A s x" and b: "Reply b (ReplyExecute (ExecuteOk r)) \<in> set (outs s)"
  shows "\<exists>a e. (b, a) \<in> set A \<and> log_get (rl_vs e) s = Some e \<and> same_request a (rl_arg e) \<and>
    (ea_request (rl_arg e), rl_vs e, r) \<in> set (xs_done x)"
proof -
  note I = ans_invD [OF node_served_inv [OF assms(1,2)]]
  have cx: "answered_calls x @ xs_rq x = exec_calls (outs s)"
    using exec_reach_inv node_parts [OF assms(1) node_served_reach [OF assms(2)]] by (auto simp: exec_inv_def)
  from I(3) b obtain a v e where e: "(b, a) \<in> set A" "log_get v s = Some e" "same_request a (rl_arg e)" "(v, r) \<in> set (results x)"
    unfolding answers_ok_def by blast
  then obtain i where i: "(i, v, r) \<in> set (xs_done x)" by (auto simp: results_def)
  then have "(i, v) \<in> set (answered_calls x)" by (force simp: answered_calls_def)
  then have "(i, v) \<in> set (exec_calls (outs s))" unfolding cx [symmetric] by simp
  then have "Exec i v \<in> set (outs s)" by (simp add: exec_calls_mem)
  with I(4) obtain e' where "log_get v s = Some e'" "ea_request (rl_arg e') = i" unfolding execs_ok_def by blast
  with e(2) have "ea_request (rl_arg e) = i" by simp
  moreover have "rl_vs e = v" using log_get_Some [OF e(2)] by simp
  ultimately show ?thesis using e i by (intro exI [of _ a] exI [of _ e]) simp
qed


definition demo_one :: execute_arg where
  "demo_one = demo_arg\<lparr>ea_vid := ViewId 1 9\<rparr>"

definition demo_a1 :: cohort where
  "demo_a1 = demo_q0
     \<lparr>log := log demo_q0 @ [(new_entry (VS (ViewId 1 9) 1) demo_one)\<lparr>rl_sbp := Some 1, rl_state := RQ_EXECUTING\<rparr>],
      replycache := [5 \<mapsto> \<lparr>rc_rid = 1, rc_rle = VS (ViewId 1 9) 1, rc_reply = None\<rparr>],
      latest := VS (ViewId 1 9) 1, committed := VS (ViewId 1 9) 1, executed := VS (ViewId 1 9) 1,
      outs := [Exec [1, 2] (VS (ViewId 1 9) 1)]\<rparr>"

lemma demo_a1_step: "cohort_step demo_env (EvCall 1 (RepExecute demo_one)) demo_q0 = Inr demo_a1"
  by (simp add: demo_defs demo_a1_def demo_q0_def demo_form0_def rep_execute_def execute_request_def accept_request_def
      send_replicate_def demo_one_def demo_arg_def contains_majority_of_def set_insert_def)

definition demo_a2 :: cohort where
  "demo_a2 = demo_a1
     \<lparr>log := log demo_q0 @ [(new_entry (VS (ViewId 1 9) 1) demo_one)\<lparr>rl_state := RQ_EXECUTED\<rparr>],
      replycache := [5 \<mapsto> \<lparr>rc_rid = 1, rc_rle = VS (ViewId 1 9) 1, rc_reply = Some [7]\<rparr>],
      outs := [Exec [1, 2] (VS (ViewId 1 9) 1), Reply 1 (ReplyExecute (ExecuteOk [7]))]\<rparr>"

lemma demo_a2_step: "execute_done (VS (ViewId 1 9) 1) [7] demo_a1 = Inr demo_a2"
  by (simp add: execute_done_def demo_a2_def demo_a1_def demo_q0_def log_get_def entry_update_def emit_def new_entry_def
      demo_one_def demo_arg_def blank_cohort_def)

lemma demo_served:
  "\<exists>x. node_served demo_env [(1, demo_one)] demo_a2 x"
proof -
  let ?v = "VS (ViewId 1 9) 1"
  let ?x1 = "exec_init\<lparr>xs_rq := [([1, 2], ?v)], xs_connecting := 1\<rparr>"
  let ?x2 = "?x1\<lparr>xs_x := True, xs_connecting := 0, xs_sent := [[1, 2]]\<rparr>"
  let ?x3 = "?x2\<lparr>xs_rq := [], xs_done := [([1, 2], ?v, [7])]\<rparr>"
  note d = exec_init_def exec_execute_def sendreq_def connect_cb_def exec_recv_def
  have q: "outs demo_q0 = []" by (simp add: demo_q0_def blank_cohort_def)
  have "node_served demo_env [] demo_q0 exec_init"
    by (rule node_served.start [OF demo_forms_ok(3) demo_primary]) (simp add: q exec_calls_def feed_def)
  then have "node_served demo_env ([] @ asked (EvCall 1 (RepExecute demo_one))) demo_a1 ?x1"
    by (rule node_served.step [OF _ _ _ _ demo_a1_step])
      (simp_all add: wf_event_def next_is_new_def demo_q0_def demo_a1_def blank_cohort_def vs_add_def log_get_def new_entry_def
        exec_calls_def feed_def d)
  then have "node_served demo_env [(1, demo_one)] demo_a1 ?x1" by simp
  then have "node_served demo_env [(1, demo_one)] demo_a1 ?x2"
    by (rule node_served.connected) (simp_all add: d)
  then have "node_served demo_env [(1, demo_one)] demo_a2 ?x3"
    by (rule node_served.result [OF _ _ _ _ demo_a2_step]) (simp_all add: d)
  then show ?thesis by blast
qed


end
