(* ===== verification/PmpClient.thy ===== *)
theory PmpClient
  imports PmpGaps StdMap
begin

text \<open>
  The client of the replicated service (\<open>apps/pmp_falcon/clientproxy.C\<close>): it asks everybody for the view, sends each request to the
  primary until it is answered, and hands the answer to the program that is connected to it.  The version of \<open>pmp_falcon_leader\<close>
  watches the primary with Falcon as well; what it does more is the parameter \<open>cl_env\<close>.
\<close>

section \<open>State\<close>

text \<open>The view information of \<open>pmp_falcon_leader\<close> names the primary as a cohort too; the other versions do not look at it.\<close>

record primary_info = execute_viewinfo +
  pi_primary_c :: cohort_t

text \<open>A request with the connection its answer goes to; \<open>cq_obj\<close> is the address of the object.\<close>

record creq =
  cq_obj :: nat
  cq_arg :: execute_arg
  cq_conn :: nat

text \<open>The calls that may still be answered: a broadcast with its flag \<open>retried\<close>, or a request.\<close>

datatype pending = PViewinfo creq bool | PExecute creq

datatype call_stat = CsOk | CsTimedout | CsUndecodable | CsOther

record falcon_info =
  fi_req :: creq
  fi_call :: nat

datatype client_out =
    ClBcast nat
  | ClExecute nat sockaddr_in execute_arg
  | ClSend nat "byte list"
  | ClWatch str str u64
  | ClCheckLater nat nat u64 creq

record rclient =
  cl_client :: u64
  cl_rid :: u64
  cl_view :: "primary_info option"
  cl_calls :: "(nat \<times> pending) list"
  cl_next :: nat
  cl_objs :: nat
  cl_answered :: "nat list"
  cl_dead :: "nat \<Rightarrow> bool"
  cl_primary_mid :: u64
  cl_falcon :: "(u64, falcon_info) smap"
  cl_timers :: "(u64 \<times> creq) list"
  cl_outs :: "client_out list"

text \<open>What runs when a later view is known, when a request has been sent, and when it has been answered.\<close>

record cl_env =
  on_view :: "primary_info \<Rightarrow> rclient \<Rightarrow> rclient"
  on_call :: "creq \<Rightarrow> nat \<Rightarrow> rclient \<Rightarrow> rclient"
  on_answer :: "creq \<Rightarrow> rclient \<Rightarrow> rclient"

text \<open>The constructor leaves \<open>rid_\<close> as it is.\<close>

definition new_client :: "u64 \<Rightarrow> u64 \<Rightarrow> rclient" where
  "new_client me rid0 =
     \<lparr>cl_client = me, cl_rid = rid0, cl_view = None, cl_calls = [], cl_next = 0, cl_objs = 0, cl_answered = [],
      cl_dead = (\<lambda>_. False), cl_primary_mid = 0, cl_falcon = [], cl_timers = [], cl_outs = []\<rparr>"

definition cl_emit :: "client_out \<Rightarrow> rclient \<Rightarrow> rclient" where
  "cl_emit x s = s\<lparr>cl_outs := cl_outs s @ [x]\<rparr>"

definition start_call :: "pending \<Rightarrow> rclient \<Rightarrow> rclient" where
  "start_call p s = s\<lparr>cl_calls := cl_calls s @ [(cl_next s, p)], cl_next := Suc (cl_next s)\<rparr>"

definition end_call :: "nat \<Rightarrow> rclient \<Rightarrow> rclient" where
  "end_call i s = s\<lparr>cl_calls := filter (\<lambda>c. fst c \<noteq> i) (cl_calls s)\<rparr>"

section \<open>The requests\<close>

definition refresh_view :: "creq \<Rightarrow> rclient \<Rightarrow> rclient" where
  "refresh_view req s = cl_emit (ClBcast (cl_next s)) (start_call (PViewinfo req False) s)"

definition process_request :: "cl_env \<Rightarrow> creq \<Rightarrow> rclient \<Rightarrow> rclient" where
  "process_request C req s =
     (case cl_view s of
        None \<Rightarrow> refresh_view req s
      | Some vi \<Rightarrow>
          on_call C req (cl_next s)
            (cl_emit (ClExecute (cl_next s) (netaddr2sockaddr (vi_primary vi)) ((cq_arg req)\<lparr>ea_vid := vi_vid vi\<rparr>))
               (start_call (PExecute req) s)))"

text \<open>The view id of a new request is set when it is sent.\<close>

definition issue_request :: "cl_env \<Rightarrow> byte list \<Rightarrow> nat \<Rightarrow> rclient \<Rightarrow> rclient" where
  "issue_request C input conn s =
     (let req = \<lparr>cq_obj = cl_objs s,
                 cq_arg = \<lparr>ea_client = cl_client s, ea_rid = cl_rid s, ea_vid = ViewId 0 0, ea_request = input\<rparr>,
                 cq_conn = conn\<rparr>;
          s1 = s\<lparr>cl_rid := cl_rid s + 1, cl_objs := Suc (cl_objs s)\<rparr>
      in if cl_view s1 \<noteq> None then process_request C req s1 else refresh_view req s1)"

definition update_view :: "cl_env \<Rightarrow> primary_info \<Rightarrow> rclient \<Rightarrow> rclient" where
  "update_view C vi s =
     (if (case cl_view s of None \<Rightarrow> True | Some old \<Rightarrow> vi_vid old < vi_vid vi)
      then on_view C vi (s\<lparr>cl_view := Some vi\<rparr>) else s)"

definition set_retried :: "nat \<Rightarrow> creq \<Rightarrow> rclient \<Rightarrow> rclient" where
  "set_retried i req s = s\<lparr>cl_calls := map (\<lambda>c. if fst c = i then (i, PViewinfo req True) else c) (cl_calls s)\<rparr>"

definition rep_viewinfo_cb ::
    "cl_env \<Rightarrow> nat \<Rightarrow> creq \<Rightarrow> bool \<Rightarrow> call_stat \<Rightarrow> primary_info \<Rightarrow> rclient \<Rightarrow> rclient" where
  "rep_viewinfo_cb C i req retried stat resp s =
     (let s1 = (if stat = CsOk then update_view C resp s else s) in
      if retried then s1
      else
        let s2 = (if stat = CsOk then set_retried i req (process_request C req s1) else s1)
        in if stat = CsTimedout then set_retried i req (refresh_view req s2) else s2)"

text \<open>
  \<open>rpccb_bcast::finish\<close>: answers that cannot be decoded are dropped, a time-out is the last, any other answer leaves the call as it is.
\<close>

definition bcast_finish :: "cl_env \<Rightarrow> nat \<Rightarrow> call_stat \<Rightarrow> primary_info \<Rightarrow> rclient \<Rightarrow> rclient" where
  "bcast_finish C i stat resp s =
     (case map_of (cl_calls s) i of
        Some (PViewinfo req retried) \<Rightarrow>
          if stat = CsUndecodable then s
          else if stat = CsTimedout then rep_viewinfo_cb C i req retried stat resp (end_call i s)
          else rep_viewinfo_cb C i req retried stat resp s
      | _ \<Rightarrow> s)"

definition send_reply :: "nat \<Rightarrow> byte list \<Rightarrow> rclient \<Rightarrow> rclient" where
  "send_reply conn r s = (if \<not> cl_dead s conn then cl_emit (ClSend conn r) s else s)"

datatype execute_answer = AnswerOk "byte list" | AnswerView primary_info

text \<open>The answer to \<open>REP_EXECUTE\<close>; \<open>None\<close> when the call failed or timed out.\<close>

definition rep_execute_cb :: "cl_env \<Rightarrow> creq \<Rightarrow> execute_answer option \<Rightarrow> rclient \<Rightarrow> rclient" where
  "rep_execute_cb C req resp s =
     (case resp of
        None \<Rightarrow> refresh_view req s
      | Some (AnswerOk r) \<Rightarrow>
          send_reply (cq_conn req) r ((on_answer C req s)\<lparr>cl_answered := cl_answered s @ [cq_obj req]\<rparr>)
      | Some (AnswerView vi) \<Rightarrow> process_request C req (update_view C vi s))"

definition execute_finish :: "cl_env \<Rightarrow> nat \<Rightarrow> execute_answer option \<Rightarrow> rclient \<Rightarrow> rclient" where
  "execute_finish C i resp s =
     (case map_of (cl_calls s) i of Some (PExecute req) \<Rightarrow> rep_execute_cb C req resp (end_call i s) | _ \<Rightarrow> s)"

text \<open>A packet of a connected program; \<open>None\<close> when it has gone.\<close>

definition client_rcv :: "cl_env \<Rightarrow> nat \<Rightarrow> byte list option \<Rightarrow> rclient \<Rightarrow> rclient" where
  "client_rcv C conn pkt s =
     (case pkt of
        None \<Rightarrow> s\<lparr>cl_dead := (cl_dead s)(conn := True)\<rparr>
      | Some req \<Rightarrow> issue_request C req conn s)"

definition plain_env :: cl_env where
  "plain_env = \<lparr>on_view = (\<lambda>_ s. s), on_call = (\<lambda>_ _ s. s), on_answer = (\<lambda>_ s. s)\<rparr>"

section \<open>The version that watches the primary\<close>

definition watch_primary :: "primary_info \<Rightarrow> rclient \<Rightarrow> rclient" where
  "watch_primary vi s =
     cl_emit (ClWatch (co_name (pi_primary_c vi)) (co_hypervisor (pi_primary_c vi)) (co_mid (pi_primary_c vi)))
       (s\<lparr>cl_primary_mid := co_mid (pi_primary_c vi)\<rparr>)"

definition remember_call :: "creq \<Rightarrow> nat \<Rightarrow> rclient \<Rightarrow> rclient" where
  "remember_call req i s = s\<lparr>cl_falcon := sm_put (ea_rid (cq_arg req)) \<lparr>fi_req = req, fi_call = i\<rparr> (cl_falcon s)\<rparr>"

definition forget_call :: "creq \<Rightarrow> rclient \<Rightarrow> rclient" where
  "forget_call req s = s\<lparr>cl_falcon := sm_del (ea_rid (cq_arg req)) (cl_falcon s)\<rparr>"

definition watch_env :: cl_env where
  "watch_env = \<lparr>on_view = watch_primary, on_call = remember_call, on_answer = forget_call\<rparr>"

text \<open>Cancelling a call that has ended uses freed memory.\<close>

definition cancel_and_check :: "u64 \<Rightarrow> u64 \<times> falcon_info \<Rightarrow> rclient \<Rightarrow> rclient res" where
  "cancel_and_check m p s =
     (if map_of (cl_calls s) (fi_call (snd p)) = None then Inl Use_after_free
      else Inr (cl_emit (ClCheckLater 0 100000000 m (fi_req (snd p)))
                  ((end_call (fi_call (snd p)) s)\<lparr>cl_timers := cl_timers s @ [(m, fi_req (snd p))]\<rparr>)))"

definition client_handle_failed :: "u64 \<Rightarrow> rclient \<Rightarrow> rclient res" where
  "client_handle_failed m s =
     (if m \<noteq> cl_primary_mid s then Inr s else res_fold (cancel_and_check m) (cl_falcon s) s)"

definition check_new_primary :: "u64 \<Rightarrow> creq \<Rightarrow> rclient \<Rightarrow> rclient" where
  "check_new_primary old req s =
     (if old = cl_primary_mid s
      then cl_emit (ClCheckLater 1 0 old req) ((refresh_view req s)\<lparr>cl_timers := cl_timers s @ [(old, req)]\<rparr>)
      else s)"

section \<open>Events\<close>

datatype client_event =
    CeRcv nat "byte list option"
  | CeViewinfo nat call_stat primary_info
  | CeExecute nat "execute_answer option"

definition client_step :: "cl_env \<Rightarrow> client_event \<Rightarrow> rclient \<Rightarrow> rclient" where
  "client_step C ev s =
     (case ev of
        CeRcv conn pkt \<Rightarrow> client_rcv C conn pkt s
      | CeViewinfo i stat resp \<Rightarrow> bcast_finish C i stat resp s
      | CeExecute i resp \<Rightarrow> execute_finish C i resp s)"

inductive client_reach :: "rclient \<Rightarrow> bool" where
  start: "client_reach (new_client me rid0)"
| step: "client_reach s \<Longrightarrow> client_reach (client_step plain_env ev s)"

section \<open>One call for each request\<close>

fun awaits :: "nat \<Rightarrow> pending \<Rightarrow> bool" where
  "awaits n (PViewinfo req retried) \<longleftrightarrow> \<not> retried \<and> cq_obj req = n"
| "awaits n (PExecute req) \<longleftrightarrow> cq_obj req = n"

definition live_calls :: "nat \<Rightarrow> (nat \<times> pending) list \<Rightarrow> nat" where
  "live_calls n cs = length (filter (\<lambda>c. awaits n (snd c)) cs)"

lemma live_calls_simps [simp]:
  "live_calls n [] = 0" "live_calls n (c # cs) = (if awaits n (snd c) then 1 else 0) + live_calls n cs"
  "live_calls n (cs @ ds) = live_calls n cs + live_calls n ds"
  by (simp_all add: live_calls_def)

definition calls_ok :: "rclient \<Rightarrow> bool" where
  "calls_ok s \<longleftrightarrow> distinct (map fst (cl_calls s)) \<and> (\<forall>c \<in> set (cl_calls s). fst c < cl_next s)"

definition tokens :: "nat \<Rightarrow> rclient \<Rightarrow> nat" where
  "tokens n s = live_calls n (cl_calls s) + count_list (cl_answered s) n"

lemma filter_fst_id: "i \<notin> fst ` set cs \<Longrightarrow> filter (\<lambda>c. fst c \<noteq> i) cs = cs"
  by (auto simp: filter_id_conv)

lemma live_calls_end:
  "distinct (map fst cs) \<Longrightarrow> map_of cs i = Some p \<Longrightarrow>
   live_calls n (filter (\<lambda>c. fst c \<noteq> i) cs) + (if awaits n p then 1 else 0) = live_calls n cs"
proof (induction cs)
  case (Cons c cs)
  show ?case
  proof (cases "fst c = i")
    case True
    then have "filter (\<lambda>c. fst c \<noteq> i) cs = cs" using Cons.prems(1) filter_fst_id by auto
    with True Cons.prems(2) show ?thesis by (cases c) simp
  qed (use Cons in auto)
qed simp

lemma retried_absent: "i \<notin> fst ` set cs \<Longrightarrow> map (\<lambda>c. if fst c = i then (i, p) else c) cs = cs"
  by (rule map_idI) force

lemma live_calls_retried:
  "distinct (map fst cs) \<Longrightarrow> map_of cs i = Some (PViewinfo req r) \<Longrightarrow>
   live_calls n (map (\<lambda>c. if fst c = i then (i, PViewinfo req True) else c) cs) + (if awaits n (PViewinfo req r) then 1 else 0) =
   live_calls n cs"
proof (induction cs)
  case (Cons c cs)
  show ?case
  proof (cases "fst c = i")
    case True
    then have "map (\<lambda>c. if fst c = i then (i, PViewinfo req True) else c) cs = cs"
      using Cons.prems(1) by (intro retried_absent) auto
    with True Cons.prems(2) show ?thesis by (cases c) simp
  qed (use Cons in auto)
qed simp

text \<open>A new call for a request.\<close>

definition asks_for :: "creq \<Rightarrow> rclient \<Rightarrow> rclient \<Rightarrow> bool" where
  "asks_for req s s' \<longleftrightarrow>
     (\<exists>p. cl_calls s' = cl_calls s @ [(cl_next s, p)] \<and> (\<forall>n. awaits n p \<longleftrightarrow> cq_obj req = n)) \<and>
     cl_next s' = Suc (cl_next s) \<and> cl_answered s' = cl_answered s \<and> cl_objs s' = cl_objs s"

lemma asks_forE:
  assumes "asks_for req s s'"
  obtains p where "cl_calls s' = cl_calls s @ [(cl_next s, p)]" "\<And>n. awaits n p = (cq_obj req = n)"
    "cl_next s' = Suc (cl_next s)" "cl_answered s' = cl_answered s" "cl_objs s' = cl_objs s"
  using assms unfolding asks_for_def by blast

lemma asks_refresh: "asks_for req s (refresh_view req s)"
  by (auto simp: asks_for_def refresh_view_def start_call_def cl_emit_def)

lemma asks_process: "asks_for req s (process_request plain_env req s)"
  using asks_refresh by (auto simp: asks_for_def process_request_def plain_env_def start_call_def cl_emit_def split: option.splits)

lemma asks_for_ok:
  assumes "asks_for req s s'" "calls_ok s"
  shows "calls_ok s'"
proof -
  from assms(1) obtain p where c: "cl_calls s' = cl_calls s @ [(cl_next s, p)]" "cl_next s' = Suc (cl_next s)"
    by (auto simp: asks_for_def)
  have "\<forall>c \<in> set (cl_calls s). fst c < cl_next s" using assms(2) by (simp add: calls_ok_def)
  then have "cl_next s \<notin> fst ` set (cl_calls s)" "\<forall>c \<in> set (cl_calls s). fst c < Suc (cl_next s)" by fastforce+
  then show ?thesis using assms(2) c by (simp add: calls_ok_def)
qed

lemma asks_for_tokens: "asks_for req s s' \<Longrightarrow> tokens n s' = tokens n s + (if cq_obj req = n then 1 else 0)"
  by (elim asks_forE) (simp add: tokens_def)

lemma update_view_fields [simp]:
  "cl_calls (update_view plain_env vi s) = cl_calls s" "cl_next (update_view plain_env vi s) = cl_next s"
  "cl_answered (update_view plain_env vi s) = cl_answered s" "cl_objs (update_view plain_env vi s) = cl_objs s"
  by (simp_all add: update_view_def plain_env_def)

lemma update_view_tokens [simp]: "tokens n (update_view plain_env vi s) = tokens n s"
  "calls_ok (update_view plain_env vi s) = calls_ok s"
  by (simp_all add: tokens_def calls_ok_def)

lemma end_call_ok: "calls_ok s \<Longrightarrow> calls_ok (end_call i s)"
  by (auto simp: calls_ok_def end_call_def distinct_map_filter)

lemma end_call_tokens:
  "calls_ok s \<Longrightarrow> map_of (cl_calls s) i = Some p \<Longrightarrow> tokens n (end_call i s) + (if awaits n p then 1 else 0) = tokens n s"
  using live_calls_end [of "cl_calls s" i p n] by (simp add: calls_ok_def tokens_def end_call_def)

lemma set_retried_ok: "calls_ok s \<Longrightarrow> calls_ok (set_retried i req s)"
proof -
  have "fst \<circ> (\<lambda>c. if fst c = i then (i, PViewinfo req True) else c) = fst" by (rule ext) simp
  then show "calls_ok s \<Longrightarrow> calls_ok (set_retried i req s)"
    by (auto simp: calls_ok_def set_retried_def)
qed

definition client_inv :: "rclient \<Rightarrow> bool" where
  "client_inv s \<longleftrightarrow> calls_ok s \<and> (\<forall>n. tokens n s = (if n < cl_objs s then 1 else 0))"

lemma issue_request_inv: "client_inv s \<Longrightarrow> client_inv (issue_request plain_env input conn s)"
proof -
  assume I: "client_inv s"
  define req where "req = \<lparr>cq_obj = cl_objs s,
      cq_arg = \<lparr>ea_client = cl_client s, ea_rid = cl_rid s, ea_vid = ViewId 0 0, ea_request = input\<rparr>, cq_conn = conn\<rparr>"
  let ?s = "s\<lparr>cl_rid := cl_rid s + 1, cl_objs := Suc (cl_objs s)\<rparr>"
  have a: "asks_for req ?s (issue_request plain_env input conn s)"
    using asks_process asks_refresh by (simp add: issue_request_def req_def Let_def)
  have "calls_ok ?s" "tokens n ?s = (if n < cl_objs s then 1 else 0)" for n
    using I by (simp_all add: client_inv_def calls_ok_def tokens_def)
  moreover have "cl_objs (issue_request plain_env input conn s) = Suc (cl_objs s)" using a by (simp add: asks_for_def)
  ultimately show ?thesis
    using asks_for_ok [OF a] asks_for_tokens [OF a] by (auto simp: client_inv_def req_def)
qed

lemma bcast_finish_inv:
  assumes I: "client_inv s"
  shows "client_inv (bcast_finish plain_env i stat resp s)"
proof (cases "\<exists>req r. map_of (cl_calls s) i = Some (PViewinfo req r)")
  case False
  then show ?thesis using I by (auto simp: bcast_finish_def split: option.splits pending.splits)
next
  case True
  then obtain req r where m: "map_of (cl_calls s) i = Some (PViewinfo req r)" by blast
  from I have ok: "calls_ok s" and t: "\<And>n. tokens n s = (if n < cl_objs s then 1 else 0)" by (auto simp: client_inv_def)
  show ?thesis
  proof (cases "stat = CsTimedout")
    case to: True
    let ?e = "end_call i s"
    have f: "bcast_finish plain_env i stat resp s = (if r then ?e else set_retried i req (refresh_view req ?e))"
      by (simp add: bcast_finish_def m to rep_viewinfo_cb_def)
    have oe: "cl_objs ?e = cl_objs s" by (simp add: end_call_def)
    show ?thesis
    proof (cases r)
      case True
      then show ?thesis using f end_call_ok [OF ok] end_call_tokens [OF ok m] t oe by (simp add: client_inv_def)
    next
      case False
      have lt: "i < cl_next s" using ok map_of_SomeD [OF m] by (force simp: calls_ok_def)
      have "i \<notin> fst ` set (cl_calls (refresh_view req ?e))"
        using lt by (auto simp: refresh_view_def start_call_def cl_emit_def end_call_def)
      then have s: "set_retried i req (refresh_view req ?e) = refresh_view req ?e"
        by (simp add: set_retried_def retried_absent)
      note a = asks_refresh [of req ?e]
      have "tokens n (refresh_view req ?e) = tokens n s" for n
        using asks_for_tokens [OF a, of n] end_call_tokens [OF ok m, of n] False by (auto split: if_splits)
      moreover have "cl_objs (refresh_view req ?e) = cl_objs s" using a oe by (simp add: asks_for_def)
      ultimately show ?thesis using f False s asks_for_ok [OF a end_call_ok [OF ok]] t by (simp add: client_inv_def)
    qed
  next
    case nto: False
    define u where "u = (if stat = CsOk then update_view plain_env resp s else s)"
    have uf: "cl_calls u = cl_calls s" "tokens n u = tokens n s" "calls_ok u = calls_ok s" "cl_objs u = cl_objs s"
      "cl_next u = cl_next s" for n
      by (simp_all add: u_def)
    show ?thesis
    proof (cases "stat = CsOk \<and> \<not> r")
      case False
      then have "bcast_finish plain_env i stat resp s = (if stat = CsUndecodable then s else u)"
        using nto by (auto simp: bcast_finish_def m rep_viewinfo_cb_def u_def)
      then show ?thesis using I uf by (simp add: client_inv_def)
    next
      case True
      let ?p = "process_request plain_env req u"
      have f: "bcast_finish plain_env i stat resp s = set_retried i req ?p"
        using True by (simp add: bcast_finish_def m rep_viewinfo_cb_def u_def)
      note a = asks_process [of req u]
      have okp: "calls_ok ?p" using asks_for_ok [OF a] ok uf by simp
      have mp: "map_of (cl_calls ?p) i = Some (PViewinfo req r)"
        using a m uf by (auto simp: asks_for_def map_add_def)
      have "tokens n (set_retried i req ?p) + (if cq_obj req = n then 1 else 0) = tokens n ?p" for n
        using live_calls_retried [of "cl_calls ?p" i req r n] okp mp True
        by (simp add: tokens_def set_retried_def calls_ok_def)
      then have "tokens n (set_retried i req ?p) = tokens n s" for n
        using asks_for_tokens [OF a, of n] uf(2) [of n] by (metis add_right_cancel)
      moreover have "cl_objs (set_retried i req ?p) = cl_objs s" using a uf by (simp add: asks_for_def set_retried_def)
      ultimately show ?thesis using f set_retried_ok [OF okp] t by (simp add: client_inv_def)
    qed
  qed
qed

lemma execute_finish_inv:
  assumes I: "client_inv s"
  shows "client_inv (execute_finish plain_env i resp s)"
proof (cases "\<exists>req. map_of (cl_calls s) i = Some (PExecute req)")
  case False
  then show ?thesis using I by (auto simp: execute_finish_def split: option.splits pending.splits)
next
  case True
  then obtain req where m: "map_of (cl_calls s) i = Some (PExecute req)" by blast
  from I have ok: "calls_ok s" and t: "\<And>n. tokens n s = (if n < cl_objs s then 1 else 0)" by (auto simp: client_inv_def)
  let ?e = "end_call i s"
  have oke: "calls_ok ?e" by (rule end_call_ok [OF ok])
  have te: "tokens n ?e + (if cq_obj req = n then 1 else 0) = tokens n s" for n using end_call_tokens [OF ok m, of n] by simp
  have oe: "cl_objs ?e = cl_objs s" by (simp add: end_call_def)
  have f: "execute_finish plain_env i resp s = rep_execute_cb plain_env req resp ?e" by (simp add: execute_finish_def m)
  have go: "client_inv u" if a: "asks_for req v u" and v: "calls_ok v" "\<And>n. tokens n v = tokens n ?e" "cl_objs v = cl_objs s" for u v
  proof -
    have "tokens n u = tokens n s" for n using asks_for_tokens [OF a, of n] v(2) [of n] te [of n] by simp
    moreover have "cl_objs u = cl_objs s" using a v(3) by (simp add: asks_for_def)
    ultimately show ?thesis using asks_for_ok [OF a v(1)] t by (simp add: client_inv_def)
  qed
  show ?thesis
  proof (cases resp)
    case None
    then show ?thesis using go [OF asks_refresh oke] f oe by (simp add: rep_execute_cb_def)
  next
    case (Some r)
    show ?thesis
    proof (cases r)
      case (AnswerView vi)
      then show ?thesis using go [OF asks_process, of "update_view plain_env vi ?e"] f oe oke Some
        by (simp add: rep_execute_cb_def)
    next
      case (AnswerOk x)
      let ?u = "execute_finish plain_env i resp s"
      have u: "cl_calls ?u = cl_calls ?e" "cl_next ?u = cl_next ?e" "cl_objs ?u = cl_objs s"
        "cl_answered ?u = cl_answered ?e @ [cq_obj req]"
        using f Some AnswerOk oe by (simp_all add: rep_execute_cb_def send_reply_def cl_emit_def plain_env_def)
      then have "tokens n ?u = tokens n s" for n using te [of n] by (cases "cq_obj req = n") (simp_all add: tokens_def)
      moreover have "calls_ok ?u" using oke u by (simp add: calls_ok_def)
      ultimately show ?thesis using t u(3) by (simp add: client_inv_def)
    qed
  qed
qed

lemma client_reach_inv: "client_reach s \<Longrightarrow> client_inv s"
proof (induction rule: client_reach.induct)
  case (start me rid0)
  show ?case by (simp add: client_inv_def calls_ok_def tokens_def new_client_def)
next
  case (step s ev)
  have "client_inv (s\<lparr>cl_dead := d\<rparr>)" for d using step(2) by (simp add: client_inv_def calls_ok_def tokens_def)
  then show ?case using step(2) issue_request_inv bcast_finish_inv execute_finish_inv
    by (auto simp: client_step_def client_rcv_def split: client_event.splits option.splits)
qed

text \<open>
  C17. In every state the client of the replicated service reaches, whatever answers arrive, late, repeated or not at all: a request
  that has been made is answered once, or exactly one call that would still be answered is under way for it; no other is.
\<close>

theorem one_call_per_request:
  assumes "client_reach s"
  shows "live_calls n (cl_calls s) + count_list (cl_answered s) n = (if n < cl_objs s then 1 else 0) \<and>
    distinct (map fst (cl_calls s))"
  using client_reach_inv [OF assms] by (simp add: client_inv_def tokens_def calls_ok_def)

definition demo_info :: primary_info where
  "demo_info = \<lparr>vi_vid = ViewId 2 9, vi_primary = co_addr demo_peer, pi_primary_c = demo_peer\<rparr>"

definition demo_run :: "cl_env \<Rightarrow> client_event list \<Rightarrow> rclient" where
  "demo_run C evs = fold (client_step C) evs (new_client 5 1)"

lemma demo_run_reach: "client_reach (demo_run plain_env evs)"
proof (induction evs rule: rev_induct)
  case Nil
  show ?case by (simp add: demo_run_def client_reach.start)
next
  case (snoc ev evs)
  then show ?case using client_reach.step by (simp add: demo_run_def)
qed

lemmas client_ops = demo_run_def client_step_def client_rcv_def issue_request_def refresh_view_def process_request_def
  bcast_finish_def rep_viewinfo_cb_def update_view_def set_retried_def execute_finish_def rep_execute_cb_def send_reply_def
  start_call_def end_call_def cl_emit_def new_client_def

text \<open>The view is asked for, comes twice, the request is answered, and the answer comes again.\<close>

theorem one_call_per_request_witness:
  "\<exists>s. client_reach s \<and> live_calls 0 (cl_calls s) + count_list (cl_answered s) 0 = 1 \<and> cl_answered s = [0] \<and>
     cl_outs s = [ClBcast 0, ClExecute 1 (netaddr2sockaddr (co_addr demo_peer))
       \<lparr>ea_client = 5, ea_rid = 1, ea_vid = ViewId 2 9, ea_request = [1, 2]\<rparr>, ClSend 3 [7]]"
proof -
  let ?s = "demo_run plain_env [CeRcv 3 (Some [1, 2]), CeViewinfo 0 CsOk demo_info, CeViewinfo 0 CsOk demo_info,
    CeExecute 1 (Some (AnswerOk [7])), CeExecute 1 (Some (AnswerOk [7]))]"
  have o: "cl_objs ?s = 1 \<and> cl_answered ?s = [0] \<and> cl_outs ?s = [ClBcast 0, ClExecute 1 (netaddr2sockaddr (co_addr demo_peer))
       \<lparr>ea_client = 5, ea_rid = 1, ea_vid = ViewId 2 9, ea_request = [1, 2]\<rparr>, ClSend 3 [7]]"
    by (simp add: client_ops plain_env_def demo_info_def)
  show ?thesis using one_call_per_request [OF demo_run_reach, of 0 "[CeRcv 3 (Some [1, 2]), CeViewinfo 0 CsOk demo_info,
    CeViewinfo 0 CsOk demo_info, CeExecute 1 (Some (AnswerOk [7])), CeExecute 1 (Some (AnswerOk [7]))]"] demo_run_reach o
    by (intro exI [of _ ?s]) simp
qed

section \<open>The way to the primary\<close>

definition info_part :: "primary_info \<Rightarrow> execute_viewinfo" where
  "info_part = execute_viewinfo.truncate"

text \<open>
  A request that reaches a cohort which is not the primary of its view, or in another view, is answered with that view, and the
  client sends it on to the primary of that view with the view's id, or to that of the later view that it knows.
\<close>

theorem redirected_to_primary:
  assumes a: "mode s = VC_ACTIVE" "map_option rc_rid (replycache s (ea_client arg)) \<noteq> Some (ea_rid arg)"
    and v: "ea_vid arg \<noteq> vw_vid (view s) \<or> co_mid (self s) \<noteq> co_mid (vw_primary (view s))"
    and q: "map_of (cl_calls c) i = Some (PExecute req)" "arg = (cq_arg req)\<lparr>ea_vid := w\<rparr>"
    and p: "info_part p = my_viewinfo s"
  shows "rep_execute E sbp arg s = Inr (emit (Reply sbp (ReplyExecute (ExecuteView (info_part p)))) s) \<and>
    (let u = (case cl_view c of None \<Rightarrow> p | Some old \<Rightarrow> if vi_vid old < vi_vid p then p else old);
         c' = execute_finish plain_env i (Some (AnswerView p)) c
     in vw_vid (view s) \<le> vi_vid u \<and> cl_view c' = Some u \<and>
        cl_outs c' = cl_outs c @ [ClExecute (cl_next c) (netaddr2sockaddr (vi_primary u)) (arg\<lparr>ea_vid := vi_vid u\<rparr>)])"
proof -
  have "rep_execute E sbp arg s = Inr (emit (Reply sbp (ReplyExecute (ExecuteView (info_part p)))) s)"
    using a v unfolding p by (cases "replycache s (ea_client arg)") (simp_all add: rep_execute_def execute_request_def)
  moreover have "vi_vid p = vw_vid (view s)" using p by (simp add: info_part_def my_viewinfo_def execute_viewinfo.defs)
  ultimately show ?thesis
    using q by (cases "cl_view c") (auto simp: client_ops plain_env_def Let_def not_less)
qed

theorem redirected_to_primary_witness:
  "cl_outs (execute_finish plain_env 1 (Some (AnswerView demo_info))
       (demo_run plain_env [CeRcv 3 (Some [1, 2]), CeViewinfo 0 CsOk (demo_info\<lparr>vi_vid := ViewId 1 9\<rparr>)])) =
     [ClBcast 0, ClExecute 1 (netaddr2sockaddr (co_addr demo_peer)) (demo_arg\<lparr>ea_vid := ViewId 1 9\<rparr>),
      ClExecute 2 (netaddr2sockaddr (co_addr demo_peer)) demo_arg]"
proof -
  let ?c = "demo_run plain_env [CeRcv 3 (Some [1, 2]), CeViewinfo 0 CsOk (demo_info\<lparr>vi_vid := ViewId 1 9\<rparr>)]"
  let ?req = "\<lparr>cq_obj = 0, cq_arg = \<lparr>ea_client = 5, ea_rid = 1, ea_vid = ViewId 0 0, ea_request = [1, 2]\<rparr>, cq_conn = 3\<rparr>"
  let ?arg = "demo_arg\<lparr>ea_vid := ViewId 1 9\<rparr>"
  have c: "map_of (cl_calls ?c) 1 = Some (PExecute ?req)" "cl_view ?c = Some (demo_info\<lparr>vi_vid := ViewId 1 9\<rparr>)" "cl_next ?c = 2"
    "cl_outs ?c = [ClBcast 0, ClExecute 1 (netaddr2sockaddr (co_addr demo_peer)) ?arg]"
    by (simp_all add: client_ops plain_env_def demo_info_def demo_arg_def)
  have s: "mode demo_b2 = VC_ACTIVE" "map_option rc_rid (replycache demo_b2 (ea_client ?arg)) \<noteq> Some (ea_rid ?arg)"
    "view demo_b2 = demo_view"
    by (simp_all add: demo_b2_def demo_b1_def demo_joined_def blank_cohort_def)
  have p: "info_part demo_info = my_viewinfo demo_b2"
    by (simp add: info_part_def my_viewinfo_def execute_viewinfo.defs demo_info_def s(3))
  have v: "ea_vid ?arg \<noteq> vw_vid (view demo_b2) \<or> co_mid (self demo_b2) \<noteq> co_mid (vw_primary (view demo_b2))"
    by (simp add: s(3))
  have q: "?arg = (cq_arg ?req)\<lparr>ea_vid := ViewId 1 9\<rparr>" by (simp add: demo_arg_def)
  note t = redirected_to_primary [OF s(1,2) v c(1) q p, of demo_env 1]
  from conjunct2 [OF t] show ?thesis by (simp add: Let_def c(2-4)) (simp add: demo_info_def demo_arg_def)
qed

section \<open>Where the watching version goes wrong\<close>

definition fire_check :: "rclient \<Rightarrow> rclient" where
  "fire_check s =
     (case cl_timers s of [] \<Rightarrow> s | (m, req) # ts \<Rightarrow> check_new_primary m req (s\<lparr>cl_timers := ts\<rparr>))"

definition demo_info2 :: primary_info where
  "demo_info2 = \<lparr>vi_vid = ViewId 3 9, vi_primary = co_addr demo_me, pi_primary_c = demo_me\<rparr>"

definition demo_asked :: rclient where
  "demo_asked = demo_run watch_env [CeRcv 3 (Some [1, 2]), CeViewinfo 0 CsOk demo_info]"

lemmas watch_ops = client_ops watch_env_def watch_primary_def remember_call_def forget_call_def client_handle_failed_def
  cancel_and_check_def check_new_primary_def fire_check_def demo_asked_def demo_info_def demo_info2_def

text \<open>
  When the primary fails, its call is cancelled and a timer set.  If an answer tells of the next primary before the timer has expired,
  nothing asks for the request any more.
\<close>

lemma request_forgotten:
  "\<exists>s. client_handle_failed 9 demo_asked = Inr s \<and>
     (let s' = fire_check (client_step watch_env (CeViewinfo 0 CsOk demo_info2) s) in
      cl_objs s' = 1 \<and> cl_answered s' = [] \<and> live_calls 0 (cl_calls s') = 0 \<and> cl_timers s' = [])"
  by (simp add: watch_ops)

text \<open>If two timers have expired before an answer comes, both refreshes send the request, and it is answered twice.\<close>

lemma answered_twice:
  "\<exists>s. client_handle_failed 9 demo_asked = Inr s \<and>
     cl_answered (fold (client_step watch_env)
       [CeViewinfo 2 CsOk demo_info2, CeViewinfo 3 CsOk demo_info2, CeExecute 4 (Some (AnswerOk [7])), CeExecute 5 (Some (AnswerOk [7]))]
       (fire_check (fire_check s))) = [0, 0]"
  by (simp add: watch_ops)

text \<open>A call that has timed out is still in the map when the primary fails.\<close>

lemma cancels_ended_call:
  "client_handle_failed 9 (client_step watch_env (CeExecute 1 None) demo_asked) = Inl Use_after_free"
  by (simp add: watch_ops)

end
