(* ===== verification/PmpService.thy ===== *)
theory PmpService
  imports PmpAnswers PmpClient
begin

text \<open>
  The client and the cohorts of the replicated service together: what a program gets for its request.
\<close>

section \<open>The calls that a client makes\<close>

fun call_req :: "pending \<Rightarrow> creq" where
  "call_req (PViewinfo req retried) = req"
| "call_req (PExecute req) = req"

text \<open>A request that is under way carries the client's id and the number it was given.\<close>

definition numbered :: "rclient \<Rightarrow> creq \<Rightarrow> bool" where
  "numbered s req \<longleftrightarrow>
     ea_client (cq_arg req) = cl_client s \<and> ea_rid (cq_arg req) + of_nat (cl_objs s) = cl_rid s + of_nat (cq_obj req)"

definition calls_numbered :: "rclient \<Rightarrow> bool" where
  "calls_numbered s \<longleftrightarrow> (\<forall>c \<in> set (cl_calls s). numbered s (call_req (snd c)))"

text \<open>What has been sent as a call that is still under way is the request of that call.\<close>

definition sent_ok :: "rclient \<Rightarrow> bool" where
  "sent_ok s \<longleftrightarrow>
     (\<forall>i addr a. ClExecute i addr a \<in> set (cl_outs s) \<longrightarrow> i < cl_next s \<and>
        (\<forall>p. (i, PExecute p) \<in> set (cl_calls s) \<longrightarrow> (\<exists>w. a = (cq_arg p)\<lparr>ea_vid := w\<rparr>)))"

definition made_inv :: "rclient \<Rightarrow> bool" where
  "made_inv s \<longleftrightarrow> calls_ok s \<and> calls_numbered s \<and> sent_ok s"

text \<open>A new call.\<close>

lemma made_refresh: "made_inv s \<Longrightarrow> numbered s req \<Longrightarrow> made_inv (refresh_view req s)"
  using asks_for_ok [OF asks_refresh]
  by (auto simp: made_inv_def calls_numbered_def sent_ok_def refresh_view_def start_call_def cl_emit_def numbered_def less_SucI)

lemma made_process: "made_inv s \<Longrightarrow> numbered s req \<Longrightarrow> made_inv (process_request plain_env req s)"
proof (cases "cl_view s")
  case None
  then show "made_inv s \<Longrightarrow> numbered s req \<Longrightarrow> ?thesis" using made_refresh by (simp add: process_request_def)
next
  case (Some vi)
  assume I: "made_inv s" "numbered s req"
  let ?s = "process_request plain_env req s"
  have f: "cl_calls ?s = cl_calls s @ [(cl_next s, PExecute req)]" "cl_next ?s = Suc (cl_next s)"
    "cl_outs ?s = cl_outs s @ [ClExecute (cl_next s) (netaddr2sockaddr (vi_primary vi)) ((cq_arg req)\<lparr>ea_vid := vi_vid vi\<rparr>)]"
    "cl_client ?s = cl_client s" "cl_objs ?s = cl_objs s" "cl_rid ?s = cl_rid s"
    by (simp_all add: process_request_def Some plain_env_def start_call_def cl_emit_def)
  have n: "(cl_next s, p) \<notin> set (cl_calls s)" for p using I(1) by (auto simp: made_inv_def calls_ok_def)
  have "calls_ok ?s" using I(1) asks_for_ok [OF asks_process] by (simp add: made_inv_def)
  moreover have "calls_numbered ?s" using I by (auto simp: made_inv_def calls_numbered_def numbered_def f)
  moreover have "sent_ok ?s" using I(1) n by (fastforce simp: made_inv_def sent_ok_def f)
  ultimately show ?thesis by (simp add: made_inv_def)
qed

lemma made_update_view [simp]: "made_inv (update_view plain_env vi s) = made_inv s" "numbered (update_view plain_env vi s) req = numbered s req"
  by (simp_all add: made_inv_def calls_ok_def calls_numbered_def sent_ok_def numbered_def update_view_def plain_env_def)

lemma made_end_call: "made_inv s \<Longrightarrow> made_inv (end_call i s)"
  by (auto simp: made_inv_def calls_ok_def calls_numbered_def sent_ok_def numbered_def end_call_def distinct_map_filter)

lemma made_set_retried:
  assumes "made_inv s" "numbered s req"
  shows "made_inv (set_retried i req s)"
proof -
  have "calls_ok (set_retried i req s)" using assms set_retried_ok by (simp add: made_inv_def)
  moreover have "calls_numbered (set_retried i req s)"
    using assms by (auto simp: made_inv_def calls_numbered_def set_retried_def numbered_def)
  moreover have "sent_ok (set_retried i req s)" using assms by (auto simp: made_inv_def sent_ok_def set_retried_def split: if_splits)
  ultimately show ?thesis by (simp add: made_inv_def)
qed

lemma numbered_same [simp]: 
  "numbered (end_call i s) req = numbered s req" "numbered (refresh_view q s) req = numbered s req"
  "numbered (process_request plain_env q s) req = numbered s req"
  by (simp_all add: numbered_def end_call_def refresh_view_def process_request_def plain_env_def start_call_def cl_emit_def split: option.split)

lemma made_numbered: "made_inv s \<Longrightarrow> map_of (cl_calls s) i = Some p \<Longrightarrow> numbered s (call_req p)"
  using map_of_SomeD by (fastforce simp: made_inv_def calls_numbered_def)

lemma client_made: "client_reach s \<Longrightarrow> made_inv s"
proof (induction rule: client_reach.induct)
  case (start me rid0)
  show ?case by (simp add: made_inv_def calls_ok_def calls_numbered_def sent_ok_def new_client_def)
next
  case (step s ev)
  note I = step(2)
  show ?case
  proof (cases ev)
    case (CeRcv conn pkt)
    show ?thesis
    proof (cases pkt)
      case None
      then show ?thesis using I CeRcv
        by (simp add: client_step_def client_rcv_def made_inv_def calls_ok_def calls_numbered_def sent_ok_def numbered_def)
    next
      case (Some input)
      let ?s = "s\<lparr>cl_rid := cl_rid s + 1, cl_objs := Suc (cl_objs s)\<rparr>"
      let ?req = "\<lparr>cq_obj = cl_objs s, cq_arg = \<lparr>ea_client = cl_client s, ea_rid = cl_rid s, ea_vid = ViewId 0 0, ea_request = input\<rparr>,
        cq_conn = conn\<rparr>"
      have "numbered ?s q = numbered s q" for q by (simp add: numbered_def algebra_simps)
      then have "made_inv ?s" using I by (simp add: made_inv_def calls_ok_def calls_numbered_def sent_ok_def)
      moreover have "numbered ?s ?req" by (simp add: numbered_def)
      ultimately show ?thesis using made_process made_refresh CeRcv Some
        by (simp add: client_step_def client_rcv_def issue_request_def Let_def)
    qed
  next
    case (CeViewinfo i stat resp)
    show ?thesis
    proof (cases "\<exists>req r. map_of (cl_calls s) i = Some (PViewinfo req r)")
      case False
      then show ?thesis using I CeViewinfo
        by (auto simp: client_step_def bcast_finish_def split: option.splits pending.splits)
    next
      case True
      then obtain req r where m: "map_of (cl_calls s) i = Some (PViewinfo req r)" by blast
      have n: "numbered s req" using made_numbered [OF I m] by simp
      have u: "made_inv (if stat = CsOk then update_view plain_env resp t else t)"
        "numbered (if stat = CsOk then update_view plain_env resp t else t) q = numbered t q" if "made_inv t" for t q
        using that by simp_all
      show ?thesis using CeViewinfo m I n made_end_call made_set_retried made_process made_refresh
        by (simp add: client_step_def bcast_finish_def rep_viewinfo_cb_def Let_def)
    qed
  next
    case (CeExecute i resp)
    show ?thesis
    proof (cases "\<exists>req. map_of (cl_calls s) i = Some (PExecute req)")
      case False
      then show ?thesis using I CeExecute
        by (auto simp: client_step_def execute_finish_def split: option.splits pending.splits)
    next
      case True
      then obtain req where m: "map_of (cl_calls s) i = Some (PExecute req)" by blast
      have n: "numbered s req" using made_numbered [OF I m] by simp
      have a: "made_inv (send_reply c r (t\<lparr>cl_answered := an\<rparr>))" if "made_inv t" for t c r an
        using that by (auto simp: send_reply_def cl_emit_def made_inv_def calls_ok_def calls_numbered_def sent_ok_def numbered_def)
      have o: "on_answer plain_env q t = t" for q t by (simp add: plain_env_def)
      show ?thesis using CeExecute m I n made_end_call a made_process made_refresh
        by (auto simp: client_step_def execute_finish_def rep_execute_cb_def o split: option.split execute_answer.split)
    qed
  qed
qed

section \<open>An answer on its way\<close>



end
