(* ===== verification/PfdServer.thy ===== *)
theory PfdServer
  imports ClientProps
begin

text \<open>
  The server through which programs without the client library use the detector (\<open>apps/pfdserver/pfdserver.cc\<close>): a connection
  sends the four names of a target, and is answered and closed when Falcon reports the target.
\<close>

unbundle bit_operations_syntax

section \<open>The handshake\<close>

text \<open>
  \<open>struct pfd_server_handshake\<close> has four arrays of 128 characters.  Memory is a list of characters; a string ends with the first NUL,
  which may be in the next field.  Writing beyond an array is a fault.
\<close>

definition handshake_size :: nat where "handshake_size = 512"

definition overwrite :: "nat \<Rightarrow> char list \<Rightarrow> char list \<Rightarrow> char list" where
  "overwrite off bs mem = take off mem @ bs @ drop (off + length bs) mem"

definition strcpy :: "nat \<Rightarrow> str \<Rightarrow> char list \<Rightarrow> char list res" where
  "strcpy off s mem =
     (if 128 < length s + 1 \<or> length mem < off + length s + 1 then Inl Bad_index else Inr (overwrite off (s @ [CHR 0x00]) mem))"

definition c_string :: "nat \<Rightarrow> char list \<Rightarrow> str res" where
  "c_string off mem =
     (if CHR 0x00 \<in> set (drop off mem) then Inr (takeWhile (\<lambda>c. c \<noteq> CHR 0x00) (drop off mem)) else Inl Bad_index)"

text \<open>What a cohort of the replicated service sends; \<open>junk\<close> is what the structure on the stack holds.\<close>

definition falcon_handshake :: "char list \<Rightarrow> str \<Rightarrow> str \<Rightarrow> char list res" where
  "falcon_handshake junk domain host =
     res_bind (strcpy 0 ''pmp'' junk) (\<lambda>m1.
     res_bind (strcpy 128 domain m1) (\<lambda>m2.
     res_bind (strcpy 256 host m2) (strcpy 384 ''router'')))"

datatype recv_result = RecvData "char list" | RecvEnd | RecvError

fun received_size :: "recv_result \<Rightarrow> int" where
  "received_size (RecvData d) = int (length d)"
| "received_size RecvEnd = 0"
| "received_size RecvError = - 1"

fun received_data :: "recv_result \<Rightarrow> char list" where
  "received_data (RecvData d) = d"
| "received_data _ = []"

text \<open>The loop: each \<open>recv\<close> has the whole structure as its buffer and returns at most its size.  \<open>None\<close>: the thread still waits.\<close>

fun recv_loop :: "recv_result list \<Rightarrow> char list \<Rightarrow> int \<Rightarrow> (char list \<times> int) option" where
  "recv_loop [] mem n = None"
| "recv_loop (r # rs) mem n =
     (let mem' = overwrite 0 (received_data r) mem; n' = n + received_size r in
      if n' \<noteq> int handshake_size \<and> received_size r > 0 then recv_loop rs mem' n' else Some (mem', n'))"

definition layer_ids :: "char list \<Rightarrow> str list res" where
  "layer_ids mem =
     res_bind (c_string 0 mem) (\<lambda>a. res_bind (c_string 128 mem) (\<lambda>h.
     res_bind (c_string 256 mem) (\<lambda>v. res_bind (c_string 384 mem) (\<lambda>w. Inr [a, h, v, w]))))"

section \<open>The connection\<close>

text \<open>The descriptor and the memory its number is kept in, which live and die together; the replies sent.\<close>

record pfd_conn =
  pc_open :: bool
  pc_sent :: "u64 list"

definition pfd_open :: pfd_conn where
  "pfd_open = \<lparr>pc_open = True, pc_sent = []\<rparr>"

definition pfd_reply :: "u32 \<Rightarrow> u32 \<Rightarrow> u64" where
  "pfd_reply falcon_st layer_st = push_bit 32 (ucast falcon_st) + ucast layer_st"

definition pfd_server_cb :: "str list \<Rightarrow> u32 \<Rightarrow> u32 \<Rightarrow> pfd_conn \<Rightarrow> pfd_conn res" where
  "pfd_server_cb ids falcon_st layer_st c =
     res_bind (LogCallbackData ids falcon_st layer_st) (\<lambda>_.
       if \<not> pc_open c then Inl Use_after_free
       else Inr (c\<lparr>pc_open := False, pc_sent := pc_sent c @ [pfd_reply falcon_st layer_st]\<rparr>))"

text \<open>What the thread of a connection does: it ends, or asks Falcon for the target; \<open>found\<close> is whether \<open>init\<close> returns one.\<close>

datatype handler_end = Waits | BadHandshake | NoTarget pfd_conn | Monitors "str list" pfd_conn

definition ClientHandler :: "recv_result list \<Rightarrow> (str list \<Rightarrow> bool) \<Rightarrow> handler_end res" where
  "ClientHandler rs found =
     (case recv_loop rs (replicate handshake_size (CHR 0x00)) 0 of
        None \<Rightarrow> Inr Waits
      | Some (mem, n) \<Rightarrow>
          if n \<noteq> int handshake_size then Inr BadHandshake
          else
            res_bind (layer_ids mem) (\<lambda>l.
              if \<not> found l then res_bind (pfd_server_cb l 7 0 pfd_open) (\<lambda>c. Inr (NoTarget c))
              else Inr (Monitors l pfd_open)))"

section \<open>The names arrive\<close>

lemma length_overwrite: "off + length bs \<le> length mem \<Longrightarrow> length (overwrite off bs mem) = length mem"
  by (simp add: overwrite_def)

lemma drop_overwrite:
  "off + length bs \<le> length mem \<Longrightarrow> drop off (overwrite off bs mem) = bs @ drop (off + length bs) mem"
  by (simp add: overwrite_def)

lemma drop_overwrite_before:
  "n + m \<le> off \<Longrightarrow> off \<le> length mem \<Longrightarrow> take m (drop n (overwrite off bs mem)) = take m (drop n mem)"
  by (auto simp: overwrite_def drop_take min_def)

text \<open>A field that holds a string, whatever is behind it.\<close>

definition holds :: "nat \<Rightarrow> str \<Rightarrow> char list \<Rightarrow> bool" where
  "holds off s mem \<longleftrightarrow> take (Suc (length s)) (drop off mem) = s @ [CHR 0x00]"

lemma holds_c_string:
  assumes "holds off s mem" and "CHR 0x00 \<notin> set s"
  shows "c_string off mem = Inr s"
proof -
  have d: "drop off mem = s @ CHR 0x00 # drop (Suc (length s)) (drop off mem)"
    using assms(1) append_take_drop_id [of "Suc (length s)" "drop off mem"] by (simp add: holds_def)
  have z: "takeWhile (\<lambda>c. c \<noteq> CHR 0x00) (s @ CHR 0x00 # r) = s" for r
    using assms(2) by (subst takeWhile_append2) auto
  from d have "CHR 0x00 \<in> set (drop off mem)" by (metis in_set_conv_decomp)
  moreover have "takeWhile (\<lambda>c. c \<noteq> CHR 0x00) (drop off mem) = s" by (subst d) (rule z)
  ultimately show ?thesis by (simp add: c_string_def)
qed

lemma strcpy_holds:
  assumes "strcpy off s mem = Inr mem'"
  shows "holds off s mem'" "length mem' = length mem"
    "off' + length t < off \<Longrightarrow> holds off' t mem \<Longrightarrow> holds off' t mem'"
proof -
  have b: "off + length (s @ [CHR 0x00]) \<le> length mem" and m: "mem' = overwrite off (s @ [CHR 0x00]) mem"
    using assms by (auto simp: strcpy_def split: if_splits)
  show "holds off s mem'" using drop_overwrite [OF b] by (simp add: holds_def m)
  show "length mem' = length mem" using length_overwrite [OF b] m by simp
  show "off' + length t < off \<Longrightarrow> holds off' t mem \<Longrightarrow> holds off' t mem'"
    using b drop_overwrite_before [of off' "Suc (length t)" off mem] by (simp add: holds_def m)
qed

lemma strcpy_total: "length s < 128 \<Longrightarrow> off + length s < length mem \<Longrightarrow> \<exists>mem'. strcpy off s mem = Inr mem'"
  by (simp add: strcpy_def)

lemma falcon_handshake_holds:
  assumes "length junk = 512" "length domain < 128" "length host < 128"
  obtains m where "falcon_handshake junk domain host = Inr m" "length m = 512"
    "holds 0 ''pmp'' m" "holds 128 domain m" "holds 256 host m" "holds 384 ''router'' m"
proof -
  obtain m1 where m1: "strcpy 0 ''pmp'' junk = Inr m1" using strcpy_total [of "''pmp''" 0 junk] assms by auto
  note h1 = strcpy_holds [OF m1]
  obtain m2 where m2: "strcpy 128 domain m1 = Inr m2" using strcpy_total [of domain 128 m1] assms h1 by auto
  note h2 = strcpy_holds [OF m2]
  obtain m3 where m3: "strcpy 256 host m2 = Inr m3" using strcpy_total [of host 256 m2] assms h1 h2 by auto
  note h3 = strcpy_holds [OF m3]
  obtain m4 where m4: "strcpy 384 ''router'' m3 = Inr m4" using strcpy_total [of "''router''" 384 m3] assms h1 h2 h3 by auto
  note h4 = strcpy_holds [OF m4]
  show thesis
  proof (rule that)
    show "falcon_handshake junk domain host = Inr m4" by (simp add: falcon_handshake_def m1 m2 m3 m4)
    show "length m4 = 512" using h1(2) h2(2) h3(2) h4(2) assms by simp
    show "holds 0 ''pmp'' m4" using h4(3) h3(3) h2(3) h1(1) by simp
    show "holds 128 domain m4" using h4(3) h3(3) h2(1) assms by simp
    show "holds 256 host m4" using h4(3) h3(1) assms by simp
    show "holds 384 ''router'' m4" by (rule h4(1))
  qed
qed

text \<open>
  The names that a cohort of the replicated service copies into its handshake are those of the target that the server asks
  Falcon for, whatever the structure held before, when they fit and the handshake arrives in one piece.
\<close>

theorem handshake_names_target:
  assumes "length junk = 512" "length domain < 128" "length host < 128" "CHR 0x00 \<notin> set domain" "CHR 0x00 \<notin> set host"
  shows "\<exists>m. falcon_handshake junk domain host = Inr m \<and>
    (let l = [''pmp'', domain, host, ''router''] in
      ClientHandler [RecvData m] found =
        Inr (if found l then Monitors l pfd_open
             else NoTarget \<lparr>pc_open = False, pc_sent = [pfd_reply REGISTRATION_ERROR 0]\<rparr>))"
proof -
  obtain m where m: "falcon_handshake junk domain host = Inr m" "length m = 512"
    "holds 0 ''pmp'' m" "holds 128 domain m" "holds 256 host m" "holds 384 ''router'' m"
    using falcon_handshake_holds [OF assms(1-3)] .
  have o: "overwrite 0 m (replicate handshake_size (CHR 0x00)) = m" using m(2) by (simp add: overwrite_def handshake_size_def)
  have l: "layer_ids m = Inr [''pmp'', domain, host, ''router'']"
    using holds_c_string [OF m(3)] holds_c_string [OF m(4) assms(4)] holds_c_string [OF m(5) assms(5)] holds_c_string [OF m(6)]
    by (simp add: layer_ids_def)
  have s: "drop_bit 16 (7 :: u32) = 0" by (simp add: drop_bit_eq_div)
  have "LogCallbackData [''pmp'', domain, host, ''router''] 7 0 = Inr (''pmp'', ''registration error'', 0)"
    by (simp add: LogCallbackData_def status_msg_def s Let_def)
  then show ?thesis using m(1,2) o l
    by (intro exI [of _ m]) (simp add: ClientHandler_def handshake_size_def pfd_server_cb_def pfd_open_def REGISTRATION_ERROR_def)
qed

theorem handshake_names_target_witness:
  "\<exists>m. falcon_handshake (replicate 512 (CHR ''x'')) ''vm1'' ''h1'' = Inr m \<and>
     ClientHandler [RecvData m] (\<lambda>_. True) = Inr (Monitors [''pmp'', ''vm1'', ''h1'', ''router''] pfd_open)"
  using handshake_names_target [of "replicate 512 (CHR ''x'')" "''vm1''" "''h1''" "\<lambda>_. True"] by simp

text \<open>
  In two pieces the second overwrites the first: the server asks for the target whose names start in the middle of the handshake.
\<close>

lemma holds_shift: 
  assumes "holds (k + 128) s m"
  shows "holds k s (drop 128 m @ z)"
proof -
  have t: "take (Suc (length s)) (drop (k + 128) m) = s @ [CHR 0x00]" using assms by (simp add: holds_def)
  then have "length (take (Suc (length s)) (drop (k + 128) m)) = Suc (length s)" by simp
  then have "Suc (length s) \<le> length m - (k + 128)" by simp
  with t show ?thesis by (simp add: holds_def)
qed

lemma handshake_in_pieces:
  assumes "length junk = 512" "length domain < 128" "length host < 128" "CHR 0x00 \<notin> set domain" "CHR 0x00 \<notin> set host"
    and m: "falcon_handshake junk domain host = Inr m"
  shows "ClientHandler [RecvData (take 128 m), RecvData (drop 128 m)] (\<lambda>_. True) =
    Inr (Monitors [domain, host, ''router'', ''''] pfd_open)"
proof -
  obtain m' where m': "falcon_handshake junk domain host = Inr m'" "length m' = 512"
    "holds 128 domain m'" "holds 256 host m'" "holds 384 ''router'' m'"
    using falcon_handshake_holds [OF assms(1-3)] by metis
  then have "m' = m" using m by simp
  then have h: "length m = 512" "holds (0 + 128) domain m" "holds (128 + 128) host m" "holds (256 + 128) ''router'' m"
    using m' by simp_all
  let ?z = "replicate 128 (CHR 0x00)"
  let ?m = "drop 128 m @ ?z"
  have o: "overwrite 0 (drop 128 m) (overwrite 0 (take 128 m) (replicate handshake_size (CHR 0x00))) = ?m"
    using h(1) by (simp add: overwrite_def handshake_size_def)
  have e: "c_string 384 ?m = Inr ''''" using h(1) by (simp add: c_string_def takeWhile_eq_Nil_iff)
  have "layer_ids ?m = Inr [domain, host, ''router'', '''']"
    using holds_c_string [OF holds_shift [OF h(2)] assms(4)] holds_c_string [OF holds_shift [OF h(3)] assms(5)]
      holds_c_string [OF holds_shift [OF h(4)]] e by (simp add: layer_ids_def)
  with o h(1) show ?thesis by (simp add: ClientHandler_def handshake_size_def)
qed

section \<open>The failure is reported\<close>

text \<open>The calls of \<open>pfd_server_cb\<close> for a target: \<open>pre\<close> are the events before \<open>startMonitoring\<close>, \<open>post\<close> those after it.\<close>

definition monitored_calls ::
    "str list \<Rightarrow> nat \<Rightarrow> nat \<Rightarrow> (str \<times> u32 \<times> u32) list \<Rightarrow> (str \<times> u32 \<times> u32) list \<Rightarrow> cb_call list res" where
  "monitored_calls ids d g pre post =
     (let (cb1, c1) = cb_events pre (new_callback None ids d True)
      in res_bind (Reactivate (Some g) 0 cb1) (\<lambda>(cb2, c2, late). Inr (c1 @ c2 @ snd (cb_events post cb2))))"

definition pfd_call :: "cb_call \<Rightarrow> pfd_conn \<Rightarrow> pfd_conn res" where
  "pfd_call c = pfd_server_cb (cl_handle c) (cl_falcon c) (cl_remote c)"

lemma first_final:
  assumes "fs \<noteq> SIGN_OF_LIFE" and "es = (lid, fs, rs) # es'"
  shows "has_final es" "until_final es = [(lid, fs, rs)]"
  using assms by (simp_all add: has_final_def)

lemma monitored_calls_one:
  assumes f: "fs \<noteq> SIGN_OF_LIFE" and e: "pre @ post = (lid, fs, rs) # es" and o: "pre = [] \<or> post = []"
  shows "monitored_calls ids d g pre post = Inr [cb_run_thread g ids d fs rs (call_index lid fs ids)]"
proof (cases "pre = []")
  case True
  let ?cb = "(new_callback None ids d True)\<lparr>fc_f := Some g\<rparr>"
  have "cb_events post ?cb = (?cb\<lparr>fc_f := None, fc_run_final := True\<rparr>, map (cb_spec_call g ?cb) (until_final post))"
    using cb_events_active [of ?cb g post] first_final(1) [OF f, of post lid rs es] e True by (simp add: new_callback_def)
  then show ?thesis using True e f
    by (simp add: monitored_calls_def Reactivate_def new_callback_def cb_spec_call_def)
next
  case False
  with o have p: "post = []" "pre = (lid, fs, rs) # es" using e by simp_all
  let ?cb = "new_callback None ids d True"
  have "cb_events pre ?cb = (?cb\<lparr>fc_deferred := Some (fs, rs, call_index lid fs ids), fc_run_final := True\<rparr>, [])"
    using cb_events_deferred [of ?cb pre] first_final [OF f p(2)] p(2) by (simp add: new_callback_def)
  then show ?thesis using p(1) by (simp add: monitored_calls_def Reactivate_def new_callback_def)
qed

lemma unat_pfd_reply: "unat (pfd_reply f l) = unat f * 2 ^ 32 + unat l"
proof -
  have f: "unat f < 2 ^ 32" "unat l < 2 ^ 32" using unsigned_less [of f] unsigned_less [of l] by simp_all
  then have "unat f < 2 ^ 64" "unat l < 2 ^ 64" by simp_all
  then have u: "unat (ucast f :: u64) = unat f" "unat (ucast l :: u64) = unat l"
    by (simp_all add: unsigned_ucast_eq take_bit_nat_eq_self_iff)
  have p: "unat (push_bit 32 (ucast f :: u64)) = unat f * 2 ^ 32"
    using f by (simp add: push_bit_eq_mult unat_word_ariths u)
  have "unat (push_bit 32 (ucast f :: u64)) + unat (ucast l :: u64) < 2 ^ 64" using f unfolding p u by simp
  then show ?thesis unfolding pfd_reply_def by (subst unat_plus_if') (simp add: p u)
qed

lemma unat_packed:
  assumes "unat (i :: 32 word) < 2 ^ 16" and "unat fs < 2 ^ 16"
  shows "unat (push_bit 16 i OR fs) = unat i * 2 ^ 16 + unat fs"
proof -
  let ?w = "push_bit 16 i OR fs"
  have hi: "unat ?w div 2 ^ 16 = unat i"
    using arg_cong [OF pack_hi [OF assms], of unat] by (simp add: drop_bit_eq_div unat_div)
  have "take_bit 16 ?w = fs" using small_take [OF assms(2)] by (simp add: take_bit_push_bit)
  then have lo: "unat ?w mod 2 ^ 16 = unat fs" by (metis unsigned_take_bit_eq take_bit_eq_mod)
  show ?thesis using div_mult_mod_eq [of "unat ?w" "2 ^ 16"] unfolding hi lo by simp
qed



text \<open>
  A report that was waiting when the function was set leaves it in place: the report of another layer calls it again, with the
  descriptor's memory freed.
\<close>

lemma second_report_uses_freed:
  "\<exists>calls. monitored_calls [''pmp'', ''vm1''] 5 9 [(''pmp'', DOWN_FROM_REMOTE, 0)] [(''vm1'', DOWN_FROM_REMOTE, 0)] = Inr calls \<and>
     res_fold pfd_call calls pfd_open = Inl Use_after_free"
  by (simp add: monitored_calls_def callback_simps pfd_call_def pfd_server_cb_def pfd_open_def LogCallbackData_def status_msg_def
      cb_run_thread_def drop_bit_eq_div push_bit_eq_mult)

end
