(* ===== verification/Spec2Isabelle.thy ===== *)
theory Spec2Isabelle
  imports ProcessObserver ParseProc VmmProps OsProps Config EndToEnd DiomedesProps DiomedesProxy PmpGaps PmpBcast PmpService PfdServer
begin

text \<open>
  A verification library for Falcon, a failure detector that kills what it cannot observe
  (\<open>src/code/falcon\<close>).  Falcon is a chain of spies: inside each layer of a machine (application, operating system,
  virtual machine monitor) an \<^emph>\<open>enforcer\<close> watches the targets of the layer above.  An enforcer is an RPC server
  that registers clients for a target, sends them signs of life, and, when a target has failed, kills it if some
  client permits that, tells every client and starts the next generation of the target.  The \<^emph>\<open>client library\<close> keeps one
  layer object per element of a handle, registers itself with the enforcer of each, and calls
  the application back with the layer that failed.

  \<^bold>\<open>Theories, in the order of the code.\<close>

  \<^item> \<open>Prelude\<close>, \<open>StdMap\<close>: machine integers, strings, the faults of a C++ process (failed \<open>CHECK\<close>, null or freed
    pointer, deadlock, endless loop) as the left summand of the results; \<open>std::map\<close> as a sorted association list.
  \<^item> \<open>Protocol\<close> (\<open>enforcer/spy_prot.h\<close>, \<open>client_prot.h\<close>, \<open>status.h\<close>): the messages and codes.
  \<^item> \<open>EnforcerDefs\<close> (\<open>enforcer/enforcer.cc\<close>, \<open>enforcer.h\<close>): the record \<open>enforcer\<close> has the static members of the class
    \<open>Enforcer\<close>, a heap of client objects, the callbacks of the event loop that are pending, and the messages sent; it is
    polymorphic in the state of the layer.  The virtual functions of a layer are the record \<open>layer_ops\<close>, and
    \<open>ReportDown\<close>, \<open>GenCheck\<close>, \<open>Dispatch\<close> and the others take them as arguments as the class takes them from its subclass.
    \<open>EnforcerInv\<close> has the invariant of the tables (\<open>core_inv\<close>), \<open>EnforcerContract\<close> the interfaces: \<open>stopper\<close>,
    \<open>layer_contract\<close>, \<open>monitored_layer\<close> and \<open>layer_view\<close> are what the base class relies on, and every enforcer below
    interprets them; \<open>EnforcerProps\<close> the properties of the base class.
  \<^item> \<open>ProcessEnforcer\<close>, \<open>ProcessProps\<close> (\<open>process_enforcer/process_enforcer.cc\<close>): handshake, probes, time-outs,
    killing and its confirmation.  \<open>Sample\<close> is a concrete enforcer on which properties are instantiated.
  \<^item> \<open>VmmUtil\<close>, \<open>VmmEnforcer\<close>, \<open>VmmProps\<close> (\<open>vmm_enforcer/\<close>): the enforcer in the router, which probes virtual machine
    monitors over UDP, counts their traffic and switches ports off.
  \<^item> \<open>OsEnforcer\<close>, \<open>OsProps\<close> (\<open>os_enforcer/\<close>): the enforcer of the guests with its worker processes.
  \<^item> \<open>Config\<close> (\<open>common/config.cc\<close>, \<open>include/config.h\<close>): the configuration over the events of the JSON parser.
  \<^item> \<open>FalconCallback\<close>, \<open>FalconLayer\<close>, \<open>FalconClient\<close> (\<open>client/\<close>): callbacks and generations; the tree of layers with reference
    counts, the watchdogs; the builder, the targets and the functions of the application.  \<open>ClientInv\<close> has the invariant
    of the reachable states, \<open>ClientReach\<close> and \<open>ClientRoute\<close> its proof, \<open>ClientProps\<close> the properties.
  \<^item> \<open>Xdr\<close> (\<open>client/spy_prot_xdr.cc\<close>, \<open>client_prot_xdr.cc\<close>, \<open>client_prot_svc.cc\<close>): the messages as bytes.
  \<^item> \<open>EndToEnd\<close>: an enforcer, the wire and the client together.
  \<^item> \<open>ProcessObserver\<close>, \<open>ParseProc\<close> (\<open>process_enforcer/process_observer.cc\<close>, \<open>parse_proc.cc\<close>): the library in the
    application that names itself to the process enforcer and answers its probes, with the handshake as bytes; the
    parser of \<open>/proc\<close> from which the enforcer takes the CPU time.
  \<^item> \<open>DiomedesData\<close>, \<open>Diomedes\<close>, \<open>DiomedesLog\<close>, \<open>DiomedesReplication\<close>, \<open>DiomedesProps\<close>, \<open>DiomedesProxy\<close>
    (\<open>apps/diomedes\<close>): a primary-backup replication service that uses the detector: the messages and the state of a
    replica, its operations and main loops, what they have executed, a primary together with a backup, election and quorum,
    and the proxy for its clients.  The state machine that is replicated is the parameter \<open>exec\<close>.
  \<^item> \<open>PmpData\<close>, \<open>PmpLog\<close>, \<open>Pmp\<close>, \<open>PmpDetect\<close> (\<open>apps/pmp_falcon\<close>, \<open>pmp_falcon_leader\<close>, \<open>pmp_vanilla\<close>): a cohort of a
    replicated service after Paxos, which replaces a view when the detector reports a failure.  Viewstamps, sets and messages;
    the log with its jumps from view to view, execution, commitment and the fetching of missing entries; joining, the view change and the
    two RPC programs; what the three versions do differently, as three instances (\<open>fal\<close>, \<open>lea\<close>, \<open>van\<close>) of the interface
    \<open>detector\<close> over the record \<open>env\<close> of their functions.  \<open>PmpInv\<close>, \<open>PmpLoops\<close>, \<open>PmpSteps\<close> and \<open>PmpReach\<close> have
    the invariant of the states that a cohort reaches (\<open>cohort_reach\<close>), whatever messages arrive; \<open>PmpDemo\<close> concrete runs,
    \<open>PmpProps\<close>, \<open>PmpViews\<close>, \<open>PmpPromise\<close> and \<open>PmpSafety\<close> the properties, \<open>PmpGaps\<close> where the protocol falls short.
  \<^item> \<open>PmpExec\<close> (\<open>pmp_falcon/execute.h\<close>): the queue of requests before the state machine (\<open>exec_server\<close>), and a cohort together with
    it (\<open>node_reach\<close>).  \<open>PmpClient\<close> (\<open>pmp_falcon/clientproxy.C\<close>, \<open>bcast.C\<close>, \<open>pmp_falcon_leader/clientproxy.C\<close>): the client
    that finds the primary and sends a request until it is answered; what the second version adds is the record \<open>cl_env\<close>.
    \<open>PmpCalm\<close> and \<open>PmpAnswers\<close> follow the results of the state machine into the reply cache and the answers
    (\<open>node_served\<close>), \<open>PmpService\<close> from there to the program that asked.  \<open>PmpBcast\<close> (\<open>bcast.C\<close>): the networks that a broadcast is sent to.
  \<^item> \<open>PfdServer\<close> (\<open>apps/pfdserver/pfdserver.cc\<close>): the server that monitors targets for programs without the library; the cohorts use it.

  \<^bold>\<open>State and steps.\<close>  The event loops are step functions: an input (a call, a reply or its time-out, a readable
  descriptor, a timer) picks a pending callback, which is taken off before it runs, as \<open>TimeCBRemove\<close> does.
  \<open>enf_run\<close> and the predicates \<open>proc_reachable\<close>, \<open>vmm_reachable\<close>, \<open>os_reachable\<close> and \<open>client_reachable\<close> are the runs
  from the start of the program.  A thread of the client runs from one blocking point to the next: a step holds the lock
  of the layer as the code does.  What the program gets from outside (replies, the process table, outcomes of system calls,
  counters of a switch) is part of the input or a field of the layer's state that an input may change at will.

  \<^bold>\<open>What the lemmas show.\<close>  The invariants say that the tables hold existing clients under their own ids and that every
  target with clients is watched; the safety properties that no process is killed, no port cut and no domain destroyed
  without a licence of a client or a call for it, and that old generations are fenced off; the functional ones what each
  report sends and to whom; the bounds the time after which a silent client is dropped.  For the client, that no
  failure is lost between the layers, that each callback runs once, and that the watchdogs end.  For Diomedes, that a backup
  has executed a prefix of the primary's log, that answers need a quorum, and that replicas with the same members elect
  the same primary.  For the cohort, that requests are executed in the order of their viewstamps, that an acknowledgement means
  a complete log, that a commitment rests on a majority and outlives a view change, that promises are kept until a later view, that the state machine gets
  the requests one at a time and its results find their entries, that its client has one call under way for a request until it is answered, and that the
  answer which a program gets is what the state machine returned for a request with its client's id and number.

  \<^bold>\<open>Loops.\<close>  The loops of the code terminate by structure or by a measure, except those of a cohort that follow the jumps of its
  log: they take the number of log entries as fuel, and the view change manager that calls itself takes 2; running out is the
  fault \<open>Spin\<close>, which does not occur in the states that a cohort reaches.  The retries are bounded by the constants of the code, which are defined with their values.

  \<^bold>\<open>Behaviour that deviates from its intention\<close> is modelled as it is and named in the
  theories: a cancelled registration that crashes a machine's enforcer (\<open>cancel_then_register_crashes\<close>), a kill of an idle domain
  (\<open>kill_idle_domain_crashes\<close>), a library used before its start (\<open>uninit_deadlocks\<close>), a leaf used as a parent
  (\<open>leaf_as_parent_crashes\<close>), one cancellation that ends another target's monitoring (\<open>shared_layer_cancelled\<close>), a
  program with a blank in its name (\<open>blank_in_name_aborts\<close>), and several in Diomedes, last section of \<open>DiomedesProps\<close>, in the cohort, \<open>PmpGaps\<close>, and in the
  client of \<open>pmp_falcon_leader\<close>, last section of \<open>PmpClient\<close>; a handshake in pieces (\<open>handshake_in_pieces\<close>).

  \<^bold>\<open>Not modelled.\<close>  The printing and table code that rpcc has generated (\<open>spy_prot.cc\<close>, \<open>obs_prot.cc\<close>), the
  event library, sockets, libvirt and the JSON parser, which the model has as inputs; the arithmetic of time in
  \<open>include/common.h\<close>, which goes through floating point; the kernel modules, the other applications under \<open>apps/\<close> and the
  predecessor of the system under \<open>old/\<close>.
\<close>

end
